(* ===== verification/ME_Prelude.thy ===== *)
theory ME_Prelude
  imports Main "HOL-Library.Char_ord" "HOL-Library.List_Lexorder"
begin

text \<open>
  Shared vocabulary of the development: the machine integers of the Rust sources
  (\<open>i128\<close>, \<open>u64\<close>, \<open>u32\<close>) as unbounded HOL numbers with the wrap-around of a release
  build written out, Rust's truncating division, and the ordered map
  \<open>std::collections::BTreeMap\<close> as a strictly sorted association list.
\<close>

section \<open>Rust results and panics\<close>

text \<open>
  A call that reaches an \<open>expect\<close>/\<open>unwrap\<close> on a missing value, or a division by zero,
  unwinds.  The model returns \<open>Inl\<close> of the panic instead of a value.
\<close>

datatype panic =
    DivOverflow \<comment> \<open>\<open>expect("fixed-point division overflow")\<close>\<close>
  | MulOverflow \<comment> \<open>\<open>expect("fixed-point multiplication overflow")\<close>\<close>

named_theorems book_simps \<open>projections of the order-book operations\<close>
named_theorems codec_simps \<open>decoder steps of the byte formats\<close>

section \<open>Machine integers\<close>

type_synonym u64 = nat
type_synonym u32 = nat
type_synonym u8 = nat

abbreviation i128_min :: int where
  "i128_min \<equiv> - (2 ^ 127)"

abbreviation i128_max :: int where
  "i128_max \<equiv> 2 ^ 127 - 1"

definition in_i128 :: "int \<Rightarrow> bool" where
  "in_i128 x \<longleftrightarrow> i128_min \<le> x \<and> x \<le> i128_max"

text \<open>Two's-complement wrap-around of \<open>+\<close>, \<open>-\<close> and \<open>*\<close> on \<open>i128\<close> in a release build.\<close>

definition wrap_i128 :: "int \<Rightarrow> int" where
  "wrap_i128 x = (x + 2 ^ 127) mod 2 ^ 128 - 2 ^ 127"

lemma in_i128_wrap [simp]: "in_i128 (wrap_i128 x)"
proof -
  have "0 \<le> (x + 2 ^ 127) mod 2 ^ 128" and "(x + 2 ^ 127) mod 2 ^ 128 < 2 ^ 128"
    by simp_all
  then show ?thesis by (simp add: wrap_i128_def in_i128_def)
qed

lemma wrap_i128_id: "in_i128 x \<Longrightarrow> wrap_i128 x = x"
  by (simp add: wrap_i128_def in_i128_def)

lemma wrap_i128_le: "i128_min \<le> x \<Longrightarrow> wrap_i128 x \<le> x"
proof -
  assume "i128_min \<le> x"
  then have "(x + 2 ^ 127) mod 2 ^ 128 \<le> x + 2 ^ 127"
    by (intro zmod_le_nonneg_dividend) simp
  then show ?thesis by (simp add: wrap_i128_def)
qed

text \<open>\<open>i128::saturating_add\<close> and \<open>saturating_sub\<close> clamp to the bounds.\<close>

definition clamp_i128 :: "int \<Rightarrow> int" where
  "clamp_i128 x = max i128_min (min i128_max x)"

lemma in_i128_clamp [simp]: "in_i128 (clamp_i128 x)"
  by (simp add: clamp_i128_def in_i128_def)

lemma clamp_i128_id: "in_i128 x \<Longrightarrow> clamp_i128 x = x"
  by (simp add: clamp_i128_def in_i128_def)

definition wrap_u64 :: "nat \<Rightarrow> nat" where
  "wrap_u64 n = n mod 2 ^ 64"

definition wrap_u32 :: "nat \<Rightarrow> nat" where
  "wrap_u32 n = n mod 2 ^ 32"

definition sat_u32 :: "nat \<Rightarrow> nat" where
  "sat_u32 n = min n (2 ^ 32 - 1)"

lemma wrap_u64_id: "n < 2 ^ 64 \<Longrightarrow> wrap_u64 n = n"
  by (simp add: wrap_u64_def)

lemma wrap_u32_id: "n < 2 ^ 32 \<Longrightarrow> wrap_u32 n = n"
  by (simp add: wrap_u32_def)

lemma sat_u32_id: "n < 2 ^ 32 \<Longrightarrow> sat_u32 n = n"
  by (simp add: sat_u32_def)

text \<open>Rust's \<open>/\<close> and \<open>%\<close> truncate toward zero; \<open>div_euclid\<close> by a positive step is HOL's \<open>div\<close>.\<close>

definition tdiv :: "int \<Rightarrow> int \<Rightarrow> int" where
  "tdiv a b = sgn a * sgn b * (\<bar>a\<bar> div \<bar>b\<bar>)"

definition trem :: "int \<Rightarrow> int \<Rightarrow> int" where
  "trem a b = a - tdiv a b * b"

lemma tdiv_nonneg: "0 \<le> a \<Longrightarrow> 0 < b \<Longrightarrow> tdiv a b = a div b"
  by (cases "a = 0") (simp_all add: tdiv_def)

lemma tdiv_neg: "a < 0 \<Longrightarrow> 0 < b \<Longrightarrow> tdiv a b = - ((- a) div b)"
  by (simp add: tdiv_def)

lemma trem_zero_iff:
  assumes "0 < b"
  shows "trem a b = 0 \<longleftrightarrow> b dvd a"
proof (cases "0 \<le> a")
  case True
  with assms have "trem a b = a mod b"
    by (simp add: trem_def tdiv_nonneg minus_div_mult_eq_mod)
  then show ?thesis by (simp add: dvd_eq_mod_eq_0)
next
  case False
  with assms have "trem a b = - ((- a) mod b)"
    by (simp add: trem_def tdiv_neg) (metis add.inverse_inverse minus_diff_eq minus_div_mult_eq_mod
        mult_minus_left uminus_add_conv_diff)
  then show ?thesis by (simp add: dvd_eq_mod_eq_0[symmetric])
qed

section \<open>Vectors\<close>

text \<open>\<open>iter().position(p)\<close>, \<open>Vec::remove(index)\<close> and \<open>last()\<close>.\<close>

primrec position :: "('a \<Rightarrow> bool) \<Rightarrow> 'a list \<Rightarrow> nat option" where
  "position p [] = None"
| "position p (x # xs) = (if p x then Some 0 else map_option Suc (position p xs))"

definition vec_remove :: "nat \<Rightarrow> 'a list \<Rightarrow> 'a list" where
  "vec_remove i xs = take i xs @ drop (Suc i) xs"

definition vec_last :: "'a list \<Rightarrow> 'a option" where
  "vec_last xs = (if xs = [] then None else Some (last xs))"

lemma position_SomeD:
  "position p xs = Some i \<Longrightarrow> i < length xs \<and> p (xs ! i) \<and> (\<forall>j < i. \<not> p (xs ! j))"
proof (induction xs arbitrary: i)
  case Nil
  then show ?case by simp
next
  case (Cons x xs)
  then show ?case by (auto split: if_splits simp: less_Suc_eq_0_disj)
qed

lemma position_None_iff: "position p xs = None \<longleftrightarrow> (\<forall>x \<in> set xs. \<not> p x)"
  by (induction xs) auto

lemma length_vec_remove: "i < length xs \<Longrightarrow> length (vec_remove i xs) = length xs - 1"
  by (simp add: vec_remove_def)

lemma set_vec_remove: "set (vec_remove i xs) \<subseteq> set xs"
  by (auto simp: vec_remove_def dest: in_set_takeD in_set_dropD)

lemma vec_remove_0 [simp]: "vec_remove 0 (x # xs) = xs"
  by (simp add: vec_remove_def)

lemma vec_remove_Suc [simp]: "vec_remove (Suc i) (x # xs) = x # vec_remove i xs"
  by (simp add: vec_remove_def)

section \<open>Ordered maps: \<open>BTreeMap\<close>\<close>

text \<open>
  A \<open>BTreeMap<K, V>\<close> is its in-order list of entries.  The functions below are the parts of
  its interface the program uses; \<open>bt_ok\<close> is the representation invariant.
\<close>

type_synonym ('k, 'v) btree = "('k \<times> 'v) list"

definition bt_ok :: "('k::linorder, 'v) btree \<Rightarrow> bool" where
  "bt_ok m \<longleftrightarrow> sorted_wrt (<) (map fst m)"

primrec bt_get :: "'k::linorder \<Rightarrow> ('k, 'v) btree \<Rightarrow> 'v option" where
  "bt_get k [] = None"
| "bt_get k (e # m) = (if fst e = k then Some (snd e) else bt_get k m)"

primrec bt_insert :: "'k::linorder \<Rightarrow> 'v \<Rightarrow> ('k, 'v) btree \<Rightarrow> ('k, 'v) btree" where
  "bt_insert k v [] = [(k, v)]"
| "bt_insert k v (e # m) =
     (if k < fst e then (k, v) # e # m
      else if k = fst e then (k, v) # m
      else e # bt_insert k v m)"

primrec bt_remove :: "'k::linorder \<Rightarrow> ('k, 'v) btree \<Rightarrow> ('k, 'v) btree" where
  "bt_remove k [] = []"
| "bt_remove k (e # m) = (if fst e = k then m else e # bt_remove k m)"

definition bt_values :: "('k, 'v) btree \<Rightarrow> 'v list" where
  "bt_values m = map snd m"

definition bt_first :: "('k, 'v) btree \<Rightarrow> 'v option" where
  "bt_first m = (case m of [] \<Rightarrow> None | e # _ \<Rightarrow> Some (snd e))"

lemma bt_ok_Nil [simp]: "bt_ok []"
  by (simp add: bt_ok_def)

lemma bt_ok_Cons: "bt_ok (e # m) \<longleftrightarrow> (\<forall>f \<in> set m. fst e < fst f) \<and> bt_ok m"
  by (auto simp: bt_ok_def)

lemma bt_ok_tl: "bt_ok (e # m) \<Longrightarrow> bt_ok m"
  by (simp add: bt_ok_Cons)

lemma bt_get_None_iff: "bt_get k m = None \<longleftrightarrow> k \<notin> fst ` set m"
  by (induction m) auto

lemma bt_get_in_set: "bt_get k m = Some v \<Longrightarrow> (k, v) \<in> set m"
  by (induction m) (auto split: if_splits)

lemma bt_get_iff: "bt_ok m \<Longrightarrow> bt_get k m = Some v \<longleftrightarrow> (k, v) \<in> set m"
  by (induction m) (auto simp: bt_ok_Cons)

lemma set_bt_insert:
  "bt_ok m \<Longrightarrow> set (bt_insert k v m) = insert (k, v) {e \<in> set m. fst e \<noteq> k}"
  by (induction m) (auto simp: bt_ok_Cons)

lemma bt_ok_insert: "bt_ok m \<Longrightarrow> bt_ok (bt_insert k v m)"
  by (induction m) (auto simp: bt_ok_Cons set_bt_insert)

lemma set_bt_remove: "bt_ok m \<Longrightarrow> set (bt_remove k m) = {e \<in> set m. fst e \<noteq> k}"
  by (induction m) (auto simp: bt_ok_Cons)

lemma bt_ok_remove: "bt_ok m \<Longrightarrow> bt_ok (bt_remove k m)"
  by (induction m) (auto simp: bt_ok_Cons set_bt_remove)

lemma bt_get_insert: "bt_get k' (bt_insert k v m) = (if k' = k then Some v else bt_get k' m)"
  by (induction m) auto

lemma bt_get_remove: "bt_ok m \<Longrightarrow> bt_get k' (bt_remove k m) = (if k' = k then None else bt_get k' m)"
  by (induction m) (auto simp: bt_ok_Cons bt_get_None_iff set_bt_remove)

lemma bt_remove_absent: "k \<notin> fst ` set m \<Longrightarrow> bt_remove k m = m"
  by (induction m) auto

lemma bt_ok_filter: "bt_ok m \<Longrightarrow> bt_ok (filter P m)"
  by (induction m) (auto simp: bt_ok_Cons)

text \<open>Two ordered maps with the same entries are the same list.\<close>

lemma bt_ok_distinct: "bt_ok m \<Longrightarrow> distinct (map fst m)"
  by (simp add: bt_ok_def strict_sorted_iff)

lemma bt_ok_unique:
  assumes "bt_ok m" and "bt_ok n" and "set m = set n"
  shows "m = n"
proof (rule map_sorted_distinct_set_unique[of fst])
  show "inj_on fst (set m \<union> set n)"
    using assms bt_ok_distinct[of m] by (simp add: distinct_map)
  show "sorted (map fst m)" "distinct (map fst m)" "sorted (map fst n)" "distinct (map fst n)"
    using assms by (simp_all add: bt_ok_def strict_sorted_iff)
qed (rule assms(3))

text \<open>Inserting the entries of an ordered map one by one rebuilds it.\<close>

lemma bt_insert_snoc: "bt_ok (m @ [(k, v)]) \<Longrightarrow> bt_insert k v m = m @ [(k, v)]"
  by (induction m) (auto simp: bt_ok_Cons)

lemma fold_bt_insert:
  "bt_ok (m @ n) \<Longrightarrow> fold (\<lambda>e. bt_insert (fst e) (snd e)) n m = m @ n"
proof (induction n arbitrary: m)
  case Nil
  then show ?case by simp
next
  case (Cons e n)
  have "bt_ok (m @ [(fst e, snd e)])"
    using Cons.prems by (auto simp: bt_ok_def sorted_wrt_append)
  then have "bt_insert (fst e) (snd e) m = m @ [e]" by (simp add: bt_insert_snoc)
  then show ?case using Cons.IH[of "m @ [e]"] Cons.prems by simp
qed

end
