(* ===== verification/Fixed_Point.thy ===== *)
theory Fixed_Point
  imports ME_Prelude
begin

text \<open>
  The component \<open>src/order_book/fixed.rs\<close>: 18-decimal fixed-point values stored as raw
  \<open>i128\<close> units, their checked, saturating and rounding arithmetic, the decimal text format,
  and the per-symbol configuration built on them.

  The 256-bit intermediate of \<open>checked_mul\<close> and \<open>checked_div\<close> comes from the third-party
  crate \<open>i256\<close>.  It is a parameter of the model: the record \<open>i256\<close> holds the five operations
  the source calls, and the locale \<open>wide_int\<close> states their documented behaviour.
\<close>

section \<open>Values and constants\<close>

type_synonym fixed = int

definition DECIMALS :: nat where
  "DECIMALS = 18"

definition SCALE :: int where
  "SCALE = 1000000000000000000"

definition from_units :: "int \<Rightarrow> fixed" where
  "from_units units = wrap_i128 (units * SCALE)"

definition MIN_FEE_RATE :: fixed where
  "MIN_FEE_RATE = from_units (- 1)"

definition MAX_FEE_RATE :: fixed where
  "MAX_FEE_RATE = from_units 1"

definition from_raw :: "int \<Rightarrow> fixed" where
  "from_raw r = r"

definition raw :: "fixed \<Rightarrow> int" where
  "raw x = x"

definition fixed_abs :: "fixed \<Rightarrow> fixed" where
  "fixed_abs x = wrap_i128 \<bar>x\<bar>"

definition fixed_max :: "fixed \<Rightarrow> fixed \<Rightarrow> fixed" where
  "fixed_max a b = max a b"

definition fixed_min :: "fixed \<Rightarrow> fixed \<Rightarrow> fixed" where
  "fixed_min a b = min a b"

definition fixed_add :: "fixed \<Rightarrow> fixed \<Rightarrow> fixed" where
  "fixed_add a b = wrap_i128 (a + b)"

definition fixed_sub :: "fixed \<Rightarrow> fixed \<Rightarrow> fixed" where
  "fixed_sub a b = wrap_i128 (a - b)"

definition fixed_neg :: "fixed \<Rightarrow> fixed" where
  "fixed_neg a = wrap_i128 (- a)"

definition checked_sub :: "fixed \<Rightarrow> fixed \<Rightarrow> fixed option" where
  "checked_sub a b = (if in_i128 (a - b) then Some (a - b) else None)"

definition saturating_add :: "fixed \<Rightarrow> fixed \<Rightarrow> fixed" where
  "saturating_add a b = clamp_i128 (a + b)"

definition saturating_sub :: "fixed \<Rightarrow> fixed \<Rightarrow> fixed" where
  "saturating_sub a b = clamp_i128 (a - b)"

definition midpoint :: "fixed \<Rightarrow> fixed \<Rightarrow> fixed option" where
  "midpoint a b = (if in_i128 (a + b) then Some (tdiv (a + b) 2) else None)"

definition is_finite :: "fixed \<Rightarrow> bool" where
  "is_finite x = True"

section \<open>Products and quotients through the 256-bit crate\<close>

record 'w i256 =
  from_i128 :: "int \<Rightarrow> 'w"
  wide_mul :: "'w \<Rightarrow> 'w \<Rightarrow> 'w option"
  wide_div :: "'w \<Rightarrow> 'w \<Rightarrow> 'w option"
  wide_less :: "'w \<Rightarrow> 'w \<Rightarrow> bool"
  as_i128 :: "'w \<Rightarrow> int"

definition checked_mul :: "'w i256 \<Rightarrow> fixed \<Rightarrow> fixed \<Rightarrow> fixed option" where
  "checked_mul I a b =
     (if in_i128 (a * b) then Some (tdiv (a * b) SCALE)
      else (case wide_mul I (from_i128 I a) (from_i128 I b) of
              None \<Rightarrow> None
            | Some product \<Rightarrow>
                (case wide_div I product (from_i128 I SCALE) of
                   None \<Rightarrow> None
                 | Some scaled \<Rightarrow>
                     if wide_less I scaled (from_i128 I i128_min)
                        \<or> wide_less I (from_i128 I i128_max) scaled
                     then None
                     else Some (as_i128 I scaled))))"

definition checked_div :: "'w i256 \<Rightarrow> fixed \<Rightarrow> fixed \<Rightarrow> fixed option" where
  "checked_div I a b =
     (case wide_mul I (from_i128 I a) (from_i128 I SCALE) of
        None \<Rightarrow> None
      | Some numerator \<Rightarrow>
          (case wide_div I numerator (from_i128 I b) of
             None \<Rightarrow> None
           | Some quot \<Rightarrow>
               if wide_less I quot (from_i128 I i128_min)
                  \<or> wide_less I (from_i128 I i128_max) quot
               then None
               else Some (as_i128 I quot)))"

definition notional :: "'w i256 \<Rightarrow> fixed \<Rightarrow> fixed \<Rightarrow> fixed option" where
  "notional I p q = checked_mul I p q"

text \<open>The operators \<open>*\<close> and \<open>/\<close> unwrap the checked results with \<open>expect\<close>.\<close>

definition fixed_mul :: "'w i256 \<Rightarrow> fixed \<Rightarrow> fixed \<Rightarrow> panic + fixed" where
  "fixed_mul I a b = (case checked_mul I a b of None \<Rightarrow> Inl MulOverflow | Some x \<Rightarrow> Inr x)"

definition fixed_div :: "'w i256 \<Rightarrow> fixed \<Rightarrow> fixed \<Rightarrow> panic + fixed" where
  "fixed_div I a b = (case checked_div I a b of None \<Rightarrow> Inl DivOverflow | Some x \<Rightarrow> Inr x)"

section \<open>Multiples and decimal places\<close>

definition is_multiple_of :: "fixed \<Rightarrow> fixed \<Rightarrow> bool" where
  "is_multiple_of x step \<longleftrightarrow> step \<le> 0 \<or> trem x step = 0"

definition floor_to_multiple :: "fixed \<Rightarrow> fixed \<Rightarrow> fixed" where
  "floor_to_multiple x step = (if step \<le> 0 then x else wrap_i128 (x div step * step))"

definition ceil_to_multiple :: "fixed \<Rightarrow> fixed \<Rightarrow> fixed" where
  "ceil_to_multiple x step =
     (if step \<le> 0 then x
      else let quot = x div step + (if x mod step \<noteq> 0 then 1 else 0)
           in wrap_i128 (quot * step))"

definition has_at_most_decimals :: "fixed \<Rightarrow> u8 \<Rightarrow> bool" where
  "has_at_most_decimals x decimals =
     (if DECIMALS \<le> decimals then True else trem x (10 ^ (DECIMALS - decimals)) = 0)"

datatype ParseFixedError = ParseFixedError

text \<open>\<open>unsigned_abs\<close> is a \<open>u128\<close>; the cast back to \<open>i128\<close> wraps.\<close>

definition quantize :: "fixed \<Rightarrow> u8 \<Rightarrow> ParseFixedError + fixed" where
  "quantize x decimals =
     (if DECIMALS \<le> decimals then Inr x
      else let step = 10 ^ (DECIMALS - decimals);
               magnitude = \<bar>x\<bar>;
               rounded = wrap_i128 ((magnitude + step div 2) div step * step)
           in Inr (if x < 0 then fixed_neg rounded else rounded))"

section \<open>Decimal text\<close>

text \<open>
  Strings are ASCII.  \<open>show_nat\<close> is the \<open>Display\<close> of an unsigned integer and \<open>parse_i128\<close> the
  standard library's \<open>str::parse::<i128>\<close>: one optional sign, then at least one digit, and an
  error when the value does not fit.
\<close>

definition digit_char :: "nat \<Rightarrow> char" where
  "digit_char d = char_of (48 + d)"

definition is_digit :: "char \<Rightarrow> bool" where
  "is_digit c \<longleftrightarrow> 48 \<le> (of_char c :: nat) \<and> (of_char c :: nat) \<le> 57"

definition digit_val :: "char \<Rightarrow> nat" where
  "digit_val c = of_char c - 48"

fun show_nat :: "nat \<Rightarrow> string" where
  "show_nat n = (if n < 10 then [digit_char n] else show_nat (n div 10) @ [digit_char (n mod 10)])"

declare show_nat.simps [simp del]

definition digits_val :: "string \<Rightarrow> nat" where
  "digits_val s = foldl (\<lambda>acc c. acc * 10 + digit_val c) 0 s"

definition parse_i128 :: "string \<Rightarrow> int option" where
  "parse_i128 s =
     (let (negative, digits) =
        (case s of
           [] \<Rightarrow> (False, [])
         | c # cs \<Rightarrow> if c = CHR ''-'' then (True, cs)
                     else if c = CHR ''+'' then (False, cs) else (False, s));
          value = (if negative then - int (digits_val digits) else int (digits_val digits))
      in if digits = [] \<or> \<not> list_all is_digit digits \<or> \<not> in_i128 value then None
         else Some value)"

definition is_space :: "char \<Rightarrow> bool" where
  "is_space c \<longleftrightarrow> (9 \<le> (of_char c :: nat) \<and> (of_char c :: nat) \<le> 13) \<or> of_char c = (32 :: nat)"

definition trim :: "string \<Rightarrow> string" where
  "trim s = rev (dropWhile is_space (rev (dropWhile is_space s)))"

definition split_once :: "char \<Rightarrow> string \<Rightarrow> (string \<times> string) option" where
  "split_once c s =
     (case dropWhile (\<lambda>x. x \<noteq> c) s of
        [] \<Rightarrow> None
      | _ # rest \<Rightarrow> Some (takeWhile (\<lambda>x. x \<noteq> c) s, rest))"

text \<open>\<open>format!("{fraction:018}")\<close> followed by the loop that pops trailing zeros.\<close>

definition pad18 :: "nat \<Rightarrow> string" where
  "pad18 n = (let s = show_nat n in replicate (18 - length s) (CHR ''0'') @ s)"

definition pop_zeros :: "string \<Rightarrow> string" where
  "pop_zeros s = rev (dropWhile (\<lambda>c. c = CHR ''0'') (rev s))"

definition fixed_display :: "fixed \<Rightarrow> string" where
  "fixed_display x =
     (let sign = (if x < 0 then ''-'' else '''');
          magnitude = nat \<bar>x\<bar>;
          integer = magnitude div nat SCALE;
          fraction = magnitude mod nat SCALE
      in if fraction = 0 then sign @ show_nat integer
         else sign @ show_nat integer @ ''.'' @ pop_zeros (pad18 fraction))"

definition fixed_from_str :: "string \<Rightarrow> ParseFixedError + fixed" where
  "fixed_from_str s =
     (let value = trim s;
          (negative, value) =
            (case value of
               [] \<Rightarrow> (False, value)
             | c # cs \<Rightarrow> if c = CHR ''-'' then (True, cs)
                         else if c = CHR ''+'' then (False, cs) else (False, value));
          (integer, fraction) =
            (case split_once (CHR ''.'') value of Some p \<Rightarrow> p | None \<Rightarrow> (value, ''''))
      in if integer = [] \<and> fraction = [] then Inl ParseFixedError
         else if DECIMALS < length fraction then Inl ParseFixedError
         else case (if integer = [] then Some 0 else parse_i128 integer) of
           None \<Rightarrow> Inl ParseFixedError
         | Some integer \<Rightarrow>
             (case (if fraction = [] then Some 0 else parse_i128 fraction) of
                None \<Rightarrow> Inl ParseFixedError
              | Some fraction_digits \<Rightarrow>
                  let fraction = wrap_i128 (fraction_digits * 10 ^ (DECIMALS - length fraction))
                  in if \<not> in_i128 (integer * SCALE) \<or> \<not> in_i128 (integer * SCALE + fraction)
                     then Inl ParseFixedError
                     else let value = integer * SCALE + fraction
                          in Inr (if negative then fixed_neg value else value)))"

definition parse_with_decimals :: "string \<Rightarrow> u8 \<Rightarrow> ParseFixedError + fixed" where
  "parse_with_decimals s decimals =
     (case fixed_from_str s of
        Inl e \<Rightarrow> Inl e
      | Inr value \<Rightarrow> if has_at_most_decimals value decimals then Inr value
                      else Inl ParseFixedError)"

section \<open>Symbol configuration\<close>

datatype OrderSide = Buy | Sell

datatype AssetClass = Fiat | Stablecoin | Crypto | Equity | Etf | Unknown

definition is_equity_like :: "AssetClass \<Rightarrow> bool" where
  "is_equity_like c \<longleftrightarrow> c = Equity \<or> c = Etf"

record AssetId =
  asset_code :: string
  asset_class :: AssetClass
  asset_decimals :: u8

definition AssetId_new :: "string \<Rightarrow> AssetClass \<Rightarrow> u8 \<Rightarrow> ParseFixedError + AssetId" where
  "AssetId_new code cls decimals =
     (if DECIMALS < decimals then Inl ParseFixedError
      else Inr \<lparr>asset_code = code, asset_class = cls, asset_decimals = decimals\<rparr>)"

datatype VolumeUnit = VU_Base | VU_Quote

datatype FeeAsset = FA_Base | FA_Quote

datatype FeeAssetPolicy = Received | FAP_Quote | FAP_Base

fun fee_asset :: "FeeAssetPolicy \<Rightarrow> OrderSide \<Rightarrow> FeeAsset" where
  "fee_asset Received Buy = FA_Base"
| "fee_asset Received Sell = FA_Quote"
| "fee_asset FAP_Quote _ = FA_Quote"
| "fee_asset FAP_Base _ = FA_Base"

record SymbolConfig =
  cfg_symbol_id :: u32
  base_asset :: AssetId
  quote_asset :: AssetId
  price_decimals :: u8
  price_tick :: fixed
  base_lot :: fixed
  fee_asset_policy :: FeeAssetPolicy

definition default_symbol_assets :: "u8 \<Rightarrow> AssetId \<times> AssetId" where
  "default_symbol_assets decimals =
     (\<lparr>asset_code = ''BTC'', asset_class = Crypto, asset_decimals = decimals\<rparr>,
      \<lparr>asset_code = ''USDT'', asset_class = Stablecoin, asset_decimals = decimals\<rparr>)"

definition decimal_step :: "u8 \<Rightarrow> fixed" where
  "decimal_step decimals = 10 ^ (DECIMALS - decimals)"

definition SymbolConfig_default :: SymbolConfig where
  "SymbolConfig_default =
     (let (base, quote) = default_symbol_assets DECIMALS
      in \<lparr>cfg_symbol_id = 0, base_asset = base, quote_asset = quote, price_decimals = DECIMALS,
          price_tick = 1, base_lot = 1, fee_asset_policy = Received\<rparr>)"

definition SymbolConfig_new :: "u32 \<Rightarrow> u8 \<Rightarrow> u8 \<Rightarrow> ParseFixedError + SymbolConfig" where
  "SymbolConfig_new symbol_id price_dec quantity_dec =
     (if DECIMALS < price_dec \<or> DECIMALS < quantity_dec then Inl ParseFixedError
      else let (base, quote) = default_symbol_assets quantity_dec
           in Inr \<lparr>cfg_symbol_id = symbol_id, base_asset = base, quote_asset = quote,
                   price_decimals = price_dec, price_tick = decimal_step price_dec,
                   base_lot = decimal_step quantity_dec, fee_asset_policy = Received\<rparr>)"

definition with_assets :: "SymbolConfig \<Rightarrow> AssetId \<Rightarrow> AssetId \<Rightarrow> ParseFixedError + SymbolConfig" where
  "with_assets cfg base quote =
     (if DECIMALS < asset_decimals base \<or> DECIMALS < asset_decimals quote then Inl ParseFixedError
      else let cfg = (if is_equity_like (asset_class base)
                      then cfg\<lparr>fee_asset_policy := FAP_Quote\<rparr> else cfg)
           in Inr (cfg\<lparr>base_asset := base, quote_asset := quote,
                       base_lot := decimal_step (asset_decimals base)\<rparr>))"

definition with_tick_and_lot :: "SymbolConfig \<Rightarrow> fixed \<Rightarrow> fixed \<Rightarrow> SymbolConfig" where
  "with_tick_and_lot cfg tick lot = cfg\<lparr>price_tick := tick, base_lot := lot\<rparr>"

definition with_fee_asset_policy :: "SymbolConfig \<Rightarrow> FeeAssetPolicy \<Rightarrow> SymbolConfig" where
  "with_fee_asset_policy cfg policy = cfg\<lparr>fee_asset_policy := policy\<rparr>"

definition base_decimals :: "SymbolConfig \<Rightarrow> u8" where
  "base_decimals cfg = asset_decimals (base_asset cfg)"

definition quote_decimals :: "SymbolConfig \<Rightarrow> u8" where
  "quote_decimals cfg = asset_decimals (quote_asset cfg)"

definition SymbolConfig_validate :: "SymbolConfig \<Rightarrow> ParseFixedError + SymbolConfig" where
  "SymbolConfig_validate cfg =
     (if DECIMALS < price_decimals cfg
         \<or> DECIMALS < asset_decimals (base_asset cfg)
         \<or> DECIMALS < asset_decimals (quote_asset cfg)
         \<or> price_tick cfg < 0
         \<or> base_lot cfg < 0
         \<or> (is_equity_like (asset_class (base_asset cfg)) \<and> fee_asset_policy cfg \<noteq> FAP_Quote)
      then Inl ParseFixedError
      else Inr cfg)"

definition parse_price :: "SymbolConfig \<Rightarrow> string \<Rightarrow> ParseFixedError + fixed" where
  "parse_price cfg s = parse_with_decimals s (price_decimals cfg)"

definition parse_quantity :: "SymbolConfig \<Rightarrow> string \<Rightarrow> ParseFixedError + fixed" where
  "parse_quantity cfg s = parse_with_decimals s (asset_decimals (base_asset cfg))"

section \<open>Documented behaviour of the 256-bit crate\<close>

definition in_i256 :: "int \<Rightarrow> bool" where
  "in_i256 x \<longleftrightarrow> - (2 ^ 255) \<le> x \<and> x \<le> 2 ^ 255 - 1"

text \<open>
  \<open>val\<close> reads a 256-bit value.  The checked operations return nothing on overflow or division
  by zero and the exact (truncated) result otherwise; the cast back is exact on values that fit.
\<close>

locale wide_int =
  fixes I :: "'w i256" and val :: "'w \<Rightarrow> int"
  assumes val_from: "in_i128 x \<Longrightarrow> val (from_i128 I x) = x"
    and mul_Some: "wide_mul I a b = Some c \<Longrightarrow> val c = val a * val b"
    and mul_None: "wide_mul I a b = None \<Longrightarrow> \<not> in_i256 (val a * val b)"
    and div_Some: "wide_div I a b = Some c \<Longrightarrow> val b \<noteq> 0 \<and> val c = tdiv (val a) (val b)"
    and div_None: "wide_div I a b = None \<Longrightarrow> val b = 0 \<or> \<not> in_i256 (tdiv (val a) (val b))"
    and less_val: "wide_less I a b \<longleftrightarrow> val a < val b"
    and as_val: "in_i128 (val a) \<Longrightarrow> as_i128 I a = val a"

text \<open>Exact 256-bit integers meet the description.\<close>

definition exact_i256 :: "int i256" where
  "exact_i256 =
     \<lparr>from_i128 = (\<lambda>x. x),
      wide_mul = (\<lambda>a b. if in_i256 (a * b) then Some (a * b) else None),
      wide_div = (\<lambda>a b. if b = 0 \<or> \<not> in_i256 (tdiv a b) then None else Some (tdiv a b)),
      wide_less = (<),
      as_i128 = wrap_i128\<rparr>"

interpretation exact: wide_int exact_i256 "\<lambda>x. x"
  by unfold_locales (auto simp: exact_i256_def wrap_i128_id split: if_splits)

section \<open>Exact products and quotients\<close>

lemma div_le_self_int: "0 \<le> (a::int) \<Longrightarrow> 0 < b \<Longrightarrow> a div b \<le> a"
  using zdiv_mono2[of a 1 b] by simp

lemma abs_tdiv_le: "\<bar>tdiv a b\<bar> \<le> \<bar>a\<bar>"
proof -
  have "\<bar>tdiv a b\<bar> \<le> \<bar>a\<bar> div \<bar>b\<bar>"
    by (auto simp: tdiv_def abs_mult abs_sgn_eq pos_imp_zdiv_nonneg_iff)
  also have "\<dots> \<le> \<bar>a\<bar>"
    by (cases "b = 0") (simp_all add: div_le_self_int)
  finally show ?thesis .
qed

lemma abs_mult_i128: "in_i128 a \<Longrightarrow> in_i128 b \<Longrightarrow> \<bar>a * b\<bar> \<le> 2 ^ 254"
proof -
  assume "in_i128 a" and "in_i128 b"
  then have "\<bar>a\<bar> \<le> 2 ^ 127" and "\<bar>b\<bar> \<le> 2 ^ 127" by (auto simp: in_i128_def abs_le_iff)
  then have "\<bar>a\<bar> * \<bar>b\<bar> \<le> 2 ^ 127 * 2 ^ 127" by (intro mult_mono) auto
  then show ?thesis by (simp add: abs_mult)
qed

lemma in_i256_small: "\<bar>x\<bar> \<le> 2 ^ 254 \<Longrightarrow> in_i256 x"
  by (simp add: in_i256_def abs_le_iff)

lemma in_i128_SCALE: "in_i128 SCALE"
  by (simp add: in_i128_def SCALE_def)

lemma in_i128_bounds: "in_i128 i128_min" "in_i128 i128_max"
  by (simp_all add: in_i128_def)

lemma in_i128_tdiv:
  assumes a: "in_i128 a" and b: "0 < b"
  shows "in_i128 (tdiv a b)"
proof (cases "0 \<le> a")
  case True
  have "0 \<le> a div b" and "a div b \<le> a"
    using True b by (simp_all add: div_le_self_int pos_imp_zdiv_nonneg_iff)
  with a b True show ?thesis by (simp add: tdiv_nonneg in_i128_def)
next
  case False
  have "0 \<le> (- a) div b" and "(- a) div b \<le> - a"
    using False b by (simp_all add: div_le_self_int pos_imp_zdiv_nonneg_iff)
  with a b False show ?thesis by (simp add: tdiv_neg in_i128_def)
qed

context wide_int
begin

lemma checked_mul_exact:
  assumes a: "in_i128 a" and b: "in_i128 b"
  shows "checked_mul I a b =
    (if in_i128 (tdiv (a * b) SCALE) then Some (tdiv (a * b) SCALE) else None)"
proof (cases "in_i128 (a * b)")
  case True
  then show ?thesis by (simp add: checked_mul_def in_i128_tdiv SCALE_def)
next
  case False
  have ab: "val (from_i128 I a) * val (from_i128 I b) = a * b"
    using a b by (simp add: val_from)
  from a b have "in_i256 (a * b)" by (intro in_i256_small abs_mult_i128)
  then obtain p where p: "wide_mul I (from_i128 I a) (from_i128 I b) = Some p"
    using mul_None[of "from_i128 I a" "from_i128 I b"] ab by fastforce
  from mul_Some[OF p] ab have vp: "val p = a * b" by simp
  have vs: "val (from_i128 I SCALE) = SCALE" by (rule val_from[OF in_i128_SCALE])
  have "in_i256 (tdiv (a * b) SCALE)"
    using abs_tdiv_le[of "a * b" SCALE] abs_mult_i128[OF a b] by (intro in_i256_small) linarith
  then obtain q where q: "wide_div I p (from_i128 I SCALE) = Some q"
    using div_None[of p "from_i128 I SCALE"] vp vs by (fastforce simp: SCALE_def)
  from div_Some[OF q] vp vs have vq: "val q = tdiv (a * b) SCALE" by simp
  show ?thesis
    using False vq as_val[of q] in_i128_bounds
    by (auto simp: checked_mul_def p q less_val val_from in_i128_def)
qed

lemma checked_div_exact:
  assumes a: "in_i128 a" and b: "in_i128 b"
  shows "checked_div I a b =
    (if b \<noteq> 0 \<and> in_i128 (tdiv (a * SCALE) b) then Some (tdiv (a * SCALE) b) else None)"
proof -
  have as: "val (from_i128 I a) * val (from_i128 I SCALE) = a * SCALE"
    using a by (simp add: val_from in_i128_SCALE)
  have small: "\<bar>a * SCALE\<bar> \<le> 2 ^ 254" using a in_i128_SCALE by (rule abs_mult_i128)
  then obtain p where p: "wide_mul I (from_i128 I a) (from_i128 I SCALE) = Some p"
    using mul_None[of "from_i128 I a" "from_i128 I SCALE"] as in_i256_small by fastforce
  from mul_Some[OF p] as have vp: "val p = a * SCALE" by simp
  have vb: "val (from_i128 I b) = b" using b by (rule val_from)
  show ?thesis
  proof (cases "wide_div I p (from_i128 I b)")
    case None
    have "in_i256 (tdiv (a * SCALE) b)"
      using abs_tdiv_le[of "a * SCALE" b] small by (intro in_i256_small) linarith
    with None div_None[OF None] vp vb have "b = 0" by simp
    with None show ?thesis by (simp add: checked_div_def p)
  next
    case (Some q)
    from div_Some[OF Some] vp vb have vq: "val q = tdiv (a * SCALE) b" and "b \<noteq> 0" by simp_all
    then show ?thesis
      using Some as_val[of q] in_i128_bounds
      by (auto simp: checked_div_def p less_val val_from in_i128_def)
  qed
qed

end

section \<open>Rounding to a step\<close>

text \<open>The value \<open>ceil_to_multiple\<close> computes before it wraps.\<close>

definition ceil_to_multiple_exact :: "fixed \<Rightarrow> fixed \<Rightarrow> int" where
  "ceil_to_multiple_exact x step = (x div step + (if x mod step \<noteq> 0 then 1 else 0)) * step"

lemma floor_to_multiple_bounds:
  assumes "0 < step" and "in_i128 x" and "0 \<le> x"
  shows "step dvd floor_to_multiple x step"
    and "floor_to_multiple x step \<le> x"
    and "x < floor_to_multiple x step + step"
    and "0 \<le> floor_to_multiple x step"
proof -
  have le: "x div step * step \<le> x" and lt: "x < x div step * step + step" and "0 \<le> x div step * step"
    using assms pos_mod_sign[of step x] pos_mod_bound[of step x] div_mult_mod_eq[of x step]
    by (linarith, linarith, simp add: pos_imp_zdiv_nonneg_iff)
  then show "step dvd floor_to_multiple x step" "floor_to_multiple x step \<le> x"
    "x < floor_to_multiple x step + step" "0 \<le> floor_to_multiple x step"
    using assms by (simp_all add: floor_to_multiple_def wrap_i128_id in_i128_def)
qed

lemma ceil_to_multiple_bounds:
  assumes "0 < step" and "in_i128 (ceil_to_multiple_exact x step)"
  shows "step dvd ceil_to_multiple x step"
    and "x \<le> ceil_to_multiple x step"
    and "ceil_to_multiple x step < x + step"
proof -
  have eq: "ceil_to_multiple x step = ceil_to_multiple_exact x step"
    using assms by (simp add: ceil_to_multiple_def ceil_to_multiple_exact_def wrap_i128_id)
  have x: "x = x div step * step + x mod step" by simp
  have m: "0 \<le> x mod step" "x mod step < step" using assms by simp_all
  have ce: "ceil_to_multiple_exact x step = x div step * step + (if x mod step \<noteq> 0 then step else 0)"
    by (simp add: ceil_to_multiple_exact_def algebra_simps)
  show "x \<le> ceil_to_multiple x step" and "ceil_to_multiple x step < x + step"
    unfolding eq ce using x m assms(1) by (simp_all only: split: if_split) linarith+
  show "step dvd ceil_to_multiple x step"
    unfolding eq ceil_to_multiple_exact_def by simp
qed

section \<open>Printing and parsing\<close>

lemma of_char_digit_char: "d < 10 \<Longrightarrow> of_char (digit_char d) = 48 + d"
  by (simp add: digit_char_def)

lemma is_digit_digit_char: "d < 10 \<Longrightarrow> is_digit (digit_char d)"
  by (simp add: is_digit_def of_char_digit_char)

lemma digit_val_digit_char: "d < 10 \<Longrightarrow> digit_val (digit_char d) = d"
  by (simp add: digit_val_def of_char_digit_char)

lemma digits_val_Nil [simp]: "digits_val [] = 0"
  by (simp add: digits_val_def)

lemma digits_val_snoc [simp]: "digits_val (s @ [c]) = digits_val s * 10 + digit_val c"
  by (simp add: digits_val_def)

lemma show_nat_not_Nil [simp]: "show_nat n \<noteq> []"
  by (subst show_nat.simps) simp

lemma digits_show_nat: "list_all is_digit (show_nat n)"
proof (induction n rule: show_nat.induct)
  case (1 n)
  then show ?case by (subst show_nat.simps) (auto simp: is_digit_digit_char)
qed

lemma digits_val_show_nat: "digits_val (show_nat n) = n"
proof (induction n rule: show_nat.induct)
  case (1 n)
  show ?case
  proof (cases "n < 10")
    case True
    then show ?thesis
      by (subst show_nat.simps) (simp add: digits_val_def digit_val_digit_char)
  next
    case False
    with 1 show ?thesis by (subst show_nat.simps) (simp add: digit_val_digit_char)
  qed
qed

lemma length_show_nat: "n < 10 ^ Suc k \<Longrightarrow> length (show_nat n) \<le> Suc k"
proof (induction k arbitrary: n)
  case 0
  then show ?case by (subst show_nat.simps) simp
next
  case (Suc k)
  show ?case
  proof (cases "n < 10")
    case True
    then show ?thesis by (subst show_nat.simps) simp
  next
    case False
    have "n div 10 < 10 ^ Suc k" using Suc.prems by (simp add: less_mult_imp_div_less)
    then have "length (show_nat (n div 10)) \<le> Suc k" by (rule Suc.IH)
    with False show ?thesis by (subst show_nat.simps) simp
  qed
qed

lemma parse_i128_digits:
  assumes "list_all is_digit s" and "s \<noteq> []" and "in_i128 (int (digits_val s))"
  shows "parse_i128 s = Some (int (digits_val s))"
proof -
  obtain c cs where s: "s = c # cs" using assms(2) by (cases s) auto
  have "is_digit c" using assms(1) by (simp add: s)
  then have "c \<noteq> CHR ''-''" and "c \<noteq> CHR ''+''" by (auto simp: is_digit_def)
  then show ?thesis using assms by (simp add: parse_i128_def s)
qed

lemma digits_val_zeros: "digits_val (replicate n (CHR ''0'') @ s) = digits_val s"
proof (induction n)
  case 0
  then show ?case by simp
next
  case (Suc n)
  then show ?case by (simp add: digits_val_def digit_val_def)
qed

lemma pad18_digits: "list_all is_digit (pad18 n)"
  using digits_show_nat[of n] by (auto simp: pad18_def Let_def list_all_iff is_digit_def)

lemma digits_val_pad18: "digits_val (pad18 n) = n"
  by (simp add: pad18_def Let_def digits_val_zeros digits_val_show_nat)

lemma length_pad18: "n < 10 ^ 18 \<Longrightarrow> length (pad18 n) = 18"
  using length_show_nat[of n 17] by (simp add: pad18_def Let_def)

lemma pop_zeros_snoc:
  "pop_zeros (s @ [c]) = (if c = CHR ''0'' then pop_zeros s else s @ [c])"
  by (simp add: pop_zeros_def)

lemma pop_zeros_spec:
  "digits_val (pop_zeros s) * 10 ^ (length s - length (pop_zeros s)) = digits_val s
   \<and> length (pop_zeros s) \<le> length s \<and> set (pop_zeros s) \<subseteq> set s"
proof (induction s rule: rev_induct)
  case Nil
  then show ?case by (simp add: pop_zeros_def)
next
  case (snoc c s)
  then show ?case
    by (auto simp: pop_zeros_snoc digit_val_def Suc_diff_le algebra_simps)
qed

lemma is_digit_not_space: "is_digit c \<Longrightarrow> \<not> is_space c"
  by (auto simp: is_digit_def is_space_def)

lemma trim_id:
  assumes ns: "\<And>c. c \<in> set s \<Longrightarrow> \<not> is_space c"
  shows "trim s = s"
proof -
  have "dropWhile is_space s = s" using ns by (cases s) auto
  moreover have "dropWhile is_space (rev s) = rev s"
    using ns by (cases "rev s") (auto simp: rev_eq_Cons_iff)
  ultimately show ?thesis by (simp add: trim_def)
qed

lemma split_once_absent: "c \<notin> set s \<Longrightarrow> split_once c s = None"
proof -
  assume "c \<notin> set s"
  then have "dropWhile (\<lambda>x. x \<noteq> c) s = []" by (auto simp: dropWhile_eq_Nil_conv)
  then show ?thesis unfolding split_once_def by (simp only: list.case)
qed

lemma split_once_append: "c \<notin> set s \<Longrightarrow> split_once c (s @ c # t) = Some (s, t)"
proof -
  assume "c \<notin> set s"
  then have "dropWhile (\<lambda>x. x \<noteq> c) (s @ c # t) = c # t"
    and "takeWhile (\<lambda>x. x \<noteq> c) (s @ c # t) = s"
    by (induction s) auto
  then show ?thesis by (simp add: split_once_def)
qed

text \<open>The parser on the canonical shape: an optional minus, digits, an optional fraction.\<close>

definition sign_str :: "bool \<Rightarrow> string" where
  "sign_str negative = (if negative then ''-'' else [])"

lemma digits_no_special:
  "list_all is_digit s \<Longrightarrow> CHR ''.'' \<notin> set s \<and> CHR ''-'' \<notin> set s \<and> CHR ''+'' \<notin> set s"
  by (auto simp: list_all_iff is_digit_def)

lemma trim_canonical:
  "(\<And>c. c \<in> set s \<Longrightarrow> is_digit c \<or> c = CHR ''.'') \<Longrightarrow> trim (sign_str neg @ s) = sign_str neg @ s"
  by (intro trim_id) (fastforce simp: sign_str_def is_digit_def is_space_def split: if_splits)

text \<open>What is left of the parser once the sign is stripped and the point is found.\<close>

definition parse_parts :: "bool \<Rightarrow> string \<Rightarrow> string \<Rightarrow> ParseFixedError + fixed" where
  "parse_parts negative i f =
     (case parse_i128 i of
        None \<Rightarrow> Inl ParseFixedError
      | Some n \<Rightarrow>
          (case (if f = [] then Some 0 else parse_i128 f) of
             None \<Rightarrow> Inl ParseFixedError
           | Some d \<Rightarrow>
               let value = n * SCALE + wrap_i128 (d * 10 ^ (18 - length f))
               in if \<not> in_i128 (n * SCALE) \<or> \<not> in_i128 value then Inl ParseFixedError
                  else Inr (if negative then fixed_neg value else value)))"

lemma from_str_canonical:
  assumes i: "list_all is_digit i" "i \<noteq> []" and f: "list_all is_digit f" "length f \<le> 18"
    and t: "t = (if f = [] then [] else CHR ''.'' # f)"
  shows "fixed_from_str (sign_str neg @ i @ t) = parse_parts neg i f"
proof -
  have tr: "trim (sign_str neg @ i @ t) = sign_str neg @ i @ t"
    using i f by (intro trim_canonical) (auto simp: t list_all_iff split: if_splits)
  obtain c cs where ic: "i = c # cs" using i(2) by (cases i) auto
  have c: "c \<noteq> CHR ''-''" "c \<noteq> CHR ''+''" using digits_no_special[OF i(1)] by (auto simp: ic)
  have "(case split_once (CHR ''.'') (i @ t) of Some p \<Rightarrow> p | None \<Rightarrow> (i @ t, [])) = (i, f)"
    using digits_no_special[OF i(1)] by (auto simp: t split_once_absent split_once_append)
  moreover have "(case sign_str neg @ i @ t of
      [] \<Rightarrow> (False, sign_str neg @ i @ t)
    | x # xs \<Rightarrow> if x = CHR ''-'' then (True, xs) else if x = CHR ''+'' then (False, xs)
       else (False, sign_str neg @ i @ t)) = (neg, i @ t)"
    using c by (cases neg) (auto simp: sign_str_def ic)
  ultimately show ?thesis
    using i(2) f(2) unfolding fixed_from_str_def parse_parts_def tr Let_def
    by (simp add: DECIMALS_def Let_def cong: if_cong option.case_cong)
qed

lemma fixed_display_parts:
  assumes "in_i128 x"
  defines "m \<equiv> nat \<bar>x\<bar>"
  shows "\<exists>f. list_all is_digit f \<and> length f \<le> 18
      \<and> digits_val f * 10 ^ (18 - length f) = m mod nat SCALE
      \<and> fixed_display x =
          sign_str (x < 0) @ show_nat (m div nat SCALE) @ (if f = [] then [] else CHR ''.'' # f)"
proof (cases "m mod nat SCALE = 0")
  case True
  then show ?thesis
    by (intro exI[of _ "[]"]) (simp add: fixed_display_def sign_str_def m_def Let_def)
next
  case False
  let ?r = "m mod nat SCALE" and ?f = "pop_zeros (pad18 (m mod nat SCALE))"
  have r: "?r < 10 ^ 18" by (simp add: SCALE_def)
  have d: "digits_val ?f * 10 ^ (18 - length ?f) = ?r" and l: "length ?f \<le> 18"
    using pop_zeros_spec[of "pad18 ?r"] length_pad18[OF r] by (simp_all add: digits_val_pad18)
  have "?f \<noteq> []" using d False by auto
  moreover have "list_all is_digit ?f"
    using pop_zeros_spec[of "pad18 ?r"] pad18_digits[of ?r] by (auto simp: list_all_iff)
  ultimately show ?thesis
    using d l False
    by (intro exI[of _ ?f]) (auto simp: fixed_display_def sign_str_def m_def Let_def)
qed

lemma parse_parts_value:
  assumes i: "list_all is_digit i" "i \<noteq> []" and f: "list_all is_digit f" "length f \<le> 18"
    and v: "int (digits_val i) * SCALE + int (digits_val f) * 10 ^ (18 - length f) = v"
    and small: "int (digits_val f) * 10 ^ (18 - length f) < SCALE"
  shows "parse_parts neg i f =
    (if in_i128 v then Inr (if neg then fixed_neg v else v) else Inl ParseFixedError)"
proof -
  let ?n = "int (digits_val i)" and ?d = "int (digits_val f)"
  let ?fr = "?d * 10 ^ (18 - length f)"
  have pos: "1 \<le> (10::int) ^ (18 - length f)" by simp
  have "?d * 1 \<le> ?fr" by (rule mult_left_mono[OF pos]) simp
  then have "?d \<le> ?fr" by simp
  then have dr: "in_i128 ?d" and fr: "in_i128 ?fr"
    using small by (auto simp: in_i128_def SCALE_def)
  have pf: "(if f = [] then Some 0 else parse_i128 f) = Some ?d"
    using parse_i128_digits[OF f(1)] dr by auto
  have "parse_i128 i = (if in_i128 ?n then Some ?n else None)"
  proof (cases "in_i128 ?n")
    case True
    then show ?thesis using parse_i128_digits[OF i] by simp
  next
    case False
    obtain c cs where ic: "i = c # cs" using i(2) by (cases i) auto
    have "c \<noteq> CHR ''-''" "c \<noteq> CHR ''+''" using digits_no_special[OF i(1)] by (auto simp: ic)
    with False i show ?thesis by (simp add: parse_i128_def ic)
  qed
  moreover have "0 \<le> ?fr" and "0 \<le> ?n" by simp_all
  then have "in_i128 v \<Longrightarrow> in_i128 ?n" and "in_i128 v \<Longrightarrow> in_i128 (?n * SCALE)"
    using v unfolding in_i128_def SCALE_def by linarith+
  ultimately show ?thesis
    using v by (auto simp: parse_parts_def pf wrap_i128_id[OF fr] Let_def)
qed

lemma from_str_display:
  assumes "in_i128 x"
  shows "fixed_from_str (fixed_display x) = (if x = i128_min then Inl ParseFixedError else Inr x)"
proof -
  let ?m = "nat \<bar>x\<bar>"
  obtain f where f: "list_all is_digit f" "length f \<le> 18"
    and fv: "digits_val f * 10 ^ (18 - length f) = ?m mod nat SCALE"
    and disp: "fixed_display x =
      sign_str (x < 0) @ show_nat (?m div nat SCALE) @ (if f = [] then [] else CHR ''.'' # f)"
    using fixed_display_parts[OF assms] by blast
  let ?i = "show_nat (?m div nat SCALE)"
  have "int (digits_val f * 10 ^ (18 - length f)) = \<bar>x\<bar> mod SCALE"
    unfolding fv by (simp add: SCALE_def nat_mod_distrib zmod_int)
  then have fz: "int (digits_val f) * 10 ^ (18 - length f) = \<bar>x\<bar> mod SCALE" by simp
  have iz: "int (digits_val ?i) = \<bar>x\<bar> div SCALE"
    by (simp add: digits_val_show_nat SCALE_def zdiv_int)
  have "fixed_from_str (fixed_display x) = parse_parts (x < 0) ?i f"
    unfolding disp by (rule from_str_canonical) (simp_all add: f digits_show_nat)
  also have "\<dots> = (if in_i128 \<bar>x\<bar> then Inr (if x < 0 then fixed_neg \<bar>x\<bar> else \<bar>x\<bar>)
      else Inl ParseFixedError)"
    by (rule parse_parts_value) (simp_all add: f digits_show_nat fz iz, simp add: SCALE_def)
  also have "\<dots> = (if x = i128_min then Inl ParseFixedError else Inr x)"
    using assms by (auto simp: in_i128_def fixed_neg_def wrap_i128_id)
  finally show ?thesis .
qed

end
