(* ===== verification/Order_Types.thy ===== *)
theory Order_Types
  imports Fixed_Point "HOL-Library.Word"
begin

text \<open>
  The data of \<open>src/order_book/mod.rs\<close>: order types and time in force, the order record, the
  two key orders that give price-time priority, fill reporting errors, trades and the outcome
  records of a submission.
\<close>

unbundle bit_operations_syntax

section \<open>Orders\<close>

datatype OrderCmd = Place_cmd | Cancel_cmd

datatype OrderType = Market | Limit

datatype TimeInForce = Gtc | Ioc | Fok | Gtd u64 | Day

fun is_immediate :: "TimeInForce \<Rightarrow> bool" where
  "is_immediate Ioc = True"
| "is_immediate Fok = True"
| "is_immediate _ = False"

fun has_expiry :: "TimeInForce \<Rightarrow> bool" where
  "has_expiry (Gtd _) = True"
| "has_expiry Day = True"
| "has_expiry _ = False"

fun is_expired :: "TimeInForce \<Rightarrow> u64 \<Rightarrow> u64 option \<Rightarrow> bool" where
  "is_expired (Gtd expiry) now_ms day_close_ms = (expiry \<le> now_ms)"
| "is_expired Day now_ms day_close_ms =
     (case day_close_ms of None \<Rightarrow> False | Some close \<Rightarrow> close \<le> now_ms)"
| "is_expired _ now_ms day_close_ms = False"

fun is_gtd :: "TimeInForce \<Rightarrow> bool" where
  "is_gtd (Gtd _) = True"
| "is_gtd _ = False"

datatype RejectReason =
    FokUnfillable
  | PostOnlyWouldCross
  | StopWouldTrigger
  | GtdAlreadyExpired
  | OrderNotFound
  | UnsupportedOrder
  | AmendWouldCross
  | InvalidOrder

record Order =
  o_live :: OrderType
  o_side :: OrderSide
  o_symbol_id :: u32
  o_price :: fixed
  o_volume :: fixed
  o_volume_unit :: VolumeUnit
  o_requested_volume :: fixed
  o_requested_volume_unit :: VolumeUnit
  o_maker_fee_rate :: fixed
  o_taker_fee_rate :: fixed
  o_id :: u64
  o_sequence :: u64
  o_tif :: TimeInForce
  o_post_only :: bool
  o_stop_price :: fixed
  o_display_volume :: fixed
  o_hidden_volume :: fixed
  o_timestamp :: u64

definition Order_new :: "OrderSide \<Rightarrow> fixed \<Rightarrow> fixed \<Rightarrow> u64 \<Rightarrow> Order" where
  "Order_new side price sz sequence =
     \<lparr>o_live = Limit, o_side = side, o_symbol_id = 0, o_price = price, o_volume = sz,
      o_volume_unit = VU_Base, o_requested_volume = 0, o_requested_volume_unit = VU_Base,
      o_maker_fee_rate = 0, o_taker_fee_rate = 0, o_id = 0, o_sequence = sequence,
      o_tif = Gtc, o_post_only = False, o_stop_price = 0, o_display_volume = 0,
      o_hidden_volume = 0, o_timestamp = 0\<rparr>"

definition with_symbol :: "Order \<Rightarrow> u32 \<Rightarrow> Order" where
  "with_symbol o1 symbol_id = o1\<lparr>o_symbol_id := symbol_id\<rparr>"

definition with_fee_rates :: "Order \<Rightarrow> fixed \<Rightarrow> fixed \<Rightarrow> Order" where
  "with_fee_rates o1 maker taker = o1\<lparr>o_maker_fee_rate := maker, o_taker_fee_rate := taker\<rparr>"

definition with_volume_unit :: "Order \<Rightarrow> VolumeUnit \<Rightarrow> Order" where
  "with_volume_unit o1 vunit = o1\<lparr>o_volume_unit := vunit\<rparr>"

definition open_volume :: "Order \<Rightarrow> fixed" where
  "open_volume o1 = fixed_add (o_volume o1) (o_hidden_volume o1)"

definition is_stop :: "Order \<Rightarrow> bool" where
  "is_stop o1 \<longleftrightarrow> 0 < o_stop_price o1"

definition stop_elected :: "Order \<Rightarrow> fixed \<Rightarrow> bool" where
  "stop_elected o1 last_price =
     (case o_side o1 of
        Buy \<Rightarrow> o_stop_price o1 \<le> last_price
      | Sell \<Rightarrow> last_price \<le> o_stop_price o1)"

text \<open>The source's \<open>PartialEq for Order\<close> compares six fields only.\<close>

definition order_eq :: "Order \<Rightarrow> Order \<Rightarrow> bool" where
  "order_eq a b \<longleftrightarrow> o_id a = o_id b \<and> o_side a = o_side b \<and> o_symbol_id a = o_symbol_id b
     \<and> o_sequence a = o_sequence b \<and> o_price a = o_price b \<and> o_volume a = o_volume b"

section \<open>Price-time keys\<close>

datatype ordering = Less | Equal | Greater

definition cmp :: "'a::linorder \<Rightarrow> 'a \<Rightarrow> ordering" where
  "cmp a b = (if a < b then Less else if a = b then Equal else Greater)"

datatype BidKey = BidKey (bid_price: fixed) (bid_sequence: u64)

definition BidKey_eq :: "BidKey \<Rightarrow> BidKey \<Rightarrow> bool" where
  "BidKey_eq a b \<longleftrightarrow> bid_sequence a = bid_sequence b"

definition BidKey_cmp :: "BidKey \<Rightarrow> BidKey \<Rightarrow> ordering" where
  "BidKey_cmp a b =
     (if bid_price a < bid_price b then Greater
      else if bid_price b < bid_price a then Less
      else cmp (bid_sequence a) (bid_sequence b))"

datatype AskKey = AskKey (ask_price: fixed) (ask_sequence: u64)

definition AskKey_eq :: "AskKey \<Rightarrow> AskKey \<Rightarrow> bool" where
  "AskKey_eq a b \<longleftrightarrow> ask_sequence a = ask_sequence b"

definition AskKey_cmp :: "AskKey \<Rightarrow> AskKey \<Rightarrow> ordering" where
  "AskKey_cmp a b =
     (if ask_price a < ask_price b then Less
      else if ask_price b < ask_price a then Greater
      else cmp (ask_sequence a) (ask_sequence b))"

text \<open>\<open>Ord for BidKey\<close> and \<open>Ord for AskKey\<close> are total orders; the maps sort by them.\<close>

instantiation BidKey :: linorder
begin

definition less_BidKey :: "BidKey \<Rightarrow> BidKey \<Rightarrow> bool" where
  "less_BidKey a b \<longleftrightarrow> BidKey_cmp a b = Less"

definition less_eq_BidKey :: "BidKey \<Rightarrow> BidKey \<Rightarrow> bool" where
  "less_eq_BidKey a b \<longleftrightarrow> BidKey_cmp a b \<noteq> Greater"

instance
  by standard (auto simp: less_BidKey_def less_eq_BidKey_def BidKey_cmp_def cmp_def
      BidKey.expand split: if_splits)

end

instantiation AskKey :: linorder
begin

definition less_AskKey :: "AskKey \<Rightarrow> AskKey \<Rightarrow> bool" where
  "less_AskKey a b \<longleftrightarrow> AskKey_cmp a b = Less"

definition less_eq_AskKey :: "AskKey \<Rightarrow> AskKey \<Rightarrow> bool" where
  "less_eq_AskKey a b \<longleftrightarrow> AskKey_cmp a b \<noteq> Greater"

instance
  by standard (auto simp: less_AskKey_def less_eq_AskKey_def AskKey_cmp_def cmp_def
      AskKey.expand split: if_splits)

end

section \<open>Fill errors\<close>

datatype MatchErrorCode = NotionalOverflow | TakerFeeOverflow | MakerFeeOverflow

type_synonym MatchErrors = "8 word"

fun code_as_str :: "MatchErrorCode \<Rightarrow> string" where
  "code_as_str NotionalOverflow = ''notional_overflow''"
| "code_as_str TakerFeeOverflow = ''taker_fee_overflow''"
| "code_as_str MakerFeeOverflow = ''maker_fee_overflow''"

definition code_from_name :: "string \<Rightarrow> MatchErrorCode option" where
  "code_from_name value =
     (if value = ''notional_overflow'' then Some NotionalOverflow
      else if value = ''taker_fee_overflow'' then Some TakerFeeOverflow
      else if value = ''maker_fee_overflow'' then Some MakerFeeOverflow
      else None)"

fun code_bit :: "MatchErrorCode \<Rightarrow> 8 word" where
  "code_bit NotionalOverflow = push_bit 0 1"
| "code_bit TakerFeeOverflow = push_bit 1 1"
| "code_bit MakerFeeOverflow = push_bit 2 1"

definition ALL_CODES :: "MatchErrorCode list" where
  "ALL_CODES = [NotionalOverflow, TakerFeeOverflow, MakerFeeOverflow]"

definition ERR_NONE :: MatchErrors where
  "ERR_NONE = 0"

definition NOTIONAL_OVERFLOW :: MatchErrors where
  "NOTIONAL_OVERFLOW = code_bit NotionalOverflow"

definition TAKER_FEE_OVERFLOW :: MatchErrors where
  "TAKER_FEE_OVERFLOW = code_bit TakerFeeOverflow"

definition MAKER_FEE_OVERFLOW :: MatchErrors where
  "MAKER_FEE_OVERFLOW = code_bit MakerFeeOverflow"

definition KNOWN_BITS :: "8 word" where
  "KNOWN_BITS = NOTIONAL_OVERFLOW OR TAKER_FEE_OVERFLOW OR MAKER_FEE_OVERFLOW"

definition errors_from_bits :: "8 word \<Rightarrow> MatchErrors option" where
  "errors_from_bits bits = (if bits AND NOT KNOWN_BITS = 0 then Some bits else None)"

definition errors_is_empty :: "MatchErrors \<Rightarrow> bool" where
  "errors_is_empty e \<longleftrightarrow> e = 0"

definition errors_insert :: "MatchErrors \<Rightarrow> MatchErrorCode \<Rightarrow> MatchErrors" where
  "errors_insert e c = e OR code_bit c"

definition errors_contains :: "MatchErrors \<Rightarrow> MatchErrorCode \<Rightarrow> bool" where
  "errors_contains e c \<longleftrightarrow> e AND code_bit c \<noteq> 0"

definition error_codes :: "MatchErrors \<Rightarrow> MatchErrorCode list" where
  "error_codes e = filter (errors_contains e) ALL_CODES"

text \<open>
  The human-readable form is the list of code names (\<open>Serialize\<close>); reading it back inserts
  each code into the empty set (\<open>MatchErrorsVisitor::visit_seq\<close>).
\<close>

definition errors_to_names :: "MatchErrors \<Rightarrow> string list" where
  "errors_to_names e = map code_as_str (error_codes e)"

primrec errors_visit_seq :: "MatchErrors \<Rightarrow> string list \<Rightarrow> MatchErrors option" where
  "errors_visit_seq e [] = Some e"
| "errors_visit_seq e (n # ns) =
     (case code_from_name n of None \<Rightarrow> None | Some c \<Rightarrow> errors_visit_seq (errors_insert e c) ns)"

section \<open>Trades and outcomes\<close>

record MatchResult =
  mr_taker :: Order
  mr_maker :: Order
  mr_matches :: fixed
  mr_notional :: fixed
  mr_taker_fee :: fixed
  mr_taker_fee_asset :: FeeAsset
  mr_maker_fee :: fixed
  mr_maker_fee_asset :: FeeAsset
  mr_error :: MatchErrors

definition MatchResult_new_with_policy ::
  "'w i256 \<Rightarrow> Order \<Rightarrow> Order \<Rightarrow> fixed \<Rightarrow> FeeAssetPolicy \<Rightarrow> MatchResult" where
  "MatchResult_new_with_policy I taker maker matches policy =
     (let value = notional I (o_price maker) matches;
          taker_asset = fee_asset policy (o_side taker);
          maker_asset = fee_asset policy (o_side maker);
          fee = (\<lambda>asset rate.
             case asset of
               FA_Base \<Rightarrow> checked_mul I matches rate
             | FA_Quote \<Rightarrow> (case value of None \<Rightarrow> None | Some v \<Rightarrow> checked_mul I v rate));
          taker_fee = fee taker_asset (o_taker_fee_rate taker);
          maker_fee = fee maker_asset (o_maker_fee_rate maker);
          error = ERR_NONE;
          error = (if value = None then error OR NOTIONAL_OVERFLOW else error);
          error = (if taker_fee = None then error OR TAKER_FEE_OVERFLOW else error);
          error = (if maker_fee = None then error OR MAKER_FEE_OVERFLOW else error)
      in \<lparr>mr_taker = taker, mr_maker = maker, mr_matches = matches,
          mr_notional = (case value of None \<Rightarrow> 0 | Some v \<Rightarrow> v),
          mr_taker_fee = (case taker_fee of None \<Rightarrow> 0 | Some v \<Rightarrow> v),
          mr_taker_fee_asset = taker_asset,
          mr_maker_fee = (case maker_fee of None \<Rightarrow> 0 | Some v \<Rightarrow> v),
          mr_maker_fee_asset = maker_asset,
          mr_error = error\<rparr>)"

definition MatchResult_new :: "'w i256 \<Rightarrow> Order \<Rightarrow> Order \<Rightarrow> fixed \<Rightarrow> MatchResult" where
  "MatchResult_new I taker maker matches =
     MatchResult_new_with_policy I taker maker matches Received"

datatype SweepMode = SM_Base | BuyQuote | SellQuote

record StopExecution =
  se_stop :: Order
  se_trigger_price :: fixed
  se_fills :: "MatchResult list"
  se_cancelled :: "fixed option"

record Outcome =
  oc_market_seq :: u64
  oc_expired :: "Order list"
  oc_fills :: "MatchResult list"
  oc_resting :: "fixed option"
  oc_cancelled :: "fixed option"
  oc_parked :: bool
  oc_rejected :: "RejectReason option"
  oc_triggers :: "StopExecution list"

definition Outcome_default :: Outcome where
  "Outcome_default =
     \<lparr>oc_market_seq = 0, oc_expired = [], oc_fills = [], oc_resting = None, oc_cancelled = None,
      oc_parked = False, oc_rejected = None, oc_triggers = []\<rparr>"

record Amendment =
  am_market_seq :: u64
  am_order :: Order
  am_previous_sequence :: u64
  am_previous_price :: fixed
  am_previous_volume :: fixed

datatype AmendError = NotFound | NotResting | UnsupportedType | InvalidPrice | InvalidVolume | WouldCross

fun amend_reason :: "AmendError \<Rightarrow> RejectReason" where
  "amend_reason NotFound = OrderNotFound"
| "amend_reason NotResting = UnsupportedOrder"
| "amend_reason UnsupportedType = UnsupportedOrder"
| "amend_reason InvalidPrice = InvalidOrder"
| "amend_reason InvalidVolume = InvalidOrder"
| "amend_reason WouldCross = AmendWouldCross"

record DepthLevel =
  dl_price :: fixed
  dl_volume :: fixed
  dl_orders :: u32

record DepthChange =
  dc_side :: OrderSide
  dc_price :: fixed
  dc_delta_volume :: fixed
  dc_delta_orders :: int

section \<open>Facts about the data\<close>

lemma less_BidKey_iff:
  "BidKey p s < BidKey q t \<longleftrightarrow> q < p \<or> (p = q \<and> s < t)"
  by (auto simp: less_BidKey_def BidKey_cmp_def cmp_def)

lemma less_AskKey_iff:
  "AskKey p s < AskKey q t \<longleftrightarrow> p < q \<or> (p = q \<and> s < t)"
  by (auto simp: less_AskKey_def AskKey_cmp_def cmp_def)

lemma less_eq_BidKey_iff:
  "BidKey p s \<le> BidKey q t \<longleftrightarrow> q < p \<or> (p = q \<and> s \<le> t)"
  by (auto simp: less_eq_BidKey_def BidKey_cmp_def cmp_def)

lemma less_eq_AskKey_iff:
  "AskKey p s \<le> AskKey q t \<longleftrightarrow> p < q \<or> (p = q \<and> s \<le> t)"
  by (auto simp: less_eq_AskKey_def AskKey_cmp_def cmp_def)

end
