(* ===== verification/Order_Book.thy ===== *)
theory Order_Book
  imports Order_Types
begin

text \<open>
  The order book of \<open>src/order_book/mod.rs\<close>: its state, and one definition per operation of
  \<open>impl OrderBook\<close>, in the order of the source.  Methods on \<open>&mut self\<close> return the new book.
  A call that can reach a panicking operator returns a sum with the panic on the left.
\<close>

section \<open>State\<close>

record OrderBook =
  bids :: "(BidKey, Order) btree"
  asks :: "(AskKey, Order) btree"
  ob_sequence :: u64
  stops :: "Order list"
  last_trade_price :: "fixed option"
  depth_journal :: "DepthChange list"
  record_depth :: bool
  earliest_gtd_expiry :: "u64 option"
  gtd_scan_dirty :: bool

definition OrderBook_new :: OrderBook where
  "OrderBook_new =
     \<lparr>bids = [], asks = [], ob_sequence = 0, stops = [], last_trade_price = None,
      depth_journal = [], record_depth = False, earliest_gtd_expiry = None,
      gtd_scan_dirty = False\<rparr>"

definition next_market_sequence :: "OrderBook \<Rightarrow> u64 \<times> OrderBook" where
  "next_market_sequence b = (ob_sequence b, b\<lparr>ob_sequence := wrap_u64 (ob_sequence b + 1)\<rparr>)"

section \<open>The GTD deadline index\<close>

definition min_expiry :: "u64 option \<Rightarrow> u64 \<Rightarrow> u64 option" where
  "min_expiry current expiry = Some (case current of None \<Rightarrow> expiry | Some c \<Rightarrow> min c expiry)"

definition note_expiry :: "u64 option \<Rightarrow> Order \<Rightarrow> u64 option" where
  "note_expiry earliest o1 =
     (case o_tif o1 of Gtd expiry \<Rightarrow> min_expiry earliest expiry | _ \<Rightarrow> earliest)"

definition refresh_earliest_gtd :: "OrderBook \<Rightarrow> OrderBook" where
  "refresh_earliest_gtd b =
     (if \<not> gtd_scan_dirty b then b
      else b\<lparr>gtd_scan_dirty := False,
             earliest_gtd_expiry :=
               foldl note_expiry None (bt_values (bids b) @ bt_values (asks b) @ stops b)\<rparr>)"

definition rebuild_derived_indexes :: "OrderBook \<Rightarrow> OrderBook" where
  "rebuild_derived_indexes b = refresh_earliest_gtd (b\<lparr>gtd_scan_dirty := True\<rparr>)"

definition has_gtd_deadlines :: "OrderBook \<Rightarrow> bool" where
  "has_gtd_deadlines b \<longleftrightarrow> earliest_gtd_expiry b \<noteq> None \<or> gtd_scan_dirty b"

section \<open>The depth journal\<close>

definition enable_depth_journal :: "OrderBook \<Rightarrow> OrderBook" where
  "enable_depth_journal b = b\<lparr>record_depth := True\<rparr>"

definition take_depth_journal :: "OrderBook \<Rightarrow> DepthChange list \<times> OrderBook" where
  "take_depth_journal b = (depth_journal b, b\<lparr>depth_journal := []\<rparr>)"

definition push_depth_change ::
  "DepthChange list \<Rightarrow> bool \<Rightarrow> OrderSide \<Rightarrow> fixed \<Rightarrow> fixed \<Rightarrow> int \<Rightarrow> DepthChange list" where
  "push_depth_change journal record side price delta_volume delta_orders =
     (if record
      then journal @ [\<lparr>dc_side = side, dc_price = price, dc_delta_volume = delta_volume,
                       dc_delta_orders = delta_orders\<rparr>]
      else journal)"

definition record_depth_change ::
  "OrderBook \<Rightarrow> OrderSide \<Rightarrow> fixed \<Rightarrow> fixed \<Rightarrow> int \<Rightarrow> OrderBook" where
  "record_depth_change b side price delta_volume delta_orders =
     (if record_depth b
      then b\<lparr>depth_journal := depth_journal b @
               [\<lparr>dc_side = side, dc_price = price, dc_delta_volume = delta_volume,
                 dc_delta_orders = delta_orders\<rparr>]\<rparr>
      else b)"

section \<open>Reads\<close>

definition best_bid :: "OrderBook \<Rightarrow> Order option" where
  "best_bid b = bt_first (bids b)"

definition best_ask :: "OrderBook \<Rightarrow> Order option" where
  "best_ask b = bt_first (asks b)"

definition spread :: "OrderBook \<Rightarrow> fixed option" where
  "spread b =
     (case (best_bid b, best_ask b) of
        (Some bid, Some ask) \<Rightarrow> checked_sub (o_price ask) (o_price bid)
      | _ \<Rightarrow> None)"

definition mid_price :: "OrderBook \<Rightarrow> fixed option" where
  "mid_price b =
     (case (best_bid b, best_ask b) of
        (Some bid, Some ask) \<Rightarrow> midpoint (o_price bid) (o_price ask)
      | _ \<Rightarrow> None)"

primrec depth_walk :: "nat \<Rightarrow> DepthLevel list \<Rightarrow> Order list \<Rightarrow> DepthLevel list" where
  "depth_walk levels depth [] = depth"
| "depth_walk levels depth (o1 # os) =
     (if depth \<noteq> [] \<and> dl_price (last depth) = o_price o1
      then depth_walk levels
             (butlast depth @
              [(last depth)\<lparr>dl_volume := fixed_add (dl_volume (last depth)) (o_volume o1),
                            dl_orders := wrap_u32 (dl_orders (last depth) + 1)\<rparr>]) os
      else if length depth < levels
      then depth_walk levels
             (depth @ [\<lparr>dl_price = o_price o1, dl_volume = o_volume o1, dl_orders = 1\<rparr>]) os
      else depth)"

definition depth :: "OrderBook \<Rightarrow> OrderSide \<Rightarrow> nat \<Rightarrow> DepthLevel list" where
  "depth b side levels =
     (if levels = 0 then []
      else depth_walk levels []
             (case side of Buy \<Rightarrow> bt_values (bids b) | Sell \<Rightarrow> bt_values (asks b)))"

definition resting_volume :: "OrderBook \<Rightarrow> Order \<Rightarrow> fixed option" where
  "resting_volume b o1 =
     map_option o_volume
       (case o_side o1 of
          Buy \<Rightarrow> bt_get (BidKey (o_price o1) (o_sequence o1)) (bids b)
        | Sell \<Rightarrow> bt_get (AskKey (o_price o1) (o_sequence o1)) (asks b))"

definition would_cross :: "OrderBook \<Rightarrow> Order \<Rightarrow> bool" where
  "would_cross b o1 =
     (case o_side o1 of
        Buy \<Rightarrow> (case best_ask b of None \<Rightarrow> False | Some ask \<Rightarrow> o_price ask \<le> o_price o1)
      | Sell \<Rightarrow> (case best_bid b of None \<Rightarrow> False | Some bid \<Rightarrow> o_price o1 \<le> o_price bid))"

text \<open>\<open>limit.is_none_or(...)\<close>: the prices a taker on \<open>side\<close> accepts.\<close>

definition within_limit :: "fixed option \<Rightarrow> OrderSide \<Rightarrow> fixed \<Rightarrow> bool" where
  "within_limit limit side price =
     (case limit of
        None \<Rightarrow> True
      | Some l \<Rightarrow> (case side of Buy \<Rightarrow> price \<le> l | Sell \<Rightarrow> l \<le> price))"

definition order_limit :: "Order \<Rightarrow> fixed option" where
  "order_limit o1 = (case o_live o1 of Market \<Rightarrow> None | Limit \<Rightarrow> Some (o_price o1))"

definition fillable_volume :: "OrderBook \<Rightarrow> Order \<Rightarrow> fixed" where
  "fillable_volume b o1 =
     (let limit = order_limit o1;
          makers = (case o_side o1 of Buy \<Rightarrow> bt_values (asks b) | Sell \<Rightarrow> bt_values (bids b))
      in foldl saturating_add 0
           (map open_volume
             (takeWhile (\<lambda>maker. within_limit limit (o_side o1) (o_price maker)) makers)))"

section \<open>Resting\<close>

definition insert_order :: "OrderBook \<Rightarrow> Order \<Rightarrow> OrderBook" where
  "insert_order b o1 =
     (case o_side o1 of
        Buy \<Rightarrow> b\<lparr>bids := bt_insert (BidKey (o_price o1) (o_sequence o1)) o1 (bids b)\<rparr>
      | Sell \<Rightarrow> b\<lparr>asks := bt_insert (AskKey (o_price o1) (o_sequence o1)) o1 (asks b)\<rparr>)"

definition rest :: "OrderBook \<Rightarrow> Order \<Rightarrow> fixed \<Rightarrow> OrderBook \<times> fixed" where
  "rest b o1 tot =
     (let visible = (if 0 < o_display_volume o1 then fixed_min (o_display_volume o1) tot else tot);
          resting = o1\<lparr>o_volume := visible, o_hidden_volume := fixed_sub tot visible\<rparr>;
          b = (case o_side o1 of
                 Buy \<Rightarrow> b\<lparr>bids := bt_insert (BidKey (o_price o1) (o_sequence o1)) resting (bids b)\<rparr>
               | Sell \<Rightarrow> b\<lparr>asks := bt_insert (AskKey (o_price o1) (o_sequence o1)) resting (asks b)\<rparr>);
          b = (case o_tif o1 of
                 Gtd expiry \<Rightarrow>
                   b\<lparr>earliest_gtd_expiry := min_expiry (earliest_gtd_expiry b) expiry\<rparr>
               | _ \<Rightarrow> b);
          b = record_depth_change b (o_side o1) (o_price o1) visible 1
      in (b, visible))"

section \<open>The sweep\<close>

record 'k sweep_state =
  sw_resting :: "('k, Order) btree"
  sw_remaining :: fixed
  sw_results :: "MatchResult list"
  sw_journal :: "DepthChange list"
  sw_gtd_dirty :: bool

datatype 'k flow = Break "'k sweep_state" | Continue "'k sweep_state"

record sweep_context =
  sc_config :: SymbolConfig
  sc_record :: bool
  sc_track_gtd :: bool

definition sweep_mode :: "Order \<Rightarrow> SweepMode" where
  "sweep_mode o1 =
     (if o_volume_unit o1 = VU_Quote
      then (case o_side o1 of Buy \<Rightarrow> BuyQuote | Sell \<Rightarrow> SellQuote)
      else SM_Base)"

definition match_volume ::
  "'w i256 \<Rightarrow> SymbolConfig \<Rightarrow> SweepMode \<Rightarrow> fixed \<Rightarrow> Order \<Rightarrow> panic + fixed" where
  "match_volume I config mode remaining maker =
     (case mode of
        SM_Base \<Rightarrow> Inr (fixed_min remaining (o_volume maker))
      | BuyQuote \<Rightarrow>
          (case fixed_div I remaining (o_price maker) of
             Inl p \<Rightarrow> Inl p
           | Inr q \<Rightarrow> Inr (fixed_min (floor_to_multiple q (base_lot config)) (o_volume maker)))
      | SellQuote \<Rightarrow>
          (case fixed_div I remaining (o_price maker) of
             Inl p \<Rightarrow> Inl p
           | Inr q \<Rightarrow> Inr (fixed_min (ceil_to_multiple q (base_lot config)) (o_volume maker))))"

text \<open>One turn of the \<open>while\<close> loop of \<open>sweep_side\<close>: \<open>Break\<close> leaves the loop, \<open>Continue\<close> goes on.\<close>

definition sweep_step ::
  "'w i256 \<Rightarrow> sweep_context \<Rightarrow> Order \<Rightarrow> fixed option \<Rightarrow> 'k sweep_state \<Rightarrow> panic + 'k flow" where
  "sweep_step I ctx o1 limit s =
     (let remaining = sw_remaining s; mode = sweep_mode o1 in
      if remaining \<le> 0 then Inr (Break s)
      else case sw_resting s of
        [] \<Rightarrow> Inr (Break s)
      | (k, maker) # others \<Rightarrow>
          if \<not> within_limit limit (o_side o1) (o_price maker) then Inr (Break s)
          else case match_volume I (sc_config ctx) mode remaining maker of
            Inl p \<Rightarrow> Inl p
          | Inr mv \<Rightarrow>
              if mv \<le> 0 then Inr (Break s)
              else if mode \<noteq> SM_Base \<and> notional I (o_price maker) mv = None then Inr (Break s)
              else
                let value = (case notional I (o_price maker) mv of None \<Rightarrow> 0 | Some v \<Rightarrow> v);
                    taker = o1\<lparr>o_volume := (if mode = SM_Base then remaining else mv)\<rparr>;
                    results = sw_results s @
                      [MatchResult_new_with_policy I taker maker mv
                         (fee_asset_policy (sc_config ctx))];
                    maker_remaining = fixed_sub (o_volume maker) mv
                in
                if 0 < maker_remaining then
                  Inr (Break (s\<lparr>
                    sw_resting := (k, maker\<lparr>o_volume := maker_remaining\<rparr>) # others,
                    sw_remaining := (if mode = SM_Base then 0 else saturating_sub remaining value),
                    sw_results := results,
                    sw_journal := push_depth_change (sw_journal s) (sc_record ctx)
                      (o_side maker) (o_price maker) (fixed_neg mv) 0\<rparr>))
                else
                  let remaining = (if mode = SM_Base then fixed_sub remaining mv
                                   else saturating_sub remaining value);
                      s' = (if 0 < o_hidden_volume maker then
                              let draw = (if 0 < o_display_volume maker
                                          then fixed_min (o_display_volume maker) (o_hidden_volume maker)
                                          else o_hidden_volume maker)
                              in s\<lparr>
                                sw_resting := (k, maker\<lparr>o_volume := draw,
                                  o_hidden_volume := fixed_sub (o_hidden_volume maker) draw\<rparr>) # others,
                                sw_remaining := remaining,
                                sw_results := results,
                                sw_journal := push_depth_change (sw_journal s) (sc_record ctx)
                                  (o_side maker) (o_price maker) (fixed_sub draw mv) 0\<rparr>
                            else s\<lparr>
                              sw_resting := others,
                              sw_remaining := remaining,
                              sw_results := results,
                              sw_gtd_dirty := sw_gtd_dirty s
                                \<or> (sc_track_gtd ctx \<and> is_gtd (o_tif maker)),
                              sw_journal := push_depth_change (sw_journal s) (sc_record ctx)
                                (o_side maker) (o_price maker) (fixed_neg mv) (- 1)\<rparr>)
                  in Inr (if remaining \<le> 0 then Break s' else Continue s'))"

text \<open>
  The loop ends because every \<open>Continue\<close> removes the best entry or draws a positive tranche out
  of its hidden reserve.
\<close>

definition sweep_measure :: "'k sweep_state \<Rightarrow> nat" where
  "sweep_measure s = (\<Sum>e \<leftarrow> sw_resting s. Suc (nat (o_hidden_volume (snd e))))"

lemma fixed_sub_less: "0 < h \<Longrightarrow> 0 < d \<Longrightarrow> d \<le> h \<Longrightarrow> fixed_sub h d < h"
  using wrap_i128_le[of "h - d"] by (simp add: fixed_sub_def)

lemma sweep_step_decreases:
  assumes "sweep_step I ctx o1 limit s = Inr (Continue s')"
  shows "sweep_measure s' < sweep_measure s"
proof -
  obtain k maker others where r: "sw_resting s = (k, maker) # others"
    using assms by (cases "sw_resting s")
      (auto simp: sweep_step_def Let_def split: if_splits)
  show ?thesis
    using assms
    by (auto simp: sweep_step_def r Let_def sweep_measure_def fixed_min_def fixed_sub_less
        split: if_splits sum.splits)
qed

function sweep_run ::
  "'w i256 \<Rightarrow> sweep_context \<Rightarrow> Order \<Rightarrow> fixed option \<Rightarrow> 'k sweep_state \<Rightarrow> panic + 'k sweep_state" where
  "sweep_run I ctx o1 limit s =
     (case sweep_step I ctx o1 limit s of
        Inl p \<Rightarrow> Inl p
      | Inr (Break s') \<Rightarrow> Inr s'
      | Inr (Continue s') \<Rightarrow> sweep_run I ctx o1 limit s')"
  by pat_completeness auto
termination
  by (relation "measure (\<lambda>(I, ctx, o1, limit, s). sweep_measure s)")
    (auto simp: sweep_step_decreases)

declare sweep_run.simps [simp del]

definition sweep_side ::
  "'w i256 \<Rightarrow> ('k, Order) btree \<Rightarrow> Order \<Rightarrow> fixed option \<Rightarrow> sweep_context \<Rightarrow> DepthChange list \<Rightarrow> bool
    \<Rightarrow> panic + 'k sweep_state" where
  "sweep_side I resting o1 limit ctx journal gtd_dirty =
     sweep_run I ctx o1 limit
       \<lparr>sw_resting = resting, sw_remaining = o_volume o1, sw_results = [], sw_journal = journal,
        sw_gtd_dirty = gtd_dirty\<rparr>"

definition sweep ::
  "'w i256 \<Rightarrow> OrderBook \<Rightarrow> Order \<Rightarrow> fixed option \<Rightarrow> SymbolConfig
    \<Rightarrow> panic + (OrderBook \<times> MatchResult list \<times> fixed)" where
  "sweep I b o1 limit config =
     (let ctx = \<lparr>sc_config = config, sc_record = record_depth b, sc_track_gtd = has_gtd_deadlines b\<rparr>
      in case o_side o1 of
        Buy \<Rightarrow>
          (case sweep_side I (asks b) o1 limit ctx (depth_journal b) (gtd_scan_dirty b) of
             Inl p \<Rightarrow> Inl p
           | Inr s \<Rightarrow> Inr (b\<lparr>asks := sw_resting s, depth_journal := sw_journal s,
                            gtd_scan_dirty := sw_gtd_dirty s\<rparr>,
                          sw_results s, sw_remaining s))
      | Sell \<Rightarrow>
          (case sweep_side I (bids b) o1 limit ctx (depth_journal b) (gtd_scan_dirty b) of
             Inl p \<Rightarrow> Inl p
           | Inr s \<Rightarrow> Inr (b\<lparr>bids := sw_resting s, depth_journal := sw_journal s,
                            gtd_scan_dirty := sw_gtd_dirty s\<rparr>,
                          sw_results s, sw_remaining s)))"

lemma sweep_stops:
  "sweep I b o1 limit config = Inr (b', fills, remainder) \<Longrightarrow> stops b' = stops b"
  by (auto simp: sweep_def Let_def split: OrderSide.splits sum.splits)

section \<open>The stop cascade\<close>

function run_stops ::
  "'w i256 \<Rightarrow> SymbolConfig \<Rightarrow> OrderBook \<Rightarrow> Outcome \<Rightarrow> panic + (OrderBook \<times> Outcome)" where
  "run_stops I config b outcome =
     (case last_trade_price b of
        None \<Rightarrow> Inr (b, outcome)
      | Some last_price \<Rightarrow>
          (case position (\<lambda>stop. stop_elected stop last_price) (stops b) of
             None \<Rightarrow> Inr (b, outcome)
           | Some index \<Rightarrow>
               let stop = stops b ! index;
                   b1 = b\<lparr>stops := vec_remove index (stops b),
                          gtd_scan_dirty := gtd_scan_dirty b \<or> is_gtd (o_tif stop)\<rparr>
               in (case sweep I b1 stop (order_limit stop) config of
                     Inl p \<Rightarrow> Inl p
                   | Inr (b2, fills, remainder) \<Rightarrow>
                       let b3 = (case vec_last fills of
                                   None \<Rightarrow> b2
                                 | Some print \<Rightarrow>
                                     b2\<lparr>last_trade_price := Some (o_price (mr_maker print))\<rparr>);
                           trigger = \<lparr>se_stop = stop, se_trigger_price = last_price,
                                      se_fills = fills,
                                      se_cancelled = (if 0 < remainder then Some remainder else None)\<rparr>
                       in run_stops I config b3
                            (outcome\<lparr>oc_triggers := oc_triggers outcome @ [trigger]\<rparr>))))"
  by pat_completeness auto
termination
proof (relation "measure (\<lambda>(I, config, b, outcome). length (stops b))", goal_cases)
  case 1
  show ?case by simp
next
  case (2 I config b outcome last_price index stop b1 r b2 q fills remainder b3 trigger)
  then have "stops b3 = vec_remove index (stops b)"
    by (auto dest!: sweep_stops split: option.splits)
  moreover have "index < length (stops b)" using 2 by (auto dest: position_SomeD)
  ultimately show ?case by (simp add: length_vec_remove)
qed

declare run_stops.simps [simp del]

section \<open>Expiry\<close>

text \<open>
  The loop over the collected keys of one side.  The keys come from the map itself, so the
  lookup in the first line never misses (\<open>purge_keys_eq\<close>).
\<close>

primrec purge_keys ::
  "(Order \<Rightarrow> bool) \<Rightarrow> bool \<Rightarrow> OrderSide \<Rightarrow> 'k::linorder list \<Rightarrow>
   ('k, Order) btree \<times> DepthChange list \<times> Order list \<Rightarrow>
   ('k, Order) btree \<times> DepthChange list \<times> Order list" where
  "purge_keys has_expired record side [] st = st"
| "purge_keys has_expired record side (key # keys) st =
     (let (m, journal, removed) = st in
      case bt_get key m of
        None \<Rightarrow> purge_keys has_expired record side keys st
      | Some o1 \<Rightarrow>
          if has_expired o1
          then purge_keys has_expired record side keys
                 (bt_remove key m,
                  push_depth_change journal record side (o_price o1) (fixed_neg (o_volume o1)) (- 1),
                  removed @ [o1])
          else purge_keys has_expired record side keys st)"

definition purge_expired :: "OrderBook \<Rightarrow> u64 \<Rightarrow> u64 option \<Rightarrow> OrderBook \<times> Order list" where
  "purge_expired b now_ms day_close_ms =
     (let has_expired = (\<lambda>o1. is_expired (o_tif o1) now_ms day_close_ms);
          (new_bids, journal, removed) =
            purge_keys has_expired (record_depth b) Buy (map fst (bids b))
              (bids b, depth_journal b, []);
          (new_asks, journal, removed) =
            purge_keys has_expired (record_depth b) Sell (map fst (asks b))
              (asks b, journal, removed);
          removed = removed @ filter has_expired (stops b);
          b = b\<lparr>bids := new_bids, asks := new_asks, depth_journal := journal,
                stops := filter (\<lambda>stop. \<not> has_expired stop) (stops b)\<rparr>;
          b = (if removed \<noteq> [] then b\<lparr>gtd_scan_dirty := True\<rparr> else b)
      in (b, removed))"

definition purge_due_gtd :: "OrderBook \<Rightarrow> u64 \<Rightarrow> OrderBook \<times> Order list" where
  "purge_due_gtd b now_ms =
     (let b = refresh_earliest_gtd b in
      case earliest_gtd_expiry b of
        Some expiry \<Rightarrow> if expiry \<le> now_ms then purge_expired b now_ms None else (b, [])
      | None \<Rightarrow> (b, []))"

section \<open>Admission checks\<close>

definition validate_order_for_symbol :: "Order \<Rightarrow> SymbolConfig \<Rightarrow> RejectReason option" where
  "validate_order_for_symbol o1 config =
     (if o_symbol_id o1 \<noteq> cfg_symbol_id config then Some UnsupportedOrder
      else if \<not> (has_at_most_decimals (o_price o1) (price_decimals config)
                 \<and> has_at_most_decimals (o_stop_price o1) (price_decimals config)
                 \<and> is_multiple_of (o_price o1) (price_tick config)
                 \<and> is_multiple_of (o_stop_price o1) (price_tick config))
      then Some InvalidOrder
      else case o_volume_unit o1 of
        VU_Base \<Rightarrow>
          if \<not> (has_at_most_decimals (o_volume o1) (asset_decimals (base_asset config))
                \<and> has_at_most_decimals (o_display_volume o1) (asset_decimals (base_asset config))
                \<and> has_at_most_decimals (o_hidden_volume o1) (asset_decimals (base_asset config))
                \<and> is_multiple_of (o_volume o1) (base_lot config)
                \<and> is_multiple_of (o_display_volume o1) (base_lot config)
                \<and> is_multiple_of (o_hidden_volume o1) (base_lot config))
          then Some InvalidOrder else None
      | VU_Quote \<Rightarrow>
          if 0 < o_display_volume o1 \<or> 0 < o_hidden_volume o1 \<or> o_tif o1 = Fok
          then Some InvalidOrder
          else if \<not> has_at_most_decimals (o_volume o1) (asset_decimals (quote_asset config))
          then Some InvalidOrder
          else None)"

definition validate_order :: "Order \<Rightarrow> RejectReason option" where
  "validate_order o1 =
     (if \<not> (is_finite (o_volume o1) \<and> 0 < o_volume o1) then Some InvalidOrder
      else if o_maker_fee_rate o1 < MIN_FEE_RATE \<or> MAX_FEE_RATE < o_maker_fee_rate o1
              \<or> o_taker_fee_rate o1 < MIN_FEE_RATE \<or> MAX_FEE_RATE < o_taker_fee_rate o1
      then Some InvalidOrder
      else if o_live o1 = Limit \<and> \<not> (is_finite (o_price o1) \<and> 0 < o_price o1)
      then Some InvalidOrder
      else if \<not> is_finite (o_stop_price o1) \<or> o_stop_price o1 < 0 then Some InvalidOrder
      else if \<not> is_finite (o_display_volume o1) \<or> o_display_volume o1 < 0
              \<or> o_volume o1 < o_display_volume o1
      then Some InvalidOrder
      else if o_post_only o1
              \<and> (o_live o1 \<noteq> Limit \<or> is_stop o1 \<or> 0 < o_display_volume o1)
      then Some InvalidOrder
      else if is_stop o1
              \<and> (o_post_only o1 \<or> 0 < o_display_volume o1 \<or> is_immediate (o_tif o1))
      then Some InvalidOrder
      else case o_tif o1 of
        Gtd expiry \<Rightarrow> if expiry \<le> o_timestamp o1 then Some GtdAlreadyExpired else None
      | _ \<Rightarrow> None)"

text \<open>Lines 1242--1279 of \<open>execute_order_inner\<close>: the audit fields and quote-volume normalisation.\<close>

definition normalize_order :: "'w i256 \<Rightarrow> Order \<Rightarrow> SymbolConfig \<Rightarrow> Order \<times> RejectReason option" where
  "normalize_order I o1 config =
     (let o1 = (if o_requested_volume o1 = 0
                then o1\<lparr>o_requested_volume := o_volume o1,
                        o_requested_volume_unit := o_volume_unit o1\<rparr>
                else o1)
      in
      if o_volume_unit o1 = VU_Quote
         \<and> (0 < o_display_volume o1 \<or> 0 < o_hidden_volume o1 \<or> o_tif o1 = Fok
            \<or> \<not> has_at_most_decimals (o_volume o1) (asset_decimals (quote_asset config))
            \<or> \<not> has_at_most_decimals (o_requested_volume o1) (asset_decimals (quote_asset config)))
      then (o1, Some InvalidOrder)
      else if o_volume_unit o1 = VU_Quote \<and> o_live o1 = Limit
      then (case checked_div I (o_volume o1) (o_price o1) of
              None \<Rightarrow> (o1, Some InvalidOrder)
            | Some base \<Rightarrow>
                let base = floor_to_multiple base (base_lot config) in
                if base \<le> 0 then (o1, Some InvalidOrder)
                else (o1\<lparr>o_volume := base, o_volume_unit := VU_Base\<rparr>, None))
      else (o1, None))"

section \<open>Submission\<close>

definition reject_order :: "OrderBook \<Rightarrow> Order \<Rightarrow> RejectReason \<Rightarrow> OrderBook \<times> Order \<times> Outcome" where
  "reject_order b o1 reason =
     (let (seq, b) = next_market_sequence b
      in (b, o1\<lparr>o_sequence := seq\<rparr>,
          Outcome_default\<lparr>oc_market_seq := seq, oc_rejected := Some reason\<rparr>))"

text \<open>Lines 1332--1359 of \<open>execute_order_inner\<close>: the sweep, the remainder and the stop cascade.\<close>

definition execute_taker ::
  "'w i256 \<Rightarrow> OrderBook \<Rightarrow> Order \<Rightarrow> SymbolConfig \<Rightarrow> Outcome \<Rightarrow> panic + (OrderBook \<times> Outcome)" where
  "execute_taker I b o1 config outcome =
     (case sweep I b o1 (order_limit o1) config of
        Inl p \<Rightarrow> Inl p
      | Inr (b, fills, remainder) \<Rightarrow>
          let outcome = outcome\<lparr>oc_fills := fills\<rparr>;
              (b, outcome) =
                (if 0 < remainder
                 then if o_volume_unit o1 = VU_Quote \<or> is_immediate (o_tif o1) \<or> o_live o1 = Market
                      then (b, outcome\<lparr>oc_cancelled := Some remainder\<rparr>)
                      else let (b, visible) = rest b o1 remainder
                           in (b, outcome\<lparr>oc_resting := Some visible\<rparr>)
                 else (b, outcome));
              b = (case vec_last fills of
                     None \<Rightarrow> b
                   | Some print \<Rightarrow> b\<lparr>last_trade_price := Some (o_price (mr_maker print))\<rparr>)
          in run_stops I config b outcome)"

text \<open>Lines 1287--1360: an admissible order, with its sequence assigned.\<close>

definition execute_admitted ::
  "'w i256 \<Rightarrow> OrderBook \<Rightarrow> Order \<Rightarrow> SymbolConfig \<Rightarrow> Outcome \<Rightarrow> panic + (OrderBook \<times> Outcome)" where
  "execute_admitted I b o1 config outcome =
     (let (b, expired) = (if has_gtd_deadlines b then purge_due_gtd b (o_timestamp o1) else (b, []));
          outcome = outcome\<lparr>oc_expired := expired\<rparr>
      in
      if is_stop o1 then
        if (case last_trade_price b of None \<Rightarrow> False | Some l \<Rightarrow> stop_elected o1 l)
        then Inr (b, outcome\<lparr>oc_rejected := Some StopWouldTrigger\<rparr>)
        else
          let b = (case o_tif o1 of
                     Gtd expiry \<Rightarrow>
                       b\<lparr>earliest_gtd_expiry := min_expiry (earliest_gtd_expiry b) expiry\<rparr>
                   | _ \<Rightarrow> b)
          in Inr (b\<lparr>stops := stops b @ [o1]\<rparr>, outcome\<lparr>oc_parked := True\<rparr>)
      else if o_post_only o1 then
        if would_cross b o1
        then Inr (b, outcome\<lparr>oc_rejected := Some PostOnlyWouldCross\<rparr>)
        else let (b, visible) = rest b o1 (o_volume o1)
             in Inr (b, outcome\<lparr>oc_resting := Some visible\<rparr>)
      else if o_tif o1 = Fok \<and> fillable_volume b o1 < o_volume o1
      then Inr (b, outcome\<lparr>oc_rejected := Some FokUnfillable\<rparr>)
      else execute_taker I b o1 config outcome)"

definition execute_order_inner ::
  "'w i256 \<Rightarrow> OrderBook \<Rightarrow> Order \<Rightarrow> SymbolConfig \<Rightarrow> panic + (OrderBook \<times> Order \<times> Outcome)" where
  "execute_order_inner I b o1 config =
     (let (seq, b) = next_market_sequence b;
          o1 = o1\<lparr>o_sequence := seq\<rparr>;
          outcome = Outcome_default\<lparr>oc_market_seq := seq\<rparr>;
          (o1, invalid) = normalize_order I o1 config
      in case invalid of
        Some reason \<Rightarrow> Inr (b, o1, outcome\<lparr>oc_rejected := Some reason\<rparr>)
      | None \<Rightarrow>
          (case (case validate_order o1 of
                   Some reason \<Rightarrow> Some reason
                 | None \<Rightarrow> validate_order_for_symbol o1 config) of
             Some reason \<Rightarrow> Inr (b, o1, outcome\<lparr>oc_rejected := Some reason\<rparr>)
           | None \<Rightarrow>
               (case execute_admitted I b o1 config outcome of
                  Inl p \<Rightarrow> Inl p
                | Inr (b, outcome) \<Rightarrow> Inr (b, o1, outcome))))"

definition execute_order :: "'w i256 \<Rightarrow> OrderBook \<Rightarrow> Order \<Rightarrow> panic + (OrderBook \<times> Order \<times> Outcome)" where
  "execute_order I b o1 = execute_order_inner I b o1 SymbolConfig_default"

definition execute_order_with_symbol ::
  "'w i256 \<Rightarrow> OrderBook \<Rightarrow> Order \<Rightarrow> SymbolConfig \<Rightarrow> panic + (OrderBook \<times> Order \<times> Outcome)" where
  "execute_order_with_symbol I b o1 config = execute_order_inner I b o1 config"

definition place_order :: "'w i256 \<Rightarrow> OrderBook \<Rightarrow> Order \<Rightarrow> panic + (OrderBook \<times> Order \<times> MatchResult list)" where
  "place_order I b o1 =
     (case execute_order I b o1 of
        Inl p \<Rightarrow> Inl p
      | Inr (b, o1, outcome) \<Rightarrow> Inr (b, o1, oc_fills outcome))"

section \<open>Cancel and amend\<close>

definition cancel :: "OrderBook \<Rightarrow> Order \<Rightarrow> OrderBook \<times> Order option" where
  "cancel b o1 =
     (case position (\<lambda>stop. o_side stop = o_side o1 \<and> o_sequence stop = o_sequence o1) (stops b) of
        Some index \<Rightarrow>
          let stop = stops b ! index;
              b = b\<lparr>stops := vec_remove index (stops b)\<rparr>;
              b = (if is_gtd (o_tif stop) then b\<lparr>gtd_scan_dirty := True\<rparr> else b)
          in (b, Some stop)
      | None \<Rightarrow>
          let (b, removed) =
            (case o_side o1 of
               Buy \<Rightarrow>
                 let key = BidKey (o_price o1) (o_sequence o1)
                 in (b\<lparr>bids := bt_remove key (bids b)\<rparr>, bt_get key (bids b))
             | Sell \<Rightarrow>
                 let key = AskKey (o_price o1) (o_sequence o1)
                 in (b\<lparr>asks := bt_remove key (asks b)\<rparr>, bt_get key (asks b)))
          in case removed of
               None \<Rightarrow> (b, None)
             | Some cancelled \<Rightarrow>
                 let b = (if is_gtd (o_tif cancelled) then b\<lparr>gtd_scan_dirty := True\<rparr> else b)
                 in (record_depth_change b (o_side cancelled) (o_price cancelled)
                       (fixed_neg (o_volume cancelled)) (- 1),
                     Some cancelled))"

text \<open>
  \<open>map.get_mut(&key).expect(...)\<close>: the caller has just read \<open>stored\<close> under \<open>key\<close>, so the entry
  exists and is \<open>stored\<close>.
\<close>

definition amend_in_map ::
  "('k::linorder, Order) btree \<Rightarrow> 'k \<Rightarrow> Order \<Rightarrow> fixed \<Rightarrow> fixed \<Rightarrow> u64 \<Rightarrow> (fixed \<Rightarrow> u64 \<Rightarrow> 'k)
    \<Rightarrow> ('k, Order) btree \<times> Amendment \<times> bool" where
  "amend_in_map m key stored new_price new_volume market_seq make_key =
     (if new_price = o_price stored \<and> new_volume \<le> o_volume stored
      then let entry = (case bt_get key m of Some e \<Rightarrow> e | None \<Rightarrow> stored);
               entry = entry\<lparr>o_volume := new_volume\<rparr>
           in (bt_insert key entry m,
               \<lparr>am_market_seq = market_seq, am_order = entry,
                am_previous_sequence = o_sequence stored, am_previous_price = o_price stored,
                am_previous_volume = o_volume stored\<rparr>,
               False)
      else let updated = stored\<lparr>o_price := new_price, o_volume := new_volume,
                                o_sequence := market_seq\<rparr>
           in (bt_insert (make_key new_price market_seq) updated (bt_remove key m),
               \<lparr>am_market_seq = market_seq, am_order = updated,
                am_previous_sequence = o_sequence stored, am_previous_price = o_price stored,
                am_previous_volume = o_volume stored\<rparr>,
               True))"

text \<open>Lines 1524--1539: the journal entries of an accepted amendment.\<close>

definition record_amendment :: "OrderBook \<Rightarrow> OrderSide \<Rightarrow> Amendment \<Rightarrow> bool \<Rightarrow> OrderBook" where
  "record_amendment b side amendment reinserted =
     (if reinserted
      then record_depth_change
             (record_depth_change b side (am_previous_price amendment)
                (fixed_neg (am_previous_volume amendment)) (- 1))
             side (o_price (am_order amendment)) (o_volume (am_order amendment)) 1
      else if o_volume (am_order amendment) \<noteq> am_previous_volume amendment
      then record_depth_change b side (o_price (am_order amendment))
             (fixed_sub (o_volume (am_order amendment)) (am_previous_volume amendment)) 0
      else b)"

definition amend_with_sequence ::
  "OrderBook \<Rightarrow> Order \<Rightarrow> fixed option \<Rightarrow> fixed option \<Rightarrow> u64 \<Rightarrow> OrderBook \<times> (AmendError + Amendment)" where
  "amend_with_sequence b key price volume market_seq =
     (if (case price of None \<Rightarrow> False | Some p \<Rightarrow> \<not> (is_finite p \<and> 0 < p))
      then (b, Inl InvalidPrice)
      else if (case volume of None \<Rightarrow> False | Some v \<Rightarrow> \<not> (is_finite v \<and> 0 < v))
      then (b, Inl InvalidVolume)
      else if is_stop key then (b, Inl NotResting)
      else case (case o_side key of
                   Buy \<Rightarrow> bt_get (BidKey (o_price key) (o_sequence key)) (bids b)
                 | Sell \<Rightarrow> bt_get (AskKey (o_price key) (o_sequence key)) (asks b)) of
        None \<Rightarrow> (b, Inl NotFound)
      | Some stored \<Rightarrow>
          if o_live stored \<noteq> Limit then (b, Inl NotResting)
          else if 0 < o_display_volume stored then (b, Inl UnsupportedType)
          else
            let new_price = (case price of None \<Rightarrow> o_price stored | Some p \<Rightarrow> p);
                new_volume = (case volume of None \<Rightarrow> o_volume stored | Some v \<Rightarrow> v)
            in
            if new_price \<noteq> o_price stored
               \<and> (case o_side key of
                    Buy \<Rightarrow> (case best_ask b of None \<Rightarrow> False | Some ask \<Rightarrow> o_price ask \<le> new_price)
                  | Sell \<Rightarrow> (case best_bid b of None \<Rightarrow> False | Some bid \<Rightarrow> new_price \<le> o_price bid))
            then (b, Inl WouldCross)
            else
              let (b, amendment, reinserted) =
                (case o_side key of
                   Buy \<Rightarrow>
                     let (m, amendment, reinserted) =
                       amend_in_map (bids b) (BidKey (o_price key) (o_sequence key)) stored
                         new_price new_volume market_seq BidKey
                     in (b\<lparr>bids := m\<rparr>, amendment, reinserted)
                 | Sell \<Rightarrow>
                     let (m, amendment, reinserted) =
                       amend_in_map (asks b) (AskKey (o_price key) (o_sequence key)) stored
                         new_price new_volume market_seq AskKey
                     in (b\<lparr>asks := m\<rparr>, amendment, reinserted))
              in (record_amendment b (o_side key) amendment reinserted, Inr amendment))"

definition amend ::
  "OrderBook \<Rightarrow> Order \<Rightarrow> fixed option \<Rightarrow> fixed option \<Rightarrow> OrderBook \<times> (AmendError + Amendment)" where
  "amend b key price volume =
     (let (market_seq, b) = next_market_sequence b
      in amend_with_sequence b key price volume market_seq)"

end
