(* ===== verification/Match_Events.thy ===== *)
theory Match_Events
  imports Order_Types
begin

text \<open>
  \<open>src/match_result/mod.rs\<close>: the order-lifecycle events of one applied log entry, one
  constructor function per \<open>MatchEvent::for_*\<close>, and the in-memory and null sinks.  An event is
  identified by its log index and its ordinal inside the entry; \<open>EventId\<close> derives \<open>Ord\<close>, the
  lexicographic order of the two.
\<close>

section \<open>Identity\<close>

datatype EventId = EventId (ev_log_index: u64) (ev_ordinal: u32)

instantiation EventId :: linorder
begin

definition less_EventId :: "EventId \<Rightarrow> EventId \<Rightarrow> bool" where
  "less_EventId a b \<longleftrightarrow> ev_log_index a < ev_log_index b
     \<or> (ev_log_index a = ev_log_index b \<and> ev_ordinal a < ev_ordinal b)"

definition less_eq_EventId :: "EventId \<Rightarrow> EventId \<Rightarrow> bool" where
  "less_eq_EventId a b \<longleftrightarrow> ev_log_index a < ev_log_index b
     \<or> (ev_log_index a = ev_log_index b \<and> ev_ordinal a \<le> ev_ordinal b)"

instance
  by standard (auto simp: less_EventId_def less_eq_EventId_def EventId.expand)

end

lemma less_EventId_iff [simp]: "EventId i m < EventId j n \<longleftrightarrow> i < j \<or> (i = j \<and> m < n)"
  by (simp add: less_EventId_def)

section \<open>Events\<close>

datatype MatchEventKind = Rested | Fill | Cancelled | Triggered | Expired | Rejected | Amended

record MatchEvent =
  me_event_id :: EventId
  me_kind :: MatchEventKind
  me_order_sequence :: u64
  me_side :: OrderSide
  me_counterparty_sequence :: "u64 option"
  me_previous_sequence :: "u64 option"
  me_price :: fixed
  me_volume :: fixed
  me_quote_volume :: fixed
  me_volume_unit :: VolumeUnit
  me_taker_fee_asset :: "FeeAsset option"
  me_maker_fee_asset :: "FeeAsset option"
  me_taker_fee :: fixed
  me_maker_fee :: fixed
  me_error :: MatchErrors
  me_reason :: "RejectReason option"

text \<open>\<open>first_ordinal + n as u32\<close>: both the cast and the sum wrap at the width of \<open>u32\<close>.\<close>

definition ordinal_at :: "u32 \<Rightarrow> nat \<Rightarrow> u32" where
  "ordinal_at first_ordinal n = wrap_u32 (first_ordinal + wrap_u32 n)"

definition for_fills_into ::
  "u64 \<Rightarrow> u32 \<Rightarrow> OrderSide \<Rightarrow> u64 \<Rightarrow> MatchResult list \<Rightarrow> MatchEvent list \<Rightarrow> MatchEvent list" where
  "for_fills_into log_index first_ordinal taker_side taker_sequence matches events =
     events @ map (\<lambda>(offset, m).
       \<lparr>me_event_id = EventId log_index (ordinal_at first_ordinal offset),
        me_kind = Fill,
        me_order_sequence = taker_sequence,
        me_side = taker_side,
        me_counterparty_sequence = Some (o_sequence (mr_maker m)),
        me_previous_sequence = None,
        me_price = o_price (mr_maker m),
        me_volume = mr_matches m,
        me_quote_volume = mr_notional m,
        me_volume_unit = VU_Base,
        me_taker_fee_asset = Some (mr_taker_fee_asset m),
        me_maker_fee_asset = Some (mr_maker_fee_asset m),
        me_taker_fee = mr_taker_fee m,
        me_maker_fee = mr_maker_fee m,
        me_error = mr_error m,
        me_reason = None\<rparr>) (enumerate 0 matches)"

definition for_fills ::
  "u64 \<Rightarrow> u32 \<Rightarrow> OrderSide \<Rightarrow> u64 \<Rightarrow> MatchResult list \<Rightarrow> MatchEvent list" where
  "for_fills log_index first_ordinal taker_side taker_sequence matches =
     for_fills_into log_index first_ordinal taker_side taker_sequence matches []"

definition for_place_at_into ::
  "u64 \<Rightarrow> u32 \<Rightarrow> Order \<Rightarrow> MatchResult list \<Rightarrow> fixed option \<Rightarrow> MatchEvent list \<Rightarrow> MatchEvent list" where
  "for_place_at_into log_index first_ordinal taker matches resting events =
     (let events = for_fills_into log_index first_ordinal (o_side taker) (o_sequence taker) matches events
      in case resting of
           None \<Rightarrow> events
         | Some volume \<Rightarrow> events @
             [\<lparr>me_event_id = EventId log_index (ordinal_at first_ordinal (length matches)),
               me_kind = Rested,
               me_order_sequence = o_sequence taker,
               me_side = o_side taker,
               me_counterparty_sequence = None,
               me_previous_sequence = None,
               me_price = o_price taker,
               me_volume = volume,
               me_quote_volume = 0,
               me_volume_unit = o_volume_unit taker,
               me_taker_fee_asset = None,
               me_maker_fee_asset = None,
               me_taker_fee = 0,
               me_maker_fee = 0,
               me_error = ERR_NONE,
               me_reason = None\<rparr>])"

definition for_place_at ::
  "u64 \<Rightarrow> u32 \<Rightarrow> Order \<Rightarrow> MatchResult list \<Rightarrow> fixed option \<Rightarrow> MatchEvent list" where
  "for_place_at log_index first_ordinal taker matches resting =
     for_place_at_into log_index first_ordinal taker matches resting []"

definition for_place :: "u64 \<Rightarrow> Order \<Rightarrow> MatchResult list \<Rightarrow> fixed option \<Rightarrow> MatchEvent list" where
  "for_place log_index taker matches resting = for_place_at log_index 0 taker matches resting"

definition for_cancelled_volume :: "u64 \<Rightarrow> u32 \<Rightarrow> Order \<Rightarrow> fixed \<Rightarrow> MatchEvent" where
  "for_cancelled_volume log_index ordinal o1 volume =
     \<lparr>me_event_id = EventId log_index ordinal,
      me_kind = Cancelled,
      me_order_sequence = o_sequence o1,
      me_side = o_side o1,
      me_counterparty_sequence = None,
      me_previous_sequence = None,
      me_price = o_price o1,
      me_volume = volume,
      me_quote_volume = 0,
      me_volume_unit = o_volume_unit o1,
      me_taker_fee_asset = None,
      me_maker_fee_asset = None,
      me_taker_fee = 0,
      me_maker_fee = 0,
      me_error = ERR_NONE,
      me_reason = None\<rparr>"

definition for_cancel_at :: "u64 \<Rightarrow> u32 \<Rightarrow> Order \<Rightarrow> MatchEvent" where
  "for_cancel_at log_index ordinal cancelled =
     for_cancelled_volume log_index ordinal cancelled (open_volume cancelled)"

definition for_cancel :: "u64 \<Rightarrow> Order \<Rightarrow> MatchEvent" where
  "for_cancel log_index cancelled = for_cancel_at log_index 0 cancelled"

definition for_triggered :: "u64 \<Rightarrow> u32 \<Rightarrow> Order \<Rightarrow> fixed \<Rightarrow> MatchEvent" where
  "for_triggered log_index ordinal stop trigger_price =
     \<lparr>me_event_id = EventId log_index ordinal,
      me_kind = Triggered,
      me_order_sequence = o_sequence stop,
      me_side = o_side stop,
      me_counterparty_sequence = None,
      me_previous_sequence = None,
      me_price = trigger_price,
      me_volume = open_volume stop,
      me_quote_volume = 0,
      me_volume_unit = o_volume_unit stop,
      me_taker_fee_asset = None,
      me_maker_fee_asset = None,
      me_taker_fee = 0,
      me_maker_fee = 0,
      me_error = ERR_NONE,
      me_reason = None\<rparr>"

definition for_expired :: "u64 \<Rightarrow> u32 \<Rightarrow> Order \<Rightarrow> MatchEvent" where
  "for_expired log_index ordinal expired =
     \<lparr>me_event_id = EventId log_index ordinal,
      me_kind = Expired,
      me_order_sequence = o_sequence expired,
      me_side = o_side expired,
      me_counterparty_sequence = None,
      me_previous_sequence = None,
      me_price = o_price expired,
      me_volume = open_volume expired,
      me_quote_volume = 0,
      me_volume_unit = o_volume_unit expired,
      me_taker_fee_asset = None,
      me_maker_fee_asset = None,
      me_taker_fee = 0,
      me_maker_fee = 0,
      me_error = ERR_NONE,
      me_reason = None\<rparr>"

definition for_rejected :: "u64 \<Rightarrow> u32 \<Rightarrow> Order \<Rightarrow> RejectReason \<Rightarrow> MatchEvent" where
  "for_rejected log_index ordinal o1 reason =
     \<lparr>me_event_id = EventId log_index ordinal,
      me_kind = Rejected,
      me_order_sequence = o_sequence o1,
      me_side = o_side o1,
      me_counterparty_sequence = None,
      me_previous_sequence = None,
      me_price = o_price o1,
      me_volume = o_volume o1,
      me_quote_volume = 0,
      me_volume_unit = o_volume_unit o1,
      me_taker_fee_asset = None,
      me_maker_fee_asset = None,
      me_taker_fee = 0,
      me_maker_fee = 0,
      me_error = ERR_NONE,
      me_reason = Some reason\<rparr>"

definition for_amended :: "u64 \<Rightarrow> u32 \<Rightarrow> Amendment \<Rightarrow> MatchEvent" where
  "for_amended log_index ordinal amendment =
     \<lparr>me_event_id = EventId log_index ordinal,
      me_kind = Amended,
      me_order_sequence = o_sequence (am_order amendment),
      me_side = o_side (am_order amendment),
      me_counterparty_sequence = None,
      me_previous_sequence = Some (am_previous_sequence amendment),
      me_price = o_price (am_order amendment),
      me_volume = o_volume (am_order amendment),
      me_quote_volume = 0,
      me_volume_unit = o_volume_unit (am_order amendment),
      me_taker_fee_asset = None,
      me_maker_fee_asset = None,
      me_taker_fee = 0,
      me_maker_fee = 0,
      me_error = ERR_NONE,
      me_reason = None\<rparr>"

section \<open>Sinks\<close>

text \<open>
  \<open>NoopSink\<close> drops a batch.  \<open>MemorySink\<close> is the list of the events published so far.
\<close>

definition NoopSink_publish :: "MatchEvent list \<Rightarrow> unit \<Rightarrow> unit" where
  "NoopSink_publish events u = ()"

type_synonym MemorySink = "MatchEvent list"

definition MemorySink_new :: MemorySink where
  "MemorySink_new = []"

definition MemorySink_publish :: "MatchEvent list \<Rightarrow> MemorySink \<Rightarrow> MemorySink" where
  "MemorySink_publish events sink = sink @ events"

definition MemorySink_len :: "MemorySink \<Rightarrow> nat" where
  "MemorySink_len sink = length sink"

definition MemorySink_is_empty :: "MemorySink \<Rightarrow> bool" where
  "MemorySink_is_empty sink \<longleftrightarrow> sink = []"

definition MemorySink_clear :: "MemorySink \<Rightarrow> MemorySink" where
  "MemorySink_clear sink = []"

section \<open>Numbering\<close>

text \<open>
  A batch is numbered from \<open>first\<close> when its ids are \<open>(log_index, first)\<close>, \<open>(log_index, first + 1)\<close>
  and so on.  Every constructor continues the numbering of the events it is appended to, as long
  as the entry stays within the \<open>2 ^ 32\<close> ordinals.
\<close>

definition numbered :: "u64 \<Rightarrow> u32 \<Rightarrow> MatchEvent list \<Rightarrow> bool" where
  "numbered log_index first events \<longleftrightarrow>
     map me_event_id events = map (EventId log_index) [first..<first + length events]"

lemma ordinal_at_id: "first + n < 2 ^ 32 \<Longrightarrow> ordinal_at first n = first + n"
  by (simp add: ordinal_at_def wrap_u32_id)

lemma numbered_Nil [simp]: "numbered log_index first []"
  by (simp add: numbered_def)

lemma numbered_append:
  assumes "numbered log_index first xs" "numbered log_index (first + length xs) ys"
  shows "numbered log_index first (xs @ ys)"
proof -
  have "[first..<first + (length xs + length ys)] =
    [first..<first + length xs] @ [first + length xs..<first + length xs + length ys]"
    using upt_add_eq_append[of first "first + length xs" "length ys"] by (simp add: add.assoc)
  with assms show ?thesis by (simp add: numbered_def)
qed

lemma numbered_singleton: "me_event_id e = EventId log_index n \<Longrightarrow> numbered log_index n [e]"
  by (simp add: numbered_def)

lemma for_fills_into_append:
  "for_fills_into i f side s ms evs = evs @ for_fills i f side s ms"
  by (simp add: for_fills_def for_fills_into_def)

lemma length_for_fills [simp]: "length (for_fills i f side s ms) = length ms"
  by (simp add: for_fills_def for_fills_into_def)

lemma numbered_for_fills:
  assumes "f + length ms < 2 ^ 32"
  shows "numbered i f (for_fills i f side s ms)"
  unfolding numbered_def
proof (rule nth_equalityI)
  fix n assume "n < length (map me_event_id (for_fills i f side s ms))"
  then have "n < length ms" by simp
  with assms show "map me_event_id (for_fills i f side s ms) ! n =
      map (EventId i) [f..<f + length (for_fills i f side s ms)] ! n"
    by (simp add: for_fills_def for_fills_into_def nth_enumerate_eq ordinal_at_id)
qed simp

lemma for_place_at_into_append:
  "for_place_at_into i f taker ms resting evs = evs @ for_place_at i f taker ms resting"
  by (simp add: for_place_at_def for_place_at_into_def for_fills_into_append Let_def
      for_fills_def[symmetric] split: option.splits)

lemma length_for_place_at [simp]:
  "length (for_place_at i f taker ms resting) = length ms + (case resting of None \<Rightarrow> 0 | Some v \<Rightarrow> 1)"
  by (simp add: for_place_at_def for_place_at_into_def for_fills_into_append Let_def split: option.splits)

lemma numbered_for_place_at:
  assumes "f + length (for_place_at i f taker ms resting) < 2 ^ 32"
  shows "numbered i f (for_place_at i f taker ms resting)"
proof (cases resting)
  case None
  with assms show ?thesis
    by (simp add: for_place_at_def for_place_at_into_def for_fills_into_append numbered_for_fills)
next
  case (Some v)
  with assms have "f + length ms < 2 ^ 32" by simp
  with Some show ?thesis
    unfolding for_place_at_def for_place_at_into_def Let_def for_fills_into_append
    by (auto intro!: numbered_append numbered_for_fills numbered_singleton simp: ordinal_at_id)
qed

lemma single_event_ids [simp]:
  "me_event_id (for_cancelled_volume i n o1 v) = EventId i n"
  "me_event_id (for_cancel_at i n o1) = EventId i n"
  "me_event_id (for_triggered i n o1 p) = EventId i n"
  "me_event_id (for_expired i n o1) = EventId i n"
  "me_event_id (for_rejected i n o1 r) = EventId i n"
  "me_event_id (for_amended i n a) = EventId i n"
  by (simp_all add: for_cancelled_volume_def for_cancel_at_def for_triggered_def for_expired_def
      for_rejected_def for_amended_def)

lemma numbered_sorted: "numbered i f xs \<Longrightarrow> sorted_wrt (<) (map me_event_id xs)"
  by (simp add: numbered_def sorted_wrt_map)

lemma numbered_ids: "numbered i f xs \<Longrightarrow> e \<in> set xs \<Longrightarrow>
  \<exists>n. f \<le> n \<and> n < f + length xs \<and> me_event_id e = EventId i n"
proof -
  assume n: "numbered i f xs" and e: "e \<in> set xs"
  from e have "me_event_id e \<in> set (map me_event_id xs)" by simp
  also have "\<dots> = EventId i ` {f..<f + length xs}"
    unfolding n[unfolded numbered_def] by simp
  finally show ?thesis by auto
qed

end
