(* ===== verification/Market_Types.thy ===== *)
theory Market_Types
  imports Match_Events
begin

text \<open>
  The data of \<open>src/market_data/mod.rs\<close>: stream numbers, header flags, the feed configuration and
  counters, the records of the eight message bodies, and the frames that pass from the state
  machine to the market-data task.
\<close>

section \<open>Streams and flags\<close>

type_synonym u16 = nat

definition STREAM_TRADE :: u16 where "STREAM_TRADE = 2001"
definition STREAM_BBO :: u16 where "STREAM_BBO = 2002"
definition STREAM_DEPTH_SNAPSHOT :: u16 where "STREAM_DEPTH_SNAPSHOT = 2003"
definition STREAM_DEPTH_DELTA :: u16 where "STREAM_DEPTH_DELTA = 2004"
definition STREAM_LIFECYCLE :: u16 where "STREAM_LIFECYCLE = 2005"
definition STREAM_STATUS :: u16 where "STREAM_STATUS = 2006"
definition STREAM_BAR :: u16 where "STREAM_BAR = 2007"

definition GAP_SUB_SEQ :: u16 where "GAP_SUB_SEQ = 65535"
definition SNAPSHOT_BBO_SUB_SEQ :: u16 where "SNAPSHOT_BBO_SUB_SEQ = 1"

definition FLAG_SNAPSHOT :: u16 where "FLAG_SNAPSHOT = push_bit 0 1"
definition FLAG_RESET :: u16 where "FLAG_RESET = push_bit 1 1"
definition FLAG_GAP :: u16 where "FLAG_GAP = push_bit 2 1"
definition FLAG_END_OF_BATCH :: u16 where "FLAG_END_OF_BATCH = push_bit 3 1"
definition FLAG_RESERVED_THROTTLE :: u16 where "FLAG_RESERVED_THROTTLE = push_bit 4 1"
definition FLAG_PARTIAL_BAR :: u16 where "FLAG_PARTIAL_BAR = push_bit 5 1"
definition FLAG_BAR_CLOSE :: u16 where "FLAG_BAR_CLOSE = push_bit 6 1"

section \<open>Configuration and counters\<close>

record MarketDataConfig =
  mc_log_path :: "string option"
  mc_depth_levels :: nat
  mc_status_every :: u64
  mc_lifecycle_batch_max :: nat
  mc_bar_intervals_ms :: "u64 list"
  mc_queue_capacity :: nat
  mc_leader_only :: bool
  mc_aeron_channel :: "string option"
  mc_aeron_stream_base :: u16
  mc_aeron_dir :: "string option"
  mc_aeron_embedded_driver :: bool
  mc_snapshot_every_ms :: u64

definition MarketDataConfig_default :: MarketDataConfig where
  "MarketDataConfig_default =
     \<lparr>mc_log_path = None, mc_depth_levels = 10, mc_status_every = 100, mc_lifecycle_batch_max = 512,
      mc_bar_intervals_ms = [1000, 60000], mc_queue_capacity = 8192, mc_leader_only = True,
      mc_aeron_channel = None, mc_aeron_stream_base = 2001, mc_aeron_dir = None,
      mc_aeron_embedded_driver = False, mc_snapshot_every_ms = 30000\<rparr>"

definition MarketDataConfig_jsonl :: "string \<Rightarrow> MarketDataConfig" where
  "MarketDataConfig_jsonl path = MarketDataConfig_default\<lparr>mc_log_path := Some path\<rparr>"

record MarketDataStats =
  st_frames :: u64
  st_trades :: u64
  st_trade_messages :: u64
  st_bbo :: u64
  st_depth_snapshots :: u64
  st_depth_deltas :: u64
  st_lifecycle_messages :: u64
  st_lifecycle_shed :: u64
  st_bars :: u64
  st_status :: u64
  st_gaps :: u64
  st_dropped_frames :: u64
  st_queued_frames :: u64
  st_queued_peak :: u64
  st_queue_capacity :: u64
  st_snapshots :: u64
  st_last_market_seq :: u64
  st_last_log_index :: u64
  st_last_ts_ms :: u64
  st_publishing :: bool
  st_sink :: "string option"

definition MarketDataStats_default :: MarketDataStats where
  "MarketDataStats_default =
     \<lparr>st_frames = 0, st_trades = 0, st_trade_messages = 0, st_bbo = 0, st_depth_snapshots = 0,
      st_depth_deltas = 0, st_lifecycle_messages = 0, st_lifecycle_shed = 0, st_bars = 0,
      st_status = 0, st_gaps = 0, st_dropped_frames = 0, st_queued_frames = 0, st_queued_peak = 0,
      st_queue_capacity = 0, st_snapshots = 0, st_last_market_seq = 0, st_last_log_index = 0,
      st_last_ts_ms = 0, st_publishing = False, st_sink = None\<rparr>"

text \<open>The \<open>OnceLock\<close> keeps the first name.\<close>

definition set_sink :: "MarketDataStats \<Rightarrow> string \<Rightarrow> MarketDataStats" where
  "set_sink stats sink_name = (case st_sink stats of None \<Rightarrow> stats\<lparr>st_sink := Some sink_name\<rparr> | Some _ \<Rightarrow> stats)"

section \<open>Message bodies\<close>

record TradeRecord =
  tr_log_index :: u64
  tr_ordinal :: u32
  tr_ts_ms :: u64
  tr_price :: fixed
  tr_volume :: fixed
  tr_quote_volume :: fixed
  tr_taker_fee :: fixed
  tr_taker_fee_asset :: "FeeAsset option"
  tr_maker_fee :: fixed
  tr_maker_fee_asset :: "FeeAsset option"
  tr_error :: MatchErrors
  tr_taker_side :: OrderSide
  tr_taker_sequence :: u64
  tr_maker_sequence :: u64

record BboRecord =
  bb_last_trade :: "fixed option"
  bb_bid :: fixed
  bb_bid_volume :: fixed
  bb_ask :: fixed
  bb_ask_volume :: fixed
  bb_mid :: "fixed option"
  bb_spread :: "fixed option"

record DepthSnapshotRecord =
  ds_bids :: "DepthLevel list"
  ds_asks :: "DepthLevel list"

record LevelUpdate =
  lu_side :: OrderSide
  lu_level :: DepthLevel

record LifecycleRecord =
  lr_log_index :: u64
  lr_ordinal :: u32
  lr_ts_ms :: u64
  lr_kind :: MatchEventKind
  lr_order_sequence :: u64
  lr_side :: OrderSide
  lr_counterparty_sequence :: "u64 option"
  lr_price :: fixed
  lr_volume :: fixed
  lr_quote_volume :: fixed
  lr_volume_unit :: VolumeUnit
  lr_taker_fee :: fixed
  lr_taker_fee_asset :: "FeeAsset option"
  lr_maker_fee :: fixed
  lr_maker_fee_asset :: "FeeAsset option"
  lr_error :: MatchErrors
  lr_reason :: "RejectReason option"

record BarRecord =
  br_interval_ms :: u64
  br_window_start_ms :: u64
  br_last_ts_ms :: u64
  br_open :: fixed
  br_high :: fixed
  br_low :: fixed
  br_close :: fixed
  br_volume :: fixed
  br_trade_count :: u32
  br_bar_seq :: u64

record StatusRecord =
  sr_last_log_index :: u64
  sr_last_ordinal :: u32
  sr_last_market_seq :: u64
  sr_last_sub_seq :: u16
  sr_applied_index :: u64
  sr_book_sequence :: u64
  sr_pending_stops :: u32

record GapRecord =
  gr_last_good_log_index :: u64
  gr_last_good_ordinal :: u32
  gr_dropped :: u32

datatype MessageBody =
    MB_Trade "TradeRecord list"
  | MB_Bbo BboRecord
  | MB_DepthSnapshot DepthSnapshotRecord
  | MB_DepthDelta "LevelUpdate list"
  | MB_Lifecycle "LifecycleRecord list"
  | MB_Status StatusRecord
  | MB_Gap GapRecord
  | MB_Bar BarRecord

record MarketMessage =
  mm_stream :: u16
  mm_flags :: u16
  mm_market_seq :: u64
  mm_sub_seq :: u16
  mm_log_index :: u64
  mm_ordinal :: u32
  mm_epoch :: u64
  mm_leader_id :: u64
  mm_ts_ms :: u64
  mm_symbol_id :: u32
  mm_body :: MessageBody

section \<open>Frames\<close>

record TapFrame =
  tf_log_index :: u64
  tf_market_seq :: u64
  tf_ts_ms :: u64
  tf_symbol_id :: u32
  tf_events :: "MatchEvent list"
  tf_depth :: "DepthChange list"

record SnapshotFrame =
  sf_log_index :: u64
  sf_market_seq :: u64
  sf_ts_ms :: u64
  sf_symbol_id :: u32
  sf_bids :: "DepthLevel list"
  sf_asks :: "DepthLevel list"
  sf_last_trade :: "fixed option"
  sf_book_sequence :: u64
  sf_pending_stops :: u32

end
