(* ===== verification/State_Machine.thy ===== *)
theory State_Machine
  imports Order_Book Market_Types
begin

text \<open>
  The replicated state machine: the request and response types of \<open>src/store/types.rs\<close> and, from
  \<open>src/store/state_machine.rs\<close>, the in-memory state, the retained event window, the
  client-order-id dedupe table, and the application of log entries (\<open>apply_one\<close>, \<open>apply\<close>).

  The log id and membership types of openraft are type parameters; \<open>openraft\<close> collects the three
  functions of that crate the code calls.  Values the code reads from its surroundings (the
  publishing gate of the market-data tap, the installed control handle, the wall clock) are
  arguments, collected in \<open>apply_env\<close>.
\<close>

section \<open>Requests and responses\<close>

datatype MatchEngineRequest =
    Place Order "string option"
  | Cancel Order
  | Amend Order "fixed option" "fixed option"
  | PurgeExpired u64 "u64 option"
  | ConfigureSymbol SymbolConfig
  | Batch "MatchEngineRequest list"

definition place :: "Order \<Rightarrow> MatchEngineRequest" where
  "place o1 = Place o1 None"

definition place_with_client_id :: "Order \<Rightarrow> string \<Rightarrow> MatchEngineRequest" where
  "place_with_client_id o1 client_order_id = Place o1 (Some client_order_id)"

datatype MatchEngineResponse =
  MatchEngineResponse
    (rs_value: "string option")
    (rs_sequence: "u64 option")
    (rs_events: "MatchEvent list")
    (rs_events_truncated: bool)
    (rs_error: "string option")
    (rs_batch: "MatchEngineResponse list")

definition RESPONSE_MAX_EVENTS :: nat where
  "RESPONSE_MAX_EVENTS = 512"

definition response_new :: "string \<Rightarrow> MatchEngineResponse" where
  "response_new value = MatchEngineResponse (Some value) None [] False None []"

definition applied :: "u64 \<Rightarrow> MatchEvent list \<Rightarrow> MatchEngineResponse" where
  "applied sequence events =
     MatchEngineResponse (Some (show_nat sequence)) (Some sequence) (take RESPONSE_MAX_EVENTS events)
       (RESPONSE_MAX_EVENTS < length events) None []"

definition duplicate :: "u64 \<Rightarrow> MatchEvent list \<Rightarrow> bool \<Rightarrow> MatchEngineResponse" where
  "duplicate sequence events truncated =
     MatchEngineResponse (Some (show_nat sequence)) (Some sequence) events truncated None []"

definition response_none :: MatchEngineResponse where
  "response_none = MatchEngineResponse None None [] False None []"

definition response_batch :: "MatchEngineResponse list \<Rightarrow> MatchEngineResponse" where
  "response_batch responses = MatchEngineResponse None None [] False None responses"

definition response_error :: "string \<Rightarrow> MatchEngineResponse" where
  "response_error message = MatchEngineResponse None None [] False (Some message) []"

section \<open>State\<close>

record ('l, 'm, 'sm) openraft =
  rf_index :: "'l \<Rightarrow> u64"
  rf_stored_membership :: "'l option \<Rightarrow> 'm \<Rightarrow> 'sm"
  rf_default_membership :: "'sm"

datatype 'm EntryPayload = Blank | Normal MatchEngineRequest | Membership 'm

record ('l, 'm) Entry =
  en_log_id :: 'l
  en_payload :: "'m EntryPayload"

record SubmissionRecord =
  sub_client_order_id :: string
  sub_order_sequence :: u64
  sub_log_index :: u64
  sub_event_count :: u32
  sub_first_ordinal :: "u32 option"

definition DEFAULT_MAX_EVENTS :: nat where
  "DEFAULT_MAX_EVENTS = 262144"

definition MAX_SUBMISSIONS :: nat where
  "MAX_SUBMISSIONS = 262144"

record ('l, 'sm) SnapshotMeta =
  meta_last_log_id :: "'l option"
  meta_last_membership :: 'sm

record ('l, 'sm) StoredSnapshot =
  ss_meta :: "('l, 'sm) SnapshotMeta"
  ss_data :: "u8 list"

record ('l, 'sm) StateMachineStoreInner =
  last_applied_log :: "'l option"
  last_membership :: 'sm
  orderbook :: OrderBook
  symbol_config :: SymbolConfig
  symbol_locked :: bool
  current_snapshot :: "('l, 'sm) StoredSnapshot option"
  market_data :: bool
  sm_events :: "MatchEvent list"
  events_evicted :: u64
  submissions :: "(string, SubmissionRecord) btree"
  submission_order :: "SubmissionRecord list"
  submissions_evicted :: u64
  max_events :: nat
  max_submissions :: nat

definition Inner_default :: "('l, 'm, 'sm) openraft \<Rightarrow> ('l, 'sm) StateMachineStoreInner" where
  "Inner_default raft =
     \<lparr>last_applied_log = None, last_membership = rf_default_membership raft,
      orderbook = OrderBook_new, symbol_config = SymbolConfig_default, symbol_locked = False,
      current_snapshot = None, market_data = False, sm_events = [], events_evicted = 0,
      submissions = [], submission_order = [], submissions_evicted = 0,
      max_events = DEFAULT_MAX_EVENTS, max_submissions = MAX_SUBMISSIONS\<rparr>"

section \<open>The event window\<close>

function trim_events ::
  "('l, 'sm) StateMachineStoreInner \<Rightarrow> ('l, 'sm) StateMachineStoreInner" where
  "trim_events s =
     (if max_events s < length (sm_events s)
      then trim_events (s\<lparr>sm_events := tl (sm_events s),
                          events_evicted := wrap_u64 (events_evicted s + 1)\<rparr>)
      else s)"
  by pat_completeness auto
termination
  by (relation "measure (\<lambda>s. length (sm_events s))") auto

declare trim_events.simps [simp del]

definition record_events ::
  "('l, 'sm) StateMachineStoreInner \<Rightarrow> MatchEvent list \<Rightarrow> ('l, 'sm) StateMachineStoreInner" where
  "record_events s events = trim_events (s\<lparr>sm_events := sm_events s @ events\<rparr>)"

section \<open>The dedupe table\<close>

function trim_submissions ::
  "('l, 'sm) StateMachineStoreInner \<Rightarrow> ('l, 'sm) StateMachineStoreInner" where
  "trim_submissions s =
     (if max_submissions s < length (submission_order s)
      then (case submission_order s of
              [] \<Rightarrow> s
            | old # rest_order \<Rightarrow>
                let still_current =
                      (case bt_get (sub_client_order_id old) (submissions s) of
                         None \<Rightarrow> False
                       | Some current \<Rightarrow> sub_order_sequence current = sub_order_sequence old
                           \<and> sub_log_index current = sub_log_index old)
                in trim_submissions (s\<lparr>submission_order := rest_order,
                     submissions := (if still_current
                                     then bt_remove (sub_client_order_id old) (submissions s)
                                     else submissions s),
                     submissions_evicted := wrap_u64 (submissions_evicted s + 1)\<rparr>))
      else s)"
  by pat_completeness auto
termination
  by (relation "measure (\<lambda>s. length (submission_order s))") auto

declare trim_submissions.simps [simp del]

definition record_submission ::
  "('l, 'sm) StateMachineStoreInner \<Rightarrow> string \<Rightarrow> u64 \<Rightarrow> u64 \<Rightarrow> u32 \<Rightarrow> u32
    \<Rightarrow> ('l, 'sm) StateMachineStoreInner" where
  "record_submission s client_order_id order_sequence log_index first_ordinal event_count =
     (let sub = \<lparr>sub_client_order_id = client_order_id, sub_order_sequence = order_sequence,
                sub_log_index = log_index, sub_event_count = event_count,
                sub_first_ordinal = Some first_ordinal\<rparr>
      in trim_submissions (s\<lparr>submissions := bt_insert client_order_id sub (submissions s),
                             submission_order := submission_order s @ [sub]\<rparr>))"

text \<open>
  \<open>partition_point\<close> of a window whose ids are sorted is the length of the prefix that satisfies
  the predicate.  The loop reads on from there and stops at the first event of another entry or,
  for a record whose first ordinal is known, past the submission's own ordinals.
\<close>

definition sat_add_u32 :: "u32 \<Rightarrow> u32 \<Rightarrow> u32" where
  "sat_add_u32 a b = sat_u32 (a + b)"

primrec submission_loop ::
  "SubmissionRecord \<Rightarrow> u32 \<Rightarrow> MatchEvent list \<Rightarrow> MatchEvent list \<times> u32 \<Rightarrow> MatchEvent list \<times> u32" where
  "submission_loop sub last_ord [] acc = acc"
| "submission_loop sub last_ord (event # evs) acc =
     (if ev_log_index (me_event_id event) \<noteq> sub_log_index sub then acc
      else if sub_first_ordinal sub \<noteq> None \<and> last_ord \<le> ev_ordinal (me_event_id event) then acc
      else submission_loop sub last_ord evs
             (if length (fst acc) < RESPONSE_MAX_EVENTS then fst acc @ [event] else fst acc,
              sat_add_u32 (snd acc) 1))"

definition submission_events ::
  "('l, 'sm) StateMachineStoreInner \<Rightarrow> SubmissionRecord \<Rightarrow> MatchEvent list \<times> bool" where
  "submission_events s sub =
     (let first = (case sub_first_ordinal sub of None \<Rightarrow> 0 | Some f \<Rightarrow> f);
          start_id = EventId (sub_log_index sub) first;
          start = length (takeWhile (\<lambda>event. me_event_id event < start_id) (sm_events s));
          last_ord = sat_add_u32 first (sub_event_count sub);
          (evs, tot) = submission_loop sub last_ord (drop start (sm_events s)) ([], 0);
          truncated = (wrap_u32 RESPONSE_MAX_EVENTS < tot \<or> tot < sub_event_count sub)
      in (evs, truncated))"

definition duplicate_response ::
  "('l, 'sm) StateMachineStoreInner \<Rightarrow> SubmissionRecord \<Rightarrow> MatchEngineResponse" where
  "duplicate_response s sub =
     (let (evs, truncated) = submission_events s sub
      in duplicate (sub_order_sequence sub) evs truncated)"

section \<open>Reads of the window\<close>

primrec since_loop ::
  "EventId option \<Rightarrow> nat \<Rightarrow> MatchEvent list \<Rightarrow> MatchEvent list \<Rightarrow> MatchEvent list \<times> bool" where
  "since_loop after limit [] evs = (evs, False)"
| "since_loop after limit (event # window) evs =
     (if (case after of None \<Rightarrow> False | Some cursor \<Rightarrow> me_event_id event \<le> cursor)
      then since_loop after limit window evs
      else if length evs = limit then (evs, True)
      else since_loop after limit window (evs @ [event]))"

definition events_since ::
  "('l, 'sm) StateMachineStoreInner \<Rightarrow> EventId option \<Rightarrow> nat
    \<Rightarrow> MatchEvent list \<times> EventId option \<times> bool" where
  "events_since s after limit =
     (let (evs, has_more) = since_loop after limit (sm_events s) [];
          next_after = (case vec_last evs of None \<Rightarrow> after | Some event \<Rightarrow> Some (me_event_id event))
      in (evs, next_after, has_more))"

definition oldest_event_id :: "('l, 'sm) StateMachineStoreInner \<Rightarrow> EventId option" where
  "oldest_event_id s = (case sm_events s of [] \<Rightarrow> None | event # _ \<Rightarrow> Some (me_event_id event))"

definition last_event_id :: "('l, 'sm) StateMachineStoreInner \<Rightarrow> EventId option" where
  "last_event_id s = map_option me_event_id (vec_last (sm_events s))"

definition retained_event_count :: "('l, 'sm) StateMachineStoreInner \<Rightarrow> nat" where
  "retained_event_count s = length (sm_events s)"

definition orders :: "('l, 'sm) StateMachineStoreInner \<Rightarrow> Order list" where
  "orders s = bt_values (bids (orderbook s)) @ bt_values (asks (orderbook s))"

section \<open>The symbol\<close>

definition configure_symbol ::
  "('l, 'sm) StateMachineStoreInner \<Rightarrow> SymbolConfig
    \<Rightarrow> string + ('l, 'sm) StateMachineStoreInner" where
  "configure_symbol s config =
     (case SymbolConfig_validate config of
        Inl _ \<Rightarrow> Inl ''invalid symbol precision, tick, lot or fee policy''
      | Inr config \<Rightarrow>
          if symbol_locked s then Inl ''symbol configuration is locked after trading starts''
          else if bids (orderbook s) \<noteq> [] \<or> asks (orderbook s) \<noteq> [] \<or> stops (orderbook s) \<noteq> []
          then Inl ''cannot change the symbol configuration while orders are open''
          else Inr (s\<lparr>symbol_config := config,
                      orderbook := (orderbook s)\<lparr>last_trade_price := None\<rparr>\<rparr>))"

definition configured_symbol_for ::
  "('l, 'sm) StateMachineStoreInner \<Rightarrow> Order \<Rightarrow> RejectReason + SymbolConfig" where
  "configured_symbol_for s o1 =
     (if o_symbol_id o1 \<noteq> cfg_symbol_id (symbol_config s) then Inl UnsupportedOrder
      else Inr (symbol_config s))"

definition validate_amend_values ::
  "('l, 'sm) StateMachineStoreInner \<Rightarrow> Order \<Rightarrow> fixed option \<Rightarrow> fixed option
    \<Rightarrow> RejectReason + SymbolConfig" where
  "validate_amend_values s o1 price volume =
     (case configured_symbol_for s o1 of
        Inl reason \<Rightarrow> Inl reason
      | Inr config \<Rightarrow>
          let price_ok = (case price of
                None \<Rightarrow> True
              | Some value \<Rightarrow> has_at_most_decimals value (price_decimals config)
                  \<and> is_multiple_of value (price_tick config));
              volume_ok = (case volume of
                None \<Rightarrow> True
              | Some value \<Rightarrow> has_at_most_decimals value (asset_decimals (base_asset config))
                  \<and> is_multiple_of value (base_lot config))
          in if price_ok \<and> volume_ok then Inr config else Inl InvalidOrder)"

section \<open>Publication\<close>

record PendingPublish =
  pp_events :: "MatchEvent list"
  pp_market :: "TapFrame option"

text \<open>
  What an application hands on: the publications collected for the sink and the tap, and the
  reset snapshots pushed to the market-data control.
\<close>

record apply_out =
  out_publishes :: "PendingPublish list"
  out_resets :: "SnapshotFrame list"

text \<open>
  \<open>env_gate i\<close> is the tap's \<open>enabled\<close> flag when the \<open>i\<close>-th request of the entry reads it,
  \<open>env_control\<close> the installed control handle as its \<open>is_publishing()\<close> and the snapshot depth, and
  \<open>env_now\<close> the wall clock in milliseconds.
\<close>

record apply_env =
  env_gate :: "nat \<Rightarrow> bool"
  env_control :: "(bool \<times> nat) option"
  env_now :: u64

definition snapshot_from_inner ::
  "('l, 'm, 'sm) openraft \<Rightarrow> u64 \<Rightarrow> ('l, 'sm) StateMachineStoreInner \<Rightarrow> nat \<Rightarrow> SnapshotFrame" where
  "snapshot_from_inner raft now s depth_levels =
     \<lparr>sf_log_index = (case last_applied_log s of None \<Rightarrow> 0 | Some log_id \<Rightarrow> rf_index raft log_id),
      sf_market_seq = ob_sequence (orderbook s),
      sf_ts_ms = now,
      sf_symbol_id = cfg_symbol_id (symbol_config s),
      sf_bids = depth (orderbook s) Buy depth_levels,
      sf_asks = depth (orderbook s) Sell depth_levels,
      sf_last_trade = last_trade_price (orderbook s),
      sf_book_sequence = ob_sequence (orderbook s),
      sf_pending_stops = wrap_u32 (length (stops (orderbook s)))\<rparr>"

definition publish_market_data_reset ::
  "('l, 'm, 'sm) openraft \<Rightarrow> apply_env \<Rightarrow> ('l, 'sm) StateMachineStoreInner \<Rightarrow> apply_out \<Rightarrow> apply_out" where
  "publish_market_data_reset raft env s out =
     (case env_control env of
        None \<Rightarrow> out
      | Some (is_publishing, depth_levels) \<Rightarrow>
          if is_publishing
          then out\<lparr>out_resets := out_resets out
                     @ [snapshot_from_inner raft (env_now env) s depth_levels]\<rparr>
          else out)"

definition configure_symbol_locked ::
  "('l, 'm, 'sm) openraft \<Rightarrow> apply_env \<Rightarrow> ('l, 'sm) StateMachineStoreInner \<Rightarrow> SymbolConfig \<Rightarrow> apply_out
    \<Rightarrow> string + ('l, 'sm) StateMachineStoreInner \<times> apply_out" where
  "configure_symbol_locked raft env s config out =
     (case configure_symbol s config of
        Inl error \<Rightarrow> Inl error
      | Inr s \<Rightarrow> Inr (s, publish_market_data_reset raft env s out))"

definition take_market_frame ::
  "('l, 'sm) StateMachineStoreInner \<Rightarrow> bool \<Rightarrow> u64 \<Rightarrow> u64 \<Rightarrow> u64 \<Rightarrow> u32 \<Rightarrow> MatchEvent list
    \<Rightarrow> ('l, 'sm) StateMachineStoreInner \<times> TapFrame option" where
  "take_market_frame s is_enabled log_index market_seq ts_ms symbol_id events =
     (if \<not> market_data s then (s, None)
      else let (changes, book) = take_depth_journal (orderbook s);
               s = s\<lparr>orderbook := book\<rparr>
           in if \<not> is_enabled then (s, None)
              else if events = [] \<and> changes = [] then (s, None)
              else (s, Some \<lparr>tf_log_index = log_index, tf_market_seq = market_seq, tf_ts_ms = ts_ms,
                            tf_symbol_id = symbol_id, tf_events = events, tf_depth = changes\<rparr>))"

definition push_publish :: "apply_out \<Rightarrow> MatchEvent list \<Rightarrow> TapFrame option \<Rightarrow> apply_out" where
  "push_publish out events market =
     (if events \<noteq> [] \<or> market \<noteq> None
      then out\<lparr>out_publishes := out_publishes out @ [\<lparr>pp_events = events, pp_market = market\<rparr>]\<rparr>
      else out)"

section \<open>Applying one request\<close>

definition push_expired :: "u64 \<Rightarrow> u32 \<Rightarrow> MatchEvent list \<Rightarrow> Order \<Rightarrow> MatchEvent list" where
  "push_expired log_index first_ordinal events expired =
     events @ [for_expired log_index (ordinal_at first_ordinal (length events)) expired]"

definition push_trigger :: "u64 \<Rightarrow> u32 \<Rightarrow> MatchEvent list \<Rightarrow> StopExecution \<Rightarrow> MatchEvent list" where
  "push_trigger log_index first_ordinal events trigger =
     (let events = events @
            [for_triggered log_index (ordinal_at first_ordinal (length events)) (se_stop trigger)
               (se_trigger_price trigger)];
          events = for_fills_into log_index (ordinal_at first_ordinal (length events))
            (o_side (se_stop trigger)) (o_sequence (se_stop trigger)) (se_fills trigger) events
      in case se_cancelled trigger of
           None \<Rightarrow> events
         | Some volume \<Rightarrow> events @
             [for_cancelled_volume log_index (ordinal_at first_ordinal (length events))
                (se_stop trigger) volume])"

definition place_events :: "u64 \<Rightarrow> u32 \<Rightarrow> Order \<Rightarrow> Outcome \<Rightarrow> MatchEvent list" where
  "place_events log_index first_ordinal o1 outcome =
     (case oc_rejected outcome of
        Some reason \<Rightarrow> [for_rejected log_index first_ordinal o1 reason]
      | None \<Rightarrow>
          let events = foldl (push_expired log_index first_ordinal) [] (oc_expired outcome);
              events = for_place_at_into log_index (ordinal_at first_ordinal (length events)) o1
                (oc_fills outcome) (oc_resting outcome) events;
              events = (case oc_cancelled outcome of
                  None \<Rightarrow> events
                | Some volume \<Rightarrow> events @
                    [for_cancelled_volume log_index (ordinal_at first_ordinal (length events)) o1 volume])
          in foldl (push_trigger log_index first_ordinal) events (oc_triggers outcome))"

definition apply_place ::
  "'w i256 \<Rightarrow> bool \<Rightarrow> ('l, 'sm) StateMachineStoreInner \<Rightarrow> Order \<Rightarrow> string option \<Rightarrow> u64 \<Rightarrow> u32 \<Rightarrow> apply_out
    \<Rightarrow> panic + ('l, 'sm) StateMachineStoreInner \<times> MatchEngineResponse \<times> nat \<times> apply_out" where
  "apply_place I gate s order client_order_id log_index first_ordinal out =
     (case (case client_order_id of None \<Rightarrow> None | Some c \<Rightarrow> bt_get c (submissions s)) of
        Some sub \<Rightarrow> Inr (s, duplicate_response s sub, 0, out)
      | None \<Rightarrow>
          (case (case configured_symbol_for s order of
                   Inr config \<Rightarrow> execute_order_with_symbol I (orderbook s) order config
                 | Inl reason \<Rightarrow> Inr (reject_order (orderbook s) order reason)) of
             Inl p \<Rightarrow> Inl p
           | Inr (book, o1, outcome) \<Rightarrow>
               let s = s\<lparr>orderbook := book\<rparr>;
                   s = (if oc_rejected outcome = None then s\<lparr>symbol_locked := True\<rparr> else s);
                   events = place_events log_index first_ordinal o1 outcome;
                   s = record_events s events;
                   s = (case client_order_id of
                          None \<Rightarrow> s
                        | Some c \<Rightarrow> record_submission s c (o_sequence o1) log_index first_ordinal
                                      (wrap_u32 (length events)));
                   (s, market) = take_market_frame s gate log_index (oc_market_seq outcome)
                     (o_timestamp o1) (o_symbol_id o1) events
               in Inr (s, applied (o_sequence o1) events, length events,
                       push_publish out events market)))"

text \<open>The sequence and the expired orders every \<open>Cancel\<close> and \<open>Amend\<close> starts with.\<close>

definition begin_mutation ::
  "OrderBook \<Rightarrow> Order \<Rightarrow> u64 \<Rightarrow> u32 \<Rightarrow> u64 \<times> OrderBook \<times> MatchEvent list" where
  "begin_mutation b order log_index first_ordinal =
     (let (market_seq, b) = next_market_sequence b;
          (b, expired_orders) = (if has_gtd_deadlines b then purge_due_gtd b (o_timestamp order) else (b, []))
      in (market_seq, b, foldl (push_expired log_index first_ordinal) [] expired_orders))"

definition finish_mutation ::
  "bool \<Rightarrow> ('l, 'sm) StateMachineStoreInner \<Rightarrow> u64 \<Rightarrow> u64 \<Rightarrow> u64 \<Rightarrow> u32 \<Rightarrow> MatchEvent list \<Rightarrow> apply_out
    \<Rightarrow> ('l, 'sm) StateMachineStoreInner \<times> MatchEngineResponse \<times> nat \<times> apply_out" where
  "finish_mutation gate s log_index market_seq ts_ms symbol_id events out =
     (let s = record_events s events;
          (s, market) = take_market_frame s gate log_index market_seq ts_ms symbol_id events
      in (s, applied market_seq events, length events, push_publish out events market))"

definition apply_cancel ::
  "bool \<Rightarrow> ('l, 'sm) StateMachineStoreInner \<Rightarrow> Order \<Rightarrow> u64 \<Rightarrow> u32 \<Rightarrow> apply_out
    \<Rightarrow> ('l, 'sm) StateMachineStoreInner \<times> MatchEngineResponse \<times> nat \<times> apply_out" where
  "apply_cancel gate s order log_index first_ordinal out =
     (let (market_seq, book, events) = begin_mutation (orderbook s) order log_index first_ordinal;
          (book, events) =
            (case configured_symbol_for s order of
               Inr _ \<Rightarrow>
                 (case cancel book order of
                    (book, Some cancelled) \<Rightarrow>
                      (book, events @ [for_cancel_at log_index
                         (ordinal_at first_ordinal (length events)) cancelled])
                  | (book, None) \<Rightarrow> (book, events))
             | Inl _ \<Rightarrow>
                 (book, events @ [for_rejected log_index (ordinal_at first_ordinal (length events))
                    order UnsupportedOrder]))
      in finish_mutation gate (s\<lparr>orderbook := book\<rparr>) log_index market_seq (o_timestamp order)
           (o_symbol_id order) events out)"

definition apply_amend ::
  "bool \<Rightarrow> ('l, 'sm) StateMachineStoreInner \<Rightarrow> Order \<Rightarrow> fixed option \<Rightarrow> fixed option \<Rightarrow> u64 \<Rightarrow> u32
    \<Rightarrow> apply_out
    \<Rightarrow> ('l, 'sm) StateMachineStoreInner \<times> MatchEngineResponse \<times> nat \<times> apply_out" where
  "apply_amend gate s order price volume log_index first_ordinal out =
     (let (market_seq, book, events) = begin_mutation (orderbook s) order log_index first_ordinal;
          (book, events) =
            (case validate_amend_values s order price volume of
               Inl reason \<Rightarrow>
                 (book, events @ [for_rejected log_index (ordinal_at first_ordinal (length events))
                    order reason])
             | Inr _ \<Rightarrow>
                 (case amend_with_sequence book order price volume market_seq of
                    (book, Inr amendment) \<Rightarrow>
                      (book, events @ [for_amended log_index (ordinal_at first_ordinal (length events))
                         amendment])
                  | (book, Inl err) \<Rightarrow>
                      (book, events @ [for_rejected log_index (ordinal_at first_ordinal (length events))
                         order (amend_reason err)])))
      in finish_mutation gate (s\<lparr>orderbook := book\<rparr>) log_index market_seq (o_timestamp order)
           (o_symbol_id order) events out)"

definition apply_purge ::
  "bool \<Rightarrow> ('l, 'sm) StateMachineStoreInner \<Rightarrow> u64 \<Rightarrow> u64 option \<Rightarrow> u64 \<Rightarrow> u32 \<Rightarrow> apply_out
    \<Rightarrow> ('l, 'sm) StateMachineStoreInner \<times> MatchEngineResponse \<times> nat \<times> apply_out" where
  "apply_purge gate s now_ms day_close_ms log_index first_ordinal out =
     (let (market_seq, book) = next_market_sequence (orderbook s);
          (book, expired) = purge_expired book now_ms day_close_ms;
          events = map (\<lambda>(ordinal, order). for_expired log_index (ordinal_at first_ordinal ordinal) order)
            (enumerate 0 expired)
      in finish_mutation gate (s\<lparr>orderbook := book\<rparr>) log_index market_seq now_ms
           (cfg_symbol_id (symbol_config s)) events out)"

definition apply_configure ::
  "('l, 'm, 'sm) openraft \<Rightarrow> apply_env \<Rightarrow> ('l, 'sm) StateMachineStoreInner \<Rightarrow> SymbolConfig \<Rightarrow> apply_out
    \<Rightarrow> ('l, 'sm) StateMachineStoreInner \<times> MatchEngineResponse \<times> nat \<times> apply_out" where
  "apply_configure raft env s config out =
     (case configure_symbol_locked raft env s config out of
        Inr (s, out) \<Rightarrow>
          (s, response_new (''symbol '' @ show_nat (cfg_symbol_id config) @ '' configured''), 0, out)
      | Inl error \<Rightarrow> (s, response_error error, 0, out))"

fun apply_one ::
  "'w i256 \<Rightarrow> ('l, 'm, 'sm) openraft \<Rightarrow> apply_env \<Rightarrow> nat \<Rightarrow> ('l, 'sm) StateMachineStoreInner
    \<Rightarrow> MatchEngineRequest \<Rightarrow> u64 \<Rightarrow> u32 \<Rightarrow> apply_out
    \<Rightarrow> panic + ('l, 'sm) StateMachineStoreInner \<times> MatchEngineResponse \<times> nat \<times> apply_out" where
  "apply_one I raft env pos s (Place order client_order_id) log_index first_ordinal out =
     apply_place I (env_gate env pos) s order client_order_id log_index first_ordinal out"
| "apply_one I raft env pos s (Cancel order) log_index first_ordinal out =
     Inr (apply_cancel (env_gate env pos) s order log_index first_ordinal out)"
| "apply_one I raft env pos s (Amend order price volume) log_index first_ordinal out =
     Inr (apply_amend (env_gate env pos) s order price volume log_index first_ordinal out)"
| "apply_one I raft env pos s (PurgeExpired now_ms day_close_ms) log_index first_ordinal out =
     Inr (apply_purge (env_gate env pos) s now_ms day_close_ms log_index first_ordinal out)"
| "apply_one I raft env pos s (ConfigureSymbol config) log_index first_ordinal out =
     Inr (apply_configure raft env s config out)"
| "apply_one I raft env pos s (Batch requests) log_index first_ordinal out =
     Inr (s, response_error ''nested batches are not supported'', 0, out)"

section \<open>Applying entries\<close>

primrec apply_batch ::
  "'w i256 \<Rightarrow> ('l, 'm, 'sm) openraft \<Rightarrow> apply_env \<Rightarrow> nat \<Rightarrow> ('l, 'sm) StateMachineStoreInner
    \<Rightarrow> MatchEngineRequest list \<Rightarrow> u64 \<Rightarrow> u32 \<Rightarrow> MatchEngineResponse list \<Rightarrow> apply_out
    \<Rightarrow> panic + ('l, 'sm) StateMachineStoreInner \<times> MatchEngineResponse list \<times> apply_out" where
  "apply_batch I raft env pos s [] log_index ordinal responses out = Inr (s, responses, out)"
| "apply_batch I raft env pos s (request # requests) log_index ordinal responses out =
     (case apply_one I raft env pos s request log_index ordinal out of
        Inl p \<Rightarrow> Inl p
      | Inr (s, response, event_count, out) \<Rightarrow>
          apply_batch I raft env (Suc pos) s requests log_index
            (sat_add_u32 ordinal (wrap_u32 event_count)) (responses @ [response]) out)"

definition apply_entry ::
  "'w i256 \<Rightarrow> ('l, 'm, 'sm) openraft \<Rightarrow> apply_env \<Rightarrow> ('l, 'sm) StateMachineStoreInner \<Rightarrow> ('l, 'm) Entry
    \<Rightarrow> panic + ('l, 'sm) StateMachineStoreInner \<times> MatchEngineResponse \<times> apply_out" where
  "apply_entry I raft env s entry =
     (let index = rf_index raft (en_log_id entry);
          s = s\<lparr>last_applied_log := Some (en_log_id entry)\<rparr>;
          out = \<lparr>out_publishes = [], out_resets = []\<rparr>
      in case en_payload entry of
        Blank \<Rightarrow> Inr (s, response_none, out)
      | Normal (Batch requests) \<Rightarrow>
          (case apply_batch I raft env 0 s requests index 0 [] out of
             Inl p \<Rightarrow> Inl p
           | Inr (s, responses, out) \<Rightarrow> Inr (s, response_batch responses, out))
      | Normal request \<Rightarrow>
          (case apply_one I raft env 0 s request index 0 out of
             Inl p \<Rightarrow> Inl p
           | Inr (s, response, _, out) \<Rightarrow> Inr (s, response, out))
      | Membership mem \<Rightarrow>
          Inr (s\<lparr>last_membership := rf_stored_membership raft (Some (en_log_id entry)) mem\<rparr>,
               response_none, out))"

text \<open>
  The entries come one after the other, each with the surroundings it is applied in.  The sink and
  the tap see the publications of an entry after its application, in order.
\<close>

primrec apply_entries ::
  "'w i256 \<Rightarrow> ('l, 'm, 'sm) openraft \<Rightarrow> ('l, 'sm) StateMachineStoreInner
    \<Rightarrow> (apply_env \<times> ('l, 'm) Entry) list
    \<Rightarrow> panic + ('l, 'sm) StateMachineStoreInner \<times> (MatchEngineResponse \<times> apply_out) list" where
  "apply_entries I raft s [] = Inr (s, [])"
| "apply_entries I raft s (e # es) =
     (case apply_entry I raft (fst e) s (snd e) of
        Inl p \<Rightarrow> Inl p
      | Inr (s, response, out) \<Rightarrow>
          (case apply_entries I raft s es of
             Inl p \<Rightarrow> Inl p
           | Inr (s, outs) \<Rightarrow> Inr (s, (response, out) # outs)))"

definition publish_match_events :: "MemorySink \<Rightarrow> MatchEvent list \<Rightarrow> MemorySink" where
  "publish_match_events sink events = (if events = [] then sink else MemorySink_publish events sink)"

definition publish_pending ::
  "MemorySink \<times> TapFrame list \<Rightarrow> PendingPublish list \<Rightarrow> MemorySink \<times> TapFrame list" where
  "publish_pending st publishes =
     foldl (\<lambda>(sink, frames) publish.
       (publish_match_events sink (pp_events publish),
        case pp_market publish of None \<Rightarrow> frames | Some frame \<Rightarrow> frames @ [frame])) st publishes"

text \<open>\<open>send_if_modified\<close>: the new value of the watch channel and whether receivers are woken.\<close>

definition notify_events :: "EventId option \<Rightarrow> EventId option \<Rightarrow> EventId option \<times> bool" where
  "notify_events current last_event =
     (if current = last_event then (current, False) else (last_event, True))"

section \<open>Snapshot content\<close>

record StoredMatchEvent =
  sv_event_id :: EventId
  sv_kind :: MatchEventKind
  sv_order_sequence :: u64
  sv_side :: OrderSide
  sv_counterparty_sequence :: "u64 option"
  sv_previous_sequence :: "u64 option"
  sv_price :: fixed
  sv_volume :: fixed
  sv_quote_volume :: fixed
  sv_volume_unit :: VolumeUnit
  sv_taker_fee :: fixed
  sv_taker_fee_asset :: "FeeAsset option"
  sv_maker_fee :: fixed
  sv_maker_fee_asset :: "FeeAsset option"
  sv_error :: MatchErrors
  sv_reason :: "RejectReason option"

definition stored_of_event :: "MatchEvent \<Rightarrow> StoredMatchEvent" where
  "stored_of_event event =
     \<lparr>sv_event_id = me_event_id event,
      sv_kind = me_kind event,
      sv_order_sequence = me_order_sequence event,
      sv_side = me_side event,
      sv_counterparty_sequence = me_counterparty_sequence event,
      sv_previous_sequence = me_previous_sequence event,
      sv_price = me_price event,
      sv_volume = me_volume event,
      sv_quote_volume = me_quote_volume event,
      sv_volume_unit = me_volume_unit event,
      sv_taker_fee = me_taker_fee event,
      sv_taker_fee_asset = me_taker_fee_asset event,
      sv_maker_fee = me_maker_fee event,
      sv_maker_fee_asset = me_maker_fee_asset event,
      sv_error = me_error event,
      sv_reason = me_reason event\<rparr>"

definition event_of_stored :: "StoredMatchEvent \<Rightarrow> MatchEvent" where
  "event_of_stored event =
     \<lparr>me_event_id = sv_event_id event,
      me_kind = sv_kind event,
      me_order_sequence = sv_order_sequence event,
      me_side = sv_side event,
      me_counterparty_sequence = sv_counterparty_sequence event,
      me_previous_sequence = sv_previous_sequence event,
      me_price = sv_price event,
      me_volume = sv_volume event,
      me_quote_volume = sv_quote_volume event,
      me_volume_unit = sv_volume_unit event,
      me_taker_fee_asset = sv_taker_fee_asset event,
      me_maker_fee_asset = sv_maker_fee_asset event,
      me_taker_fee = sv_taker_fee event,
      me_maker_fee = sv_maker_fee event,
      me_error = sv_error event,
      me_reason = sv_reason event\<rparr>"

record StateMachineData =
  sd_orders :: "Order list"
  sd_sequence :: u64
  sd_stops :: "Order list"
  sd_last_trade_price :: "fixed option"
  sd_symbol_config :: SymbolConfig
  sd_symbol_locked :: bool
  sd_events :: "StoredMatchEvent list"
  sd_events_evicted :: u64
  sd_submissions :: "SubmissionRecord list"
  sd_submissions_evicted :: u64

definition to_content :: "('l, 'sm) StateMachineStoreInner \<Rightarrow> StateMachineData" where
  "to_content s =
     \<lparr>sd_orders = bt_values (bids (orderbook s)) @ bt_values (asks (orderbook s)),
      sd_sequence = ob_sequence (orderbook s),
      sd_stops = stops (orderbook s),
      sd_last_trade_price = last_trade_price (orderbook s),
      sd_symbol_config = symbol_config s,
      sd_symbol_locked = symbol_locked s,
      sd_events = map stored_of_event (sm_events s),
      sd_events_evicted = events_evicted s,
      sd_submissions = submission_order s,
      sd_submissions_evicted = submissions_evicted s\<rparr>"

definition install_content ::
  "('l, 'sm) StateMachineStoreInner \<Rightarrow> StateMachineData \<Rightarrow> ('l, 'sm) StateMachineStoreInner" where
  "install_content s content =
     (let b = (orderbook s)\<lparr>asks := [], bids := [], stops := [], ob_sequence := sd_sequence content,
                            last_trade_price := sd_last_trade_price content\<rparr>;
          s = s\<lparr>symbol_config := (case SymbolConfig_validate (sd_symbol_config content) of
                                    Inr config \<Rightarrow> config | Inl _ \<Rightarrow> SymbolConfig_default),
                symbol_locked := sd_symbol_locked content\<rparr>;
          b = foldl insert_order b (sd_orders content);
          b = b\<lparr>stops := stops b @ sd_stops content\<rparr>;
          (_, b) = take_depth_journal b;
          b = rebuild_derived_indexes b;
          s = s\<lparr>orderbook := b,
                sm_events := map event_of_stored (sd_events content),
                events_evicted := sd_events_evicted content,
                submissions := foldl (\<lambda>m sub. bt_insert (sub_client_order_id sub) sub m) []
                                 (sd_submissions content),
                submission_order := sd_submissions content,
                submissions_evicted := sd_submissions_evicted content\<rparr>
      in trim_submissions (trim_events s))"

end
