(* ===== verification/Book_Sweep.thy ===== *)
theory Book_Sweep
  imports Order_Book
begin

text \<open>
  The sweep loop of \<open>OrderBook::sweep_side\<close>.  \<open>after_fill\<close> describes what one trade leaves of a
  maker; every turn of the loop is either idle or one such fill of the best entry.  The locale
  \<open>price_time_side\<close> is the interface between the loop and the two key orders.
\<close>

section \<open>Well-formed resting orders\<close>

definition resting_ok :: "OrderSide \<Rightarrow> Order \<Rightarrow> bool" where
  "resting_ok side o1 \<longleftrightarrow>
     o_side o1 = side \<and> o_live o1 = Limit \<and> o_volume_unit o1 = VU_Base \<and> \<not> is_stop o1
     \<and> 0 < o_price o1 \<and> o_price o1 \<le> i128_max
     \<and> 0 < o_volume o1 \<and> 0 \<le> o_hidden_volume o1
     \<and> o_volume o1 + o_hidden_volume o1 \<le> i128_max
     \<and> 0 \<le> o_display_volume o1
     \<and> (0 < o_hidden_volume o1 \<longrightarrow> 0 < o_display_volume o1)
     \<and> (0 < o_display_volume o1 \<longrightarrow> o_volume o1 \<le> o_display_volume o1)"

definition open_sum :: "('k, Order) btree \<Rightarrow> int" where
  "open_sum m = (\<Sum>e \<leftarrow> m. o_volume (snd e) + o_hidden_volume (snd e))"

definition fill_sum :: "MatchResult list \<Rightarrow> int" where
  "fill_sum fills = (\<Sum>r \<leftarrow> fills. mr_matches r)"

text \<open>Visible volume and number of orders at one price, over exact integers.\<close>

definition level_volume :: "('k, Order) btree \<Rightarrow> fixed \<Rightarrow> int" where
  "level_volume m p = (\<Sum>e \<leftarrow> m. if o_price (snd e) = p then o_volume (snd e) else 0)"

definition level_orders :: "('k, Order) btree \<Rightarrow> fixed \<Rightarrow> int" where
  "level_orders m p = (\<Sum>e \<leftarrow> m. if o_price (snd e) = p then 1 else 0)"

definition journal_volume :: "DepthChange list \<Rightarrow> OrderSide \<Rightarrow> fixed \<Rightarrow> int" where
  "journal_volume j side p =
     (\<Sum>c \<leftarrow> j. if dc_side c = side \<and> dc_price c = p then dc_delta_volume c else 0)"

definition journal_orders :: "DepthChange list \<Rightarrow> OrderSide \<Rightarrow> fixed \<Rightarrow> int" where
  "journal_orders j side p =
     (\<Sum>c \<leftarrow> j. if dc_side c = side \<and> dc_price c = p then dc_delta_orders c else 0)"

section \<open>One fill\<close>

definition after_fill :: "Order \<Rightarrow> fixed \<Rightarrow> Order option" where
  "after_fill maker mv =
     (if mv < o_volume maker then Some (maker\<lparr>o_volume := o_volume maker - mv\<rparr>)
      else if 0 < o_hidden_volume maker
      then (let draw = min (o_display_volume maker) (o_hidden_volume maker)
            in Some (maker\<lparr>o_volume := draw, o_hidden_volume := o_hidden_volume maker - draw\<rparr>))
      else None)"

definition visible_after :: "Order \<Rightarrow> fixed \<Rightarrow> int" where
  "visible_after maker mv = (case after_fill maker mv of None \<Rightarrow> 0 | Some m \<Rightarrow> o_volume m)"

definition put_head :: "'k \<Rightarrow> Order option \<Rightarrow> ('k, Order) btree \<Rightarrow> ('k, Order) btree" where
  "put_head k m others = (case m of None \<Rightarrow> others | Some o1 \<Rightarrow> (k, o1) # others)"

definition fill_state ::
  "'w i256 \<Rightarrow> sweep_context \<Rightarrow> Order \<Rightarrow> 'k sweep_state \<Rightarrow> 'k \<Rightarrow> Order \<Rightarrow> ('k, Order) btree \<Rightarrow> fixed
    \<Rightarrow> fixed \<Rightarrow> 'k sweep_state" where
  "fill_state I ctx o1 s k maker others mv remaining =
     \<lparr>sw_resting = put_head k (after_fill maker mv) others,
      sw_remaining = remaining,
      sw_results = sw_results s @
        [MatchResult_new_with_policy I
           (o1\<lparr>o_volume := (if sweep_mode o1 = SM_Base then sw_remaining s else mv)\<rparr>) maker mv
           (fee_asset_policy (sc_config ctx))],
      sw_journal = push_depth_change (sw_journal s) (sc_record ctx) (o_side maker) (o_price maker)
        (visible_after maker mv - o_volume maker) (if after_fill maker mv = None then - 1 else 0),
      sw_gtd_dirty = (sw_gtd_dirty s
        \<or> (after_fill maker mv = None \<and> sc_track_gtd ctx \<and> is_gtd (o_tif maker)))\<rparr>"

lemma fixed_sub_exact: "in_i128 (a - b) \<Longrightarrow> fixed_sub a b = a - b"
  by (simp add: fixed_sub_def wrap_i128_id)

lemma fixed_neg_exact: "in_i128 (- a) \<Longrightarrow> fixed_neg a = - a"
  by (simp add: fixed_neg_def wrap_i128_id)

lemma match_volume_le: "match_volume I config mode remaining maker = Inr mv \<Longrightarrow> mv \<le> o_volume maker"
  by (auto simp: match_volume_def fixed_min_def split: SweepMode.splits sum.splits)

lemma match_volume_base:
  "match_volume I config SM_Base remaining maker = Inr mv \<longleftrightarrow> mv = min remaining (o_volume maker)"
  by (auto simp: match_volume_def fixed_min_def)

lemma sweep_step_cases [consumes 3, case_names idle fill]:
  assumes step: "sweep_step I ctx o1 limit s = Inr f"
    and ok: "\<forall>e \<in> set (sw_resting s). resting_ok side (snd e)"
    and rem: "in_i128 (sw_remaining s)"
  obtains
    (idle) "f = Break s"
      "sweep_mode o1 = SM_Base \<Longrightarrow> 0 < sw_remaining s \<Longrightarrow> sw_resting s = [] \<or>
         \<not> within_limit limit (o_side o1) (o_price (snd (hd (sw_resting s))))"
  | (fill) k maker others mv r where
      "sw_resting s = (k, maker) # others"
      "0 < sw_remaining s"
      "within_limit limit (o_side o1) (o_price maker)"
      "0 < mv" "mv \<le> o_volume maker"
      "sweep_mode o1 = SM_Base \<Longrightarrow> mv = min (sw_remaining s) (o_volume maker) \<and> r = sw_remaining s - mv"
      "in_i128 r"
      "f = Break (fill_state I ctx o1 s k maker others mv r) \<or>
       f = Continue (fill_state I ctx o1 s k maker others mv r)"
      "sweep_mode o1 = SM_Base \<Longrightarrow> f = Break (fill_state I ctx o1 s k maker others mv r) \<Longrightarrow> r = 0"
      "sweep_mode o1 \<noteq> SM_Base \<Longrightarrow>
         match_volume I (sc_config ctx) (sweep_mode o1) (sw_remaining s) maker = Inr mv
         \<and> (\<exists>v. notional I (o_price maker) mv = Some v \<and> r = saturating_sub (sw_remaining s) v)"
proof (cases "\<exists>k maker others mv. sw_resting s = (k, maker) # others \<and> 0 < sw_remaining s \<and>
    within_limit limit (o_side o1) (o_price maker) \<and>
    match_volume I (sc_config ctx) (sweep_mode o1) (sw_remaining s) maker = Inr mv \<and> 0 < mv \<and>
    \<not> (sweep_mode o1 \<noteq> SM_Base \<and> notional I (o_price maker) mv = None)")
  case True
  then obtain k maker others mv where r: "sw_resting s = (k, maker) # others"
    and pos: "0 < sw_remaining s" and wl: "within_limit limit (o_side o1) (o_price maker)"
    and mv: "match_volume I (sc_config ctx) (sweep_mode o1) (sw_remaining s) maker = Inr mv"
    and mv0: "0 < mv" and n: "\<not> (sweep_mode o1 \<noteq> SM_Base \<and> notional I (o_price maker) mv = None)"
    by blast
  have mok: "resting_ok side maker" using ok r by simp
  have mvle: "mv \<le> o_volume maker" using mv by (rule match_volume_le)
  have rng: "in_i128 (o_volume maker - mv)" "in_i128 (- mv)"
    using mok mv0 mvle by (auto simp: resting_ok_def in_i128_def)
  have rngh: "in_i128 (o_hidden_volume maker - d)" "in_i128 (d - mv)"
    if "0 \<le> d" "d \<le> o_hidden_volume maker" for d
    using mok mv0 mvle that by (auto simp: resting_ok_def in_i128_def)
  let ?v = "case notional I (o_price maker) mv of None \<Rightarrow> 0 | Some v \<Rightarrow> v"
  define r' where "r' = (if sweep_mode o1 = SM_Base then sw_remaining s - mv
                          else saturating_sub (sw_remaining s) ?v)"
  have base: "mv = min (sw_remaining s) (o_volume maker) \<and> r' = sw_remaining s - mv"
    if "sweep_mode o1 = SM_Base"
    using mv that by (simp add: match_volume_base r'_def)
  have r'in: "in_i128 r'"
    using base pos mv0 rem by (auto simp: r'_def in_i128_def saturating_sub_def clamp_i128_def)
  have sub: "fixed_sub (sw_remaining s) mv = sw_remaining s - mv" if "sweep_mode o1 = SM_Base"
    using base[OF that] pos mv0 rem by (intro fixed_sub_exact) (auto simp: in_i128_def)
  have draw: "(if 0 < o_display_volume maker then fixed_min (o_display_volume maker) (o_hidden_volume maker)
      else o_hidden_volume maker) = min (o_display_volume maker) (o_hidden_volume maker)"
    if "0 < o_hidden_volume maker"
    using mok that by (auto simp: resting_ok_def fixed_min_def)
  have "f = (if mv < o_volume maker \<or> r' \<le> 0 then Break (fill_state I ctx o1 s k maker others mv r')
             else Continue (fill_state I ctx o1 s k maker others mv r'))"
  proof (cases "mv < o_volume maker")
    case True
    then have p: "0 < fixed_sub (o_volume maker) mv" and e: "fixed_sub (o_volume maker) mv = o_volume maker - mv"
      by (simp_all add: fixed_sub_exact rng)
    have z: "(if sweep_mode o1 = SM_Base then 0 else saturating_sub (sw_remaining s) ?v) = r'"
      using base True by (auto simp: r'_def min_def split: if_splits)
    show ?thesis
      using step True mv0 pos wl n p z
      by (auto simp: sweep_step_def r mv Let_def fill_state_def after_fill_def visible_after_def
          put_head_def e fixed_neg_exact[OF rng(2)] intro!: sweep_state.equality cong: if_cong)
  next
    case False
    with mvle have eq: "mv = o_volume maker" by simp
    have p: "\<not> 0 < fixed_sub (o_volume maker) mv"
      using fixed_sub_exact[OF rng(1)] eq by simp
    have q: "(if sweep_mode o1 = SM_Base then fixed_sub (sw_remaining s) mv
          else saturating_sub (sw_remaining s) ?v) = r'"
      using sub by (simp add: r'_def)
    show ?thesis
    proof (cases "0 < o_hidden_volume maker")
      case True
      let ?d = "min (o_display_volume maker) (o_hidden_volume maker)"
      have dr: "0 \<le> ?d" "?d \<le> o_hidden_volume maker" using mok by (auto simp: resting_ok_def)
      show ?thesis
        using step mv0 pos wl n p q True draw[OF True] False
        by (auto simp: sweep_step_def r mv Let_def fill_state_def after_fill_def visible_after_def
            put_head_def fixed_sub_exact[OF rngh(1)[OF dr]] fixed_sub_exact[OF rngh(2)[OF dr], unfolded eq] eq
            intro!: sweep_state.equality cong: if_cong)
    next
      case False': False
      show ?thesis
        using step mv0 pos wl n p q False' False
        by (auto simp: sweep_step_def r mv Let_def fill_state_def after_fill_def visible_after_def
            put_head_def fixed_neg_exact[OF rng(2), unfolded eq] eq
            intro!: sweep_state.equality cong: if_cong)
    qed
  qed
  moreover have "r' = 0" if "sweep_mode o1 = SM_Base" "mv < o_volume maker \<or> r' \<le> 0"
    using base[OF that(1)] that(2) by auto
  moreover have "match_volume I (sc_config ctx) (sweep_mode o1) (sw_remaining s) maker = Inr mv
      \<and> (\<exists>v. notional I (o_price maker) mv = Some v \<and> r' = saturating_sub (sw_remaining s) v)"
    if "sweep_mode o1 \<noteq> SM_Base"
    using that mv n by (auto simp: r'_def)
  ultimately show thesis
    using fill[OF r pos wl mv0 mvle base r'in] by (auto split: if_splits)
next
  case False
  have "f = Break s"
    using step False by (cases "sw_resting s")
      (auto simp: sweep_step_def Let_def not_less not_le split: if_splits sum.splits)
  moreover have "sw_resting s = [] \<or>
      \<not> within_limit limit (o_side o1) (o_price (snd (hd (sw_resting s))))"
    if "sweep_mode o1 = SM_Base" "0 < sw_remaining s"
  proof (cases "sw_resting s")
    case (Cons e others)
    have "0 < min (sw_remaining s) (o_volume (snd e))"
      using ok Cons that by (simp add: resting_ok_def)
    then have "\<not> within_limit limit (o_side o1) (o_price (snd e))"
      using False that Cons by (cases e) (auto simp: match_volume_base)
    then show ?thesis by (simp add: Cons)
  qed simp
  ultimately show thesis using idle by blast
qed

section \<open>Induction over the turns of the loop\<close>

definition side_ok :: "(fixed \<Rightarrow> u64 \<Rightarrow> 'k::linorder) \<Rightarrow> OrderSide \<Rightarrow> ('k, Order) btree \<Rightarrow> bool" where
  "side_ok mk side m \<longleftrightarrow>
     bt_ok m \<and> (\<forall>e \<in> set m. fst e = mk (o_price (snd e)) (o_sequence (snd e)) \<and> resting_ok side (snd e))"

text \<open>What never changes in a resting order while it is being filled.\<close>

definition frozen :: "Order \<Rightarrow> Order" where
  "frozen o1 = o1\<lparr>o_volume := 0, o_hidden_volume := 0\<rparr>"

definition frozen_entry :: "'k \<times> Order \<Rightarrow> 'k \<times> Order" where
  "frozen_entry e = (fst e, frozen (snd e))"

lemma frozen_sel [simp]:
  "o_price (frozen o1) = o_price o1" "o_sequence (frozen o1) = o_sequence o1"
  "o_tif (frozen o1) = o_tif o1" "o_side (frozen o1) = o_side o1" "o_id (frozen o1) = o_id o1"
  by (simp_all add: frozen_def)

lemma after_fill_SomeD:
  assumes "after_fill maker mv = Some m" "resting_ok side maker" "0 < mv" "mv \<le> o_volume maker"
  shows "frozen m = frozen maker" "resting_ok side m"
    "o_volume m + o_hidden_volume m = o_volume maker + o_hidden_volume maker - mv"
  using assms
  by (auto simp: after_fill_def frozen_def resting_ok_def is_stop_def Let_def split: if_splits)

lemma after_fill_NoneD:
  assumes "after_fill maker mv = None" "resting_ok side maker" "mv \<le> o_volume maker"
  shows "o_volume maker + o_hidden_volume maker = mv"
  using assms by (auto simp: after_fill_def resting_ok_def Let_def split: if_splits)

lemma frozen_eqD:
  assumes "frozen m = frozen maker"
  shows "o_price m = o_price maker" "o_sequence m = o_sequence maker" "o_tif m = o_tif maker"
    "o_side m = o_side maker" "o_id m = o_id maker"
  using frozen_sel[of m] frozen_sel[of maker] assms by simp_all

lemma fill_state_sel [simp]:
  "sw_remaining (fill_state I ctx o1 s k maker others mv r) = r"
  "sw_resting (fill_state I ctx o1 s k maker others mv r) = put_head k (after_fill maker mv) others"
  by (simp_all add: fill_state_def)

lemma MatchResult_sel [simp]:
  "mr_matches (MatchResult_new_with_policy I t m v p) = v"
  "mr_maker (MatchResult_new_with_policy I t m v p) = m"
  "mr_taker (MatchResult_new_with_policy I t m v p) = t"
  by (simp_all add: MatchResult_new_with_policy_def Let_def)

locale price_time_side =
  fixes mk :: "fixed \<Rightarrow> u64 \<Rightarrow> 'k::linorder" and side :: OrderSide
  assumes key_inj: "mk p s = mk q t \<longleftrightarrow> p = q \<and> s = t"
    and key_less: "mk p s < mk q t \<longleftrightarrow>
          (case side of Buy \<Rightarrow> q < p | Sell \<Rightarrow> p < q) \<or> (p = q \<and> s < t)"
begin

lemma fill_state_ok:
  assumes ok: "side_ok mk side ((k, maker) # others)" and mv: "0 < mv" "mv \<le> o_volume maker"
  shows "side_ok mk side (put_head k (after_fill maker mv) others)"
proof (cases "after_fill maker mv")
  case None
  then show ?thesis using ok by (simp add: put_head_def side_ok_def bt_ok_Cons)
next
  case (Some m)
  have "resting_ok side maker" using ok by (simp add: side_ok_def)
  note m = after_fill_SomeD[OF Some this mv]
  have "bt_ok ((k, maker) # others)" using ok unfolding side_ok_def by blast
  then have "bt_ok ((k, m) # others)" by (simp add: bt_ok_Cons)
  then show ?thesis
    using ok Some m(2) frozen_eqD[OF m(1)] by (simp add: put_head_def side_ok_def)
qed

lemma run_induct [consumes 3, case_names idle fill]:
  assumes run: "sweep_run I ctx o1 limit s = Inr s'"
    and ok: "side_ok mk side (sw_resting s)"
    and rem: "in_i128 (sw_remaining s)"
    and idle: "\<And>s. side_ok mk side (sw_resting s) \<Longrightarrow> in_i128 (sw_remaining s) \<Longrightarrow>
      (sweep_mode o1 = SM_Base \<Longrightarrow> 0 < sw_remaining s \<Longrightarrow> sw_resting s = [] \<or>
         \<not> within_limit limit (o_side o1) (o_price (snd (hd (sw_resting s))))) \<Longrightarrow> P s s"
    and fill: "\<And>s s' k maker others mv r. side_ok mk side (sw_resting s) \<Longrightarrow>
      sw_resting s = (k, maker) # others \<Longrightarrow> resting_ok side maker \<Longrightarrow>
      within_limit limit (o_side o1) (o_price maker) \<Longrightarrow> 0 < mv \<Longrightarrow> mv \<le> o_volume maker \<Longrightarrow>
      (sweep_mode o1 = SM_Base \<Longrightarrow> 0 < sw_remaining s \<and> mv \<le> sw_remaining s \<and> r = sw_remaining s - mv) \<Longrightarrow>
      P (fill_state I ctx o1 s k maker others mv r) s' \<Longrightarrow>
      (sweep_mode o1 \<noteq> SM_Base \<Longrightarrow> 0 < sw_remaining s
         \<and> match_volume I (sc_config ctx) (sweep_mode o1) (sw_remaining s) maker = Inr mv
         \<and> (\<exists>v. notional I (o_price maker) mv = Some v \<and> r = saturating_sub (sw_remaining s) v)) \<Longrightarrow> P s s'"
  shows "P s s'"
  using run ok rem
proof (induction s rule: measure_induct_rule[of sweep_measure])
  case (less s)
  obtain f where step: "sweep_step I ctx o1 limit s = Inr f"
    using less.prems(1) by (auto simp: sweep_run.simps[of I ctx o1 limit s] split: sum.splits)
  have all: "\<forall>e \<in> set (sw_resting s). resting_ok side (snd e)"
    using less.prems(2) by (auto simp: side_ok_def)
  from step all less.prems(3) show ?case
  proof (cases rule: sweep_step_cases)
    case idle': idle
    then have "s' = s"
      using less.prems(1) step by (simp add: sweep_run.simps[of I ctx o1 limit s])
    then show ?thesis using less.prems(2,3) idle'(2) by (auto intro!: idle)
  next
    case (fill k maker others mv r)
    let ?t = "fill_state I ctx o1 s k maker others mv r"
    have m: "resting_ok side maker" using all fill(1) by simp
    have tok: "side_ok mk side (sw_resting ?t)"
      using less.prems(2) fill by (simp add: fill_state_ok)
    have tin: "in_i128 (sw_remaining ?t)" using fill by simp
    have "P ?t s'"
      using fill(8)
    proof
      assume f: "f = Break ?t"
      then have "s' = ?t"
        using less.prems(1) step by (simp add: sweep_run.simps[of I ctx o1 limit s])
      then show "P ?t s'" using fill(9)[OF _ f] tok tin by (auto intro!: idle)
    next
      assume f: "f = Continue ?t"
      with step have "sweep_measure ?t < sweep_measure s" by (simp add: sweep_step_decreases)
      moreover have "sweep_run I ctx o1 limit ?t = Inr s'"
        using less.prems(1) step f by (simp add: sweep_run.simps[of I ctx o1 limit s])
      ultimately show "P ?t s'" using tok tin by (intro less.IH)
    qed
    then show ?thesis
      using less.prems(2) fill m by (intro assms(5)[of s k maker others mv r]) auto
  qed
qed

end

section \<open>What a whole sweep guarantees\<close>

definition gtd_times :: "Order set \<Rightarrow> u64 set" where
  "gtd_times os = {t. \<exists>o1 \<in> os. o_tif o1 = Gtd t}"

definition fill_keys :: "(fixed \<Rightarrow> u64 \<Rightarrow> 'k) \<Rightarrow> MatchResult list \<Rightarrow> 'k list" where
  "fill_keys mk fills = map (\<lambda>r. mk (o_price (mr_maker r)) (o_sequence (mr_maker r))) fills"

lemma gtd_times_insert:
  "gtd_times (insert o1 os) = (case o_tif o1 of Gtd t \<Rightarrow> insert t (gtd_times os) | _ \<Rightarrow> gtd_times os)"
  by (auto simp: gtd_times_def split: TimeInForce.splits)

lemma open_sum_Cons: "open_sum (e # m) = o_volume (snd e) + o_hidden_volume (snd e) + open_sum m"
  by (simp add: open_sum_def)

lemma open_sum_put_head:
  assumes "resting_ok side maker" "0 < mv" "mv \<le> o_volume maker"
  shows "open_sum (put_head k (after_fill maker mv) others) + mv = open_sum ((k, maker) # others)"
proof (cases "after_fill maker mv")
  case None
  from after_fill_NoneD[OF this assms(1,3)] None show ?thesis by (simp add: put_head_def open_sum_Cons)
next
  case (Some m)
  from after_fill_SomeD(3)[OF this assms] Some show ?thesis by (simp add: put_head_def open_sum_Cons)
qed

lemma fill_state_results:
  "fill_sum (sw_results (fill_state I ctx o1 s k maker others mv r)) = fill_sum (sw_results s) + mv"
  "fill_keys mk (sw_results (fill_state I ctx o1 s k maker others mv r)) =
     fill_keys mk (sw_results s) @ [mk (o_price maker) (o_sequence maker)]"
  by (simp_all add: fill_sum_def fill_keys_def fill_state_def)

lemma level_put_head:
  assumes "\<And>m. after_fill maker mv = Some m \<Longrightarrow> o_price m = o_price maker"
  shows "level_volume (put_head k (after_fill maker mv) others) p =
      level_volume ((k, maker) # others) p
      + (if o_price maker = p then visible_after maker mv - o_volume maker else 0)"
    and "level_orders (put_head k (after_fill maker mv) others) p =
      level_orders ((k, maker) # others) p
      + (if o_price maker = p then (if after_fill maker mv = None then - 1 else 0) else 0)"
proof -
  have "(level_volume (put_head k m others) p =
      level_volume ((k, maker) # others) p
      + (if o_price maker = p then (case m of None \<Rightarrow> 0 | Some m \<Rightarrow> o_volume m) - o_volume maker else 0))
    \<and> (level_orders (put_head k m others) p =
      level_orders ((k, maker) # others) p
      + (if o_price maker = p then (if m = None then - 1 else 0) else 0))"
    if "case m of None \<Rightarrow> True | Some m \<Rightarrow> o_price m = o_price maker" for m
    using that by (cases m) (simp_all add: level_volume_def level_orders_def put_head_def)
  from this[of "after_fill maker mv"] show
    "level_volume (put_head k (after_fill maker mv) others) p =
      level_volume ((k, maker) # others) p
      + (if o_price maker = p then visible_after maker mv - o_volume maker else 0)"
    "level_orders (put_head k (after_fill maker mv) others) p =
      level_orders ((k, maker) # others) p
      + (if o_price maker = p then (if after_fill maker mv = None then - 1 else 0) else 0)"
    unfolding visible_after_def using assms by (auto split: option.splits)
qed

lemma gtd_put_head:
  assumes tf: "\<And>m. after_fill maker mv = Some m \<Longrightarrow> o_tif m = o_tif maker"
    and "\<not> (after_fill maker mv = None \<and> is_gtd (o_tif maker))"
  shows "gtd_times (snd ` set (put_head k (after_fill maker mv) others)) =
    gtd_times (insert maker (snd ` set others))"
proof (cases "after_fill maker mv")
  case None
  with assms(2) show ?thesis by (cases "o_tif maker") (simp_all add: put_head_def gtd_times_insert)
next
  case (Some m)
  with tf[OF Some] show ?thesis by (simp add: put_head_def gtd_times_insert)
qed

lemma journal_append [simp]:
  "journal_volume (j @ k) side p = journal_volume j side p + journal_volume k side p"
  "journal_orders (j @ k) side p = journal_orders j side p + journal_orders k side p"
  by (simp_all add: journal_volume_def journal_orders_def)

lemma journal_single [simp]:
  "journal_volume [\<lparr>dc_side = a, dc_price = q, dc_delta_volume = v, dc_delta_orders = n\<rparr>] side p =
     (if a = side \<and> q = p then v else 0)"
  "journal_orders [\<lparr>dc_side = a, dc_price = q, dc_delta_volume = v, dc_delta_orders = n\<rparr>] side p =
     (if a = side \<and> q = p then n else 0)"
  by (simp_all add: journal_volume_def journal_orders_def)

lemma fill_state_journal:
  "sc_record ctx \<Longrightarrow> sw_journal (fill_state I ctx o1 s k maker others mv r) = sw_journal s @
     [\<lparr>dc_side = o_side maker, dc_price = o_price maker,
       dc_delta_volume = visible_after maker mv - o_volume maker,
       dc_delta_orders = (if after_fill maker mv = None then - 1 else 0)\<rparr>]"
  by (simp add: fill_state_def push_depth_change_def)

context price_time_side
begin

lemma run_ok:
  assumes "sweep_run I ctx o1 limit s = Inr s'" "side_ok mk side (sw_resting s)" "in_i128 (sw_remaining s)"
  shows "side_ok mk side (sw_resting s') \<and> in_i128 (sw_remaining s')"
  using assms
proof (induction rule: run_induct)
  case (idle s)
  from idle(1,2) show ?case by (rule conjI)
next
  case (fill s s' k maker others mv r)
  from fill(9) show ?case .
qed

text \<open>The remaining side is a tail of the side swept, up to volume taken from its first entry.\<close>

lemma run_suffix:
  assumes "sweep_run I ctx o1 limit s = Inr s'" "side_ok mk side (sw_resting s)" "in_i128 (sw_remaining s)"
  shows "\<exists>n. map frozen_entry (sw_resting s') = drop n (map frozen_entry (sw_resting s))"
  using assms
proof (induction rule: run_induct)
  case (idle s)
  show ?case by (rule exI[of _ 0]) simp
next
  case (fill s s' k maker others mv r)
  from fill(9) obtain n where n: "map frozen_entry (sw_resting s') =
      drop n (map frozen_entry (put_head k (after_fill maker mv) others))"
    unfolding fill_state_sel by blast
  show ?case
  proof (cases "after_fill maker mv")
    case None
    then show ?thesis using n fill(2) by (intro exI[of _ "Suc n"]) (simp add: put_head_def)
  next
    case (Some m)
    then have "frozen m = frozen maker" using after_fill_SomeD(1) fill by blast
    then show ?thesis using n fill(2) Some by (intro exI[of _ n]) (simp add: put_head_def frozen_entry_def[of "(k, o1)" for o1])
  qed
qed

lemma run_conserves_open:
  assumes "sweep_run I ctx o1 limit s = Inr s'" "side_ok mk side (sw_resting s)" "in_i128 (sw_remaining s)"
  shows "open_sum (sw_resting s') + fill_sum (sw_results s') = open_sum (sw_resting s) + fill_sum (sw_results s)"
  using assms
proof (induction rule: run_induct)
  case (fill s s' k maker others mv r)
  from fill(2,9) open_sum_put_head[OF fill(3,5,6), of k others] show ?case
    by (simp add: fill_state_results)
qed simp

lemma run_conserves_taker:
  assumes "sweep_run I ctx o1 limit s = Inr s'" "side_ok mk side (sw_resting s)" "in_i128 (sw_remaining s)"
    and "sweep_mode o1 = SM_Base" "0 \<le> sw_remaining s"
  shows "sw_remaining s' + fill_sum (sw_results s') = sw_remaining s + fill_sum (sw_results s)
    \<and> 0 \<le> sw_remaining s'"
  using assms
proof (induction rule: run_induct)
  case (fill s s' k maker others mv r)
  from fill(7)[OF fill(10)] fill(9)[OF fill(10)] show ?case by (simp add: fill_state_results)
qed simp

lemma run_fills:
  assumes "sweep_run I ctx o1 limit s = Inr s'" "side_ok mk side (sw_resting s)" "in_i128 (sw_remaining s)"
    and "r \<in> set (sw_results s')" "r \<notin> set (sw_results s)"
  shows "0 < mr_matches r \<and> mr_matches r \<le> o_volume (mr_maker r)
    \<and> within_limit limit (o_side o1) (o_price (mr_maker r))
    \<and> resting_ok side (mr_maker r)
    \<and> frozen (mr_maker r) \<in> frozen ` snd ` set (sw_resting s)
    \<and> (\<exists>v. mr_taker r = o1\<lparr>o_volume := v\<rparr>)"
  using assms
proof (induction rule: run_induct)
  case (fill s s' k maker others mv q)
  show ?case
  proof (cases "r \<in> set (sw_results (fill_state I ctx o1 s k maker others mv q))")
    case True
    then show ?thesis using fill by (auto simp: fill_state_def)
  next
    case False
    with fill(9,10) have *: "0 < mr_matches r \<and> mr_matches r \<le> o_volume (mr_maker r)
      \<and> within_limit limit (o_side o1) (o_price (mr_maker r)) \<and> resting_ok side (mr_maker r)
      \<and> frozen (mr_maker r) \<in> frozen ` snd ` set (put_head k (after_fill maker mv) others)
      \<and> (\<exists>v. mr_taker r = o1\<lparr>o_volume := v\<rparr>)" by simp
    have "frozen ` snd ` set (put_head k (after_fill maker mv) others) \<subseteq> frozen ` snd ` set (sw_resting s)"
      using fill(2) after_fill_SomeD(1)[OF _ fill(3,5,6)]
      by (auto simp: put_head_def split: option.splits)
    with * show ?thesis by blast
  qed
qed simp

lemma run_priority:
  assumes "sweep_run I ctx o1 limit s = Inr s'" "side_ok mk side (sw_resting s)" "in_i128 (sw_remaining s)"
    and "sorted (fill_keys mk (sw_results s))"
    and "\<forall>k \<in> set (fill_keys mk (sw_results s)). \<forall>e \<in> set (sw_resting s). k \<le> fst e"
  shows "sorted (fill_keys mk (sw_results s'))
    \<and> (\<forall>k \<in> set (fill_keys mk (sw_results s')). \<forall>e \<in> set (sw_resting s'). k \<le> fst e)"
  using assms
proof (induction rule: run_induct)
  case (fill s s' k maker others mv r)
  have k: "k = mk (o_price maker) (o_sequence maker)" using fill(1,2) by (simp add: side_ok_def)
  have "bt_ok (sw_resting s)" using fill(1) unfolding side_ok_def by blast
  then have le: "\<forall>e \<in> set (sw_resting s). k \<le> fst e" using fill(2) by (auto simp: bt_ok_Cons)
  have sub: "fst ` set (put_head k (after_fill maker mv) others) \<subseteq> fst ` set (sw_resting s)"
    using fill(2) by (auto simp: put_head_def split: option.splits)
  show ?case
  proof (rule fill(9))
    show "sorted (fill_keys mk (sw_results (fill_state I ctx o1 s k maker others mv r)))"
      using fill(10,11) fill(2) k by (auto simp: fill_state_results sorted_append)
    show "\<forall>q \<in> set (fill_keys mk (sw_results (fill_state I ctx o1 s k maker others mv r))).
       \<forall>e \<in> set (sw_resting (fill_state I ctx o1 s k maker others mv r)). q \<le> fst e"
    proof (intro ballI)
      fix q e
      assume q: "q \<in> set (fill_keys mk (sw_results (fill_state I ctx o1 s k maker others mv r)))"
        and e: "e \<in> set (sw_resting (fill_state I ctx o1 s k maker others mv r))"
      from e sub obtain e' where "e' \<in> set (sw_resting s)" "fst e = fst e'"
        by (auto simp del: fst_conv)
      then show "q \<le> fst e" using q fill(11) le k by (auto simp: fill_state_results)
    qed
  qed
qed simp

lemma head_best:
  assumes ok: "side_ok mk side m" and out: "\<not> within_limit limit tside (o_price (snd (hd m)))"
    and opp: "tside \<noteq> side" and e: "e \<in> set m"
  shows "\<not> within_limit limit tside (o_price (snd e))"
proof (cases m)
  case (Cons h others)
  have bt: "bt_ok m" using ok unfolding side_ok_def by blast
  show ?thesis
  proof (cases "e = h")
    case False
    with e Cons have "fst h < fst e" using bt by (cases h) (auto simp: bt_ok_Cons)
    moreover have "fst h = mk (o_price (snd h)) (o_sequence (snd h))"
      "fst e = mk (o_price (snd e)) (o_sequence (snd e))"
      using ok Cons e by (auto simp: side_ok_def)
    ultimately show ?thesis
      using out opp Cons
      by (auto simp: key_less within_limit_def split: OrderSide.splits option.splits)
  qed (use out Cons in simp)
qed (use e in simp)

lemma run_exhausts:
  assumes "sweep_run I ctx o1 limit s = Inr s'" "side_ok mk side (sw_resting s)" "in_i128 (sw_remaining s)"
    and "sweep_mode o1 = SM_Base" "o_side o1 \<noteq> side"
  shows "0 < sw_remaining s' \<longrightarrow>
    (\<forall>e \<in> set (sw_resting s'). \<not> within_limit limit (o_side o1) (o_price (snd e)))"
  using assms
proof (induction rule: run_induct)
  case (idle s)
  then show ?case
    using head_best[OF idle(1) _ idle(5), of limit] by (cases "sw_resting s") auto
qed simp

lemma run_journal:
  assumes "sweep_run I ctx o1 limit s = Inr s'" "side_ok mk side (sw_resting s)" "in_i128 (sw_remaining s)"
    and "sc_record ctx"
  shows "level_volume (sw_resting s') p - journal_volume (sw_journal s') side p =
      level_volume (sw_resting s) p - journal_volume (sw_journal s) side p
    \<and> level_orders (sw_resting s') p - journal_orders (sw_journal s') side p =
      level_orders (sw_resting s) p - journal_orders (sw_journal s) side p
    \<and> (\<exists>new. sw_journal s' = sw_journal s @ new \<and> (\<forall>c \<in> set new. dc_side c = side))"
  using assms
proof (induction rule: run_induct)
  case (fill s s' k maker others mv r)
  have sd: "o_side maker = side" using fill(3) by (simp add: resting_ok_def)
  have pr: "o_price m = o_price maker" if "after_fill maker mv = Some m" for m
    using frozen_eqD(1) after_fill_SomeD(1)[OF that fill(3,5,6)] by blast
  have "level_volume (put_head k (after_fill maker mv) others) p =
      level_volume (sw_resting s) p
      + (if o_price maker = p then visible_after maker mv - o_volume maker else 0)"
    and "level_orders (put_head k (after_fill maker mv) others) p =
      level_orders (sw_resting s) p
      + (if o_price maker = p then (if after_fill maker mv = None then - 1 else 0) else 0)"
    using fill(2) pr level_put_head[of maker mv k others p] by simp_all
  moreover from fill(9)[OF fill(10)] obtain new where
    "sw_journal s' = sw_journal (fill_state I ctx o1 s k maker others mv r) @ new"
    "\<forall>c \<in> set new. dc_side c = side" by blast
  ultimately show ?case
    using fill(9)[OF fill(10)] fill(10) sd
    by (simp add: fill_state_journal journal_append)
qed simp

lemma run_gtd:
  assumes "sweep_run I ctx o1 limit s = Inr s'" "side_ok mk side (sw_resting s)" "in_i128 (sw_remaining s)"
    and "sc_track_gtd ctx"
  shows "(sw_gtd_dirty s \<longrightarrow> sw_gtd_dirty s')
    \<and> (\<not> sw_gtd_dirty s' \<longrightarrow>
        gtd_times (snd ` set (sw_resting s')) = gtd_times (snd ` set (sw_resting s)))"
  using assms
proof (induction rule: run_induct)
  case (fill s s' k maker others mv r)
  have tf: "o_tif m = o_tif maker" if "after_fill maker mv = Some m" for m
    using frozen_eqD(3) after_fill_SomeD(1)[OF that fill(3,5,6)] by blast
  note IH = fill(9)[OF fill(10)]
  have "gtd_times (snd ` set (put_head k (after_fill maker mv) others)) = gtd_times (snd ` set (sw_resting s))"
    if "\<not> (after_fill maker mv = None \<and> is_gtd (o_tif maker))"
    using gtd_put_head[OF tf that, of k others] fill(2) by simp
  with IH fill(10) show ?case
    by (cases "after_fill maker mv = None \<and> is_gtd (o_tif maker)") (simp_all add: fill_state_def)
qed simp

end

interpretation bid: price_time_side BidKey Buy
  by unfold_locales (auto simp: less_BidKey_iff)

interpretation ask: price_time_side AskKey Sell
  by unfold_locales (auto simp: less_AskKey_iff)

end
