(* ===== verification/Book_Invariant.thy ===== *)
theory Book_Invariant
  imports Book_Sweep
begin

text \<open>
  The invariant of the order book.  \<open>book_core\<close> holds between any two steps of an operation;
  \<open>book_inv\<close> adds that no parked stop is electable, which holds between operations.  The
  theory shows that every operation keeps them and that the depth journal balances the book.
\<close>

section \<open>The invariant\<close>

definition side_seqs :: "('k, Order) btree \<Rightarrow> u64 set" where
  "side_seqs m = o_sequence ` snd ` set m"

definition book_orders :: "OrderBook \<Rightarrow> Order set" where
  "book_orders b = snd ` set (bids b) \<union> snd ` set (asks b) \<union> set (stops b)"

definition uncrossed :: "OrderBook \<Rightarrow> bool" where
  "uncrossed b \<longleftrightarrow> (\<forall>x \<in> set (bids b). \<forall>y \<in> set (asks b). o_price (snd x) < o_price (snd y))"

definition seqs_ok :: "OrderBook \<Rightarrow> bool" where
  "seqs_ok b \<longleftrightarrow>
     inj_on (\<lambda>e. o_sequence (snd e)) (set (bids b)) \<and> inj_on (\<lambda>e. o_sequence (snd e)) (set (asks b))
     \<and> distinct (map o_sequence (stops b))
     \<and> side_seqs (bids b) \<inter> side_seqs (asks b) = {}
     \<and> side_seqs (bids b) \<inter> o_sequence ` set (stops b) = {}
     \<and> side_seqs (asks b) \<inter> o_sequence ` set (stops b) = {}
     \<and> (\<forall>o1 \<in> book_orders b. o_sequence o1 < ob_sequence b)"

definition stop_ok :: "Order \<Rightarrow> bool" where
  "stop_ok o1 \<longleftrightarrow> is_stop o1 \<and> 0 < o_volume o1 \<and> o_volume o1 \<le> i128_max
     \<and> (o_live o1 = Limit \<longrightarrow> 0 < o_price o1 \<and> o_price o1 \<le> i128_max \<and> o_volume_unit o1 = VU_Base)"

definition earliest_of :: "u64 set \<Rightarrow> u64 option" where
  "earliest_of ts = (if ts = {} then None else Some (Min ts))"

definition gtd_index_ok :: "OrderBook \<Rightarrow> bool" where
  "gtd_index_ok b \<longleftrightarrow>
     gtd_scan_dirty b \<or> earliest_gtd_expiry b = earliest_of (gtd_times (book_orders b))"

definition book_core :: "OrderBook \<Rightarrow> bool" where
  "book_core b \<longleftrightarrow>
     side_ok BidKey Buy (bids b) \<and> side_ok AskKey Sell (asks b) \<and> (\<forall>o1 \<in> set (stops b). stop_ok o1)
     \<and> uncrossed b \<and> seqs_ok b \<and> gtd_index_ok b"

definition settled :: "OrderBook \<Rightarrow> bool" where
  "settled b \<longleftrightarrow> (\<forall>o1 \<in> set (stops b). \<forall>l. last_trade_price b = Some l \<longrightarrow> \<not> stop_elected o1 l)"

definition book_inv :: "OrderBook \<Rightarrow> bool" where
  "book_inv b \<longleftrightarrow> book_core b \<and> settled b"

text \<open>
  Level totals minus journalled changes.  An operation that journals exactly what it does to the
  visible book leaves this function unchanged.
\<close>

definition depth_balance :: "OrderBook \<Rightarrow> OrderSide \<Rightarrow> fixed \<Rightarrow> int \<times> int" where
  "depth_balance b side p =
     (case side of
        Buy \<Rightarrow> (level_volume (bids b) p - journal_volume (depth_journal b) Buy p,
                level_orders (bids b) p - journal_orders (depth_journal b) Buy p)
      | Sell \<Rightarrow> (level_volume (asks b) p - journal_volume (depth_journal b) Sell p,
                 level_orders (asks b) p - journal_orders (depth_journal b) Sell p))"

lemma book_seqs_eq:
  "o_sequence ` book_orders b = side_seqs (bids b) \<union> side_seqs (asks b) \<union> o_sequence ` set (stops b)"
  by (simp add: book_orders_def side_seqs_def image_Un)

section \<open>The deadline index\<close>

lemma finite_gtd_times: "finite os \<Longrightarrow> finite (gtd_times os)"
proof -
  assume "finite os"
  moreover have "gtd_times os \<subseteq> (\<lambda>o1. case o_tif o1 of Gtd t \<Rightarrow> t | _ \<Rightarrow> 0) ` os"
    by (force simp: gtd_times_def)
  ultimately show ?thesis by (meson finite_imageI finite_subset)
qed

lemma finite_book_orders [simp]: "finite (book_orders b)"
  by (simp add: book_orders_def)

lemma gtd_times_Un: "gtd_times (A \<union> B) = gtd_times A \<union> gtd_times B"
  by (auto simp: gtd_times_def)

lemma gtd_times_mono: "A \<subseteq> B \<Longrightarrow> gtd_times A \<subseteq> gtd_times B"
  by (auto simp: gtd_times_def)

lemma gtd_times_empty [simp]: "gtd_times {} = {}"
  by (simp add: gtd_times_def)

lemma earliest_of_empty [simp]: "earliest_of {} = None"
  by (simp add: earliest_of_def)

lemma earliest_of_insert: "finite ts \<Longrightarrow> earliest_of (insert t ts) = min_expiry (earliest_of ts) t"
  by (cases "ts = {}") (simp_all add: earliest_of_def min_expiry_def min.commute)

lemma note_expiry_cong: "o_tif o1 = o_tif o2 \<Longrightarrow> note_expiry e o1 = note_expiry e o2"
  by (simp add: note_expiry_def)

lemma note_expiry_earliest:
  "finite os \<Longrightarrow> note_expiry (earliest_of (gtd_times os)) o1 = earliest_of (gtd_times (insert o1 os))"
  by (simp add: note_expiry_def gtd_times_insert earliest_of_insert finite_gtd_times
      split: TimeInForce.splits)

lemma foldl_note_expiry:
  "finite os \<Longrightarrow> foldl note_expiry (earliest_of (gtd_times os)) xs = earliest_of (gtd_times (os \<union> set xs))"
  by (induction xs arbitrary: os) (simp_all add: note_expiry_earliest)

lemma refresh_index:
  "gtd_index_ok b \<Longrightarrow>
     earliest_gtd_expiry (refresh_earliest_gtd b) = earliest_of (gtd_times (book_orders b))"
  using foldl_note_expiry[of "{}" "bt_values (bids b) @ bt_values (asks b) @ stops b"]
  by (auto simp: refresh_earliest_gtd_def gtd_index_ok_def book_orders_def bt_values_def Un_assoc)

lemma refresh_sel [simp]:
  "bids (refresh_earliest_gtd b) = bids b" "asks (refresh_earliest_gtd b) = asks b"
  "stops (refresh_earliest_gtd b) = stops b" "ob_sequence (refresh_earliest_gtd b) = ob_sequence b"
  "last_trade_price (refresh_earliest_gtd b) = last_trade_price b"
  "depth_journal (refresh_earliest_gtd b) = depth_journal b"
  "record_depth (refresh_earliest_gtd b) = record_depth b"
  "\<not> gtd_scan_dirty (refresh_earliest_gtd b)"
  by (simp_all add: refresh_earliest_gtd_def)

lemma rest_index:
  assumes "gtd_index_ok b" "book_orders b' = insert o2 (book_orders b)" "o_tif o2 = o_tif o1"
    "gtd_scan_dirty b' = gtd_scan_dirty b"
    "earliest_gtd_expiry b' = note_expiry (earliest_gtd_expiry b) o1"
  shows "gtd_index_ok b'"
  using assms note_expiry_earliest[of "book_orders b" o2] note_expiry_cong[OF assms(3)]
  by (auto simp: gtd_index_ok_def)

section \<open>Shrinking a book\<close>

definition shrinks :: "('k, Order) btree \<Rightarrow> ('k, Order) btree \<Rightarrow> bool" where
  "shrinks m' m \<longleftrightarrow> (\<forall>e' \<in> set m'. \<exists>e \<in> set m. fst e' = fst e \<and> frozen (snd e') = frozen (snd e))"

lemma shrinks_refl [simp]: "shrinks m m"
  by (auto simp: shrinks_def)

lemma shrinks_subset: "set m' \<subseteq> set m \<Longrightarrow> shrinks m' m"
  by (auto simp: shrinks_def)

lemma shrinks_drop:
  assumes "map frozen_entry m' = drop n (map frozen_entry m)"
  shows "shrinks m' m"
proof -
  have "frozen_entry ` set m' \<subseteq> frozen_entry ` set m"
    using arg_cong[OF assms, of set] by (auto dest: in_set_dropD)
  then show ?thesis unfolding shrinks_def frozen_entry_def by blast
qed

lemma shrinksE:
  assumes "shrinks m' m" "e' \<in> set m'"
  obtains e where "e \<in> set m" "fst e' = fst e" "o_price (snd e') = o_price (snd e)"
    "o_sequence (snd e') = o_sequence (snd e)" "o_tif (snd e') = o_tif (snd e)"
proof -
  from assms obtain e where e: "e \<in> set m" "fst e' = fst e" "frozen (snd e') = frozen (snd e)"
    unfolding shrinks_def by blast
  show thesis using that[OF e(1,2) frozen_eqD(1,2,3)[OF e(3)]] .
qed

lemma shrinks_seqs:
  assumes "shrinks m' m"
  shows "side_seqs m' \<subseteq> side_seqs m"
proof
  fix t
  assume "t \<in> side_seqs m'"
  then obtain e' where e': "e' \<in> set m'" "o_sequence (snd e') = t" by (auto simp: side_seqs_def)
  then obtain e where "e \<in> set m" "o_sequence (snd e) = t" using shrinksE[OF assms e'(1)] by metis
  then show "t \<in> side_seqs m" by (auto simp: side_seqs_def)
qed

lemma shrinks_gtd:
  assumes "shrinks m' m"
  shows "gtd_times (snd ` set m') \<subseteq> gtd_times (snd ` set m)"
proof
  fix t
  assume "t \<in> gtd_times (snd ` set m')"
  then obtain e' where e': "e' \<in> set m'" "o_tif (snd e') = Gtd t" by (auto simp: gtd_times_def)
  then obtain e where "e \<in> set m" "o_tif (snd e) = Gtd t" using shrinksE[OF assms e'(1)] by metis
  then show "t \<in> gtd_times (snd ` set m)" by (force simp: gtd_times_def)
qed

lemma shrinks_inj:
  assumes sh: "shrinks m' m" and inj: "inj_on (\<lambda>e. o_sequence (snd e)) (set m)" and ok: "bt_ok m'"
  shows "inj_on (\<lambda>e. o_sequence (snd e)) (set m')"
proof (rule inj_onI)
  fix x y
  assume x: "x \<in> set m'" and y: "y \<in> set m'" and eq: "o_sequence (snd x) = o_sequence (snd y)"
  obtain x' where x': "x' \<in> set m" "fst x = fst x'" "o_sequence (snd x) = o_sequence (snd x')"
    using shrinksE[OF sh x] by metis
  obtain y' where y': "y' \<in> set m" "fst y = fst y'" "o_sequence (snd y) = o_sequence (snd y')"
    using shrinksE[OF sh y] by metis
  have "x' = y'" using inj_onD[OF inj, of x' y'] x' y' eq by simp
  then have "fst x = fst y" using x' y' by simp
  then show "x = y" using bt_get_iff[OF ok] x y by (metis option.inject prod.collapse)
qed

text \<open>One lemma for every operation that only takes volume or orders out of the book.\<close>

lemma book_core_shrink:
  assumes core: "book_core b"
    and sides: "side_ok BidKey Buy (bids b')" "side_ok AskKey Sell (asks b')"
    and sh: "shrinks (bids b') (bids b)" "shrinks (asks b') (asks b)"
    and st: "set (stops b') \<subseteq> set (stops b)" "distinct (map o_sequence (stops b'))"
    and sq: "ob_sequence b \<le> ob_sequence b'" and gtd: "gtd_index_ok b'"
  shows "book_core b'"
proof -
  have "uncrossed b'"
    unfolding uncrossed_def
  proof (intro ballI)
    fix x y
    assume x: "x \<in> set (bids b')" and y: "y \<in> set (asks b')"
    obtain x' y' where "x' \<in> set (bids b)" "o_price (snd x) = o_price (snd x')"
      "y' \<in> set (asks b)" "o_price (snd y) = o_price (snd y')"
      using shrinksE[OF sh(1) x] shrinksE[OF sh(2) y] by metis
    then show "o_price (snd x) < o_price (snd y)"
      using core by (simp add: book_core_def uncrossed_def)
  qed
  moreover have "seqs_ok b'"
  proof -
    have s: "seqs_ok b" using core by (simp add: book_core_def)
    have sub: "side_seqs (bids b') \<subseteq> side_seqs (bids b)" "side_seqs (asks b') \<subseteq> side_seqs (asks b)"
      using sh by (simp_all add: shrinks_seqs)
    have stsub: "o_sequence ` set (stops b') \<subseteq> o_sequence ` set (stops b)"
      using st(1) by (rule image_mono)
    have "o_sequence ` book_orders b' \<subseteq> o_sequence ` book_orders b"
      unfolding book_seqs_eq using sub stsub by blast
    then have "\<forall>o1 \<in> book_orders b'. o_sequence o1 < ob_sequence b'"
      using s sq by (simp add: seqs_ok_def image_subset_iff) (metis imageE order_less_le_trans)
    moreover have "inj_on (\<lambda>e. o_sequence (snd e)) (set (bids b'))"
      "inj_on (\<lambda>e. o_sequence (snd e)) (set (asks b'))"
      using shrinks_inj[OF sh(1)] shrinks_inj[OF sh(2)] sides s
      unfolding seqs_ok_def side_ok_def by blast+
    ultimately show ?thesis
      using s sub stsub st(2) unfolding seqs_ok_def by (meson disjoint_iff subsetD)
  qed
  ultimately show ?thesis
    using core sides st gtd by (auto simp: book_core_def)
qed

section \<open>Sums over a side\<close>

lemma bt_insert_sum:
  fixes f :: "'k::linorder \<times> 'v \<Rightarrow> int"
  shows "k \<notin> fst ` set m \<Longrightarrow> sum_list (map f (bt_insert k v m)) = f (k, v) + sum_list (map f m)"
  by (induction m) auto

lemma bt_remove_sum:
  fixes f :: "'k::linorder \<times> 'v \<Rightarrow> int"
  shows "bt_ok m \<Longrightarrow> (k, v) \<in> set m \<Longrightarrow> sum_list (map f (bt_remove k m)) = sum_list (map f m) - f (k, v)"
  by (induction m) (force simp: bt_ok_Cons)+

lemma bt_update_sum:
  fixes f :: "'k::linorder \<times> 'v \<Rightarrow> int"
  shows "bt_ok m \<Longrightarrow> (k, v) \<in> set m \<Longrightarrow>
    sum_list (map f (bt_insert k w m)) = sum_list (map f m) - f (k, v) + f (k, w)"
  by (induction m) (force simp: bt_ok_Cons)+

lemma level_insert:
  assumes "k \<notin> fst ` set m"
  shows "level_volume (bt_insert k v m) p = level_volume m p + (if o_price v = p then o_volume v else 0)"
    "level_orders (bt_insert k v m) p = level_orders m p + (if o_price v = p then 1 else 0)"
  using assms by (simp_all add: level_volume_def level_orders_def bt_insert_sum)

lemma level_remove:
  assumes "bt_ok m" "(k, v) \<in> set m"
  shows "level_volume (bt_remove k m) p = level_volume m p - (if o_price v = p then o_volume v else 0)"
    "level_orders (bt_remove k m) p = level_orders m p - (if o_price v = p then 1 else 0)"
  using assms by (simp_all add: level_volume_def level_orders_def bt_remove_sum)

lemma level_update:
  assumes "bt_ok m" "(k, v) \<in> set m" "o_price w = o_price v"
  shows "level_volume (bt_insert k w m) p =
      level_volume m p + (if o_price v = p then o_volume w - o_volume v else 0)"
    "level_orders (bt_insert k w m) p = level_orders m p"
  using assms by (simp_all add: level_volume_def level_orders_def bt_update_sum)

lemma journal_other:
  assumes "\<forall>c \<in> set new. dc_side c = a" "a \<noteq> side"
  shows "journal_volume new side p = 0" "journal_orders new side p = 0"
  using assms by (induction new) (auto simp: journal_volume_def journal_orders_def)

section \<open>The sweep keeps the core\<close>

text \<open>The makers an order on \<open>side\<close> would trade with, best first.\<close>

definition opposing :: "OrderBook \<Rightarrow> OrderSide \<Rightarrow> Order list" where
  "opposing b side = (case side of Buy \<Rightarrow> bt_values (asks b) | Sell \<Rightarrow> bt_values (bids b))"

lemma sweep_cases [consumes 1, case_names Buy Sell]:
  assumes "sweep I b o1 limit config = Inr (b', fills, remainder)"
  obtains (Buy) s where "o_side o1 = Buy"
      "sweep_run I \<lparr>sc_config = config, sc_record = record_depth b, sc_track_gtd = has_gtd_deadlines b\<rparr> o1 limit
         \<lparr>sw_resting = asks b, sw_remaining = o_volume o1, sw_results = [], sw_journal = depth_journal b,
          sw_gtd_dirty = gtd_scan_dirty b\<rparr> = Inr s"
      "b' = b\<lparr>asks := sw_resting s, depth_journal := sw_journal s, gtd_scan_dirty := sw_gtd_dirty s\<rparr>"
      "fills = sw_results s" "remainder = sw_remaining s"
  | (Sell) s where "o_side o1 = Sell"
      "sweep_run I \<lparr>sc_config = config, sc_record = record_depth b, sc_track_gtd = has_gtd_deadlines b\<rparr> o1 limit
         \<lparr>sw_resting = bids b, sw_remaining = o_volume o1, sw_results = [], sw_journal = depth_journal b,
          sw_gtd_dirty = gtd_scan_dirty b\<rparr> = Inr s"
      "b' = b\<lparr>bids := sw_resting s, depth_journal := sw_journal s, gtd_scan_dirty := sw_gtd_dirty s\<rparr>"
      "fills = sw_results s" "remainder = sw_remaining s"
  using assms unfolding sweep_def Let_def
  by (cases "o_side o1") (auto simp: sweep_side_def split: sum.splits)

lemma sweep_sel:
  assumes "sweep I b o1 limit config = Inr (b', fills, remainder)"
  shows "stops b' = stops b" "ob_sequence b' = ob_sequence b" "last_trade_price b' = last_trade_price b"
    "record_depth b' = record_depth b" "earliest_gtd_expiry b' = earliest_gtd_expiry b"
  using assms by (cases rule: sweep_cases; simp)+

text \<open>The index after a sweep: tracking is off only when no deadline exists.\<close>

lemma sweep_index:
  assumes gi: "gtd_index_ok b"
    and eq: "earliest_gtd_expiry b' = earliest_gtd_expiry b"
    and sub: "gtd_times (book_orders b') \<subseteq> gtd_times (book_orders b)"
    and tr: "has_gtd_deadlines b \<Longrightarrow> \<not> gtd_scan_dirty b' \<Longrightarrow>
      \<not> gtd_scan_dirty b \<and> gtd_times (book_orders b') = gtd_times (book_orders b)"
  shows "gtd_index_ok b'"
proof (cases "has_gtd_deadlines b")
  case True
  then show ?thesis using gi eq tr by (cases "gtd_scan_dirty b'") (simp_all add: gtd_index_ok_def)
next
  case False
  then have "earliest_gtd_expiry b = None" "\<not> gtd_scan_dirty b" by (simp_all add: has_gtd_deadlines_def)
  moreover from this gi have "gtd_times (book_orders b) = {}"
    by (auto simp: gtd_index_ok_def earliest_of_def split: if_splits)
  ultimately show ?thesis using sub eq by (simp add: gtd_index_ok_def)
qed

lemma sweep_core:
  assumes sw: "sweep I b o1 limit config = Inr (b', fills, remainder)"
    and core: "book_core b" and vol: "in_i128 (o_volume o1)"
  shows "book_core b'"
  using sw
proof (cases rule: sweep_cases)
  case (Buy s)
  have ok: "side_ok AskKey Sell (asks b)" using core by (simp add: book_core_def)
  note run = Buy(2)
  have ok': "side_ok AskKey Sell (sw_resting s)" using ask.run_ok[OF run] ok vol by simp
  obtain n where "map frozen_entry (sw_resting s) = drop n (map frozen_entry (asks b))"
    using ask.run_suffix[OF run] ok vol by auto
  then have sh: "shrinks (sw_resting s) (asks b)" by (rule shrinks_drop)
  have "gtd_index_ok b'"
  proof (rule sweep_index[of b])
    show "gtd_index_ok b" using core by (simp add: book_core_def)
    show "gtd_times (book_orders b') \<subseteq> gtd_times (book_orders b)"
      using shrinks_gtd[OF sh] Buy(3) by (auto simp: book_orders_def gtd_times_Un)
    show "\<not> gtd_scan_dirty b \<and> gtd_times (book_orders b') = gtd_times (book_orders b)"
      if "has_gtd_deadlines b" "\<not> gtd_scan_dirty b'"
      using ask.run_gtd[OF run] ok vol that Buy(3) by (auto simp: book_orders_def gtd_times_Un)
  qed (simp add: Buy(3))
  then show ?thesis
    using core sh ok' Buy(3) by (intro book_core_shrink[OF core]) (simp_all add: book_core_def seqs_ok_def)
next
  case (Sell s)
  have ok: "side_ok BidKey Buy (bids b)" using core by (simp add: book_core_def)
  note run = Sell(2)
  have ok': "side_ok BidKey Buy (sw_resting s)" using bid.run_ok[OF run] ok vol by simp
  obtain n where "map frozen_entry (sw_resting s) = drop n (map frozen_entry (bids b))"
    using bid.run_suffix[OF run] ok vol by auto
  then have sh: "shrinks (sw_resting s) (bids b)" by (rule shrinks_drop)
  have "gtd_index_ok b'"
  proof (rule sweep_index[of b])
    show "gtd_index_ok b" using core by (simp add: book_core_def)
    show "gtd_times (book_orders b') \<subseteq> gtd_times (book_orders b)"
      using shrinks_gtd[OF sh] Sell(3) by (auto simp: book_orders_def gtd_times_Un)
    show "\<not> gtd_scan_dirty b \<and> gtd_times (book_orders b') = gtd_times (book_orders b)"
      if "has_gtd_deadlines b" "\<not> gtd_scan_dirty b'"
      using bid.run_gtd[OF run] ok vol that Sell(3) by (auto simp: book_orders_def gtd_times_Un)
  qed (simp add: Sell(3))
  then show ?thesis
    using core sh ok' Sell(3) by (intro book_core_shrink[OF core]) (simp_all add: book_core_def seqs_ok_def)
qed

lemma sweep_volume:
  assumes sw: "sweep I b o1 limit config = Inr (b', fills, remainder)"
    and core: "book_core b" and vol: "in_i128 (o_volume o1)" "0 \<le> o_volume o1"
    and base: "sweep_mode o1 = SM_Base"
  shows "remainder + fill_sum fills = o_volume o1 \<and> 0 \<le> remainder \<and>
    (0 < remainder \<longrightarrow> (\<forall>maker \<in> set (opposing b' (o_side o1)).
       \<not> within_limit limit (o_side o1) (o_price maker)))"
  using sw
proof (cases rule: sweep_cases)
  case (Buy s)
  have ok: "side_ok AskKey Sell (asks b)" using core by (simp add: book_core_def)
  show ?thesis
    using ask.run_conserves_taker[OF Buy(2)] ask.run_exhausts[OF Buy(2)] ok vol base Buy
    by (simp add: fill_sum_def opposing_def bt_values_def)
next
  case (Sell s)
  have ok: "side_ok BidKey Buy (bids b)" using core by (simp add: book_core_def)
  show ?thesis
    using bid.run_conserves_taker[OF Sell(2)] bid.run_exhausts[OF Sell(2)] ok vol base Sell
    by (simp add: fill_sum_def opposing_def bt_values_def)
qed

lemma sweep_balance:
  assumes sw: "sweep I b o1 limit config = Inr (b', fills, remainder)"
    and core: "book_core b" and vol: "in_i128 (o_volume o1)" and rec: "record_depth b"
  shows "depth_balance b' = depth_balance b"
  using sw
proof (cases rule: sweep_cases)
  case (Buy s)
  have ok: "side_ok AskKey Sell (asks b)" using core by (simp add: book_core_def)
  show ?thesis
  proof (intro ext)
    fix side p
    show "depth_balance b' side p = depth_balance b side p"
      using ask.run_journal[OF Buy(2), of p] ok vol rec Buy(3)
      by (cases side) (auto simp: depth_balance_def journal_other[where a = Sell] journal_other[where a = Buy])
  qed
next
  case (Sell s)
  have ok: "side_ok BidKey Buy (bids b)" using core by (simp add: book_core_def)
  show ?thesis
  proof (intro ext)
    fix side p
    show "depth_balance b' side p = depth_balance b side p"
      using bid.run_journal[OF Sell(2), of p] ok vol rec Sell(3)
      by (cases side) (auto simp: depth_balance_def journal_other[where a = Sell] journal_other[where a = Buy])
  qed
qed

section \<open>Resting an order keeps the core\<close>

definition rested :: "Order \<Rightarrow> fixed \<Rightarrow> Order" where
  "rested o1 tot =
     (let visible = (if 0 < o_display_volume o1 then min (o_display_volume o1) tot else tot)
      in o1\<lparr>o_volume := visible, o_hidden_volume := tot - visible\<rparr>)"

lemma rested_sel [simp]:
  "o_price (rested o1 tot) = o_price o1" "o_sequence (rested o1 tot) = o_sequence o1"
  "o_tif (rested o1 tot) = o_tif o1" "o_side (rested o1 tot) = o_side o1"
  by (simp_all add: rested_def Let_def)

lemma rest_eq:
  assumes "0 < tot" "tot \<le> i128_max"
  shows "fst (rest b o1 tot) =
    b\<lparr>bids := (if o_side o1 = Buy then bt_insert (BidKey (o_price o1) (o_sequence o1)) (rested o1 tot) (bids b)
               else bids b),
      asks := (if o_side o1 = Sell then bt_insert (AskKey (o_price o1) (o_sequence o1)) (rested o1 tot) (asks b)
               else asks b),
      earliest_gtd_expiry := note_expiry (earliest_gtd_expiry b) o1,
      depth_journal := push_depth_change (depth_journal b) (record_depth b) (o_side o1) (o_price o1)
        (o_volume (rested o1 tot)) 1\<rparr>"
    "snd (rest b o1 tot) = o_volume (rested o1 tot)"
proof -
  define visible where
    "visible = (if 0 < o_display_volume o1 then fixed_min (o_display_volume o1) tot else tot)"
  have v: "visible = (if 0 < o_display_volume o1 then min (o_display_volume o1) tot else tot)"
    by (simp add: visible_def fixed_min_def min_def)
  then have "in_i128 (tot - visible)" using assms by (auto simp: in_i128_def)
  then have r: "o1\<lparr>o_volume := visible, o_hidden_volume := fixed_sub tot visible\<rparr> = rested o1 tot"
    by (simp add: fixed_sub_exact rested_def v Let_def)
  have vis: "o_volume (rested o1 tot) = visible" by (simp add: rested_def v Let_def)
  show "snd (rest b o1 tot) = o_volume (rested o1 tot)"
    unfolding rest_def Let_def visible_def[symmetric] vis by simp
  show "fst (rest b o1 tot) =
    b\<lparr>bids := (if o_side o1 = Buy then bt_insert (BidKey (o_price o1) (o_sequence o1)) (rested o1 tot) (bids b)
               else bids b),
      asks := (if o_side o1 = Sell then bt_insert (AskKey (o_price o1) (o_sequence o1)) (rested o1 tot) (asks b)
               else asks b),
      earliest_gtd_expiry := note_expiry (earliest_gtd_expiry b) o1,
      depth_journal := push_depth_change (depth_journal b) (record_depth b) (o_side o1) (o_price o1)
        (o_volume (rested o1 tot)) 1\<rparr>"
    unfolding rest_def Let_def visible_def[symmetric] r vis
    by (cases "o_side o1"; cases "o_tif o1";
        simp add: note_expiry_def record_depth_change_def push_depth_change_def)
qed

definition restable :: "Order \<Rightarrow> fixed \<Rightarrow> bool" where
  "restable o1 tot \<longleftrightarrow> o_live o1 = Limit \<and> o_volume_unit o1 = VU_Base \<and> \<not> is_stop o1
     \<and> 0 < o_price o1 \<and> o_price o1 \<le> i128_max \<and> 0 \<le> o_display_volume o1
     \<and> 0 < tot \<and> tot \<le> i128_max"

lemma rested_ok: "restable o1 tot \<Longrightarrow> resting_ok (o_side o1) (rested o1 tot)"
  by (auto simp: restable_def resting_ok_def rested_def Let_def is_stop_def)

context price_time_side
begin

lemma insert_ok:
  assumes "side_ok mk side m" "resting_ok side o1" "k = mk (o_price o1) (o_sequence o1)"
  shows "side_ok mk side (bt_insert k o1 m)"
  using assms by (auto simp: side_ok_def bt_ok_insert set_bt_insert)

lemma remove_ok:
  assumes "side_ok mk side m"
  shows "side_ok mk side (bt_remove k m)"
  using assms by (auto simp: side_ok_def bt_ok_remove set_bt_remove)

lemma filter_ok:
  assumes "side_ok mk side m"
  shows "side_ok mk side (filter P m)"
  using assms by (auto simp: side_ok_def bt_ok_filter)

lemma fresh_key:
  assumes "side_ok mk side m" "s \<notin> side_seqs m"
  shows "mk p s \<notin> fst ` set m"
proof
  assume "mk p s \<in> fst ` set m"
  then obtain e where e: "e \<in> set m" "mk p s = fst e" by auto
  then have "s = o_sequence (snd e)" using assms(1) by (auto simp: side_ok_def key_inj)
  then show False using e assms(2) by (auto simp: side_seqs_def)
qed

lemma fresh_set:
  assumes ok: "side_ok mk side m" and fresh: "o_sequence o1 \<notin> side_seqs m"
  shows "set (bt_insert (mk p (o_sequence o1)) o1 m) = insert (mk p (o_sequence o1), o1) (set m)"
proof -
  have "bt_ok m" using ok unfolding side_ok_def by blast
  then show ?thesis using fresh_key[OF ok fresh, of p] by (force simp: set_bt_insert)
qed

lemma fresh_inj:
  assumes ok: "side_ok mk side m" and fresh: "o_sequence o1 \<notin> side_seqs m"
    and inj: "inj_on (\<lambda>e. o_sequence (snd e)) (set m)"
  shows "inj_on (\<lambda>e. o_sequence (snd e)) (set (bt_insert (mk p (o_sequence o1)) o1 m))"
proof -
  have "o_sequence o1 \<notin> (\<lambda>e. o_sequence (snd e)) ` set m"
    using fresh by (auto simp: side_seqs_def)
  then show ?thesis using inj by (auto simp: fresh_set[OF ok fresh] inj_on_insert)
qed

lemma get_entry:
  assumes "side_ok mk side m" "bt_get k m = Some o1"
  shows "(k, o1) \<in> set m" "k = mk (o_price o1) (o_sequence o1)" "resting_ok side o1"
  using assms bt_get_iff[of m k o1] by (auto simp: side_ok_def)

end

text \<open>Adding one order with a fresh sequence to either side.\<close>

lemma seqs_ok_add:
  assumes s: "seqs_ok b" and core: "side_ok BidKey Buy (bids b)" "side_ok AskKey Sell (asks b)"
    and fresh: "o_sequence o1 \<notin> o_sequence ` book_orders b" "o_sequence o1 < ob_sequence b"
  shows "bids b' = bt_insert (BidKey p (o_sequence o1)) o1 (bids b) \<Longrightarrow> asks b' = asks b \<Longrightarrow>
      stops b' = stops b \<Longrightarrow> ob_sequence b' = ob_sequence b \<Longrightarrow> seqs_ok b'"
    "asks b' = bt_insert (AskKey p (o_sequence o1)) o1 (asks b) \<Longrightarrow> bids b' = bids b \<Longrightarrow>
      stops b' = stops b \<Longrightarrow> ob_sequence b' = ob_sequence b \<Longrightarrow> seqs_ok b'"
    "stops b' = stops b @ [o1] \<Longrightarrow> asks b' = asks b \<Longrightarrow> bids b' = bids b \<Longrightarrow>
      ob_sequence b' = ob_sequence b \<Longrightarrow> seqs_ok b'"
proof -
  have f: "o_sequence o1 \<notin> side_seqs (bids b)" "o_sequence o1 \<notin> side_seqs (asks b)"
    "o_sequence o1 \<notin> o_sequence ` set (stops b)"
    using fresh(1) by (simp_all add: book_seqs_eq)
  show "seqs_ok b'" if "bids b' = bt_insert (BidKey p (o_sequence o1)) o1 (bids b)" "asks b' = asks b"
    "stops b' = stops b" "ob_sequence b' = ob_sequence b"
    using s f fresh(2) that bid.fresh_inj[OF core(1) f(1), of p]
    by (simp add: seqs_ok_def side_seqs_def book_orders_def bid.fresh_set[OF core(1) f(1)])
  show "seqs_ok b'" if "asks b' = bt_insert (AskKey p (o_sequence o1)) o1 (asks b)" "bids b' = bids b"
    "stops b' = stops b" "ob_sequence b' = ob_sequence b"
    using s f fresh(2) that ask.fresh_inj[OF core(2) f(2), of p]
    by (simp add: seqs_ok_def side_seqs_def book_orders_def ask.fresh_set[OF core(2) f(2)])
  show "seqs_ok b'" if "stops b' = stops b @ [o1]" "asks b' = asks b" "bids b' = bids b"
    "ob_sequence b' = ob_sequence b"
    using s f fresh(2) that by (simp add: seqs_ok_def book_orders_def)
qed

lemma rest_core:
  assumes core: "book_core b" and r: "restable o1 tot"
    and fresh: "o_sequence o1 \<notin> o_sequence ` book_orders b" "o_sequence o1 < ob_sequence b"
    and clear: "\<forall>maker \<in> set (opposing b (o_side o1)). \<not> within_limit (Some (o_price o1)) (o_side o1) (o_price maker)"
  shows "book_core (fst (rest b o1 tot))"
proof -
  let ?b = "fst (rest b o1 tot)" and ?o = "rested o1 tot"
  have tot: "0 < tot" "tot \<le> i128_max" using r by (simp_all add: restable_def)
  note eq = rest_eq[OF tot]
  have ok: "side_ok BidKey Buy (bids b)" "side_ok AskKey Sell (asks b)" and s: "seqs_ok b"
    using core by (simp_all add: book_core_def)
  have f: "o_sequence ?o \<notin> side_seqs (bids b)" "o_sequence ?o \<notin> side_seqs (asks b)"
    using fresh(1) by (simp_all add: book_seqs_eq)
  have fr: "o_sequence ?o \<notin> o_sequence ` book_orders b" "o_sequence ?o < ob_sequence b"
    using fresh by simp_all
  have "gtd_index_ok ?b"
  proof (rule rest_index[of b ?b ?o o1])
    show "book_orders ?b = insert ?o (book_orders b)"
      using bid.fresh_set[OF ok(1) f(1), of "o_price o1"] ask.fresh_set[OF ok(2) f(2), of "o_price o1"]
      by (cases "o_side o1") (simp_all add: eq book_orders_def)
  qed (use core in \<open>simp_all add: book_core_def eq\<close>)
  moreover have "seqs_ok ?b"
    using seqs_ok_add(1,2)[OF s ok fr, of ?b "o_price o1"] by (cases "o_side o1") (simp_all add: eq)
  moreover have "uncrossed ?b"
    using core clear bid.fresh_set[OF ok(1) f(1), of "o_price o1"] ask.fresh_set[OF ok(2) f(2), of "o_price o1"]
    by (cases "o_side o1")
      (auto simp: eq uncrossed_def book_core_def opposing_def bt_values_def within_limit_def)
  moreover have "side_ok BidKey Buy (bids ?b)"
    using ok(1) bid.insert_ok[OF ok(1), of ?o] rested_ok[OF r] by (cases "o_side o1") (simp_all add: eq)
  moreover have "side_ok AskKey Sell (asks ?b)"
    using ok(2) ask.insert_ok[OF ok(2), of ?o] rested_ok[OF r] by (cases "o_side o1") (simp_all add: eq)
  ultimately show ?thesis using core by (simp add: book_core_def eq)
qed

lemma rest_balance:
  assumes core: "book_core b" and r: "restable o1 tot" and rec: "record_depth b"
    and fresh: "o_sequence o1 \<notin> o_sequence ` book_orders b"
  shows "depth_balance (fst (rest b o1 tot)) = depth_balance b"
proof (intro ext)
  fix side p
  have tot: "0 < tot" "tot \<le> i128_max" using r by (simp_all add: restable_def)
  have "BidKey (o_price o1) (o_sequence o1) \<notin> fst ` set (bids b)"
    "AskKey (o_price o1) (o_sequence o1) \<notin> fst ` set (asks b)"
    using bid.fresh_key[of "bids b"] ask.fresh_key[of "asks b"] core fresh
    by (simp_all add: book_core_def book_seqs_eq)
  then show "depth_balance (fst (rest b o1 tot)) side p = depth_balance b side p"
    using rec by (cases side; cases "o_side o1")
      (simp_all add: rest_eq[OF tot] depth_balance_def level_insert push_depth_change_def)
qed

end
