(* ===== verification/Book_Operations.thy ===== *)
theory Book_Operations
  imports Book_Invariant
begin

text \<open>
  Every operation of the order book keeps the invariant of \<open>Book_Invariant\<close> and journals exactly
  what it changes: expiry, cancellation, amendment, the stop cascade and submission.
\<close>

section \<open>Expiry\<close>

definition expiry_changes :: "bool \<Rightarrow> OrderSide \<Rightarrow> Order list \<Rightarrow> DepthChange list" where
  "expiry_changes rec side os =
     (if rec then map (\<lambda>o1. \<lparr>dc_side = side, dc_price = o_price o1,
        dc_delta_volume = fixed_neg (o_volume o1), dc_delta_orders = - 1\<rparr>) os else [])"

lemma purge_keys_filter:
  assumes "bt_ok m" "set xs \<subseteq> set m" "distinct (map fst xs)"
  shows "purge_keys P rec side (map fst xs) (m, j, removed) =
    (filter (\<lambda>e. \<not> (e \<in> set xs \<and> P (snd e))) m,
     j @ expiry_changes rec side (filter P (map snd xs)), removed @ filter P (map snd xs))"
  using assms
proof (induction xs arbitrary: m j removed)
  case Nil
  then show ?case by (simp add: expiry_changes_def)
next
  case (Cons e xs)
  obtain k o1 where e: "e = (k, o1)" by (cases e)
  have get: "bt_get k m = Some o1" using Cons.prems e by (simp add: bt_get_iff)
  have uniq: "fst x = k \<longleftrightarrow> x = e" if "x \<in> set m" for x
  proof -
    have "(fst x, snd x) \<in> set m" using that by simp
    then have "bt_get (fst x) m = Some (snd x)" using bt_get_iff[OF Cons.prems(1)] by blast
    then show ?thesis using get e by (cases x) auto
  qed
  have rem: "bt_remove k m = filter (\<lambda>x. x \<noteq> e) m"
  proof (rule bt_ok_unique)
    show "set (bt_remove k m) = set (filter (\<lambda>x. x \<noteq> e) m)"
      using Cons.prems(1) uniq by (auto simp: set_bt_remove)
  qed (use Cons.prems in \<open>simp_all add: bt_ok_remove bt_ok_filter\<close>)
  show ?case
  proof (cases "P o1")
    case True
    have "set xs \<subseteq> set (filter (\<lambda>x. x \<noteq> e) m)" using Cons.prems e by force
    then show ?thesis
      using True get rem Cons.prems
        Cons.IH[of "filter (\<lambda>x. x \<noteq> e) m" "push_depth_change j rec side (o_price o1) (fixed_neg (o_volume o1)) (- 1)"
          "removed @ [o1]"]
      by (auto simp: e bt_ok_filter push_depth_change_def expiry_changes_def intro!: filter_cong)
  next
    case False
    then show ?thesis
      using get Cons.prems Cons.IH[of m j removed] by (auto simp: e intro!: filter_cong)
  qed
qed

lemma purge_keys_eq:
  assumes "bt_ok m"
  shows "purge_keys P rec side (map fst m) (m, j, removed) =
    (filter (\<lambda>e. \<not> P (snd e)) m, j @ expiry_changes rec side (filter P (bt_values m)),
     removed @ filter P (bt_values m))"
proof -
  have "distinct (map fst m)" using assms by (auto dest: bt_ok_distinct)
  then show ?thesis
    using purge_keys_filter[OF assms subset_refl, of P rec side j removed]
    by (simp add: bt_values_def cong: filter_cong)
qed

text \<open>What expiry removes, and what it leaves.\<close>

definition expired_orders :: "OrderBook \<Rightarrow> u64 \<Rightarrow> u64 option \<Rightarrow> Order list" where
  "expired_orders b now day =
     filter (\<lambda>o1. is_expired (o_tif o1) now day) (bt_values (bids b) @ bt_values (asks b) @ stops b)"

lemma purge_expired_eq:
  assumes "bt_ok (bids b)" "bt_ok (asks b)"
  shows "purge_expired b now day =
    (b\<lparr>bids := filter (\<lambda>e. \<not> is_expired (o_tif (snd e)) now day) (bids b),
       asks := filter (\<lambda>e. \<not> is_expired (o_tif (snd e)) now day) (asks b),
       stops := filter (\<lambda>o1. \<not> is_expired (o_tif o1) now day) (stops b),
       depth_journal := depth_journal b
         @ expiry_changes (record_depth b) Buy (filter (\<lambda>o1. is_expired (o_tif o1) now day) (bt_values (bids b)))
         @ expiry_changes (record_depth b) Sell (filter (\<lambda>o1. is_expired (o_tif o1) now day) (bt_values (asks b))),
       gtd_scan_dirty := gtd_scan_dirty b \<or> expired_orders b now day \<noteq> []\<rparr>,
     expired_orders b now day)"
  unfolding purge_expired_def Let_def purge_keys_eq[OF assms(1)] purge_keys_eq[OF assms(2)] prod.case
  by (auto simp: expired_orders_def)

lemma core_bt_ok: "book_core b \<Longrightarrow> bt_ok (bids b) \<and> bt_ok (asks b)"
  by (auto simp: book_core_def side_ok_def)

lemma purge_core:
  assumes core: "book_core b"
  shows "book_core (fst (purge_expired b now day))"
proof -
  have ok: "bt_ok (bids b)" "bt_ok (asks b)" using core_bt_ok[OF core] by auto
  note eq = purge_expired_eq[OF ok, of now day]
  let ?b = "fst (purge_expired b now day)"
  have "gtd_index_ok ?b"
  proof (cases "expired_orders b now day = []")
    case True
    then have "filter (\<lambda>e. \<not> is_expired (o_tif (snd e)) now day) (bids b) = bids b"
      "filter (\<lambda>e. \<not> is_expired (o_tif (snd e)) now day) (asks b) = asks b"
      "filter (\<lambda>o1. \<not> is_expired (o_tif o1) now day) (stops b) = stops b"
      by (auto simp: expired_orders_def filter_empty_conv bt_values_def filter_id_conv)
    then show ?thesis using core True by (simp add: eq book_core_def gtd_index_ok_def book_orders_def)
  qed (simp add: eq gtd_index_ok_def)
  then show ?thesis
    using core bid.filter_ok[of "bids b"] ask.filter_ok[of "asks b"]
    by (intro book_core_shrink[OF core])
      (auto simp: eq book_core_def seqs_ok_def intro!: shrinks_subset distinct_map_filter)
qed

lemma filter_sum:
  fixes f :: "'a \<Rightarrow> int"
  shows "sum_list (map f (filter (\<lambda>x. \<not> P x) xs)) = sum_list (map f xs) - sum_list (map f (filter P xs))"
  by (induction xs) auto

lemma resting_neg: "resting_ok side o1 \<Longrightarrow> fixed_neg (o_volume o1) = - o_volume o1"
  by (rule fixed_neg_exact) (auto simp: resting_ok_def in_i128_def)

lemma expiry_balance:
  assumes ok: "\<forall>e \<in> set m. resting_ok side (snd e)"
  shows "level_volume (filter (\<lambda>e. \<not> P (snd e)) m) p =
      level_volume m p + journal_volume (expiry_changes True side (filter P (bt_values m))) side p"
    "level_orders (filter (\<lambda>e. \<not> P (snd e)) m) p =
      level_orders m p + journal_orders (expiry_changes True side (filter P (bt_values m))) side p"
  using ok
  by (induction m) (auto simp: level_volume_def level_orders_def journal_volume_def journal_orders_def
      expiry_changes_def bt_values_def resting_neg)

lemma expiry_changes_side: "\<forall>c \<in> set (expiry_changes rec side os). dc_side c = side"
  by (auto simp: expiry_changes_def)

lemma purge_balance:
  assumes core: "book_core b" and rec: "record_depth b"
  shows "depth_balance (fst (purge_expired b now day)) = depth_balance b"
proof (intro ext)
  fix side p
  let ?P = "\<lambda>o1. is_expired (o_tif o1) now day"
  have ok: "bt_ok (bids b)" "bt_ok (asks b)" using core_bt_ok[OF core] by auto
  have "\<forall>e \<in> set (bids b). resting_ok Buy (snd e)" "\<forall>e \<in> set (asks b). resting_ok Sell (snd e)"
    using core by (auto simp: book_core_def side_ok_def)
  note bal = expiry_balance[OF this(1), of ?P p] expiry_balance[OF this(2), of ?P p]
  note oth = journal_other[OF expiry_changes_side[of True Buy], of Sell]
    journal_other[OF expiry_changes_side[of True Sell], of Buy]
  show "depth_balance (fst (purge_expired b now day)) side p = depth_balance b side p"
    using rec by (cases side) (simp_all add: purge_expired_eq[OF ok] depth_balance_def bal oth)
qed

text \<open>The automatic purge before a submission does the full scan's work whenever there is any.\<close>

lemma refresh_core: "book_core b \<Longrightarrow> book_core (refresh_earliest_gtd b)"
proof -
  assume core: "book_core b"
  have "book_orders (refresh_earliest_gtd b) = book_orders b" by (simp add: book_orders_def)
  then have "gtd_index_ok (refresh_earliest_gtd b)"
    using refresh_index[of b] core by (simp add: book_core_def gtd_index_ok_def)
  then show "book_core (refresh_earliest_gtd b)"
    using core by (intro book_core_shrink[OF core]) (simp_all add: book_core_def seqs_ok_def)
qed

lemma refresh_expired [simp]: "expired_orders (refresh_earliest_gtd b) now day = expired_orders b now day"
  by (simp add: expired_orders_def)

lemma gtd_not_due:
  assumes "case earliest_of (gtd_times (book_orders b)) of None \<Rightarrow> True | Some t \<Rightarrow> now < t"
  shows "expired_orders b now None = []"
proof -
  have "\<not> is_expired (o_tif o1) now None" if o: "o1 \<in> book_orders b" for o1
  proof (cases "o_tif o1")
    case (Gtd t)
    then have t: "t \<in> gtd_times (book_orders b)" using o by (auto simp: gtd_times_def)
    then have "Min (gtd_times (book_orders b)) \<le> t" by (simp add: finite_gtd_times)
    then show ?thesis using assms t Gtd by (auto simp: earliest_of_def split: if_splits)
  qed simp_all
  then show ?thesis
    by (auto simp: expired_orders_def filter_empty_conv book_orders_def bt_values_def)
qed

lemma purge_due_cases:
  assumes core: "book_core b"
  shows "purge_due_gtd b now = purge_expired (refresh_earliest_gtd b) now None \<or>
    (purge_due_gtd b now = (refresh_earliest_gtd b, []) \<and> expired_orders b now None = [])"
  using gtd_not_due[where b = b and now = now] refresh_index[of b] core
  by (auto simp: purge_due_gtd_def Let_def book_core_def split: option.splits)

lemma purge_due_core: "book_core b \<Longrightarrow> book_core (fst (purge_due_gtd b now))"
  using purge_due_cases[of b now] refresh_core[of b] purge_core[of "refresh_earliest_gtd b" now None] by auto

lemma purge_due_removed: "book_core b \<Longrightarrow> snd (purge_due_gtd b now) = expired_orders b now None"
  using purge_due_cases[of b now] core_bt_ok[of b] by (auto simp: purge_expired_eq)

lemma purge_sel:
  assumes "book_core b"
  shows "ob_sequence (fst (purge_due_gtd b now)) = ob_sequence b"
    "last_trade_price (fst (purge_due_gtd b now)) = last_trade_price b"
    "record_depth (fst (purge_due_gtd b now)) = record_depth b"
    "set (stops (fst (purge_due_gtd b now))) \<subseteq> set (stops b)"
    "book_orders (fst (purge_due_gtd b now)) \<subseteq> book_orders b"
  using purge_due_cases[OF assms, of now] core_bt_ok[OF assms]
  by (auto simp: purge_expired_eq book_orders_def)

lemma refresh_balance [simp]: "depth_balance (refresh_earliest_gtd b) = depth_balance b"
  by (intro ext) (simp add: depth_balance_def split: OrderSide.split)

lemma purge_due_balance:
  "book_core b \<Longrightarrow> record_depth b \<Longrightarrow> depth_balance (fst (purge_due_gtd b now)) = depth_balance b"
  using purge_due_cases[of b now] refresh_core[of b] purge_balance[of "refresh_earliest_gtd b" now None]
  by auto

section \<open>Cancellation\<close>

lemma set_vec_split: "i < length xs \<Longrightarrow> set xs = insert (xs ! i) (set (vec_remove i xs))"
  by (subst id_take_nth_drop[of i xs]) (auto simp: vec_remove_def)

lemma distinct_vec_remove: "distinct (map f xs) \<Longrightarrow> distinct (map f (vec_remove i xs))"
proof -
  assume d: "distinct (map f xs)"
  have "map f (vec_remove i xs) = take i (map f xs) @ drop (Suc i) (map f xs)"
    by (simp add: vec_remove_def take_map drop_map)
  moreover have "set (take i (map f xs)) \<inter> set (drop (Suc i) (map f xs)) = {}"
    using d by (simp add: set_take_disj_set_drop_if_distinct)
  ultimately show ?thesis using d by (simp add: distinct_take distinct_drop)
qed

text \<open>The index stays right when an order leaves the book and a deadline marks it dirty.\<close>

lemma index_remove:
  assumes "gtd_index_ok b" "earliest_gtd_expiry b' = earliest_gtd_expiry b"
    "gtd_scan_dirty b' = (gtd_scan_dirty b \<or> is_gtd (o_tif o1))"
    "book_orders b = insert o1 (book_orders b')"
  shows "gtd_index_ok b'"
  using assms by (cases "o_tif o1") (auto simp: gtd_index_ok_def gtd_times_insert)

definition find_resting :: "OrderBook \<Rightarrow> Order \<Rightarrow> Order option" where
  "find_resting b o1 =
     (case o_side o1 of
        Buy \<Rightarrow> bt_get (BidKey (o_price o1) (o_sequence o1)) (bids b)
      | Sell \<Rightarrow> bt_get (AskKey (o_price o1) (o_sequence o1)) (asks b))"

lemma find_resting_entry:
  assumes core: "book_core b" and f: "find_resting b o1 = Some stored"
  shows "resting_ok (o_side o1) stored" "o_price stored = o_price o1" "o_sequence stored = o_sequence o1"
    "o_side o1 = Buy \<Longrightarrow> (BidKey (o_price stored) (o_sequence stored), stored) \<in> set (bids b)"
    "o_side o1 = Sell \<Longrightarrow> (AskKey (o_price stored) (o_sequence stored), stored) \<in> set (asks b)"
proof -
  have ok: "side_ok BidKey Buy (bids b)" "side_ok AskKey Sell (asks b)"
    using core by (simp_all add: book_core_def)
  have "resting_ok (o_side o1) stored \<and> o_price stored = o_price o1 \<and> o_sequence stored = o_sequence o1
    \<and> (o_side o1 = Buy \<longrightarrow> (BidKey (o_price stored) (o_sequence stored), stored) \<in> set (bids b))
    \<and> (o_side o1 = Sell \<longrightarrow> (AskKey (o_price stored) (o_sequence stored), stored) \<in> set (asks b))"
  proof (cases "o_side o1")
    case Buy
    with f have "bt_get (BidKey (o_price o1) (o_sequence o1)) (bids b) = Some stored"
      by (simp add: find_resting_def)
    from bid.get_entry[OF ok(1) this] Buy show ?thesis by simp
  next
    case Sell
    with f have "bt_get (AskKey (o_price o1) (o_sequence o1)) (asks b) = Some stored"
      by (simp add: find_resting_def)
    from ask.get_entry[OF ok(2) this] Sell show ?thesis by simp
  qed
  then show "resting_ok (o_side o1) stored" "o_price stored = o_price o1"
    "o_sequence stored = o_sequence o1"
    "o_side o1 = Buy \<Longrightarrow> (BidKey (o_price stored) (o_sequence stored), stored) \<in> set (bids b)"
    "o_side o1 = Sell \<Longrightarrow> (AskKey (o_price stored) (o_sequence stored), stored) \<in> set (asks b)"
    by blast+
qed

lemma set_bt_split:
  assumes "bt_ok m" "(k, v) \<in> set m"
  shows "set m = insert (k, v) (set (bt_remove k m))"
proof -
  have "w = v" if "(k, w) \<in> set m" for w
    using bt_get_iff[OF assms(1), of k w] bt_get_iff[OF assms(1), of k v] assms(2) that by simp
  then have "x = (k, v)" if "x \<in> set m" "fst x = k" for x
    using that by (metis prod.collapse)
  then show ?thesis using assms(2) unfolding set_bt_remove[OF assms(1)] by blast
qed

lemma bt_remove_None: "bt_get k m = None \<Longrightarrow> bt_remove k m = m"
  by (simp add: bt_get_None_iff bt_remove_absent)

text \<open>Taking one resting order out of its side, with the deadline flag raised when it had one.\<close>

definition drop_resting :: "OrderBook \<Rightarrow> Order \<Rightarrow> OrderBook" where
  "drop_resting b o1 =
     (case o_side o1 of
        Buy \<Rightarrow> b\<lparr>bids := bt_remove (BidKey (o_price o1) (o_sequence o1)) (bids b),
                 gtd_scan_dirty := gtd_scan_dirty b \<or> is_gtd (o_tif o1)\<rparr>
      | Sell \<Rightarrow> b\<lparr>asks := bt_remove (AskKey (o_price o1) (o_sequence o1)) (asks b),
                  gtd_scan_dirty := gtd_scan_dirty b \<or> is_gtd (o_tif o1)\<rparr>)"

lemma drop_resting_sel [simp]:
  "stops (drop_resting b o1) = stops b" "ob_sequence (drop_resting b o1) = ob_sequence b"
  "last_trade_price (drop_resting b o1) = last_trade_price b"
  "record_depth (drop_resting b o1) = record_depth b"
  "depth_journal (drop_resting b o1) = depth_journal b"
  "earliest_gtd_expiry (drop_resting b o1) = earliest_gtd_expiry b"
  "gtd_scan_dirty (drop_resting b o1) = (gtd_scan_dirty b \<or> is_gtd (o_tif o1))"
  by (simp_all add: drop_resting_def split: OrderSide.split)

lemma drop_resting_orders:
  assumes core: "book_core b" and f: "find_resting b o1 = Some stored"
  shows "book_orders b = insert stored (book_orders (drop_resting b stored))"
  using core_bt_ok[OF core] find_resting_entry[OF core f]
    set_bt_split[of "bids b" "BidKey (o_price stored) (o_sequence stored)" stored]
    set_bt_split[of "asks b" "AskKey (o_price stored) (o_sequence stored)" stored]
  by (cases "o_side o1") (auto simp: drop_resting_def book_orders_def resting_ok_def)

lemma drop_resting_core:
  assumes core: "book_core b" and f: "find_resting b o1 = Some stored"
  shows "book_core (drop_resting b stored)"
proof (rule book_core_shrink[OF core])
  have ok: "bt_ok (bids b)" "bt_ok (asks b)" using core_bt_ok[OF core] by auto
  show "side_ok BidKey Buy (bids (drop_resting b stored))" "side_ok AskKey Sell (asks (drop_resting b stored))"
    using core bid.remove_ok ask.remove_ok
    by (auto simp: drop_resting_def book_core_def split: OrderSide.split)
  show "shrinks (bids (drop_resting b stored)) (bids b)" "shrinks (asks (drop_resting b stored)) (asks b)"
    using ok by (auto simp: drop_resting_def set_bt_remove intro!: shrinks_subset split: OrderSide.split)
  show "gtd_index_ok (drop_resting b stored)"
    using core drop_resting_orders[OF core f]
    by - (rule index_remove[where b = b and ?o1.0 = stored], simp_all add: book_core_def)
qed (use core in \<open>simp_all add: book_core_def seqs_ok_def\<close>)

lemma drop_resting_level:
  assumes core: "book_core b" and f: "find_resting b o1 = Some stored"
  shows "depth_balance (drop_resting b stored) side p =
    (fst (depth_balance b side p) - (if side = o_side o1 \<and> o_price stored = p then o_volume stored else 0),
     snd (depth_balance b side p) - (if side = o_side o1 \<and> o_price stored = p then 1 else 0))"
  using core_bt_ok[OF core] find_resting_entry[OF core f]
  by (cases "o_side o1"; cases side)
    (simp_all add: drop_resting_def depth_balance_def level_remove resting_ok_def)

lemma record_sel [simp]:
  "bids (record_depth_change b side p dv dn) = bids b" "asks (record_depth_change b side p dv dn) = asks b"
  "stops (record_depth_change b side p dv dn) = stops b"
  "ob_sequence (record_depth_change b side p dv dn) = ob_sequence b"
  "last_trade_price (record_depth_change b side p dv dn) = last_trade_price b"
  "record_depth (record_depth_change b side p dv dn) = record_depth b"
  "earliest_gtd_expiry (record_depth_change b side p dv dn) = earliest_gtd_expiry b"
  "gtd_scan_dirty (record_depth_change b side p dv dn) = gtd_scan_dirty b"
  by (simp_all add: record_depth_change_def)

lemma core_cong:
  assumes "bids b' = bids b" "asks b' = asks b" "stops b' = stops b" "ob_sequence b' = ob_sequence b"
    "earliest_gtd_expiry b' = earliest_gtd_expiry b" "gtd_scan_dirty b' = gtd_scan_dirty b"
  shows "book_core b' = book_core b"
  using assms by (simp add: book_core_def uncrossed_def seqs_ok_def gtd_index_ok_def book_orders_def)

lemma record_core [simp]: "book_core (record_depth_change b side p dv dn) = book_core b"
  by (rule core_cong) simp_all

lemma record_balance:
  "record_depth b \<Longrightarrow> depth_balance (record_depth_change b a q dv dn) side p =
    (fst (depth_balance b side p) - (if a = side \<and> q = p then dv else 0),
     snd (depth_balance b side p) - (if a = side \<and> q = p then dn else 0))"
  by (cases side) (simp_all add: depth_balance_def record_depth_change_def)

text \<open>The two successful branches of \<open>cancel\<close>, and the miss.\<close>

lemma cancel_stop:
  assumes "position (\<lambda>stop. o_side stop = o_side o1 \<and> o_sequence stop = o_sequence o1) (stops b) = Some i"
  shows "cancel b o1 =
    (b\<lparr>stops := vec_remove i (stops b),
       gtd_scan_dirty := gtd_scan_dirty b \<or> is_gtd (o_tif (stops b ! i))\<rparr>, Some (stops b ! i))"
  using assms by (auto simp: cancel_def Let_def)

lemma cancel_resting:
  assumes core: "book_core b"
    and "position (\<lambda>stop. o_side stop = o_side o1 \<and> o_sequence stop = o_sequence o1) (stops b) = None"
    and f: "find_resting b o1 = Some stored"
  shows "cancel b o1 =
    (record_depth_change (drop_resting b stored) (o_side stored) (o_price stored)
       (- o_volume stored) (- 1), Some stored)"
proof -
  have e: "o_side stored = o_side o1" "o_price stored = o_price o1" "o_sequence stored = o_sequence o1"
    using find_resting_entry(1-3)[OF core f] by (simp_all add: resting_ok_def)
  have n: "fixed_neg (o_volume stored) = - o_volume stored"
    using find_resting_entry(1)[OF core f] by (rule resting_neg)
  show ?thesis
    using assms(2) f e n
    by (cases "o_side o1"; cases "is_gtd (o_tif stored)")
      (simp_all add: cancel_def Let_def find_resting_def drop_resting_def record_depth_change_def)
qed

lemma cancel_miss:
  assumes core: "book_core b"
    and "position (\<lambda>stop. o_side stop = o_side o1 \<and> o_sequence stop = o_sequence o1) (stops b) = None"
    and "find_resting b o1 = None"
  shows "cancel b o1 = (b, None)"
  using assms(2,3) by (cases "o_side o1") (simp_all add: cancel_def Let_def find_resting_def bt_remove_None)

lemma drop_stop_core:
  assumes core: "book_core b" and i: "i < length (stops b)"
  shows "book_core (b\<lparr>stops := vec_remove i (stops b),
    gtd_scan_dirty := gtd_scan_dirty b \<or> is_gtd (o_tif (stops b ! i))\<rparr>)" (is "book_core ?b")
proof -
  have "book_orders b = insert (stops b ! i) (book_orders ?b)"
    using set_vec_split[OF i] by (simp add: book_orders_def)
  then have "gtd_index_ok ?b"
    using core by - (rule index_remove[where b = b and ?o1.0 = "stops b ! i"], simp_all add: book_core_def)
  then show ?thesis
    using core set_vec_remove[of i "stops b"]
    by (intro book_core_shrink[OF core]) (simp_all add: book_core_def seqs_ok_def distinct_vec_remove)
qed

lemma cancel_core:
  assumes core: "book_core b"
  shows "book_core (fst (cancel b o1))"
proof (cases "position (\<lambda>stop. o_side stop = o_side o1 \<and> o_sequence stop = o_sequence o1) (stops b)")
  case (Some i)
  then have "i < length (stops b)" by (auto dest: position_SomeD)
  then show ?thesis using drop_stop_core[OF core] by (simp add: cancel_stop[OF Some])
next
  case None
  then show ?thesis
    using core cancel_miss[OF core None] cancel_resting[OF core None] drop_resting_core[OF core]
    by (cases "find_resting b o1") auto
qed

lemma cancel_balance:
  assumes core: "book_core b" and rec: "record_depth b"
  shows "depth_balance (fst (cancel b o1)) = depth_balance b"
proof (cases "position (\<lambda>stop. o_side stop = o_side o1 \<and> o_sequence stop = o_sequence o1) (stops b)")
  case (Some i)
  then show ?thesis
    by (intro ext) (simp add: cancel_stop[OF Some] depth_balance_def split: OrderSide.split)
next
  case None
  show ?thesis
  proof (cases "find_resting b o1")
    case (Some stored)
    have "o_side stored = o_side o1" using find_resting_entry(1)[OF core Some] by (simp add: resting_ok_def)
    then show ?thesis
      using rec by (intro ext)
        (simp add: cancel_resting[OF core None Some] record_balance drop_resting_level[OF core Some] prod_eq_iff)
  qed (simp add: cancel_miss[OF core None])
qed

section \<open>Amendment\<close>

lemma bt_insert_remove: "bt_ok m \<Longrightarrow> bt_insert k v (bt_remove k m) = bt_insert k v m"
  by (rule bt_ok_unique) (auto simp: bt_ok_insert bt_ok_remove set_bt_insert set_bt_remove)

text \<open>The order an accepted amendment leaves behind, and the book it is put into.\<close>

definition amended :: "Order \<Rightarrow> fixed \<Rightarrow> fixed \<Rightarrow> u64 \<Rightarrow> Order" where
  "amended stored new_price new_volume market_seq =
     (if new_price = o_price stored \<and> new_volume \<le> o_volume stored
      then stored\<lparr>o_volume := new_volume\<rparr>
      else stored\<lparr>o_price := new_price, o_volume := new_volume, o_sequence := market_seq\<rparr>)"

definition replace_resting :: "OrderBook \<Rightarrow> Order \<Rightarrow> Order \<Rightarrow> OrderBook" where
  "replace_resting b stored updated =
     (insert_order (drop_resting b stored) updated)\<lparr>gtd_scan_dirty := gtd_scan_dirty b\<rparr>"

definition crosses_at :: "OrderBook \<Rightarrow> OrderSide \<Rightarrow> fixed \<Rightarrow> bool" where
  "crosses_at b side p =
     (case side of
        Buy \<Rightarrow> (case best_ask b of None \<Rightarrow> False | Some ask \<Rightarrow> o_price ask \<le> p)
      | Sell \<Rightarrow> (case best_bid b of None \<Rightarrow> False | Some bid \<Rightarrow> p \<le> o_price bid))"

lemma insert_order_sel [simp]:
  "stops (insert_order b o1) = stops b" "ob_sequence (insert_order b o1) = ob_sequence b"
  "last_trade_price (insert_order b o1) = last_trade_price b"
  "record_depth (insert_order b o1) = record_depth b"
  "depth_journal (insert_order b o1) = depth_journal b"
  "earliest_gtd_expiry (insert_order b o1) = earliest_gtd_expiry b"
  by (simp_all add: insert_order_def split: OrderSide.split)

lemma clear_of_best:
  assumes core: "book_core b" and nc: "\<not> crosses_at b side p" and m: "maker \<in> set (opposing b side)"
  shows "\<not> within_limit (Some p) side (o_price maker)"
proof (cases side)
  case Buy
  have ok: "side_ok AskKey Sell (asks b)" using core by (simp add: book_core_def)
  from m Buy obtain e where e: "e \<in> set (asks b)" "maker = snd e" by (auto simp: opposing_def bt_values_def)
  have "\<not> within_limit (Some p) Buy (o_price (snd (hd (asks b))))"
    using nc Buy e by (cases "asks b") (auto simp: crosses_at_def best_ask_def bt_first_def within_limit_def)
  from ask.head_best[OF ok this _ e(1)] show ?thesis using e Buy by simp
next
  case Sell
  have ok: "side_ok BidKey Buy (bids b)" using core by (simp add: book_core_def)
  from m Sell obtain e where e: "e \<in> set (bids b)" "maker = snd e" by (auto simp: opposing_def bt_values_def)
  have "\<not> within_limit (Some p) Sell (o_price (snd (hd (bids b))))"
    using nc Sell e by (cases "bids b") (auto simp: crosses_at_def best_bid_def bt_first_def within_limit_def)
  from bid.head_best[OF ok this _ e(1)] show ?thesis using e Sell by simp
qed

lemma own_price_clear:
  assumes core: "book_core b" and f: "find_resting b key = Some stored"
    and m: "maker \<in> set (opposing b (o_side key))"
  shows "\<not> within_limit (Some (o_price stored)) (o_side key) (o_price maker)"
proof -
  have u: "uncrossed b" using core by (simp add: book_core_def)
  show ?thesis
  proof (cases "o_side key")
    case Buy
    with m obtain e where e: "e \<in> set (asks b)" "maker = snd e" by (auto simp: opposing_def bt_values_def)
    have "(BidKey (o_price stored) (o_sequence stored), stored) \<in> set (bids b)"
      using find_resting_entry(4)[OF core f Buy] .
    then have "o_price stored < o_price (snd e)"
      using u e(1) unfolding uncrossed_def by fastforce
    then show ?thesis using e Buy by (simp add: within_limit_def)
  next
    case Sell
    with m obtain e where e: "e \<in> set (bids b)" "maker = snd e" by (auto simp: opposing_def bt_values_def)
    have "(AskKey (o_price stored) (o_sequence stored), stored) \<in> set (asks b)"
      using find_resting_entry(5)[OF core f Sell] .
    then have "o_price (snd e) < o_price stored"
      using u e(1) unfolding uncrossed_def by fastforce
    then show ?thesis using e Sell by (simp add: within_limit_def)
  qed
qed

lemma replace_core:
  assumes core: "book_core b" and f: "find_resting b key = Some stored"
    and r: "resting_ok (o_side key) updated" and tif: "o_tif updated = o_tif stored"
    and fresh: "o_sequence updated \<notin> o_sequence ` book_orders (drop_resting b stored)"
      "o_sequence updated < ob_sequence b"
    and clear: "\<And>maker. maker \<in> set (opposing b (o_side key)) \<Longrightarrow>
      \<not> within_limit (Some (o_price updated)) (o_side key) (o_price maker)"
  shows "book_core (replace_resting b stored updated)"
proof -
  let ?d = "drop_resting b stored" and ?b = "replace_resting b stored updated"
  have d: "book_core ?d" using core f by (rule drop_resting_core)
  then have ok: "side_ok BidKey Buy (bids ?d)" "side_ok AskKey Sell (asks ?d)" and s: "seqs_ok ?d"
    by (simp_all add: book_core_def)
  have sd: "o_side updated = o_side key" "o_side stored = o_side key"
    using r find_resting_entry(1)[OF core f] by (simp_all add: resting_ok_def)
  have fr: "o_sequence updated \<notin> side_seqs (bids ?d)" "o_sequence updated \<notin> side_seqs (asks ?d)"
    using fresh(1) by (simp_all add: book_seqs_eq)
  have lt: "o_sequence updated < ob_sequence ?d" using fresh(2) by simp
  have sets: "o_side key = Buy \<Longrightarrow> set (bids ?b) = insert (BidKey (o_price updated) (o_sequence updated), updated) (set (bids ?d))"
    "o_side key = Sell \<Longrightarrow> set (asks ?b) = insert (AskKey (o_price updated) (o_sequence updated), updated) (set (asks ?d))"
    using bid.fresh_set[OF ok(1) fr(1)] ask.fresh_set[OF ok(2) fr(2)]
    by (simp_all add: replace_resting_def insert_order_def sd)
  have same: "o_side key = Buy \<Longrightarrow> asks ?b = asks ?d" "o_side key = Sell \<Longrightarrow> bids ?b = bids ?d"
    by (simp_all add: replace_resting_def insert_order_def sd)
  have same': "stops ?b = stops ?d" "ob_sequence ?b = ob_sequence ?d"
    by (simp_all add: replace_resting_def)
  have orders: "book_orders ?b = insert updated (book_orders ?d)"
    using sets same same' by (cases "o_side key") (simp_all add: book_orders_def)
  have "gtd_times (book_orders ?b) = gtd_times (book_orders b)"
    unfolding orders drop_resting_orders[OF core f] gtd_times_insert tif ..
  then have "gtd_index_ok ?b"
    using core by (simp add: book_core_def gtd_index_ok_def replace_resting_def)
  moreover have "seqs_ok ?b"
    using seqs_ok_add(1,2)[OF s ok fresh(1) lt, of ?b "o_price updated"]
    by (cases "o_side key") (simp_all add: replace_resting_def insert_order_def sd)
  moreover have "uncrossed ?b"
  proof -
    have u: "uncrossed ?d" using d by (simp add: book_core_def)
    have c: "o_price updated < o_price (snd y)" if "o_side key = Buy" "y \<in> set (asks b)" for y
      using clear[of "snd y"] that by (simp add: opposing_def bt_values_def within_limit_def)
    have c': "o_price (snd y) < o_price updated" if "o_side key = Sell" "y \<in> set (bids b)" for y
      using clear[of "snd y"] that by (simp add: opposing_def bt_values_def within_limit_def)
    show ?thesis
    proof (cases "o_side key")
      case Buy
      then have "asks ?d = asks b" by (simp add: drop_resting_def sd)
      then show ?thesis using u sets(1)[OF Buy] same(1)[OF Buy] c[OF Buy] by (simp add: uncrossed_def)
    next
      case Sell
      then have "bids ?d = bids b" by (simp add: drop_resting_def sd)
      then show ?thesis using u sets(2)[OF Sell] same(2)[OF Sell] c'[OF Sell] by (simp add: uncrossed_def)
    qed
  qed
  moreover have "side_ok BidKey Buy (bids ?b)"
    using ok(1) bid.insert_ok[OF ok(1), of updated] r
    by (cases "o_side key") (simp_all add: replace_resting_def insert_order_def sd)
  moreover have "side_ok AskKey Sell (asks ?b)"
    using ok(2) ask.insert_ok[OF ok(2), of updated] r
    by (cases "o_side key") (simp_all add: replace_resting_def insert_order_def sd)
  ultimately show ?thesis using d same' by (simp add: book_core_def)
qed

lemma replace_resting_eq:
  assumes "o_side updated = o_side stored"
  shows "replace_resting b stored updated =
    (case o_side stored of
        Buy \<Rightarrow> b\<lparr>bids := bt_insert (BidKey (o_price updated) (o_sequence updated)) updated
                  (bt_remove (BidKey (o_price stored) (o_sequence stored)) (bids b))\<rparr>
      | Sell \<Rightarrow> b\<lparr>asks := bt_insert (AskKey (o_price updated) (o_sequence updated)) updated
                  (bt_remove (AskKey (o_price stored) (o_sequence stored)) (asks b))\<rparr>)"
  using assms by (cases b; cases "o_side stored")
    (simp_all add: replace_resting_def drop_resting_def insert_order_def)

lemma amended_side [simp]: "o_side (amended stored np nv ms) = o_side stored"
  by (simp add: amended_def)

lemma amended_tif [simp]: "o_tif (amended stored np nv ms) = o_tif stored"
  by (simp add: amended_def)

definition amendment_of :: "Order \<Rightarrow> fixed \<Rightarrow> fixed \<Rightarrow> u64 \<Rightarrow> Amendment" where
  "amendment_of stored np nv ms =
     \<lparr>am_market_seq = ms, am_order = amended stored np nv ms, am_previous_sequence = o_sequence stored,
      am_previous_price = o_price stored, am_previous_volume = o_volume stored\<rparr>"

definition keeps_priority :: "Order \<Rightarrow> fixed \<Rightarrow> fixed \<Rightarrow> bool" where
  "keeps_priority stored np nv \<longleftrightarrow> np = o_price stored \<and> nv \<le> o_volume stored"

lemma amend_in_map_eq:
  assumes "bt_ok m" "bt_get k m = Some stored" "k = mk (o_price stored) (o_sequence stored)"
  shows "amend_in_map m k stored np nv ms mk =
    (bt_insert (mk (o_price (amended stored np nv ms)) (o_sequence (amended stored np nv ms)))
       (amended stored np nv ms) (bt_remove k m),
     amendment_of stored np nv ms, \<not> keeps_priority stored np nv)"
  using assms bt_insert_remove[OF assms(1), of k]
  by (simp add: amend_in_map_def amended_def amendment_of_def keeps_priority_def Let_def)

lemma amend_Inr:
  assumes core: "book_core b" and am: "amend_with_sequence b key price volume ms = (b', Inr a)"
  obtains stored np nv where "find_resting b key = Some stored" "o_display_volume stored = 0"
    "np = (case price of None \<Rightarrow> o_price stored | Some p \<Rightarrow> p)"
    "nv = (case volume of None \<Rightarrow> o_volume stored | Some v \<Rightarrow> v)"
    "0 < np" "0 < nv" "np \<noteq> o_price stored \<Longrightarrow> \<not> crosses_at b (o_side key) np"
    "a = amendment_of stored np nv ms"
    "b' = record_amendment (replace_resting b stored (amended stored np nv ms)) (o_side key) a
       (\<not> keeps_priority stored np nv)"
proof -
  let ?get = "case o_side key of
      Buy \<Rightarrow> bt_get (BidKey (o_price key) (o_sequence key)) (bids b)
    | Sell \<Rightarrow> bt_get (AskKey (o_price key) (o_sequence key)) (asks b)"
  have g: "?get = find_resting b key" by (simp add: find_resting_def)
  obtain stored where f: "find_resting b key = Some stored"
    using am g by (cases "find_resting b key") (auto simp: amend_with_sequence_def split: if_splits)
  define np where "np = (case price of None \<Rightarrow> o_price stored | Some p \<Rightarrow> p)"
  define nv where "nv = (case volume of None \<Rightarrow> o_volume stored | Some v \<Rightarrow> v)"
  note e = find_resting_entry[OF core f]
  have ok: "bt_ok (bids b)" "bt_ok (asks b)" using core_bt_ok[OF core] by auto
  have sd: "o_side stored = o_side key" "0 < o_price stored" "0 < o_volume stored" "0 \<le> o_display_volume stored"
    using e(1) by (simp_all add: resting_ok_def)
  note am' = am[unfolded amend_with_sequence_def g f Let_def option.case, folded np_def nv_def,
      folded crosses_at_def]
  have pos: "0 < np" "0 < nv"
    using am' sd by (auto simp: np_def nv_def is_finite_def split: option.splits if_splits)
  have d0: "o_display_volume stored = 0" using am' sd by (auto split: if_splits)
  have nc: "\<not> crosses_at b (o_side key) np" if "np \<noteq> o_price stored"
    using am' that by (auto simp: crosses_at_def split: if_splits)
  have "a = amendment_of stored np nv ms \<and>
    b' = record_amendment (replace_resting b stored (amended stored np nv ms)) (o_side key) a
       (\<not> keeps_priority stored np nv)"
  proof (cases "o_side key")
    case Buy
    then have get: "bt_get (BidKey (o_price key) (o_sequence key)) (bids b) = Some stored"
      using f by (simp add: find_resting_def)
    have "BidKey (o_price key) (o_sequence key) = BidKey (o_price stored) (o_sequence stored)" using e by simp
    note eq = amend_in_map_eq[where mk = BidKey, OF ok(1) get this, of np nv ms]
    show ?thesis
      using am' Buy sd e(2,3) by (auto simp: eq replace_resting_eq split: if_splits)
  next
    case Sell
    then have get: "bt_get (AskKey (o_price key) (o_sequence key)) (asks b) = Some stored"
      using f by (simp add: find_resting_def)
    have "AskKey (o_price key) (o_sequence key) = AskKey (o_price stored) (o_sequence stored)" using e by simp
    note eq = amend_in_map_eq[where mk = AskKey, OF ok(2) get this, of np nv ms]
    show ?thesis
      using am' Sell sd e(2,3) by (auto simp: eq replace_resting_eq split: if_splits)
  qed
  then show thesis using that[OF f d0 np_def nv_def pos nc] by blast
qed

lemma amend_Inl: "amend_with_sequence b key price volume ms = (b', Inl e) \<Longrightarrow> b' = b"
  by (auto simp: amend_with_sequence_def Let_def split: if_splits option.splits OrderSide.splits prod.splits)

lemma record_amendment_sel [simp]:
  "stops (record_amendment b side a r) = stops b"
  "ob_sequence (record_amendment b side a r) = ob_sequence b"
  "last_trade_price (record_amendment b side a r) = last_trade_price b"
  "record_depth (record_amendment b side a r) = record_depth b"
  "book_core (record_amendment b side a r) = book_core b"
  by (simp_all add: record_amendment_def)

lemma replace_resting_sel [simp]:
  "stops (replace_resting b stored updated) = stops b"
  "ob_sequence (replace_resting b stored updated) = ob_sequence b"
  "last_trade_price (replace_resting b stored updated) = last_trade_price b"
  "record_depth (replace_resting b stored updated) = record_depth b"
  by (simp_all add: replace_resting_def)

text \<open>The sequence of a resting order identifies it among all orders of the book.\<close>

lemma dropped_seq:
  assumes core: "book_core b" and f: "find_resting b key = Some stored"
  shows "o_sequence stored \<notin> o_sequence ` book_orders (drop_resting b stored)"
proof -
  note e = find_resting_entry[OF core f]
  have s: "seqs_ok b" using core by (simp add: book_core_def)
  have ok: "bt_ok (bids b)" "bt_ok (asks b)" using core_bt_ok[OF core] by auto
  have sd: "o_side stored = o_side key" using e(1) by (simp add: resting_ok_def)
  have inj: "o_sequence stored \<notin> side_seqs (bt_remove k m)"
    if inj: "inj_on (\<lambda>e. o_sequence (snd e)) (set m)" and mem: "(k, stored) \<in> set m" and ok: "bt_ok m"
    for k and m :: "('k::linorder, Order) btree"
  proof
    assume "o_sequence stored \<in> side_seqs (bt_remove k m)"
    then obtain x where x: "x \<in> set m" "fst x \<noteq> k" "o_sequence (snd x) = o_sequence stored"
      using ok by (auto simp: side_seqs_def set_bt_remove)
    then have "x = (k, stored)" using inj_onD[OF inj, of x "(k, stored)"] mem by simp
    then show False using x by simp
  qed
  show ?thesis
  proof (cases "o_side key")
    case Buy
    have "o_sequence stored \<in> side_seqs (bids b)" using e(4)[OF Buy] by (force simp: side_seqs_def)
    then show ?thesis
      using s inj[OF _ e(4)[OF Buy] ok(1)] Buy
      by (auto simp: book_seqs_eq drop_resting_def sd seqs_ok_def)
  next
    case Sell
    have "o_sequence stored \<in> side_seqs (asks b)" using e(5)[OF Sell] by (force simp: side_seqs_def)
    then show ?thesis
      using s inj[OF _ e(5)[OF Sell] ok(2)] Sell
      by (auto simp: book_seqs_eq drop_resting_def sd seqs_ok_def)
  qed
qed

lemma amended_fresh:
  assumes core: "book_core b" and f: "find_resting b key = Some stored"
    and ms: "ms \<notin> o_sequence ` book_orders b" "ms < ob_sequence b"
  shows "o_sequence (amended stored np nv ms) \<notin> o_sequence ` book_orders (drop_resting b stored)"
    "o_sequence (amended stored np nv ms) < ob_sequence b"
proof -
  have "ms \<notin> o_sequence ` book_orders (drop_resting b stored)"
    using ms(1) drop_resting_orders[OF core f] by simp
  then show "o_sequence (amended stored np nv ms) \<notin> o_sequence ` book_orders (drop_resting b stored)"
    using dropped_seq[OF core f] by (simp add: amended_def)
  have "stored \<in> book_orders b" using drop_resting_orders[OF core f] by simp
  then show "o_sequence (amended stored np nv ms) < ob_sequence b"
    using core ms(2) by (simp add: amended_def book_core_def seqs_ok_def)
qed

lemma amended_resting:
  assumes "resting_ok side stored" "o_display_volume stored = 0" "0 < np" "np \<le> i128_max" "0 < nv" "nv \<le> i128_max"
  shows "resting_ok side (amended stored np nv ms)"
  using assms by (auto simp: resting_ok_def amended_def is_stop_def)

lemma amend_core:
  assumes core: "book_core b" and am: "amend_with_sequence b key price volume ms = (b', r)"
    and ms: "ms \<notin> o_sequence ` book_orders b" "ms < ob_sequence b"
    and ty: "\<And>p. price = Some p \<Longrightarrow> p \<le> i128_max" "\<And>v. volume = Some v \<Longrightarrow> v \<le> i128_max"
  shows "book_core b'"
proof (cases r)
  case (Inl e)
  then show ?thesis using am core amend_Inl by blast
next
  case (Inr a)
  with am have "amend_with_sequence b key price volume ms = (b', Inr a)" by simp
  from core this show ?thesis
  proof (cases rule: amend_Inr)
    case (1 stored np nv)
    note e = find_resting_entry[OF core 1(1)]
    have "np \<le> i128_max" "nv \<le> i128_max"
      using 1(3,4) ty e(1) by (auto simp: resting_ok_def split: option.splits)
    then have "resting_ok (o_side key) (amended stored np nv ms)"
      using amended_resting[OF e(1) 1(2)] 1(5,6) by simp
    moreover have "\<not> within_limit (Some (o_price (amended stored np nv ms))) (o_side key) (o_price maker)"
      if m: "maker \<in> set (opposing b (o_side key))" for maker
      using own_price_clear[OF core 1(1) m] clear_of_best[OF core 1(7) m]
      by (cases "np = o_price stored") (simp_all add: amended_def)
    ultimately have "book_core (replace_resting b stored (amended stored np nv ms))"
      using amended_fresh[OF core 1(1) ms] by (intro replace_core[OF core 1(1)]) auto
    then show ?thesis by (simp add: 1(9))
  qed
qed

lemma amend_balance:
  assumes core: "book_core b" and am: "amend_with_sequence b key price volume ms = (b', r)"
    and ms: "ms \<notin> o_sequence ` book_orders b" "ms < ob_sequence b" and rec: "record_depth b"
    and ty: "\<And>v. volume = Some v \<Longrightarrow> v \<le> i128_max"
  shows "depth_balance b' = depth_balance b"
proof (cases r)
  case (Inl e)
  then show ?thesis using am amend_Inl by blast
next
  case (Inr a)
  with am have "amend_with_sequence b key price volume ms = (b', Inr a)" by simp
  from core this show ?thesis
  proof (cases rule: amend_Inr)
    case (1 stored np nv)
    let ?d = "drop_resting b stored"
    define u where "u = amended stored np nv ms"
    note e = find_resting_entry[OF core 1(1)]
    have sd: "o_side stored = o_side key" using e(1) by (simp add: resting_ok_def)
    have nv: "nv \<le> i128_max" using 1(4) ty e(1) by (auto simp: resting_ok_def split: option.splits)
    have d: "book_core ?d" using core 1(1) by (rule drop_resting_core)
    have fr: "o_sequence u \<notin> side_seqs (bids ?d)" "o_sequence u \<notin> side_seqs (asks ?d)"
      using amended_fresh(1)[OF core 1(1) ms, of np nv] by (simp_all add: book_seqs_eq u_def)
    have keys: "BidKey (o_price u) (o_sequence u) \<notin> fst ` set (bids ?d)"
      "AskKey (o_price u) (o_sequence u) \<notin> fst ` set (asks ?d)"
      using bid.fresh_key[OF _ fr(1)] ask.fresh_key[OF _ fr(2)] d by (simp_all add: book_core_def)
    have ins: "depth_balance (replace_resting b stored u) side p =
      (fst (depth_balance ?d side p) + (if side = o_side key \<and> o_price u = p then o_volume u else 0),
       snd (depth_balance ?d side p) + (if side = o_side key \<and> o_price u = p then 1 else 0))" for side p
      using keys sd amended_side[of stored np nv ms, folded u_def]
      by (cases side; cases "o_side key")
        (simp_all add: replace_resting_def insert_order_def depth_balance_def level_insert)
    have vol: "o_volume u = nv" "keeps_priority stored np nv \<Longrightarrow> o_price u = o_price stored"
      by (simp_all add: amended_def keeps_priority_def u_def)
    have neg: "fixed_neg (o_volume stored) = - o_volume stored" using e(1) by (rule resting_neg)
    have "in_i128 (nv - o_volume stored)"
      using nv 1(6) e(1) by (auto simp: resting_ok_def in_i128_def)
    then have sub: "fixed_sub nv (o_volume stored) = nv - o_volume stored" by (rule fixed_sub_exact)
    show ?thesis
    proof (intro ext)
      fix side p
      show "depth_balance b' side p = depth_balance b side p"
        using rec vol sd unfolding 1(8,9) amendment_of_def u_def[symmetric]
        by (cases "keeps_priority stored np nv")
          (auto simp: record_amendment_def record_balance ins drop_resting_level[OF core 1(1)] neg sub
            prod_eq_iff)
    qed
  qed
qed

end
