(* ===== verification/Journal_Replay.thy ===== *)
theory Journal_Replay
  imports Book_Operations
begin

text \<open>
  The depth journal can be replayed change by change.  \<open>Book_Operations\<close> shows that the changes of an
  operation add up to its effect on the level totals; here every prefix of them is shown to describe a
  possible side of the book: no order count falls below zero, and a level without orders has no volume.
  This is what the shadow book of the market-data task needs, since it drops a level as soon as it is
  empty and never lets a count become negative.
\<close>

section \<open>Replayable changes\<close>

definition totals :: "OrderBook \<Rightarrow> OrderSide \<Rightarrow> fixed \<Rightarrow> int \<times> int" where
  "totals b side p =
     (case side of
        Buy \<Rightarrow> (level_volume (bids b) p, level_orders (bids b) p)
      | Sell \<Rightarrow> (level_volume (asks b) p, level_orders (asks b) p))"

definition replay_ok :: "(fixed \<Rightarrow> int \<times> int) \<Rightarrow> OrderSide \<Rightarrow> DepthChange list \<Rightarrow> bool" where
  "replay_ok t side j \<longleftrightarrow>
     (\<forall>k \<le> length j. \<forall>p.
        0 \<le> snd (t p) + journal_orders (take k j) side p
        \<and> (snd (t p) + journal_orders (take k j) side p = 0 \<longrightarrow>
             fst (t p) + journal_volume (take k j) side p = 0))"

text \<open>From \<open>b\<close> to \<open>b'\<close> the journal grows by changes that account for the difference and can be replayed.\<close>

definition journals :: "OrderBook \<Rightarrow> OrderBook \<Rightarrow> bool" where
  "journals b b' \<longleftrightarrow>
     depth_balance b' = depth_balance b \<and>
     (\<exists>new. depth_journal b' = depth_journal b @ new \<and> (\<forall>c \<in> set new. dc_delta_orders c \<le> 1)
        \<and> (\<forall>side. replay_ok (totals b side) side new))"

lemma journal_Nil [simp]: "journal_volume [] side p = 0" "journal_orders [] side p = 0"
  by (simp_all add: journal_volume_def journal_orders_def)

lemma journal_Cons:
  "journal_volume (c # j) side p = (if dc_side c = side \<and> dc_price c = p then dc_delta_volume c else 0) + journal_volume j side p"
  "journal_orders (c # j) side p = (if dc_side c = side \<and> dc_price c = p then dc_delta_orders c else 0) + journal_orders j side p"
  by (simp_all add: journal_volume_def journal_orders_def)

lemma totals_balance:
  "totals b side p =
     (fst (depth_balance b side p) + journal_volume (depth_journal b) side p,
      snd (depth_balance b side p) + journal_orders (depth_journal b) side p)"
  by (simp add: totals_def depth_balance_def split: OrderSide.split)

lemma balance_totals:
  "depth_balance b side p =
     (fst (totals b side p) - journal_volume (depth_journal b) side p,
      snd (totals b side p) - journal_orders (depth_journal b) side p)"
  by (simp add: totals_balance)

lemma level_orders_filter:
  "level_orders m p = int (length (filter (\<lambda>e. o_price (snd e) = p) m))"
  by (induction m) (simp_all add: level_orders_def)

lemma level_empty: "level_orders m p = 0 \<Longrightarrow> level_volume m p = 0"
  by (induction m) (auto simp: level_orders_filter level_volume_def split: if_splits)

lemma totals_good: "0 \<le> snd (totals b side p)" "snd (totals b side p) = 0 \<Longrightarrow> fst (totals b side p) = 0"
  using level_empty[of "bids b" p] level_empty[of "asks b" p]
  by (simp_all add: totals_def level_orders_filter split: OrderSide.splits)

lemma replay_ok_append:
  assumes j: "replay_ok t side j"
    and k: "replay_ok (\<lambda>p. (fst (t p) + journal_volume j side p, snd (t p) + journal_orders j side p)) side new"
  shows "replay_ok t side (j @ new)"
  unfolding replay_ok_def
proof (intro allI impI)
  fix k p
  assume l: "k \<le> length (j @ new)"
  show "0 \<le> snd (t p) + journal_orders (take k (j @ new)) side p
      \<and> (snd (t p) + journal_orders (take k (j @ new)) side p = 0 \<longrightarrow>
           fst (t p) + journal_volume (take k (j @ new)) side p = 0)"
  proof (cases "k \<le> length j")
    case True
    then show ?thesis using j by (simp add: replay_ok_def)
  next
    case False
    then have "k - length j \<le> length new" using l by simp
    with assms(2) False show ?thesis by (simp add: replay_ok_def add.assoc)
  qed
qed

lemma replay_ok_Nil: "replay_ok (totals b side) side []"
  using totals_good[of b side] by (simp add: replay_ok_def)

lemma journals_quiet:
  "depth_balance b' = depth_balance b \<Longrightarrow> depth_journal b' = depth_journal b \<Longrightarrow> journals b b'"
  by (auto simp: journals_def intro!: exI[of _ "[]"] replay_ok_Nil)

lemma journals_refl [simp]: "journals b b"
  by (rule journals_quiet) simp_all

lemma journals_one:
  assumes bal: "depth_balance b' = depth_balance b" and j: "depth_journal b' = depth_journal b @ [c]"
    and c: "dc_delta_orders c \<le> 1"
  shows "journals b b'"
proof -
  have t: "totals b' side p = (fst (totals b side p) + journal_volume [c] side p,
      snd (totals b side p) + journal_orders [c] side p)" for side p
    using bal by (simp add: totals_balance j)
  have "replay_ok (totals b side) side [c]" for side
    unfolding replay_ok_def
  proof (intro allI impI)
    fix k p
    assume "k \<le> length [c]"
    then consider "k = 0" | "k = 1" by fastforce
    then show "0 \<le> snd (totals b side p) + journal_orders (take k [c]) side p
        \<and> (snd (totals b side p) + journal_orders (take k [c]) side p = 0 \<longrightarrow>
             fst (totals b side p) + journal_volume (take k [c]) side p = 0)"
      using totals_good[of b side p] totals_good[of b' side p] t[of side p] by cases simp_all
  qed
  then show ?thesis using assms by (auto simp: journals_def)
qed

lemma journals_trans:
  assumes 1: "journals b b1" and 2: "journals b1 b2"
  shows "journals b b2"
proof -
  obtain new where new: "depth_journal b1 = depth_journal b @ new" "\<forall>c \<in> set new. dc_delta_orders c \<le> 1"
    "\<And>side. replay_ok (totals b side) side new"
    using 1 by (auto simp: journals_def)
  obtain new2 where new2: "depth_journal b2 = depth_journal b1 @ new2" "\<forall>c \<in> set new2. dc_delta_orders c \<le> 1"
    "\<And>side. replay_ok (totals b1 side) side new2"
    using 2 by (auto simp: journals_def)
  have bal: "depth_balance b1 = depth_balance b" "depth_balance b2 = depth_balance b"
    using 1 2 by (simp_all add: journals_def)
  have "totals b1 side = (\<lambda>p. (fst (totals b side p) + journal_volume new side p,
      snd (totals b side p) + journal_orders new side p))" for side
    by (rule ext) (simp add: totals_balance bal new(1))
  then have "replay_ok (totals b side) side (new @ new2)" for side
    using replay_ok_append[OF new(3)[of side]] new2(3)[of side] by simp
  then show ?thesis using new new2 bal by (auto simp: journals_def)
qed

section \<open>The sweep\<close>

context price_time_side
begin

lemma run_replay:
  assumes "sweep_run I ctx o1 limit s = Inr s'" "side_ok mk side (sw_resting s)" "in_i128 (sw_remaining s)"
    and "sc_record ctx"
  shows "\<exists>new. sw_journal s' = sw_journal s @ new \<and> (\<forall>c \<in> set new. dc_side c = side \<and> dc_delta_orders c \<le> 1)
    \<and> replay_ok (\<lambda>p. (level_volume (sw_resting s) p, level_orders (sw_resting s) p)) side new"
  using assms
proof (induction rule: run_induct)
  case (idle s)
  have "replay_ok (\<lambda>p. (level_volume (sw_resting s) p, level_orders (sw_resting s) p)) side []"
    using level_empty[of "sw_resting s"] by (simp add: replay_ok_def level_orders_filter)
  then show ?case by (intro exI[of _ "[]"]) simp
next
  case (fill s s' k maker others mv r)
  let ?c = "\<lparr>dc_side = o_side maker, dc_price = o_price maker,
       dc_delta_volume = visible_after maker mv - o_volume maker,
       dc_delta_orders = (if after_fill maker mv = None then - 1 else 0)\<rparr>"
  have sd: "o_side maker = side" using fill(3) by (simp add: resting_ok_def)
  have pr: "o_price m = o_price maker" if "after_fill maker mv = Some m" for m
    using frozen_eqD(1) after_fill_SomeD(1)[OF that fill(3,5,6)] by blast
  have t: "level_volume (put_head k (after_fill maker mv) others) p =
      level_volume (sw_resting s) p + journal_volume [?c] side p"
    "level_orders (put_head k (after_fill maker mv) others) p =
      level_orders (sw_resting s) p + journal_orders [?c] side p" for p
    using fill(2) pr sd level_put_head[of maker mv k others p] by simp_all
  have r: "sw_resting (fill_state I ctx o1 s k maker others mv r) = put_head k (after_fill maker mv) others"
    by (simp add: fill_state_def)
  from fill(9)[OF fill(10)] obtain new where
    new: "sw_journal s' = sw_journal (fill_state I ctx o1 s k maker others mv r) @ new"
      "\<forall>c \<in> set new. dc_side c = side \<and> dc_delta_orders c \<le> 1"
      "replay_ok (\<lambda>p. (level_volume (put_head k (after_fill maker mv) others) p,
                       level_orders (put_head k (after_fill maker mv) others) p)) side new"
    unfolding r by blast
  have one: "replay_ok (\<lambda>p. (level_volume (sw_resting s) p, level_orders (sw_resting s) p)) side [?c]"
    unfolding replay_ok_def
  proof (intro allI impI)
    fix i p
    assume "i \<le> length [?c]"
    then consider "i = 0" | "i = 1" by fastforce
    then show "0 \<le> snd (level_volume (sw_resting s) p, level_orders (sw_resting s) p) + journal_orders (take i [?c]) side p
      \<and> (snd (level_volume (sw_resting s) p, level_orders (sw_resting s) p) + journal_orders (take i [?c]) side p = 0 \<longrightarrow>
         fst (level_volume (sw_resting s) p, level_orders (sw_resting s) p) + journal_volume (take i [?c]) side p = 0)"
      using t[of p] level_empty[of "sw_resting s" p] level_empty[of "put_head k (after_fill maker mv) others" p]
      by cases (simp_all add: level_orders_filter)
  qed
  have "replay_ok (\<lambda>p. (level_volume (sw_resting s) p, level_orders (sw_resting s) p)) side ([?c] @ new)"
    by (rule replay_ok_append[OF one]) (use new(3) t in simp)
  moreover have "sw_journal s' = sw_journal s @ [?c] @ new"
    using new(1) fill(10) by (simp add: fill_state_journal)
  ultimately show ?case using new(2) sd by (intro exI[of _ "[?c] @ new"]) auto
qed

end

lemma replay_other:
  assumes "\<forall>c \<in> set new. dc_side c \<noteq> side"
  shows "replay_ok (totals b side) side new"
proof -
  have "journal_volume (take k new) side p = 0 \<and> journal_orders (take k new) side p = 0" for k p
    using assms by (induction new arbitrary: k) (auto simp: journal_Cons take_Cons split: nat.split)
  then show ?thesis using totals_good[of b side] by (simp add: replay_ok_def)
qed

lemma sweep_journals:
  assumes sw: "sweep I b o1 limit config = Inr (b', fills, remainder)"
    and core: "book_core b" and vol: "in_i128 (o_volume o1)" and rec: "record_depth b"
  shows "journals b b'"
proof -
  have ok: "side_ok BidKey Buy (bids b)" "side_ok AskKey Sell (asks b)" using core by (simp_all add: book_core_def)
  have bal: "depth_balance b' = depth_balance b" by (rule sweep_balance[OF assms])
  have t: "totals b Buy = (\<lambda>p. (level_volume (bids b) p, level_orders (bids b) p))"
    "totals b Sell = (\<lambda>p. (level_volume (asks b) p, level_orders (asks b) p))"
    by (auto simp: totals_def)
  from sw obtain a new where new: "depth_journal b' = depth_journal b @ new"
    "\<forall>c \<in> set new. dc_side c = a \<and> dc_delta_orders c \<le> 1" "replay_ok (totals b a) a new"
  proof (cases rule: sweep_cases)
    case (Buy s)
    show thesis
      using ask.run_replay[OF Buy(2)] ok(2) vol rec Buy(3) by (auto intro!: that[where a = Sell] simp: t)
  next
    case (Sell s)
    show thesis
      using bid.run_replay[OF Sell(2)] ok(1) vol rec Sell(3) by (auto intro!: that[where a = Buy] simp: t)
  qed
  have "replay_ok (totals b side) side new" for side
    using new(2,3) replay_other[of new side b] by (cases "side = a") auto
  then show ?thesis using bal new by (auto simp: journals_def)
qed

section \<open>Resting, cancelling, amending\<close>

lemma rest_journals:
  assumes "book_core b" "restable o1 tot" "record_depth b" "o_sequence o1 \<notin> o_sequence ` book_orders b"
  shows "journals b (fst (rest b o1 tot))"
proof -
  have tot: "0 < tot" "tot \<le> i128_max" using assms(2) by (simp_all add: restable_def)
  show ?thesis
    by (rule journals_one[OF rest_balance[OF assms]], simp add: rest_eq[OF tot] push_depth_change_def assms(3), simp)
qed

lemma cancel_journals:
  assumes core: "book_core b" and rec: "record_depth b"
  shows "journals b (fst (cancel b o1))"
proof (cases "position (\<lambda>stop. o_side stop = o_side o1 \<and> o_sequence stop = o_sequence o1) (stops b)")
  case (Some i)
  then show ?thesis by (intro journals_quiet cancel_balance[OF assms]) (simp add: cancel_stop[OF Some])
next
  case None
  show ?thesis
  proof (cases "find_resting b o1")
    case (Some stored)
    show ?thesis
      by (rule journals_one[OF cancel_balance[OF assms]],
          simp add: cancel_resting[OF core None Some] record_depth_change_def push_depth_change_def rec, simp)
  qed (simp add: cancel_miss[OF core None])
qed

text \<open>The removal half of an amendment that loses its queue position.\<close>

lemma withdraw_journals:
  assumes core: "book_core b" and rec: "record_depth b" and f: "find_resting b key = Some stored"
  shows "journals b (record_depth_change (drop_resting b stored) (o_side key) (o_price stored)
    (fixed_neg (o_volume stored)) (- 1))"
proof -
  have e: "resting_ok (o_side key) stored" using find_resting_entry(1)[OF core f] .
  then have n: "fixed_neg (o_volume stored) = - o_volume stored" by (rule resting_neg)
  have "depth_balance (record_depth_change (drop_resting b stored) (o_side key) (o_price stored)
    (fixed_neg (o_volume stored)) (- 1)) = depth_balance b"
    using rec by (intro ext) (simp add: record_balance drop_resting_level[OF core f] n prod_eq_iff)
  then show ?thesis
    by (rule journals_one, simp add: record_depth_change_def push_depth_change_def rec, simp)
qed

lemma amend_journals:
  assumes core: "book_core b" and am: "amend_with_sequence b key price volume ms = (b', r)"
    and ms: "ms \<notin> o_sequence ` book_orders b" "ms < ob_sequence b" and rec: "record_depth b"
    and ty: "\<And>v. volume = Some v \<Longrightarrow> v \<le> i128_max"
  shows "journals b b'"
proof (cases r)
  case (Inl e)
  then show ?thesis using am amend_Inl by fastforce
next
  case (Inr a)
  note bal = amend_balance[OF core am ms rec ty]
  from Inr am have "amend_with_sequence b key price volume ms = (b', Inr a)" by simp
  from core this show ?thesis
  proof (cases rule: amend_Inr)
    case (1 stored np nv)
    let ?w = "record_depth_change (drop_resting b stored) (o_side key) (o_price stored) (fixed_neg (o_volume stored)) (- 1)"
    have j: "depth_journal (replace_resting b stored u) = depth_journal b" "record_depth (replace_resting b stored u)" for u
      using rec by (simp_all add: replace_resting_def)
    show ?thesis
    proof (cases "keeps_priority stored np nv")
      case True
      then show ?thesis
        using j journals_quiet[OF bal] journals_one[OF bal] unfolding 1(9) 1(8)
        by (auto simp: record_amendment_def record_depth_change_def push_depth_change_def)
    next
      case False
      have "journals b ?w" by (rule withdraw_journals[OF core rec 1(1)])
      moreover have "journals ?w b'"
      proof (rule journals_one)
        show "depth_balance b' = depth_balance ?w"
          using bal withdraw_journals[OF core rec 1(1)] by (simp add: journals_def)
        show "depth_journal b' = depth_journal ?w @ [\<lparr>dc_side = o_side key, dc_price = o_price (amended stored np nv ms),
            dc_delta_volume = o_volume (amended stored np nv ms), dc_delta_orders = 1\<rparr>]"
          using False rec j by (simp add: 1(8,9) record_amendment_def record_depth_change_def push_depth_change_def amendment_of_def)
      qed simp
      ultimately show ?thesis by (rule journals_trans)
    qed
  qed
qed

section \<open>Expiry\<close>

lemma expiry_prefix:
  assumes ok: "\<forall>o1 \<in> set os. resting_ok side o1"
  shows "journal_volume (expiry_changes True side os) side p = - (\<Sum>o1 \<leftarrow> os. if o_price o1 = p then o_volume o1 else 0)"
    "journal_orders (expiry_changes True side os) side p = - (\<Sum>o1 \<leftarrow> os. if o_price o1 = p then 1 else 0)"
  using ok by (induction os) (auto simp: expiry_changes_def journal_Cons resting_neg)

lemma sum_partition:
  fixes f :: "'a \<Rightarrow> int"
  shows "(\<Sum>x \<leftarrow> xs. f x) = (\<Sum>x \<leftarrow> take k (filter P xs). f x) + (\<Sum>x \<leftarrow> drop k (filter P xs) @ filter (\<lambda>x. \<not> P x) xs. f x)"
proof -
  have "(\<Sum>x \<leftarrow> xs. f x) = (\<Sum>x \<leftarrow> filter P xs. f x) + (\<Sum>x \<leftarrow> filter (\<lambda>x. \<not> P x) xs. f x)"
    by (induction xs) auto
  also have "(\<Sum>x \<leftarrow> filter P xs. f x) = (\<Sum>x \<leftarrow> take k (filter P xs) @ drop k (filter P xs). f x)" by simp
  finally show ?thesis by (simp del: append_take_drop_id)
qed

lemma expiry_replay:
  assumes ok: "\<forall>e \<in> set m. resting_ok side (snd e)"
  shows "replay_ok (\<lambda>p. (level_volume m p, level_orders m p)) side (expiry_changes True side (filter P (bt_values m)))"
  unfolding replay_ok_def
proof (intro allI impI)
  fix k p
  let ?os = "bt_values m"
  let ?v = "\<lambda>o1. if o_price o1 = p then o_volume o1 else (0 :: int)"
  let ?n = "\<lambda>o1. if o_price o1 = p then 1 else (0 :: int)"
  let ?rest = "drop k (filter P ?os) @ filter (\<lambda>x. \<not> P x) ?os"
  have lv: "level_volume m p = (\<Sum>o1 \<leftarrow> ?os. ?v o1)" "level_orders m p = (\<Sum>o1 \<leftarrow> ?os. ?n o1)"
    by (simp_all add: level_volume_def level_orders_def bt_values_def comp_def)
  have tk: "take k (expiry_changes True side (filter P ?os)) = expiry_changes True side (take k (filter P ?os))"
    by (simp add: expiry_changes_def take_map)
  have "\<forall>o1 \<in> set (take k (filter P ?os)). resting_ok side o1"
    using ok by (auto simp: bt_values_def dest!: in_set_takeD)
  note px = expiry_prefix[OF this, of p]
  have v: "level_volume m p + journal_volume (take k (expiry_changes True side (filter P ?os))) side p = (\<Sum>o1 \<leftarrow> ?rest. ?v o1)"
    and n: "level_orders m p + journal_orders (take k (expiry_changes True side (filter P ?os))) side p = (\<Sum>o1 \<leftarrow> ?rest. ?n o1)"
    unfolding tk px lv sum_partition[of ?v ?os k P] sum_partition[of ?n ?os k P] by simp_all
  have good: "(\<Sum>o1 \<leftarrow> xs. ?n o1) = 0 \<Longrightarrow> (\<Sum>o1 \<leftarrow> xs. ?v o1) = 0" "0 \<le> (\<Sum>o1 \<leftarrow> xs. ?n o1)" for xs :: "Order list"
  proof -
    show pos: "0 \<le> (\<Sum>o1 \<leftarrow> xs. ?n o1)" for xs :: "Order list" by (induction xs) auto
    show "(\<Sum>o1 \<leftarrow> xs. ?n o1) = 0 \<Longrightarrow> (\<Sum>o1 \<leftarrow> xs. ?v o1) = 0"
    proof (induction xs)
      case (Cons x xs)
      then show ?case using pos[of xs] by (auto split: if_splits)
    qed simp
  qed
  show "0 \<le> snd (level_volume m p, level_orders m p) + journal_orders (take k (expiry_changes True side (filter P ?os))) side p
      \<and> (snd (level_volume m p, level_orders m p) + journal_orders (take k (expiry_changes True side (filter P ?os))) side p = 0 \<longrightarrow>
         fst (level_volume m p, level_orders m p) + journal_volume (take k (expiry_changes True side (filter P ?os))) side p = 0)"
    unfolding fst_conv snd_conv v n using good[of ?rest] by blast
qed

lemma replay_skip:
  assumes "\<forall>c \<in> set xs. dc_side c \<noteq> side" "replay_ok t side ys"
  shows "replay_ok t side (xs @ ys)"
proof -
  have z: "journal_volume (take k xs) side p = 0 \<and> journal_orders (take k xs) side p = 0" for k p
    using assms(1) by (induction xs arbitrary: k) (auto simp: journal_Cons take_Cons split: nat.split)
  have "journal_volume xs side p = 0 \<and> journal_orders xs side p = 0" for p using z[of "length xs" p] by simp
  moreover have "0 \<le> snd (t p) \<and> (snd (t p) = 0 \<longrightarrow> fst (t p) = 0)" for p
    using assms(2)[unfolded replay_ok_def, rule_format, of 0 p] by simp
  then have "replay_ok t side xs" unfolding replay_ok_def using z by simp
  ultimately show ?thesis using replay_ok_append[of t side xs ys] assms(2) by simp
qed

lemma replay_stop:
  assumes "replay_ok t side xs" "\<forall>c \<in> set ys. dc_side c \<noteq> side"
  shows "replay_ok t side (xs @ ys)"
proof (rule replay_ok_append[OF assms(1)])
  have z: "journal_volume (take k ys) side p = 0 \<and> journal_orders (take k ys) side p = 0" for k p
    using assms(2) by (induction ys arbitrary: k) (auto simp: journal_Cons take_Cons split: nat.split)
  have "0 \<le> snd (t p) + journal_orders xs side p \<and>
      (snd (t p) + journal_orders xs side p = 0 \<longrightarrow> fst (t p) + journal_volume xs side p = 0)" for p
    using assms(1)[unfolded replay_ok_def, rule_format, of "length xs" p] by simp
  then show "replay_ok (\<lambda>p. (fst (t p) + journal_volume xs side p, snd (t p) + journal_orders xs side p)) side ys"
    unfolding replay_ok_def using z by simp
qed

lemma purge_journals:
  assumes core: "book_core b" and rec: "record_depth b"
  shows "journals b (fst (purge_expired b now day))"
proof -
  let ?P = "\<lambda>o1. is_expired (o_tif o1) now day"
  let ?x = "expiry_changes True Buy (filter ?P (bt_values (bids b)))"
  let ?y = "expiry_changes True Sell (filter ?P (bt_values (asks b)))"
  have ok: "bt_ok (bids b)" "bt_ok (asks b)" using core_bt_ok[OF core] by auto
  have rs: "\<forall>e \<in> set (bids b). resting_ok Buy (snd e)" "\<forall>e \<in> set (asks b). resting_ok Sell (snd e)"
    using core by (auto simp: book_core_def side_ok_def)
  have t: "totals b Buy = (\<lambda>p. (level_volume (bids b) p, level_orders (bids b) p))"
    "totals b Sell = (\<lambda>p. (level_volume (asks b) p, level_orders (asks b) p))"
    by (auto simp: totals_def)
  have "replay_ok (totals b Buy) Buy (?x @ ?y)"
    unfolding t by (rule replay_stop[OF expiry_replay[OF rs(1)]]) (use expiry_changes_side in fastforce)
  moreover have "replay_ok (totals b Sell) Sell (?x @ ?y)"
    unfolding t by (rule replay_skip[OF _ expiry_replay[OF rs(2)]]) (use expiry_changes_side in fastforce)
  ultimately have "replay_ok (totals b side) side (?x @ ?y)" for side by (cases side) simp_all
  moreover have "dc_delta_orders c \<le> 1" if "c \<in> set (?x @ ?y)" for c
    using that by (auto simp: expiry_changes_def)
  moreover have "depth_journal (fst (purge_expired b now day)) = depth_journal b @ ?x @ ?y"
    using rec by (simp add: purge_expired_eq[OF ok])
  ultimately show ?thesis using purge_balance[OF core rec, of now day] unfolding journals_def by blast
qed

lemma refresh_journals: "journals b (refresh_earliest_gtd b)"
  by (rule journals_quiet) simp_all

lemma purge_due_journals:
  assumes core: "book_core b" and rec: "record_depth b"
  shows "journals b (fst (purge_due_gtd b now))"
proof -
  have "journals b (fst (purge_expired (refresh_earliest_gtd b) now None))"
    using journals_trans[OF refresh_journals purge_journals[OF refresh_core[OF core]]] rec by simp
  then show ?thesis using purge_due_cases[OF core, of now] refresh_journals[of b] by auto
qed

end
