(* ===== verification/Book_Submission.thy ===== *)
theory Book_Submission
  imports Journal_Replay
begin

text \<open>
  The stop cascade and order submission: both keep the invariant, and \<open>execute_order\<close> is
  described branch by branch.
\<close>

section \<open>The stop cascade\<close>

text \<open>Set the last print from a batch of fills, as \<open>execute_order_inner\<close> and \<open>run_stops\<close> do.\<close>

definition print_last :: "MatchResult list \<Rightarrow> OrderBook \<Rightarrow> OrderBook" where
  "print_last fills b =
     (case vec_last fills of
        None \<Rightarrow> b
      | Some print \<Rightarrow> b\<lparr>last_trade_price := Some (o_price (mr_maker print))\<rparr>)"

lemma print_last_sel [simp]:
  "bids (print_last fills b) = bids b" "asks (print_last fills b) = asks b"
  "stops (print_last fills b) = stops b" "ob_sequence (print_last fills b) = ob_sequence b"
  "depth_journal (print_last fills b) = depth_journal b"
  "record_depth (print_last fills b) = record_depth b"
  "earliest_gtd_expiry (print_last fills b) = earliest_gtd_expiry b"
  "gtd_scan_dirty (print_last fills b) = gtd_scan_dirty b"
  by (simp_all add: print_last_def split: option.split)

lemma print_last_core [simp]: "book_core (print_last fills b) = book_core b"
  by (rule core_cong) simp_all

lemma balance_cong:
  assumes "bids b' = bids b" "asks b' = asks b" "depth_journal b' = depth_journal b"
  shows "depth_balance b' = depth_balance b"
  using assms by (intro ext) (simp add: depth_balance_def split: OrderSide.split)

lemma print_last_balance [simp]: "depth_balance (print_last fills b) = depth_balance b"
  by (rule balance_cong) simp_all

lemma print_last_journals: "journals b (print_last fills b)"
  by (rule journals_quiet) simp_all

lemma run_stops_cases [consumes 1, case_names quiet trigger]:
  assumes "run_stops I config b oc = Inr (b', oc')"
  obtains (quiet) "b' = b" "oc' = oc" "settled b"
  | (trigger) l i b2 fills remainder where
      "last_trade_price b = Some l" "i < length (stops b)" "stop_elected (stops b ! i) l"
      "\<forall>j < i. \<not> stop_elected (stops b ! j) l"
      "sweep I (b\<lparr>stops := vec_remove i (stops b),
                  gtd_scan_dirty := gtd_scan_dirty b \<or> is_gtd (o_tif (stops b ! i))\<rparr>)
         (stops b ! i) (order_limit (stops b ! i)) config = Inr (b2, fills, remainder)"
      "run_stops I config (print_last fills b2)
         (oc\<lparr>oc_triggers := oc_triggers oc @
            [\<lparr>se_stop = stops b ! i, se_trigger_price = l, se_fills = fills,
              se_cancelled = (if 0 < remainder then Some remainder else None)\<rparr>]\<rparr>) = Inr (b', oc')"
proof (cases "\<exists>l. last_trade_price b = Some l \<and> (\<exists>o1 \<in> set (stops b). stop_elected o1 l)")
  case False
  then have s: "settled b" by (auto simp: settled_def)
  have "run_stops I config b oc = Inr (b, oc)"
  proof (cases "last_trade_price b")
    case (Some l)
    then have "position (\<lambda>stop. stop_elected stop l) (stops b) = None"
      using False by (auto simp: position_None_iff)
    then show ?thesis by (simp add: run_stops.simps[of I config b oc] Some)
  qed (simp add: run_stops.simps[of I config b oc])
  then show thesis using assms s by (intro quiet) auto
next
  case True
  then obtain l where l: "last_trade_price b = Some l" "\<exists>o1 \<in> set (stops b). stop_elected o1 l" by blast
  then obtain i where i: "position (\<lambda>stop. stop_elected stop l) (stops b) = Some i"
    by (cases "position (\<lambda>stop. stop_elected stop l) (stops b)") (auto simp: position_None_iff)
  from position_SomeD[OF i] have p: "i < length (stops b)" "stop_elected (stops b ! i) l"
    "\<forall>j < i. \<not> stop_elected (stops b ! j) l" by auto
  show thesis
    using assms
    by (auto simp: run_stops.simps[of I config b oc] l i Let_def print_last_def[symmetric] split: sum.splits
        intro!: trigger[OF l(1) p])
qed

lemma run_stops_core:
  assumes "run_stops I config b oc = Inr (b', oc')" "book_core b"
  shows "book_core b' \<and> settled b' \<and> ob_sequence b' = ob_sequence b \<and> record_depth b' = record_depth b
    \<and> (record_depth b \<longrightarrow> journals b b')"
  using assms
proof (induction b arbitrary: oc rule: measure_induct_rule[of "\<lambda>b. length (stops b)"])
  case (less b)
  from less.prems(1) show ?case
  proof (cases rule: run_stops_cases)
    case quiet
    then show ?thesis using less.prems by simp
  next
    case (trigger l i b2 fills remainder)
    let ?b1 = "b\<lparr>stops := vec_remove i (stops b),
      gtd_scan_dirty := gtd_scan_dirty b \<or> is_gtd (o_tif (stops b ! i))\<rparr>"
    have "stop_ok (stops b ! i)"
      using less.prems(2) trigger(2) by (simp add: book_core_def)
    then have v: "in_i128 (o_volume (stops b ! i))" by (auto simp: stop_ok_def in_i128_def)
    have c1: "book_core ?b1" using less.prems(2) trigger(2) by (rule drop_stop_core)
    have c2: "book_core b2" using sweep_core[OF trigger(5) c1 v] .
    note sel = sweep_sel[OF trigger(5)]
    have "length (stops (print_last fills b2)) < length (stops b)"
      using trigger(2) by (simp add: sel length_vec_remove)
    from less.IH[OF this trigger(6)] c2 sel
    have r: "book_core b' \<and> settled b' \<and> ob_sequence b' = ob_sequence b \<and> record_depth b' = record_depth b
      \<and> (record_depth b \<longrightarrow> journals (print_last fills b2) b')" by simp
    have "journals b (print_last fills b2)" if "record_depth b"
    proof -
      have 1: "journals b ?b1" by (rule journals_quiet[OF balance_cong]) simp_all
      have 2: "journals ?b1 b2" using sweep_journals[OF trigger(5) c1 v] that by simp
      show ?thesis by (rule journals_trans[OF 1 journals_trans[OF 2 print_last_journals]])
    qed
    then show ?thesis using r journals_trans by blast
  qed
qed

section \<open>Admission\<close>

definition order_typed :: "Order \<Rightarrow> bool" where
  "order_typed o1 \<longleftrightarrow> in_i128 (o_price o1) \<and> in_i128 (o_volume o1) \<and> in_i128 (o_display_volume o1)
     \<and> in_i128 (o_hidden_volume o1) \<and> in_i128 (o_stop_price o1)"

text \<open>\<open>as_i128\<close> of the 256-bit crate returns an \<open>i128\<close>.\<close>

definition i128_typed :: "'w i256 \<Rightarrow> bool" where
  "i128_typed I \<longleftrightarrow> (\<forall>w. in_i128 (as_i128 I w))"

definition admissible :: "Order \<Rightarrow> bool" where
  "admissible o1 \<longleftrightarrow> order_typed o1 \<and> validate_order o1 = None
     \<and> (o_live o1 = Limit \<longrightarrow> o_volume_unit o1 = VU_Base)"

lemma validate_order_NoneD:
  assumes "validate_order o1 = None"
  shows "0 < o_volume o1" "o_live o1 = Limit \<Longrightarrow> 0 < o_price o1" "0 \<le> o_stop_price o1"
    "0 \<le> o_display_volume o1" "o_display_volume o1 \<le> o_volume o1"
    "o_post_only o1 \<Longrightarrow> o_live o1 = Limit \<and> \<not> is_stop o1"
    "is_stop o1 \<Longrightarrow> \<not> o_post_only o1 \<and> \<not> is_immediate (o_tif o1)"
  using assms by (auto simp: validate_order_def is_finite_def split: if_splits)

lemma floor_to_multiple_in: "in_i128 x \<Longrightarrow> in_i128 (floor_to_multiple x step)"
  by (simp add: floor_to_multiple_def)

lemma checked_div_in: "i128_typed I \<Longrightarrow> checked_div I a b = Some x \<Longrightarrow> in_i128 x"
  by (auto simp: checked_div_def i128_typed_def split: option.splits if_splits)

lemma normalize_order_NoneD:
  assumes n: "normalize_order I o1 config = (o2, None)" and I: "i128_typed I" and t: "order_typed o1"
  shows "order_typed o2" "o_live o2 = Limit \<Longrightarrow> o_volume_unit o2 = VU_Base"
    "o_sequence o2 = o_sequence o1" "o_side o2 = o_side o1" "o_price o2 = o_price o1"
    "o_live o2 = o_live o1" "o_tif o2 = o_tif o1" "o_post_only o2 = o_post_only o1"
    "o_volume_unit o1 = VU_Base \<Longrightarrow> o_volume o2 = o_volume o1"
  using n t floor_to_multiple_in checked_div_in[OF I]
  by (auto simp: normalize_order_def Let_def order_typed_def split: if_splits option.splits)
    (cases "o_volume_unit o1"; simp)+

lemma normalize_order_sequence [simp]:
  "o_sequence (fst (normalize_order I o1 config)) = o_sequence o1"
  by (simp add: normalize_order_def Let_def split: option.split)

section \<open>Submission keeps the invariant\<close>

lemma sweep_range:
  assumes sw: "sweep I b o1 limit config = Inr (b', fills, remainder)"
    and core: "book_core b" and vol: "in_i128 (o_volume o1)"
  shows "in_i128 remainder" "shrinks (bids b') (bids b)" "shrinks (asks b') (asks b)"
proof -
  have ok: "side_ok BidKey Buy (bids b)" "side_ok AskKey Sell (asks b)"
    using core by (simp_all add: book_core_def)
  from sw have "in_i128 remainder \<and> shrinks (bids b') (bids b) \<and> shrinks (asks b') (asks b)"
  proof (cases rule: sweep_cases)
    case (Buy s)
    obtain n where "map frozen_entry (sw_resting s) = drop n (map frozen_entry (asks b))"
      using ask.run_suffix[OF Buy(2)] ok(2) vol by auto
    then have "shrinks (sw_resting s) (asks b)" by (rule shrinks_drop)
    then show ?thesis using ask.run_ok[OF Buy(2)] ok(2) vol Buy by simp
  next
    case (Sell s)
    obtain n where "map frozen_entry (sw_resting s) = drop n (map frozen_entry (bids b))"
      using bid.run_suffix[OF Sell(2)] ok(1) vol by auto
    then have "shrinks (sw_resting s) (bids b)" by (rule shrinks_drop)
    then show ?thesis using bid.run_ok[OF Sell(2)] ok(1) vol Sell by simp
  qed
  then show "in_i128 remainder" "shrinks (bids b') (bids b)" "shrinks (asks b') (asks b)" by auto
qed

lemma sweep_seqs:
  assumes sw: "sweep I b o1 limit config = Inr (b', fills, remainder)"
    and core: "book_core b" and vol: "in_i128 (o_volume o1)"
  shows "o_sequence ` book_orders b' \<subseteq> o_sequence ` book_orders b"
  using shrinks_seqs[OF sweep_range(2)[OF assms]] shrinks_seqs[OF sweep_range(3)[OF assms]] sweep_sel(1)[OF sw]
  unfolding book_seqs_eq by auto

text \<open>The remainder of a taker, before the stop cascade.\<close>

definition settle_remainder :: "OrderBook \<Rightarrow> Order \<Rightarrow> fixed \<Rightarrow> Outcome \<Rightarrow> OrderBook \<times> Outcome" where
  "settle_remainder b o1 remainder outcome =
     (if 0 < remainder
      then if o_volume_unit o1 = VU_Quote \<or> is_immediate (o_tif o1) \<or> o_live o1 = Market
           then (b, outcome\<lparr>oc_cancelled := Some remainder\<rparr>)
           else (fst (rest b o1 remainder), outcome\<lparr>oc_resting := Some (snd (rest b o1 remainder))\<rparr>)
      else (b, outcome))"

lemma execute_taker_eq:
  "execute_taker I b o1 config outcome =
    (case sweep I b o1 (order_limit o1) config of
       Inl p \<Rightarrow> Inl p
     | Inr (b1, fills, remainder) \<Rightarrow>
         run_stops I config
           (print_last fills (fst (settle_remainder b1 o1 remainder (outcome\<lparr>oc_fills := fills\<rparr>))))
           (snd (settle_remainder b1 o1 remainder (outcome\<lparr>oc_fills := fills\<rparr>))))"
  by (auto simp: execute_taker_def settle_remainder_def print_last_def Let_def
      split: sum.split prod.split option.split)

lemma rest_sel [simp]:
  "stops (fst (rest b o1 tot)) = stops b" "ob_sequence (fst (rest b o1 tot)) = ob_sequence b"
  "last_trade_price (fst (rest b o1 tot)) = last_trade_price b"
  "record_depth (fst (rest b o1 tot)) = record_depth b"
  by (cases "o_side o1"; cases "o_tif o1"; simp add: rest_def Let_def)+

lemma settle_core:
  assumes core: "book_core b" and a: "admissible o1" "\<not> is_stop o1"
    and fresh: "o_sequence o1 \<notin> o_sequence ` book_orders b" "o_sequence o1 < ob_sequence b"
    and r: "in_i128 remainder"
    and clear: "sweep_mode o1 = SM_Base \<Longrightarrow> 0 < remainder \<Longrightarrow>
      \<forall>maker \<in> set (opposing b (o_side o1)). \<not> within_limit (order_limit o1) (o_side o1) (o_price maker)"
  shows "book_core (fst (settle_remainder b o1 remainder oc))
    \<and> ob_sequence (fst (settle_remainder b o1 remainder oc)) = ob_sequence b
    \<and> record_depth (fst (settle_remainder b o1 remainder oc)) = record_depth b
    \<and> (record_depth b \<longrightarrow> journals b (fst (settle_remainder b o1 remainder oc)))"
proof (cases "0 < remainder \<and> o_live o1 = Limit \<and> \<not> is_immediate (o_tif o1)")
  case False
  then show ?thesis
    using core a(1) by (cases "o_live o1") (auto simp: settle_remainder_def)
next
  case True
  then have u: "o_volume_unit o1 = VU_Base" using a(1) by (simp add: admissible_def)
  have v: "validate_order o1 = None" using a(1) by (simp add: admissible_def)
  have rs: "restable o1 remainder"
    using True u a r validate_order_NoneD[OF v] by (simp add: restable_def admissible_def order_typed_def in_i128_def)
  have "sweep_mode o1 = SM_Base" using u by (simp add: sweep_mode_def)
  then have cl: "\<forall>maker \<in> set (opposing b (o_side o1)). \<not> within_limit (Some (o_price o1)) (o_side o1) (o_price maker)"
    using clear True by (simp add: order_limit_def)
  show ?thesis
    using rest_core[OF core rs fresh cl] rest_journals[OF core rs _ fresh(1)] True u
    by (simp add: settle_remainder_def)
qed

lemma execute_taker_core:
  assumes ex: "execute_taker I b o1 config oc = Inr (b', oc')"
    and core: "book_core b" and a: "admissible o1" "\<not> is_stop o1"
    and fresh: "o_sequence o1 \<notin> o_sequence ` book_orders b" "o_sequence o1 < ob_sequence b"
  shows "book_core b' \<and> settled b' \<and> ob_sequence b' = ob_sequence b \<and> record_depth b' = record_depth b
    \<and> (record_depth b \<longrightarrow> journals b b')"
proof -
  obtain b1 fills remainder where sw: "sweep I b o1 (order_limit o1) config = Inr (b1, fills, remainder)"
    and run: "run_stops I config
       (print_last fills (fst (settle_remainder b1 o1 remainder (oc\<lparr>oc_fills := fills\<rparr>))))
       (snd (settle_remainder b1 o1 remainder (oc\<lparr>oc_fills := fills\<rparr>))) = Inr (b', oc')"
    using ex by (auto simp: execute_taker_eq split: sum.splits)
  have v: "in_i128 (o_volume o1)" "0 \<le> o_volume o1"
    using a(1) validate_order_NoneD(1) by (auto simp: admissible_def order_typed_def intro: less_imp_le)
  have c1: "book_core b1" using sweep_core[OF sw core v(1)] .
  note sel = sweep_sel[OF sw]
  have fr: "o_sequence o1 \<notin> o_sequence ` book_orders b1" "o_sequence o1 < ob_sequence b1"
    using fresh sweep_seqs[OF sw core v(1)] sel by auto
  note st = settle_core[OF c1 a fr sweep_range(1)[OF sw core v(1)], of "oc\<lparr>oc_fills := fills\<rparr>"]
  have "\<forall>maker \<in> set (opposing b1 (o_side o1)). \<not> within_limit (order_limit o1) (o_side o1) (o_price maker)"
    if "sweep_mode o1 = SM_Base" "0 < remainder"
    using sweep_volume[OF sw core v that(1)] that(2) by blast
  note st = st[OF this]
  have "journals b b'" if "record_depth b"
  proof -
    let ?b2 = "fst (settle_remainder b1 o1 remainder (oc\<lparr>oc_fills := fills\<rparr>))"
    have "journals b1 ?b2" "journals (print_last fills ?b2) b'"
      using run_stops_core[OF run] st sel that by simp_all
    then show ?thesis
      using sweep_journals[OF sw core v(1) that] print_last_journals journals_trans by blast
  qed
  then show ?thesis
    using run_stops_core[OF run] st sel by simp
qed

lemma park_core:
  assumes core: "book_core b" and st: "stop_ok o1"
    and fresh: "o_sequence o1 \<notin> o_sequence ` book_orders b" "o_sequence o1 < ob_sequence b"
  shows "book_core (b\<lparr>stops := stops b @ [o1],
    earliest_gtd_expiry := note_expiry (earliest_gtd_expiry b) o1\<rparr>)" (is "book_core ?b")
proof -
  have ok: "side_ok BidKey Buy (bids b)" "side_ok AskKey Sell (asks b)" and s: "seqs_ok b"
    using core by (simp_all add: book_core_def)
  have "gtd_index_ok ?b"
    by (rule rest_index[of b ?b o1 o1]) (use core in \<open>auto simp: book_core_def book_orders_def\<close>)
  moreover have "seqs_ok ?b" using seqs_ok_add(3)[OF s ok fresh, of ?b] by simp
  ultimately show ?thesis using core st by (auto simp: book_core_def uncrossed_def)
qed

lemma would_cross_eq: "would_cross b o1 = crosses_at b (o_side o1) (o_price o1)"
  by (simp add: would_cross_def crosses_at_def)

text \<open>The book an admitted order meets: due deadlines are purged first.\<close>

definition purged :: "OrderBook \<Rightarrow> Order \<Rightarrow> OrderBook \<times> Order list" where
  "purged b o1 = (if has_gtd_deadlines b then purge_due_gtd b (o_timestamp o1) else (b, []))"

lemma purged_core:
  assumes core: "book_core b"
  shows "book_core (fst (purged b o1))" "ob_sequence (fst (purged b o1)) = ob_sequence b"
    "last_trade_price (fst (purged b o1)) = last_trade_price b"
    "record_depth (fst (purged b o1)) = record_depth b"
    "set (stops (fst (purged b o1))) \<subseteq> set (stops b)"
    "book_orders (fst (purged b o1)) \<subseteq> book_orders b"
    "record_depth b \<Longrightarrow> journals b (fst (purged b o1))"
    "snd (purged b o1) = expired_orders b (o_timestamp o1) None"
proof -
  have "expired_orders b (o_timestamp o1) None = []" if "\<not> has_gtd_deadlines b"
  proof (rule gtd_not_due)
    have "earliest_of (gtd_times (book_orders b)) = None"
      using that core by (auto simp: has_gtd_deadlines_def book_core_def gtd_index_ok_def)
    then show "case earliest_of (gtd_times (book_orders b)) of None \<Rightarrow> True | Some t \<Rightarrow> o_timestamp o1 < t"
      by simp
  qed
  then show "snd (purged b o1) = expired_orders b (o_timestamp o1) None"
    using purge_due_removed[OF core] by (simp add: purged_def)
  show "book_core (fst (purged b o1))" "ob_sequence (fst (purged b o1)) = ob_sequence b"
    "last_trade_price (fst (purged b o1)) = last_trade_price b"
    "record_depth (fst (purged b o1)) = record_depth b"
    "set (stops (fst (purged b o1))) \<subseteq> set (stops b)"
    "book_orders (fst (purged b o1)) \<subseteq> book_orders b"
    using core purge_due_core[OF core] purge_sel[OF core] by (simp_all add: purged_def)
  show "journals b (fst (purged b o1))" if "record_depth b"
    using purge_due_journals[OF core that] by (simp add: purged_def)
qed

lemma execute_admitted_eq:
  "execute_admitted I b o1 config oc =
    (let b1 = fst (purged b o1); oc = oc\<lparr>oc_expired := snd (purged b o1)\<rparr> in
     if is_stop o1 then
       if (case last_trade_price b1 of None \<Rightarrow> False | Some l \<Rightarrow> stop_elected o1 l)
       then Inr (b1, oc\<lparr>oc_rejected := Some StopWouldTrigger\<rparr>)
       else Inr (b1\<lparr>stops := stops b1 @ [o1],
                    earliest_gtd_expiry := note_expiry (earliest_gtd_expiry b1) o1\<rparr>, oc\<lparr>oc_parked := True\<rparr>)
     else if o_post_only o1 then
       if would_cross b1 o1 then Inr (b1, oc\<lparr>oc_rejected := Some PostOnlyWouldCross\<rparr>)
       else Inr (fst (rest b1 o1 (o_volume o1)), oc\<lparr>oc_resting := Some (snd (rest b1 o1 (o_volume o1)))\<rparr>)
     else if o_tif o1 = Fok \<and> fillable_volume b1 o1 < o_volume o1
     then Inr (b1, oc\<lparr>oc_rejected := Some FokUnfillable\<rparr>)
     else execute_taker I b1 o1 config oc)"
  by (cases "o_tif o1")
    (simp_all add: execute_admitted_def purged_def Let_def note_expiry_def split: prod.split)

lemma execute_admitted_cases [consumes 1, case_names stop_rejected parked post_rejected post_rested
    fok_rejected taken]:
  assumes ex: "execute_admitted I b o1 config oc = Inr (b', oc')"
  obtains
    (stop_rejected) l where "is_stop o1" "last_trade_price (fst (purged b o1)) = Some l" "stop_elected o1 l"
      "b' = fst (purged b o1)" "oc' = oc\<lparr>oc_expired := snd (purged b o1), oc_rejected := Some StopWouldTrigger\<rparr>"
  | (parked) "is_stop o1" "\<And>l. last_trade_price (fst (purged b o1)) = Some l \<Longrightarrow> \<not> stop_elected o1 l"
      "b' = (fst (purged b o1))\<lparr>stops := stops (fst (purged b o1)) @ [o1],
         earliest_gtd_expiry := note_expiry (earliest_gtd_expiry (fst (purged b o1))) o1\<rparr>"
      "oc' = oc\<lparr>oc_expired := snd (purged b o1), oc_parked := True\<rparr>"
  | (post_rejected) "\<not> is_stop o1" "o_post_only o1" "would_cross (fst (purged b o1)) o1"
      "b' = fst (purged b o1)" "oc' = oc\<lparr>oc_expired := snd (purged b o1), oc_rejected := Some PostOnlyWouldCross\<rparr>"
  | (post_rested) "\<not> is_stop o1" "o_post_only o1" "\<not> would_cross (fst (purged b o1)) o1"
      "b' = fst (rest (fst (purged b o1)) o1 (o_volume o1))"
      "oc' = oc\<lparr>oc_expired := snd (purged b o1),
         oc_resting := Some (snd (rest (fst (purged b o1)) o1 (o_volume o1)))\<rparr>"
  | (fok_rejected) "\<not> is_stop o1" "\<not> o_post_only o1" "o_tif o1 = Fok"
      "fillable_volume (fst (purged b o1)) o1 < o_volume o1"
      "b' = fst (purged b o1)" "oc' = oc\<lparr>oc_expired := snd (purged b o1), oc_rejected := Some FokUnfillable\<rparr>"
  | (taken) "\<not> is_stop o1" "\<not> o_post_only o1"
      "o_tif o1 = Fok \<Longrightarrow> o_volume o1 \<le> fillable_volume (fst (purged b o1)) o1"
      "execute_taker I (fst (purged b o1)) o1 config (oc\<lparr>oc_expired := snd (purged b o1)\<rparr>) = Inr (b', oc')"
proof (cases "is_stop o1")
  case True
  show thesis
  proof (cases "\<exists>l. last_trade_price (fst (purged b o1)) = Some l \<and> stop_elected o1 l")
    case el: True
    then obtain l where l: "last_trade_price (fst (purged b o1)) = Some l" "stop_elected o1 l" by blast
    show thesis using stop_rejected[OF True l] ex True l by (simp add: execute_admitted_eq Let_def)
  next
    case False
    then have "\<not> (case last_trade_price (fst (purged b o1)) of None \<Rightarrow> False | Some l \<Rightarrow> stop_elected o1 l)"
      by (simp split: option.split)
    then show thesis using parked[OF True] ex True False by (simp add: execute_admitted_eq Let_def)
  qed
next
  case ns: False
  show thesis
  proof (cases "o_post_only o1")
    case True
    show thesis
      using post_rejected[OF ns True] post_rested[OF ns True] ex ns True
      by (cases "would_cross (fst (purged b o1)) o1") (simp_all add: execute_admitted_eq Let_def)
  next
    case False
    show thesis
      using fok_rejected[OF ns False] taken[OF ns False] ex ns False
      by (cases "o_tif o1 = Fok \<and> fillable_volume (fst (purged b o1)) o1 < o_volume o1")
        (auto simp: execute_admitted_eq Let_def not_less)
  qed
qed

definition keeps :: "OrderBook \<Rightarrow> OrderBook \<Rightarrow> bool" where
  "keeps b b' \<longleftrightarrow> book_inv b' \<and> ob_sequence b' = ob_sequence b \<and> record_depth b' = record_depth b
     \<and> (record_depth b \<longrightarrow> journals b b')"

lemma keeps_refl: "book_inv b \<Longrightarrow> keeps b b"
  by (simp add: keeps_def)

lemma keeps_trans: "keeps a b \<Longrightarrow> keeps b c \<Longrightarrow> keeps a c"
  by (auto simp: keeps_def intro: journals_trans)

lemma keeps_balance: "keeps b b' \<Longrightarrow> record_depth b \<Longrightarrow> depth_balance b' = depth_balance b"
  by (simp add: keeps_def journals_def)

lemma execute_admitted_keeps:
  assumes ex: "execute_admitted I b o1 config oc = Inr (b', oc')"
    and inv: "book_inv b" and a: "admissible o1"
    and fresh: "o_sequence o1 \<notin> o_sequence ` book_orders b" "o_sequence o1 < ob_sequence b"
  shows "keeps b b'"
proof -
  have core: "book_core b" and set: "settled b" using inv by (simp_all add: book_inv_def)
  define b1 where "b1 = fst (purged b o1)"
  note p = purged_core[OF core, of o1, folded b1_def]
  have s1: "settled b1" using set p(3,5) by (auto simp: settled_def)
  have fr: "o_sequence o1 \<notin> o_sequence ` book_orders b1" "o_sequence o1 < ob_sequence b1"
    using fresh p(2,6) by auto
  have v: "validate_order o1 = None" and ty: "order_typed o1" using a by (simp_all add: admissible_def)
  note vd = validate_order_NoneD[OF v]
  have k1: "keeps b b1" using p s1 by (simp add: keeps_def book_inv_def)
  from ex show ?thesis
  proof (cases rule: execute_admitted_cases)
    case (stop_rejected l)
    then show ?thesis using k1 by (simp add: b1_def)
  next
    case post_rejected
    then show ?thesis using k1 by (simp add: b1_def)
  next
    case fok_rejected
    then show ?thesis using k1 by (simp add: b1_def)
  next
    case parked
    note park = parked[folded b1_def]
    have "stop_ok o1"
      using park(1) vd ty a by (auto simp: stop_ok_def order_typed_def in_i128_def admissible_def)
    then have "book_core b'" using park_core[OF p(1) _ fr] park(3) by simp
    moreover have "settled b'" using s1 park(2,3) by (auto simp: settled_def)
    moreover have "journals b1 b'" by (rule journals_quiet[OF balance_cong]) (simp_all add: park(3))
    ultimately show ?thesis
      using p park(3) by (intro keeps_trans[OF k1]) (simp add: keeps_def book_inv_def)
  next
    case post_rested
    note post = post_rested[folded b1_def]
    have r: "restable o1 (o_volume o1)"
      using post(1,2) vd ty a by (auto simp: restable_def order_typed_def in_i128_def admissible_def)
    have cl: "\<forall>maker \<in> set (opposing b1 (o_side o1)). \<not> within_limit (Some (o_price o1)) (o_side o1) (o_price maker)"
      using clear_of_best[OF p(1)] post(3) by (simp add: would_cross_eq)
    show ?thesis
      using rest_core[OF p(1) r fr cl] rest_journals[OF p(1) r _ fr(1)] p s1 post(4)
      by (intro keeps_trans[OF k1]) (simp add: keeps_def book_inv_def settled_def)
  next
    case taken
    note take = taken[folded b1_def]
    show ?thesis
      using execute_taker_core[OF take(4) p(1) a take(1) fr] p
      by (intro keeps_trans[OF k1]) (simp add: keeps_def book_inv_def)
  qed
qed

text \<open>Taking the next sequence: every sequence in the book stays below the counter.\<close>

lemma next_sequence_inv:
  assumes inv: "book_inv b" and seq: "ob_sequence b < 2 ^ 64 - 1"
  shows "book_inv (b\<lparr>ob_sequence := ob_sequence b + 1\<rparr>)"
    "ob_sequence b \<notin> o_sequence ` book_orders b"
    "snd (next_market_sequence b) = b\<lparr>ob_sequence := ob_sequence b + 1\<rparr>"
proof -
  have core: "book_core b" and s: "seqs_ok b" using inv by (simp_all add: book_inv_def book_core_def)
  have "gtd_index_ok (b\<lparr>ob_sequence := ob_sequence b + 1\<rparr>)"
    using core by (simp add: book_core_def gtd_index_ok_def book_orders_def)
  then have "book_core (b\<lparr>ob_sequence := ob_sequence b + 1\<rparr>)"
    using core by (intro book_core_shrink[OF core]) (simp_all add: book_core_def seqs_ok_def)
  then show "book_inv (b\<lparr>ob_sequence := ob_sequence b + 1\<rparr>)"
    using inv by (simp add: book_inv_def settled_def)
  show "ob_sequence b \<notin> o_sequence ` book_orders b" using s by (auto simp: seqs_ok_def)
  show "snd (next_market_sequence b) = b\<lparr>ob_sequence := ob_sequence b + 1\<rparr>"
    using seq by (simp add: next_market_sequence_def wrap_u64_def)
qed

lemma book_orders_seq [simp]: "book_orders (b\<lparr>ob_sequence := n\<rparr>) = book_orders b"
  by (simp add: book_orders_def)

lemma execute_order_inner_keeps:
  assumes ex: "execute_order_inner I b o1 config = Inr (b', o2, oc)"
    and inv: "book_inv b" and seq: "ob_sequence b < 2 ^ 64 - 1"
    and I: "i128_typed I" and ty: "order_typed o1"
  shows "keeps (b\<lparr>ob_sequence := ob_sequence b + 1\<rparr>) b'"
proof -
  let ?b = "b\<lparr>ob_sequence := ob_sequence b + 1\<rparr>"
  let ?o3 = "o1\<lparr>o_sequence := ob_sequence b\<rparr>"
  note nx = next_sequence_inv[OF inv seq]
  have nm: "next_market_sequence b = (ob_sequence b, ?b)"
    using nx(3) by (simp add: next_market_sequence_def)
  have kb: "keeps ?b ?b" using nx(1) by (simp add: keeps_def)
  consider "b' = ?b"
    | o4 oc'' where "normalize_order I ?o3 config = (o4, None)" "validate_order o4 = None"
        "execute_admitted I ?b o4 config oc'' = Inr (b', oc)"
    using ex unfolding execute_order_inner_def nm Let_def
    by (auto split: prod.splits option.splits sum.splits)
  then show ?thesis
  proof cases
    case 1
    then show ?thesis using kb by simp
  next
    case (2 o4 oc'')
    have t3: "order_typed ?o3" using ty by (simp add: order_typed_def)
    note n = normalize_order_NoneD[OF 2(1) I t3]
    have "admissible o4" using n(1,2) 2(2) by (simp add: admissible_def)
    moreover have "o_sequence o4 = ob_sequence b" using n(3) by simp
    ultimately show ?thesis
      using execute_admitted_keeps[OF 2(3) nx(1)] nx(2) by simp
  qed
qed

end
