(* ===== verification/Machine_Invariant.thy ===== *)
theory Machine_Invariant
  imports State_Machine Book_Submission
begin

text \<open>
  Library of the replicated state machine: closed forms of the two retention loops, the invariant
  of the state, what each request does to the book, to the event window and to the dedupe table,
  and the preservation of the invariant along the log.
\<close>

section \<open>Every book operation keeps the book\<close>

lemma settled_mono:
  assumes "settled b" "set (stops b') \<subseteq> set (stops b)" "last_trade_price b' = last_trade_price b"
  shows "settled b'"
  using assms by (auto simp: settled_def)

lemma purged_keeps: "book_inv b \<Longrightarrow> keeps b (fst (purged b o1))"
  using purged_core[of b o1] settled_mono[of b "fst (purged b o1)"] by (simp add: keeps_def book_inv_def)

lemma cancel_sel:
  assumes core: "book_core b"
  shows "ob_sequence (fst (cancel b o1)) = ob_sequence b"
    "last_trade_price (fst (cancel b o1)) = last_trade_price b"
    "record_depth (fst (cancel b o1)) = record_depth b"
    "set (stops (fst (cancel b o1))) \<subseteq> set (stops b)"
proof -
  let ?p = "position (\<lambda>stop. o_side stop = o_side o1 \<and> o_sequence stop = o_sequence o1) (stops b)"
  have "ob_sequence (fst (cancel b o1)) = ob_sequence b \<and> last_trade_price (fst (cancel b o1)) = last_trade_price b
      \<and> record_depth (fst (cancel b o1)) = record_depth b \<and> set (stops (fst (cancel b o1))) \<subseteq> set (stops b)"
  proof (cases ?p)
    case (Some i)
    then show ?thesis using cancel_stop[OF Some] set_vec_remove[of i "stops b"] by simp
  next
    case None
    then show ?thesis
      using cancel_resting[OF core None] cancel_miss[OF core None]
      by (cases "find_resting b o1") simp_all
  qed
  then show "ob_sequence (fst (cancel b o1)) = ob_sequence b"
    "last_trade_price (fst (cancel b o1)) = last_trade_price b"
    "record_depth (fst (cancel b o1)) = record_depth b"
    "set (stops (fst (cancel b o1))) \<subseteq> set (stops b)"
    by simp_all
qed

lemma cancel_keeps: "book_inv b \<Longrightarrow> keeps b (fst (cancel b o1))"
  using cancel_core[of b o1] cancel_sel[of b o1] cancel_journals[of b o1]
    settled_mono[of b "fst (cancel b o1)"]
  by (simp add: keeps_def book_inv_def)

lemma amend_keeps:
  assumes inv: "book_inv b" and ms: "ms \<notin> o_sequence ` book_orders b" "ms < ob_sequence b"
    and ty: "\<And>p. price = Some p \<Longrightarrow> p \<le> i128_max" "\<And>v. volume = Some v \<Longrightarrow> v \<le> i128_max"
    and am: "amend_with_sequence b key price volume ms = (b', r)"
  shows "keeps b b'"
proof -
  have core: "book_core b" and st: "settled b" using inv by (simp_all add: book_inv_def)
  have c': "book_core b'" by (rule amend_core[OF core am ms ty])
  have bal: "record_depth b \<Longrightarrow> journals b b'"
    by (rule amend_journals[OF core am ms _ ty(2)])
  have "ob_sequence b' = ob_sequence b \<and> record_depth b' = record_depth b \<and> settled b'"
  proof (cases r)
    case (Inl e)
    with am amend_Inl[of b key price volume ms b' e] st show ?thesis by simp
  next
    case (Inr a)
    with am have "amend_with_sequence b key price volume ms = (b', Inr a)" by simp
    from core this show ?thesis
    proof (cases rule: amend_Inr)
      case (1 stored np nv)
      then show ?thesis using st by (simp add: settled_def)
    qed
  qed
  with c' bal show ?thesis by (simp add: keeps_def book_inv_def)
qed

lemma purge_keeps:
  assumes inv: "book_inv b"
  shows "keeps b (fst (purge_expired b now day))"
proof -
  have core: "book_core b" and st: "settled b" using inv by (simp_all add: book_inv_def)
  note eq = purge_expired_eq[of b now day]
  have "bt_ok (bids b)" "bt_ok (asks b)" using core_bt_ok[OF core] by simp_all
  with eq have sel: "ob_sequence (fst (purge_expired b now day)) = ob_sequence b"
    "record_depth (fst (purge_expired b now day)) = record_depth b"
    "last_trade_price (fst (purge_expired b now day)) = last_trade_price b"
    "set (stops (fst (purge_expired b now day))) \<subseteq> set (stops b)"
    by auto
  then show ?thesis
    using purge_core[OF core] purge_journals[OF core] settled_mono[OF st]
    by (simp add: keeps_def book_inv_def)
qed

section \<open>The retention loops\<close>

definition evict :: "nat \<Rightarrow> u64 \<Rightarrow> u64" where
  "evict n a = (if n = 0 then a else wrap_u64 (a + n))"

lemma evict_Suc: "evict n (wrap_u64 (Suc a)) = evict (Suc n) a"
  by (simp add: evict_def wrap_u64_def mod_Suc_eq mod_add_left_eq)

lemma evict_0 [simp]: "evict 0 a = a"
  by (simp add: evict_def)

lemma trim_events_eq:
  "trim_events s = s\<lparr>sm_events := drop (length (sm_events s) - max_events s) (sm_events s),
     events_evicted := evict (length (sm_events s) - max_events s) (events_evicted s)\<rparr>"
proof (induction s rule: trim_events.induct)
  case (1 s)
  show ?case
  proof (cases "max_events s < length (sm_events s)")
    case True
    then obtain e es where es: "sm_events s = e # es" by (cases "sm_events s") auto
    with True have n: "length (sm_events s) - max_events s = Suc (length es - max_events s)" by simp
    show ?thesis
      unfolding trim_events.simps[of s]
      using 1[OF True] True es n by (simp add: evict_Suc)
  next
    case False
    then show ?thesis by (subst trim_events.simps) simp
  qed
qed

text \<open>The dedupe table lists exactly the records in retention order, one per client id.\<close>

definition table_ok :: "(string, SubmissionRecord) btree \<Rightarrow> SubmissionRecord list \<Rightarrow> bool" where
  "table_ok m order \<longleftrightarrow> bt_ok m \<and> distinct (map sub_client_order_id order)
     \<and> (\<forall>c r. bt_get c m = Some r \<longleftrightarrow> r \<in> set order \<and> sub_client_order_id r = c)"

lemma table_okI:
  assumes "bt_ok m" "distinct (map sub_client_order_id order)"
    and "\<And>r. r \<in> set order \<Longrightarrow> bt_get (sub_client_order_id r) m = Some r"
    and "\<And>c r. bt_get c m = Some r \<Longrightarrow> r \<in> set order \<and> sub_client_order_id r = c"
  shows "table_ok m order"
  using assms unfolding table_ok_def by blast

lemma table_okD:
  assumes "table_ok m order"
  shows "bt_ok m" "distinct (map sub_client_order_id order)"
    "r \<in> set order \<Longrightarrow> bt_get (sub_client_order_id r) m = Some r"
    "bt_get c m = Some r \<Longrightarrow> r \<in> set order \<and> sub_client_order_id r = c"
  using assms unfolding table_ok_def by blast+

lemma table_ok_tl:
  assumes t: "table_ok m (old # order)"
  shows "bt_get (sub_client_order_id old) m = Some old"
    "table_ok (bt_remove (sub_client_order_id old) m) order"
proof -
  show g: "bt_get (sub_client_order_id old) m = Some old" using table_okD(3)[OF t] by simp
  have d: "sub_client_order_id old \<notin> sub_client_order_id ` set order" using table_okD(2)[OF t] by simp
  show "table_ok (bt_remove (sub_client_order_id old) m) order"
  proof (rule table_okI)
    fix r assume r: "r \<in> set order"
    with d have "sub_client_order_id r \<noteq> sub_client_order_id old" by (metis image_eqI)
    with r show "bt_get (sub_client_order_id r) (bt_remove (sub_client_order_id old) m) = Some r"
      using table_okD(1,3)[OF t] by (simp add: bt_get_remove)
  next
    fix c r assume "bt_get c (bt_remove (sub_client_order_id old) m) = Some r"
    then have "c \<noteq> sub_client_order_id old" "bt_get c m = Some r"
      using table_okD(1)[OF t] by (auto simp: bt_get_remove split: if_splits)
    then show "r \<in> set order \<and> sub_client_order_id r = c" using table_okD(4)[OF t, of c r] by auto
  qed (use table_okD(1,2)[OF t] in \<open>simp_all add: bt_ok_remove\<close>)
qed

lemma table_ok_snoc:
  assumes t: "table_ok m order" and fresh: "bt_get (sub_client_order_id r) m = None"
  shows "table_ok (bt_insert (sub_client_order_id r) r m) (order @ [r])"
proof -
  have new: "sub_client_order_id x \<noteq> sub_client_order_id r" if "x \<in> set order" for x
    using table_okD(3)[OF t that] fresh by auto
  show ?thesis
  proof (rule table_okI)
    have "sub_client_order_id r \<notin> sub_client_order_id ` set order" using new by (metis imageE)
    then show "distinct (map sub_client_order_id (order @ [r]))" using table_okD(2)[OF t] by simp
  next
    fix x assume "x \<in> set (order @ [r])"
    then show "bt_get (sub_client_order_id x) (bt_insert (sub_client_order_id r) r m) = Some x"
      using table_okD(3)[OF t, of x] new[of x] by (auto simp: bt_get_insert)
  next
    fix c x assume "bt_get c (bt_insert (sub_client_order_id r) r m) = Some x"
    then show "x \<in> set (order @ [r]) \<and> sub_client_order_id x = c"
      using table_okD(4)[OF t, of c x] by (auto simp: bt_get_insert split: if_splits)
  qed (use table_okD(1)[OF t] in \<open>simp add: bt_ok_insert\<close>)
qed

lemma trim_submissions_table:
  assumes "table_ok (submissions s) (submission_order s)"
  shows "\<exists>m. table_ok m (drop (length (submission_order s) - max_submissions s) (submission_order s))
    \<and> trim_submissions s = s\<lparr>submissions := m,
        submission_order := drop (length (submission_order s) - max_submissions s) (submission_order s),
        submissions_evicted := evict (length (submission_order s) - max_submissions s) (submissions_evicted s)\<rparr>"
  using assms
proof (induction s rule: trim_submissions.induct)
  case (1 s)
  show ?case
  proof (cases "max_submissions s < length (submission_order s)")
    case True
    then obtain old order where o1: "submission_order s = old # order"
      by (cases "submission_order s") auto
    with True have n: "length (submission_order s) - max_submissions s = Suc (length order - max_submissions s)"
      by simp
    let ?s = "s\<lparr>submission_order := order, submissions := bt_remove (sub_client_order_id old) (submissions s),
      submissions_evicted := wrap_u64 (submissions_evicted s + 1)\<rparr>"
    note t = table_ok_tl[OF 1(2)[unfolded o1]]
    have step: "trim_submissions s = trim_submissions ?s"
      by (subst trim_submissions.simps) (use True o1 t(1) in simp)
    have "\<exists>m. table_ok m (drop (length (submission_order ?s) - max_submissions ?s) (submission_order ?s))
      \<and> trim_submissions ?s = ?s\<lparr>submissions := m,
          submission_order := drop (length (submission_order ?s) - max_submissions ?s) (submission_order ?s),
          submissions_evicted := evict (length (submission_order ?s) - max_submissions ?s) (submissions_evicted ?s)\<rparr>"
      using 1(1)[OF True o1 refl] t by simp
    then show ?thesis unfolding step using n o1 by (auto simp: evict_Suc)
  next
    case False
    then have "trim_submissions s = s" by (subst trim_submissions.simps) simp
    with False 1(2) show ?thesis by (intro exI[of _ "submissions s"]) simp
  qed
qed

lemma trim_events_sel [simp]:
  "last_applied_log (trim_events s) = last_applied_log s" "last_membership (trim_events s) = last_membership s"
  "orderbook (trim_events s) = orderbook s" "symbol_config (trim_events s) = symbol_config s"
  "symbol_locked (trim_events s) = symbol_locked s" "current_snapshot (trim_events s) = current_snapshot s"
  "market_data (trim_events s) = market_data s" "submissions (trim_events s) = submissions s"
  "submission_order (trim_events s) = submission_order s"
  "submissions_evicted (trim_events s) = submissions_evicted s"
  "max_events (trim_events s) = max_events s" "max_submissions (trim_events s) = max_submissions s"
  by (simp_all add: trim_events_eq)

lemma trim_submissions_sel [simp]:
  "last_applied_log (trim_submissions s) = last_applied_log s"
  "last_membership (trim_submissions s) = last_membership s"
  "orderbook (trim_submissions s) = orderbook s" "symbol_config (trim_submissions s) = symbol_config s"
  "symbol_locked (trim_submissions s) = symbol_locked s"
  "current_snapshot (trim_submissions s) = current_snapshot s"
  "market_data (trim_submissions s) = market_data s" "sm_events (trim_submissions s) = sm_events s"
  "events_evicted (trim_submissions s) = events_evicted s"
  "max_events (trim_submissions s) = max_events s" "max_submissions (trim_submissions s) = max_submissions s"
  by (induction s rule: trim_submissions.induct)
    (subst trim_submissions.simps, simp split: list.splits option.splits)+

lemma record_events_sel [simp]:
  "last_applied_log (record_events s evs) = last_applied_log s"
  "last_membership (record_events s evs) = last_membership s"
  "orderbook (record_events s evs) = orderbook s" "symbol_config (record_events s evs) = symbol_config s"
  "symbol_locked (record_events s evs) = symbol_locked s"
  "current_snapshot (record_events s evs) = current_snapshot s"
  "market_data (record_events s evs) = market_data s" "submissions (record_events s evs) = submissions s"
  "submission_order (record_events s evs) = submission_order s"
  "submissions_evicted (record_events s evs) = submissions_evicted s"
  "max_events (record_events s evs) = max_events s" "max_submissions (record_events s evs) = max_submissions s"
  by (simp_all add: record_events_def)

lemma record_submission_sel [simp]:
  "last_applied_log (record_submission s c q i f n) = last_applied_log s"
  "last_membership (record_submission s c q i f n) = last_membership s"
  "orderbook (record_submission s c q i f n) = orderbook s"
  "symbol_config (record_submission s c q i f n) = symbol_config s"
  "symbol_locked (record_submission s c q i f n) = symbol_locked s"
  "current_snapshot (record_submission s c q i f n) = current_snapshot s"
  "market_data (record_submission s c q i f n) = market_data s"
  "sm_events (record_submission s c q i f n) = sm_events s"
  "events_evicted (record_submission s c q i f n) = events_evicted s"
  "max_events (record_submission s c q i f n) = max_events s"
  "max_submissions (record_submission s c q i f n) = max_submissions s"
  by (simp_all add: record_submission_def Let_def)

section \<open>Numbering of the events of a request\<close>

lemma expired_fold:
  assumes "numbered i f evs" "f + length evs + length xs < 2 ^ 32"
  shows "numbered i f (foldl (push_expired i f) evs xs)
    \<and> length (foldl (push_expired i f) evs xs) = length evs + length xs"
  using assms
proof (induction xs arbitrary: evs)
  case Nil
  then show ?case by simp
next
  case (Cons x xs)
  have "numbered i f (push_expired i f evs x)"
    unfolding push_expired_def
    by (rule numbered_append[OF Cons.prems(1)], rule numbered_singleton)
      (use Cons.prems(2) in \<open>simp add: ordinal_at_id\<close>)
  moreover have "length (push_expired i f evs x) = Suc (length evs)" by (simp add: push_expired_def)
  ultimately show ?case using Cons.IH[of "push_expired i f evs x"] Cons.prems(2) by simp
qed

definition trigger_size :: "StopExecution \<Rightarrow> nat" where
  "trigger_size t = 1 + length (se_fills t) + (case se_cancelled t of None \<Rightarrow> 0 | Some v \<Rightarrow> 1)"

lemma push_trigger_length: "length (push_trigger i f evs t) = length evs + trigger_size t"
  by (simp add: push_trigger_def for_fills_into_append trigger_size_def Let_def split: option.splits)

lemma push_trigger_numbered:
  assumes n: "numbered i f evs" and b: "f + length (push_trigger i f evs t) < 2 ^ 32"
  shows "numbered i f (push_trigger i f evs t)"
proof -
  let ?a = "evs @ [for_triggered i (ordinal_at f (length evs)) (se_stop t) (se_trigger_price t)]"
  let ?b = "?a @ for_fills i (ordinal_at f (length ?a)) (o_side (se_stop t)) (o_sequence (se_stop t)) (se_fills t)"
  have size: "f + length evs + trigger_size t < 2 ^ 32" using b by (simp add: push_trigger_length)
  have a: "numbered i f ?a"
    by (rule numbered_append[OF n], rule numbered_singleton)
      (use size in \<open>simp add: ordinal_at_id trigger_size_def\<close>)
  have b: "numbered i f ?b"
  proof (rule numbered_append[OF a])
    have "ordinal_at f (length ?a) = f + length ?a"
      using size by (intro ordinal_at_id) (simp add: trigger_size_def)
    then show "numbered i (f + length ?a) (for_fills i (ordinal_at f (length ?a)) (o_side (se_stop t))
        (o_sequence (se_stop t)) (se_fills t))"
      using size by (simp only:) (rule numbered_for_fills, simp add: trigger_size_def)
  qed
  show ?thesis
  proof (cases "se_cancelled t")
    case None
    then show ?thesis using b by (simp add: push_trigger_def for_fills_into_append)
  next
    case (Some v)
    have "numbered i f (?b @ [for_cancelled_volume i (ordinal_at f (length ?b)) (se_stop t) v])"
      by (rule numbered_append[OF b], rule numbered_singleton)
        (use size Some in \<open>simp add: ordinal_at_id trigger_size_def\<close>)
    then show ?thesis using Some by (simp add: push_trigger_def for_fills_into_append)
  qed
qed

lemma trigger_fold_length:
  "length (foldl (push_trigger i f) evs ts) = length evs + (\<Sum>t \<leftarrow> ts. trigger_size t)"
  by (induction ts arbitrary: evs) (simp_all add: push_trigger_length)

lemma trigger_fold:
  assumes "numbered i f evs" "f + length (foldl (push_trigger i f) evs ts) < 2 ^ 32"
  shows "numbered i f (foldl (push_trigger i f) evs ts)"
  using assms
proof (induction ts arbitrary: evs)
  case Nil
  then show ?case by simp
next
  case (Cons t ts)
  have "numbered i f (push_trigger i f evs t)"
    using Cons.prems by (intro push_trigger_numbered) (simp_all add: trigger_fold_length)
  then show ?case using Cons.IH[of "push_trigger i f evs t"] Cons.prems(2) by simp
qed

lemma place_events_numbered:
  assumes "f + length (place_events i f o1 oc) < 2 ^ 32"
  shows "numbered i f (place_events i f o1 oc)"
proof (cases "oc_rejected oc")
  case (Some r)
  then show ?thesis by (simp add: place_events_def numbered_singleton)
next
  case None
  let ?e = "foldl (push_expired i f) [] (oc_expired oc)"
  let ?p = "?e @ for_place_at i (ordinal_at f (length ?e)) o1 (oc_fills oc) (oc_resting oc)"
  let ?c = "case oc_cancelled oc of None \<Rightarrow> ?p
    | Some v \<Rightarrow> ?p @ [for_cancelled_volume i (ordinal_at f (length ?p)) o1 v]"
  have eq: "place_events i f o1 oc = foldl (push_trigger i f) ?c (oc_triggers oc)"
    using None by (simp add: place_events_def for_place_at_into_append Let_def cong: option.case_cong)
  have lc: "f + length ?c < 2 ^ 32" using assms by (simp add: eq trigger_fold_length)
  then have lp: "f + length ?p < 2 ^ 32" by (auto split: option.splits)
  have le: "length (foldl (push_expired i f) evs xs) = length evs + length xs" for evs xs
    by (induction xs arbitrary: evs) (simp_all add: push_expired_def)
  have e: "numbered i f ?e" using expired_fold[of i f "[]" "oc_expired oc"] lp by (simp add: le)
  have p: "numbered i f ?p"
    by (rule numbered_append[OF e]) (use lp in \<open>simp add: ordinal_at_id numbered_for_place_at\<close>)
  have "numbered i f ?c"
  proof (cases "oc_cancelled oc")
    case None
    then show ?thesis using p by simp
  next
    case (Some v)
    then show ?thesis using numbered_append[OF p, of "[for_cancelled_volume i (ordinal_at f (length ?p)) o1 v]"] lp lc
      by (simp add: ordinal_at_id numbered_singleton)
  qed
  then show ?thesis using assms unfolding eq by (rule trigger_fold)
qed

section \<open>The effect of one request\<close>

definition drained :: "('l, 'sm) StateMachineStoreInner \<Rightarrow> ('l, 'sm) StateMachineStoreInner" where
  "drained s = (if market_data s then s\<lparr>orderbook := (orderbook s)\<lparr>depth_journal := []\<rparr>\<rparr> else s)"

lemma drained_sel [simp]:
  "last_applied_log (drained s) = last_applied_log s" "last_membership (drained s) = last_membership s"
  "symbol_config (drained s) = symbol_config s" "symbol_locked (drained s) = symbol_locked s"
  "current_snapshot (drained s) = current_snapshot s" "market_data (drained s) = market_data s"
  "sm_events (drained s) = sm_events s" "events_evicted (drained s) = events_evicted s"
  "submissions (drained s) = submissions s" "submission_order (drained s) = submission_order s"
  "submissions_evicted (drained s) = submissions_evicted s"
  "max_events (drained s) = max_events s" "max_submissions (drained s) = max_submissions s"
  by (simp_all add: drained_def)

lemma take_market_frame_eq:
  "take_market_frame s gate i ms ts sid evs =
    (drained s,
     if market_data s \<and> gate \<and> (evs \<noteq> [] \<or> depth_journal (orderbook s) \<noteq> [])
     then Some \<lparr>tf_log_index = i, tf_market_seq = ms, tf_ts_ms = ts, tf_symbol_id = sid, tf_events = evs,
                tf_depth = depth_journal (orderbook s)\<rparr>
     else None)"
  by (simp add: take_market_frame_def drained_def take_depth_journal_def Let_def)

definition out_events :: "apply_out \<Rightarrow> MatchEvent list" where
  "out_events out = concat (map pp_events (out_publishes out))"

definition out_depth :: "apply_out \<Rightarrow> DepthChange list" where
  "out_depth out = concat (map (\<lambda>pp. case pp_market pp of None \<Rightarrow> [] | Some frame \<Rightarrow> tf_depth frame) (out_publishes out))"

lemma push_publish_depth [simp]:
  "out_depth (push_publish out evs m) = out_depth out @ (case m of None \<Rightarrow> [] | Some frame \<Rightarrow> tf_depth frame)"
  by (simp add: push_publish_def out_depth_def)

text \<open>What one request hands to the sinks: its events, and with the tap open the depth journal of its book.\<close>

definition emits :: "bool \<Rightarrow> ('l, 'sm) StateMachineStoreInner \<Rightarrow> OrderBook \<Rightarrow> MatchEvent list \<Rightarrow> apply_out \<Rightarrow> apply_out \<Rightarrow> bool" where
  "emits gate s b1 evs out out' \<longleftrightarrow> out_events out' = out_events out @ evs
     \<and> (market_data s \<and> gate \<longrightarrow> out_depth out' = out_depth out @ depth_journal b1)"

lemma push_publish_events [simp]: "out_events (push_publish out evs m) = out_events out @ evs"
  by (simp add: push_publish_def out_events_def)

lemma publish_reset_publishes [simp]:
  "out_publishes (publish_market_data_reset raft env s out) = out_publishes out"
  by (simp add: publish_market_data_reset_def split: option.splits)

lemma publish_reset_events [simp]: "out_events (publish_market_data_reset raft env s out) = out_events out"
  by (simp add: publish_market_data_reset_def out_events_def split: option.splits)

fun request_typed :: "MatchEngineRequest \<Rightarrow> bool" where
  "request_typed (Place o1 c) = order_typed o1"
| "request_typed (Cancel o1) = True"
| "request_typed (Amend o1 price volume) =
     ((\<forall>p. price = Some p \<longrightarrow> in_i128 p) \<and> (\<forall>v. volume = Some v \<longrightarrow> in_i128 v))"
| "request_typed (PurgeExpired now day) = True"
| "request_typed (ConfigureSymbol config) = True"
| "request_typed (Batch rs) = (\<forall>r \<in> set rs. request_typed r)"

abbreviation next_book :: "OrderBook \<Rightarrow> OrderBook" where
  "next_book b \<equiv> b\<lparr>ob_sequence := ob_sequence b + 1\<rparr>"

text \<open>
  What a request that takes a market sequence leaves behind, before the journal is drained: the new
  book, the window with the new events and, for a \<open>Place\<close> with a client id, the dedupe record.
\<close>

definition settled_request ::
  "('l, 'sm) StateMachineStoreInner \<Rightarrow> OrderBook \<Rightarrow> MatchEvent list \<Rightarrow> u64 \<Rightarrow> u32
    \<Rightarrow> ('l, 'sm) StateMachineStoreInner \<Rightarrow> bool" where
  "settled_request s b1 evs i f s1 \<longleftrightarrow>
     (\<exists>locked. s1 = record_events (s\<lparr>orderbook := b1, symbol_locked := locked\<rparr>) evs
       \<or> (\<exists>c q. bt_get c (submissions s) = None
            \<and> s1 = record_submission (record_events (s\<lparr>orderbook := b1, symbol_locked := locked\<rparr>) evs)
                c q i f (wrap_u32 (length evs))))"

lemma place_book:
  assumes ex: "(case configured_symbol_for s o1 of
                   Inr config \<Rightarrow> execute_order_with_symbol I (orderbook s) o1 config
                 | Inl reason \<Rightarrow> Inr (reject_order (orderbook s) o1 reason)) = Inr (b1, o2, oc)"
    and inv: "book_inv (orderbook s)" and seq: "ob_sequence (orderbook s) < 2 ^ 64 - 1"
    and I: "i128_typed I" and ty: "order_typed o1"
  shows "keeps (next_book (orderbook s)) b1"
proof (cases "configured_symbol_for s o1")
  case (Inl r)
  with ex have "b1 = next_book (orderbook s)"
    using next_sequence_inv(3)[OF inv seq] by (simp add: reject_order_def next_market_sequence_def)
  then show ?thesis using next_sequence_inv(1)[OF inv seq] by (simp add: keeps_refl)
next
  case (Inr config)
  with ex show ?thesis
    using execute_order_inner_keeps[OF _ inv seq I ty] by (simp add: execute_order_with_symbol_def)
qed

lemma lock_eq: "s\<lparr>orderbook := b1, symbol_locked := symbol_locked s\<rparr> = s\<lparr>orderbook := b1\<rparr>"
  by (cases s) simp

lemma apply_place_effect:
  assumes ap: "apply_place I gate s o1 cid i f out = Inr (s', resp, n, out')"
    and inv: "book_inv (orderbook s)" and seq: "ob_sequence (orderbook s) < 2 ^ 64 - 1"
    and I: "i128_typed I" and ty: "order_typed o1"
  shows "(s' = s \<and> n = 0 \<and> out' = out) \<or>
    (\<exists>b1 evs s1. keeps (next_book (orderbook s)) b1 \<and> (f + n < 2 ^ 32 \<longrightarrow> numbered i f evs) \<and> n = length evs
       \<and> emits gate s b1 evs out out' \<and> settled_request s b1 evs i f s1 \<and> s' = drained s1)"
proof (cases "case cid of None \<Rightarrow> None | Some c \<Rightarrow> bt_get c (submissions s)")
  case (Some sub)
  with ap show ?thesis by (simp add: apply_place_def)
next
  case None
  let ?ex = "case configured_symbol_for s o1 of
       Inr config \<Rightarrow> execute_order_with_symbol I (orderbook s) o1 config
     | Inl reason \<Rightarrow> Inr (reject_order (orderbook s) o1 reason)"
  obtain b1 o2 oc where ex: "?ex = Inr (b1, o2, oc)"
    using ap None by (cases ?ex) (auto simp: apply_place_def)
  let ?evs = "place_events i f o2 oc"
  define locked where "locked = (symbol_locked s \<or> oc_rejected oc = None)"
  let ?r = "record_events (s\<lparr>orderbook := b1, symbol_locked := locked\<rparr>) ?evs"
  define s1 where "s1 = (case cid of None \<Rightarrow> ?r
    | Some c \<Rightarrow> record_submission ?r c (o_sequence o2) i f (wrap_u32 (length ?evs)))"
  have lock: "(if oc_rejected oc = None then s\<lparr>orderbook := b1, symbol_locked := True\<rparr> else s\<lparr>orderbook := b1\<rparr>)
      = s\<lparr>orderbook := b1, symbol_locked := locked\<rparr>"
    by (cases "oc_rejected oc") (simp_all add: locked_def lock_eq)
  have eq: "s' = drained s1" "n = length ?evs" "emits gate s b1 ?evs out out'"
    using ap unfolding apply_place_def None ex emits_def
    by (auto simp: Let_def take_market_frame_eq s1_def lock split: option.splits)
  have "settled_request s b1 ?evs i f s1"
    using None unfolding settled_request_def s1_def by (auto split: option.splits)
  then show ?thesis
    using eq place_book[OF ex inv seq I ty] place_events_numbered[of f i o2 oc] by blast
qed

lemma begin_mutation_eq:
  assumes inv: "book_inv b" and seq: "ob_sequence b < 2 ^ 64 - 1"
  shows "begin_mutation b order i f =
    (ob_sequence b, fst (purged (next_book b) order),
     foldl (push_expired i f) [] (snd (purged (next_book b) order)))"
  using next_sequence_inv(3)[OF inv seq]
  by (simp add: begin_mutation_def purged_def next_market_sequence_def split_beta Let_def)

lemma settled_request_plain: "settled_request s b1 evs i f (record_events (s\<lparr>orderbook := b1\<rparr>) evs)"
  unfolding settled_request_def by (rule exI[of _ "symbol_locked s"]) (simp add: lock_eq)

lemma finish_mutation_effect:
  assumes fin: "finish_mutation gate (s\<lparr>orderbook := b1\<rparr>) i ms ts sid evs out = (s', resp, n, out')"
  shows "n = length evs \<and> emits gate s b1 evs out out'
    \<and> (\<exists>s1. settled_request s b1 evs i f s1 \<and> s' = drained s1)"
proof -
  show ?thesis
    using fin settled_request_plain[of s b1 evs i f] unfolding finish_mutation_def emits_def
    by (auto simp: Let_def take_market_frame_eq)
qed

lemma expired_then:
  assumes "numbered i f evs" "f + length evs < 2 ^ 32" "me_event_id e = EventId i (ordinal_at f (length evs))"
  shows "numbered i f (evs @ [e])"
  by (rule numbered_append[OF assms(1)], rule numbered_singleton) (use assms(2,3) in \<open>simp add: ordinal_at_id\<close>)

lemma expired_length: "length (foldl (push_expired i f) evs xs) = length evs + length xs"
  by (induction xs arbitrary: evs) (simp_all add: push_expired_def)

lemma expired_numbered:
  "f + length xs < 2 ^ 32 \<Longrightarrow> numbered i f (foldl (push_expired i f) [] xs)"
  using expired_fold[of i f "[]" xs] by simp

lemma apply_cancel_effect:
  assumes ap: "apply_cancel gate s o1 i f out = (s', resp, n, out')"
    and inv: "book_inv (orderbook s)" and seq: "ob_sequence (orderbook s) < 2 ^ 64 - 1"
  shows "\<exists>b1 evs s1. keeps (next_book (orderbook s)) b1 \<and> (f + n < 2 ^ 32 \<longrightarrow> numbered i f evs) \<and> n = length evs
       \<and> emits gate s b1 evs out out' \<and> settled_request s b1 evs i f s1 \<and> s' = drained s1"
proof -
  let ?b = "fst (purged (next_book (orderbook s)) o1)"
  let ?x = "foldl (push_expired i f) [] (snd (purged (next_book (orderbook s)) o1))"
  have k: "keeps (next_book (orderbook s)) ?b" by (rule purged_keeps[OF next_sequence_inv(1)[OF inv seq]])
  then have kc: "keeps (next_book (orderbook s)) (fst (cancel ?b o1))"
    using cancel_keeps[of ?b o1] by (rule_tac keeps_trans[OF k]) (simp add: keeps_def)
  define b1 where "b1 = (case configured_symbol_for s o1 of Inr _ \<Rightarrow> fst (cancel ?b o1) | Inl _ \<Rightarrow> ?b)"
  define evs where "evs = ?x @ (case configured_symbol_for s o1 of
      Inr _ \<Rightarrow> (case snd (cancel ?b o1) of
         Some c \<Rightarrow> [for_cancel_at i (ordinal_at f (length ?x)) c] | None \<Rightarrow> [])
    | Inl _ \<Rightarrow> [for_rejected i (ordinal_at f (length ?x)) o1 UnsupportedOrder])"
  have fin: "finish_mutation gate (s\<lparr>orderbook := b1\<rparr>) i (ob_sequence (orderbook s)) (o_timestamp o1)
      (o_symbol_id o1) evs out = (s', resp, n, out')"
    using ap unfolding apply_cancel_def begin_mutation_eq[OF inv seq] b1_def evs_def
    by (auto simp: Let_def split: sum.splits prod.splits option.splits)
  have n: "n = length evs" "emits gate s b1 evs out out'"
    "\<exists>s1. settled_request s b1 evs i f s1 \<and> s' = drained s1"
    using finish_mutation_effect[OF fin] by blast+
  have "numbered i f evs" if fit: "f + n < 2 ^ 32"
  proof -
    have "f + length ?x \<le> f + length evs" by (simp add: evs_def)
    then have b: "f + length ?x < 2 ^ 32" using fit n(1) by simp
    then have "numbered i f ?x" by (intro expired_numbered) (simp add: expired_length)
    then show ?thesis
      using b unfolding evs_def by (auto split: sum.splits option.splits intro!: expired_then)
  qed
  moreover have "keeps (next_book (orderbook s)) b1"
    using k kc by (simp add: b1_def split: sum.splits)
  ultimately show ?thesis using n by blast
qed

lemma keeps_fresh:
  assumes inv: "book_inv b" and seq: "ob_sequence b < 2 ^ 64 - 1"
  shows "ob_sequence b \<notin> o_sequence ` book_orders (fst (purged (next_book b) o1))"
    "ob_sequence b < ob_sequence (fst (purged (next_book b) o1))"
proof -
  note nx = next_sequence_inv[OF inv seq]
  have core: "book_core (next_book b)" using nx(1) by (simp add: book_inv_def)
  show "ob_sequence b \<notin> o_sequence ` book_orders (fst (purged (next_book b) o1))"
    using purged_core(6)[OF core, of o1] nx(2) by auto
  show "ob_sequence b < ob_sequence (fst (purged (next_book b) o1))"
    using purged_core(2)[OF core, of o1] by simp
qed

lemma apply_amend_effect:
  assumes ap: "apply_amend gate s o1 price volume i f out = (s', resp, n, out')"
    and inv: "book_inv (orderbook s)" and seq: "ob_sequence (orderbook s) < 2 ^ 64 - 1"
    and ty: "request_typed (Amend o1 price volume)"
  shows "\<exists>b1 evs s1. keeps (next_book (orderbook s)) b1 \<and> (f + n < 2 ^ 32 \<longrightarrow> numbered i f evs) \<and> n = length evs
       \<and> emits gate s b1 evs out out' \<and> settled_request s b1 evs i f s1 \<and> s' = drained s1"
proof -
  let ?b = "fst (purged (next_book (orderbook s)) o1)" and ?ms = "ob_sequence (orderbook s)"
  let ?x = "foldl (push_expired i f) [] (snd (purged (next_book (orderbook s)) o1))"
  have k: "keeps (next_book (orderbook s)) ?b" by (rule purged_keeps[OF next_sequence_inv(1)[OF inv seq]])
  obtain b2 r where am: "amend_with_sequence ?b o1 price volume ?ms = (b2, r)" by fastforce
  have "keeps ?b b2"
    by (rule amend_keeps[OF _ keeps_fresh[OF inv seq] _ _ am])
      (use k ty in \<open>auto simp: keeps_def in_i128_def\<close>)
  then have ka: "keeps (next_book (orderbook s)) b2" by (rule keeps_trans[OF k])
  define b1 where "b1 = (case validate_amend_values s o1 price volume of Inr _ \<Rightarrow> b2 | Inl _ \<Rightarrow> ?b)"
  define evs where "evs = ?x @ [case validate_amend_values s o1 price volume of
      Inr _ \<Rightarrow> (case r of
         Inr a \<Rightarrow> for_amended i (ordinal_at f (length ?x)) a
       | Inl e \<Rightarrow> for_rejected i (ordinal_at f (length ?x)) o1 (amend_reason e))
    | Inl reason \<Rightarrow> for_rejected i (ordinal_at f (length ?x)) o1 reason]"
  have fin: "finish_mutation gate (s\<lparr>orderbook := b1\<rparr>) i ?ms (o_timestamp o1)
      (o_symbol_id o1) evs out = (s', resp, n, out')"
    using ap am unfolding apply_amend_def begin_mutation_eq[OF inv seq] b1_def evs_def
    by (auto simp: Let_def split: sum.splits)
  have n: "n = length evs" "emits gate s b1 evs out out'"
    "\<exists>s1. settled_request s b1 evs i f s1 \<and> s' = drained s1"
    using finish_mutation_effect[OF fin] by blast+
  have "numbered i f evs" if fit: "f + n < 2 ^ 32"
  proof -
    have "f + length ?x \<le> f + length evs" by (simp add: evs_def)
    then have b: "f + length ?x < 2 ^ 32" using fit n(1) by simp
    then have "numbered i f ?x" by (intro expired_numbered) (simp add: expired_length)
    then show ?thesis
      using b unfolding evs_def by (intro expired_then) (auto split: sum.splits)
  qed
  moreover have "keeps (next_book (orderbook s)) b1"
    using k ka by (simp add: b1_def split: sum.splits)
  ultimately show ?thesis using n by blast
qed

lemma enumerate_expired:
  "foldl (push_expired i f) evs ys =
    evs @ map (\<lambda>(ordinal, order). for_expired i (ordinal_at f ordinal) order) (enumerate (length evs) ys)"
  by (induction ys arbitrary: evs) (simp_all add: push_expired_def)

lemma apply_purge_effect:
  assumes ap: "apply_purge gate s now day i f out = (s', resp, n, out')"
    and inv: "book_inv (orderbook s)" and seq: "ob_sequence (orderbook s) < 2 ^ 64 - 1"
  shows "\<exists>b1 evs s1. keeps (next_book (orderbook s)) b1 \<and> (f + n < 2 ^ 32 \<longrightarrow> numbered i f evs) \<and> n = length evs
       \<and> emits gate s b1 evs out out' \<and> settled_request s b1 evs i f s1 \<and> s' = drained s1"
proof -
  let ?p = "purge_expired (next_book (orderbook s)) now day"
  let ?x = "foldl (push_expired i f) [] (snd ?p)"
  have fin: "finish_mutation gate (s\<lparr>orderbook := fst ?p\<rparr>) i (ob_sequence (orderbook s)) now
      (cfg_symbol_id (symbol_config s)) ?x out = (s', resp, n, out')"
    using ap next_sequence_inv(3)[OF inv seq] unfolding apply_purge_def
    by (simp add: next_market_sequence_def Let_def split_beta enumerate_expired)
  have n: "n = length ?x" "emits gate s (fst ?p) ?x out out'"
    "\<exists>s1. settled_request s (fst ?p) ?x i f s1 \<and> s' = drained s1"
    using finish_mutation_effect[OF fin] by blast+
  have "numbered i f ?x" if "f + n < 2 ^ 32"
    using that n(1) by (intro expired_numbered) (simp add: expired_length)
  then show ?thesis using n purge_keeps[OF next_sequence_inv(1)[OF inv seq]] by blast
qed

section \<open>The invariant\<close>

definition retain :: "nat \<Rightarrow> 'a list \<Rightarrow> 'a list" where
  "retain n xs = drop (length xs - n) xs"

lemma retain_id: "length xs \<le> n \<Longrightarrow> retain n xs = xs"
  by (simp add: retain_def)

lemma length_retain: "length (retain n xs) = min n (length xs)"
  by (simp add: retain_def)

lemma retain_append: "retain n (retain n xs @ ys) = retain n (xs @ ys)"
proof (cases "length xs \<le> n")
  case True
  then show ?thesis by (simp add: retain_def)
next
  case False
  then have "length xs - n + length ys = length xs + length ys - n" by simp
  with False show ?thesis by (simp add: retain_def drop_drop add.commute)
qed

lemma set_retain: "set (retain n xs) \<subseteq> set xs"
  by (auto simp: retain_def dest: in_set_dropD)

lemma sorted_retain: "sorted_wrt P (map f xs) \<Longrightarrow> sorted_wrt P (map f (retain n xs))"
  by (simp add: retain_def drop_map[symmetric] sorted_wrt_drop)

lemma record_events_window:
  "sm_events (record_events s evs) = retain (max_events s) (sm_events s @ evs)"
  by (simp add: record_events_def trim_events_eq retain_def)

definition machine_inv :: "('l, 'sm) StateMachineStoreInner \<Rightarrow> bool" where
  "machine_inv s \<longleftrightarrow> book_inv (orderbook s)
     \<and> sorted_wrt (<) (map me_event_id (sm_events s)) \<and> length (sm_events s) \<le> max_events s
     \<and> table_ok (submissions s) (submission_order s)
     \<and> length (submission_order s) \<le> max_submissions s
     \<and> SymbolConfig_validate (symbol_config s) = Inr (symbol_config s)
     \<and> (market_data s \<longrightarrow> record_depth (orderbook s) \<and> depth_journal (orderbook s) = [])"

definition below :: "EventId \<Rightarrow> ('l, 'sm) StateMachineStoreInner \<Rightarrow> bool" where
  "below p s \<longleftrightarrow> (\<forall>e \<in> set (sm_events s). me_event_id e < p)"

lemma below_mono: "below p s \<Longrightarrow> p \<le> q \<Longrightarrow> below q s"
  by (auto simp: below_def intro: less_le_trans)

lemma journal_inv [simp]: "book_inv (b\<lparr>depth_journal := j\<rparr>) = book_inv b"
  using core_cong[of "b\<lparr>depth_journal := j\<rparr>" b] by (simp add: book_inv_def settled_def)

lemma settled_request_window:
  assumes "settled_request s b1 evs i f s1"
  shows "sm_events s1 = retain (max_events s) (sm_events s @ evs)" "orderbook s1 = b1"
    "max_events s1 = max_events s" "max_submissions s1 = max_submissions s" "market_data s1 = market_data s"
    "symbol_config s1 = symbol_config s" "last_applied_log s1 = last_applied_log s"
    "last_membership s1 = last_membership s"
  using assms by (auto simp: settled_request_def record_events_window)

lemma settled_request_table:
  assumes sr: "settled_request s b1 evs i f s1" and t: "table_ok (submissions s) (submission_order s)"
    and l: "length (submission_order s) \<le> max_submissions s"
  shows "table_ok (submissions s1) (submission_order s1) \<and> length (submission_order s1) \<le> max_submissions s"
proof -
  from sr obtain locked where "s1 = record_events (s\<lparr>orderbook := b1, symbol_locked := locked\<rparr>) evs
       \<or> (\<exists>c q. bt_get c (submissions s) = None
            \<and> s1 = record_submission (record_events (s\<lparr>orderbook := b1, symbol_locked := locked\<rparr>) evs)
                c q i f (wrap_u32 (length evs)))" (is "s1 = ?r \<or> _")
    unfolding settled_request_def by blast
  then show ?thesis
  proof (elim disjE exE conjE)
    assume "s1 = ?r"
    then show ?thesis using t l by simp
  next
    fix c q assume c: "bt_get c (submissions s) = None" and s1: "s1 = record_submission ?r c q i f (wrap_u32 (length evs))"
    let ?sub = "\<lparr>sub_client_order_id = c, sub_order_sequence = q, sub_log_index = i,
      sub_event_count = wrap_u32 (length evs), sub_first_ordinal = Some f\<rparr>"
    let ?s = "?r\<lparr>submissions := bt_insert c ?sub (submissions ?r), submission_order := submission_order ?r @ [?sub]\<rparr>"
    have "table_ok (submissions ?s) (submission_order ?s)" using table_ok_snoc[OF t, of ?sub] c by simp
    from trim_submissions_table[OF this] s1 show ?thesis
      by (auto simp: record_submission_def Let_def)
  qed
qed

lemma settled_request_inv:
  assumes inv: "machine_inv s" and bl: "below (EventId i f) s"
    and k: "keeps (next_book (orderbook s)) b1" and n: "numbered i f evs"
    and sr: "settled_request s b1 evs i f s1"
  shows "machine_inv (drained s1)" "below (EventId i (f + length evs)) (drained s1)"
proof -
  note w = settled_request_window[OF sr]
  have b1: "book_inv b1" "record_depth b1 = record_depth (orderbook s)" using k by (simp_all add: keeps_def)
  have ids: "\<exists>m. f \<le> m \<and> m < f + length evs \<and> me_event_id e = EventId i m" if "e \<in> set evs" for e
    using numbered_ids[OF n that] .
  have "sorted_wrt (<) (map me_event_id (sm_events s @ evs))"
    using inv bl numbered_sorted[OF n] ids
    by (fastforce simp: machine_inv_def below_def sorted_wrt_append less_EventId_def)
  then have "sorted_wrt (<) (map me_event_id (sm_events s1))" unfolding w(1) by (rule sorted_retain)
  moreover have "length (sm_events s1) \<le> max_events s1" by (simp add: w length_retain)
  ultimately show "machine_inv (drained s1)"
    using inv b1 w settled_request_table[OF sr] by (auto simp: machine_inv_def drained_def)
  have "me_event_id e < EventId i (f + length evs)" if "e \<in> set (sm_events s @ evs)" for e
    using that bl ids[of e] by (fastforce simp: below_def less_EventId_def)
  then show "below (EventId i (f + length evs)) (drained s1)"
    using set_retain[of "max_events s" "sm_events s @ evs"] by (auto simp: below_def w)
qed

lemma configure_symbol_core:
  assumes inv: "book_inv (orderbook s)" and c: "configure_symbol s config = Inr s'"
  shows "book_inv (orderbook s')" "s' = s\<lparr>symbol_config := config, orderbook := (orderbook s)\<lparr>last_trade_price := None\<rparr>\<rparr>"
    "SymbolConfig_validate config = Inr config"
    "submissions s' = submissions s" "submission_order s' = submission_order s" "max_submissions s' = max_submissions s"
    "ob_sequence (orderbook s') = ob_sequence (orderbook s)"
    "stops (orderbook s') = []" "bids (orderbook s') = []" "asks (orderbook s') = []"
proof -
  from c obtain cfg where v: "SymbolConfig_validate config = Inr cfg" and e: "stops (orderbook s) = []"
      "bids (orderbook s) = []" "asks (orderbook s) = []"
    and s': "s' = s\<lparr>symbol_config := cfg, orderbook := (orderbook s)\<lparr>last_trade_price := None\<rparr>\<rparr>"
    by (auto simp: configure_symbol_def split: sum.splits if_splits)
  have cfg: "cfg = config" using v by (auto simp: SymbolConfig_validate_def split: if_splits)
  have "book_core ((orderbook s)\<lparr>last_trade_price := None\<rparr>) = book_core (orderbook s)" by (rule core_cong) simp_all
  then show "book_inv (orderbook s')" using inv e by (simp add: s' book_inv_def settled_def)
  show "s' = s\<lparr>symbol_config := config, orderbook := (orderbook s)\<lparr>last_trade_price := None\<rparr>\<rparr>"
    "SymbolConfig_validate config = Inr config" using s' v cfg by simp_all
  show "submissions s' = submissions s" "submission_order s' = submission_order s" "max_submissions s' = max_submissions s"
    "ob_sequence (orderbook s') = ob_sequence (orderbook s)"
    "stops (orderbook s') = []" "bids (orderbook s') = []" "asks (orderbook s') = []"
    using e by (simp_all add: s')
qed

lemma configure_symbol_inv:
  assumes inv: "machine_inv s" and c: "configure_symbol s config = Inr s'"
  shows "machine_inv s'" "sm_events s' = sm_events s" "ob_sequence (orderbook s') = ob_sequence (orderbook s)"
    "max_events s' = max_events s" "max_submissions s' = max_submissions s" "market_data s' = market_data s"
    "last_applied_log s' = last_applied_log s"
proof -
  have b: "book_inv (orderbook s)" using inv by (simp add: machine_inv_def)
  note k = configure_symbol_core[OF b c]
  show "machine_inv s'" using inv k(1,3) unfolding k(2) by (simp add: machine_inv_def)
  show "sm_events s' = sm_events s" "ob_sequence (orderbook s') = ob_sequence (orderbook s)"
    "max_events s' = max_events s" "max_submissions s' = max_submissions s" "market_data s' = market_data s"
    "last_applied_log s' = last_applied_log s"
    by (simp_all add: k(2))
qed

section \<open>Preservation along the log\<close>

text \<open>
  One request at position \<open>(i, f)\<close>: the invariant, the position reached, the events appended and the
  number of market sequences taken (none or one).
\<close>

definition progressed ::
  "('l, 'sm) StateMachineStoreInner \<Rightarrow> ('l, 'sm) StateMachineStoreInner \<Rightarrow> u64 \<Rightarrow> u32 \<Rightarrow> MatchEvent list
    \<Rightarrow> nat \<Rightarrow> bool" where
  "progressed s s' i f evs n \<longleftrightarrow> machine_inv s' \<and> below (EventId i (f + length evs)) s'
     \<and> numbered i f evs \<and> sm_events s' = retain (max_events s) (sm_events s @ evs)
     \<and> max_events s' = max_events s \<and> max_submissions s' = max_submissions s \<and> market_data s' = market_data s
     \<and> last_applied_log s' = last_applied_log s
     \<and> ob_sequence (orderbook s) \<le> ob_sequence (orderbook s')
     \<and> ob_sequence (orderbook s') \<le> ob_sequence (orderbook s) + n"

lemma progressed_refl:
  assumes "machine_inv s" "below (EventId i f) s"
  shows "progressed s s i f [] n"
  using assms by (simp add: progressed_def machine_inv_def retain_id)

lemma progressed_trans:
  assumes "progressed s t i f evs m" "progressed t u i (f + length evs) evs' n"
  shows "progressed s u i f (evs @ evs') (m + n)"
  using assms numbered_append[of i f evs evs']
  by (simp add: progressed_def retain_append add.assoc)

lemma effect_progressed:
  assumes inv: "machine_inv s" and bl: "below (EventId i f) s" and fit: "f + n < 2 ^ 32"
    and eff: "\<exists>b1 evs s1. keeps (next_book (orderbook s)) b1 \<and> (f + n < 2 ^ 32 \<longrightarrow> numbered i f evs) \<and> n = length evs
       \<and> emits gate s b1 evs out out' \<and> settled_request s b1 evs i f s1 \<and> s' = drained s1"
  shows "\<exists>evs. n = length evs \<and> out_events out' = out_events out @ evs \<and> progressed s s' i f evs 1"
proof -
  from eff fit obtain b1 evs s1 where k: "keeps (next_book (orderbook s)) b1" and n: "numbered i f evs"
      "n = length evs" "out_events out' = out_events out @ evs"
    and sr: "settled_request s b1 evs i f s1" and s': "s' = drained s1" by (auto simp: emits_def)
  have "ob_sequence (orderbook s') = ob_sequence (orderbook s) + 1"
    using k settled_request_window(2)[OF sr] by (simp add: s' drained_def keeps_def)
  then have "progressed s s' i f evs 1"
    using settled_request_inv[OF inv bl k n(1) sr] settled_request_window[OF sr] n(1)
    by (simp add: progressed_def s')
  then show ?thesis using n by blast
qed

definition core_inv :: "('l, 'sm) StateMachineStoreInner \<Rightarrow> bool" where
  "core_inv s \<longleftrightarrow> book_inv (orderbook s) \<and> table_ok (submissions s) (submission_order s)
     \<and> length (submission_order s) \<le> max_submissions s"

lemma machine_core: "machine_inv s \<Longrightarrow> core_inv s"
  by (simp add: machine_inv_def core_inv_def)

text \<open>
  The effect of a request, by cases: nothing changed, the symbol was configured, or a market
  sequence was taken.
\<close>

lemma apply_one_cases [consumes 5, case_names quiet configured mutated]:
  assumes ap: "apply_one I raft env pos s r i f out = Inr (s', resp, n, out')"
    and binv: "book_inv (orderbook s)" and seq: "ob_sequence (orderbook s) < 2 ^ 64 - 1"
    and I: "i128_typed I" and ty: "request_typed r"
  obtains (quiet) "s' = s" "n = 0" "out_publishes out' = out_publishes out"
  | (configured) config where "configure_symbol s config = Inr s'" "n = 0" "out_publishes out' = out_publishes out"
  | (mutated) "\<exists>b1 evs s1. keeps (next_book (orderbook s)) b1 \<and> (f + n < 2 ^ 32 \<longrightarrow> numbered i f evs)
      \<and> n = length evs \<and> emits (env_gate env pos) s b1 evs out out' \<and> settled_request s b1 evs i f s1
      \<and> s' = drained s1"
proof (cases r)
  case (Place o1 cid)
  with ap ty have "apply_place I (env_gate env pos) s o1 cid i f out = Inr (s', resp, n, out')" "order_typed o1"
    by simp_all
  from apply_place_effect[OF this(1) binv seq I this(2)] show ?thesis
    using quiet mutated by blast
next
  case (Cancel o1)
  with ap have "apply_cancel (env_gate env pos) s o1 i f out = (s', resp, n, out')" by simp
  from apply_cancel_effect[OF this binv seq] show ?thesis by (rule mutated)
next
  case (Amend o1 price volume)
  with ap have "apply_amend (env_gate env pos) s o1 price volume i f out = (s', resp, n, out')" by simp
  from apply_amend_effect[OF this binv seq ty[unfolded Amend]] show ?thesis by (rule mutated)
next
  case (PurgeExpired now day)
  with ap have "apply_purge (env_gate env pos) s now day i f out = (s', resp, n, out')" by simp
  from apply_purge_effect[OF this binv seq] show ?thesis by (rule mutated)
next
  case (ConfigureSymbol config)
  show ?thesis
  proof (cases "configure_symbol s config")
    case (Inl e)
    then show ?thesis
      using ap ConfigureSymbol by (intro quiet) (auto simp: apply_configure_def configure_symbol_locked_def)
  next
    case (Inr t)
    then show ?thesis
      using ap ConfigureSymbol by (intro configured[of config]) (auto simp: apply_configure_def configure_symbol_locked_def)
  qed
next
  case (Batch rs)
  then show ?thesis using ap by (intro quiet) simp_all
qed

lemma apply_one_core:
  assumes "apply_one I raft env pos s r i f out = Inr (s', resp, n, out')"
    and inv: "core_inv s" and seq: "ob_sequence (orderbook s) < 2 ^ 64 - 1"
    and "i128_typed I" "request_typed r"
  shows "core_inv s' \<and> ob_sequence (orderbook s') \<le> ob_sequence (orderbook s) + 1"
  using assms(1) inv[unfolded core_inv_def, THEN conjunct1] seq assms(4,5)
proof (cases rule: apply_one_cases)
  case quiet
  then show ?thesis using inv by simp
next
  case (configured config)
  then show ?thesis using inv configure_symbol_core[OF _ configured(1)] by (simp add: core_inv_def)
next
  case mutated
  then obtain b1 evs s1 where k: "keeps (next_book (orderbook s)) b1" and sr: "settled_request s b1 evs i f s1"
    and s': "s' = drained s1" by blast
  from k settled_request_window(2,4)[OF sr] settled_request_table[OF sr] inv show ?thesis
    by (simp add: core_inv_def s' drained_def keeps_def)
qed

lemma apply_one_progressed:
  assumes ap: "apply_one I raft env pos s r i f out = Inr (s', resp, n, out')"
    and inv: "machine_inv s" and bl: "below (EventId i f) s"
    and seq: "ob_sequence (orderbook s) < 2 ^ 64 - 1" and I: "i128_typed I" and ty: "request_typed r"
    and fit: "f + n < 2 ^ 32"
  shows "\<exists>evs. n = length evs \<and> out_events out' = out_events out @ evs \<and> progressed s s' i f evs 1"
  using ap inv[unfolded machine_inv_def, THEN conjunct1] seq I ty
proof (cases rule: apply_one_cases)
  case quiet
  then show ?thesis using progressed_refl[OF inv bl] by (simp add: out_events_def)
next
  case (configured config)
  then show ?thesis
    using configure_symbol_inv[OF inv configured(1)] bl inv
    by (auto simp: progressed_def below_def retain_id machine_inv_def out_events_def)
next
  case mutated
  then show ?thesis by (rule effect_progressed[OF inv bl fit])
qed

lemma out_events_mono:
  assumes "apply_one I raft env pos s r i f out = Inr (s', resp, n, out')"
  shows "\<exists>evs. n = length evs \<and> out_events out' = out_events out @ evs"
  using assms
  by (cases r) (auto simp: apply_place_def apply_cancel_def apply_amend_def apply_purge_def finish_mutation_def
      take_market_frame_eq apply_configure_def configure_symbol_locked_def Let_def split_beta
      split: option.splits sum.splits prod.splits)

lemma batch_events_mono:
  assumes "apply_batch I raft env pos s rs i f resps out = Inr (s', resps', out')"
  shows "\<exists>evs. out_events out' = out_events out @ evs"
  using assms
proof (induction rs arbitrary: pos s f resps out)
  case Nil
  then show ?case by simp
next
  case (Cons r rs)
  then obtain t resp n out1 where one: "apply_one I raft env pos s r i f out = Inr (t, resp, n, out1)"
    and rest: "apply_batch I raft env (Suc pos) t rs i (sat_add_u32 f (wrap_u32 n)) (resps @ [resp]) out1
      = Inr (s', resps', out')"
    by (auto split: sum.splits)
  from Cons.IH[OF rest] out_events_mono[OF one] show ?case by auto
qed

lemma apply_batch_progressed:
  assumes "apply_batch I raft env pos s rs i f resps out = Inr (s', resps', out')"
    and "machine_inv s" "below (EventId i f) s" "i128_typed I" "\<forall>r \<in> set rs. request_typed r"
    and "ob_sequence (orderbook s) + length rs \<le> 2 ^ 64 - 1"
    and "out_events out' = out_events out @ evs" "f + length evs < 2 ^ 32"
  shows "progressed s s' i f evs (length rs)"
  using assms
proof (induction rs arbitrary: pos s f resps out evs)
  case Nil
  then show ?case using progressed_refl[of s i f 0] by simp
next
  case (Cons r rs)
  obtain t resp n out1 where one: "apply_one I raft env pos s r i f out = Inr (t, resp, n, out1)"
    and rest: "apply_batch I raft env (Suc pos) t rs i (sat_add_u32 f (wrap_u32 n)) (resps @ [resp]) out1
      = Inr (s', resps', out')"
    using Cons.prems(1) by (auto split: sum.splits)
  obtain e1 where e1: "n = length e1" "out_events out1 = out_events out @ e1" using out_events_mono[OF one] by blast
  obtain e2 where e2: "out_events out' = out_events out1 @ e2" using batch_events_mono[OF rest] by blast
  have evs: "evs = e1 @ e2" using Cons.prems(7) e1(2) e2 by simp
  then have fit: "f + n < 2 ^ 32" using Cons.prems(8) e1(1) by simp
  have seq: "ob_sequence (orderbook s) < 2 ^ 64 - 1" using Cons.prems(6) by simp
  obtain e where "n = length e" "out_events out1 = out_events out @ e" "progressed s t i f e 1"
    using apply_one_progressed[OF one Cons.prems(2,3) seq Cons.prems(4) _ fit] Cons.prems(5) by auto
  with e1 have p: "progressed s t i f e1 1" by simp
  have f': "sat_add_u32 f (wrap_u32 n) = f + length e1"
    using fit e1(1) by (simp add: sat_add_u32_def wrap_u32_id sat_u32_id)
  have "progressed t s' i (f + length e1) e2 (length rs)"
  proof (rule Cons.IH[OF rest[unfolded f']])
    show "ob_sequence (orderbook t) + length rs \<le> 2 ^ 64 - 1" using p Cons.prems(6) by (simp add: progressed_def)
    show "f + length e1 + length e2 < 2 ^ 32" using Cons.prems(8) evs by simp
  qed (use p e2 Cons.prems(4,5) in \<open>simp_all add: progressed_def\<close>)
  from progressed_trans[OF p this] show ?case by (simp add: evs)
qed

fun payload_requests :: "'m EntryPayload \<Rightarrow> MatchEngineRequest list" where
  "payload_requests (Normal (Batch rs)) = rs"
| "payload_requests (Normal r) = [r]"
| "payload_requests _ = []"

lemma apply_entry_single:
  assumes "en_payload e = Normal r" "\<nexists>rs. r = Batch rs"
  shows "apply_entry I raft env s e =
    (case apply_one I raft env 0 (s\<lparr>last_applied_log := Some (en_log_id e)\<rparr>) r (rf_index raft (en_log_id e)) 0
            \<lparr>out_publishes = [], out_resets = []\<rparr> of
       Inl p \<Rightarrow> Inl p | Inr (s, response, _, out) \<Rightarrow> Inr (s, response, out))"
  using assms by (cases r) (simp_all add: apply_entry_def)

lemma apply_entry_progressed:
  assumes ap: "apply_entry I raft env s e = Inr (s', resp, out)"
    and inv: "machine_inv s" and bl: "below (EventId (rf_index raft (en_log_id e)) 0) s"
    and I: "i128_typed I" and ty: "\<forall>r \<in> set (payload_requests (en_payload e)). request_typed r"
    and seq: "ob_sequence (orderbook s) + length (payload_requests (en_payload e)) \<le> 2 ^ 64 - 1"
    and fit: "length (out_events out) < 2 ^ 32"
  shows "progressed (s\<lparr>last_applied_log := Some (en_log_id e)\<rparr>) s' (rf_index raft (en_log_id e)) 0 (out_events out)
    (length (payload_requests (en_payload e)))"
proof -
  let ?s = "s\<lparr>last_applied_log := Some (en_log_id e)\<rparr>" and ?i = "rf_index raft (en_log_id e)"
  let ?o = "\<lparr>out_publishes = [], out_resets = []\<rparr>"
  have s: "machine_inv ?s" "below (EventId ?i 0) ?s" using inv bl by (simp_all add: machine_inv_def below_def)
  have o1: "out_events ?o = []" by (simp add: out_events_def)
  show ?thesis
  proof (cases "en_payload e")
    case Blank
    with ap have "s' = ?s" "out_events out = []" by (auto simp: apply_entry_def out_events_def)
    then show ?thesis using Blank progressed_refl[OF s] by simp
  next
    case (Membership mem)
    with ap have s': "s' = ?s\<lparr>last_membership := rf_stored_membership raft (Some (en_log_id e)) mem\<rparr>"
      and o2: "out_events out = []" by (auto simp: apply_entry_def out_events_def)
    have "progressed ?s s' ?i 0 [] 0" using progressed_refl[OF s, of 0] by (simp add: s' progressed_def machine_inv_def below_def)
    then show ?thesis using Membership o2 by simp
  next
    case (Normal r)
    show ?thesis
    proof (cases "\<exists>rs. r = Batch rs")
      case True
      then obtain rs where r: "r = Batch rs" by blast
      obtain resps where "apply_batch I raft env 0 ?s rs ?i 0 [] ?o = Inr (s', resps, out)"
        using ap Normal r by (auto simp: apply_entry_def split: sum.splits)
      from apply_batch_progressed[OF this s I] show ?thesis
        using Normal r ty seq fit o1 by simp
    next
      case False
      then have pr: "payload_requests (en_payload e) = [r]" using Normal by (cases r) auto
      obtain n where one: "apply_one I raft env 0 ?s r ?i 0 ?o = Inr (s', resp, n, out)"
        using ap by (auto simp: apply_entry_single[OF Normal False] split: sum.splits prod.splits)
      have n: "n = length (out_events out)" using out_events_mono[OF one] o1 by simp
      obtain evs where "n = length evs" "out_events out = [] @ evs" "progressed ?s s' ?i 0 evs 1"
        using apply_one_progressed[OF one s _ I] ty seq fit n o1 unfolding pr by auto
      then show ?thesis unfolding pr by simp
    qed
  qed
qed

end
