(* ===== verification/Replica.thy ===== *)
theory Replica
  imports Machine_Invariant
begin

text \<open>
  Replicas.  A replica differs from another in what is local to its node: whether the depth journal
  is recorded and drained, the lazily maintained deadline index, the limit of the event window, and
  the first ordinals that the snapshot format does not carry.  \<open>book_view\<close> and \<open>replica_eq\<close> forget
  those parts; every operation is shown to act on the views, so that replicas which apply the same
  log agree, from the start of the log or from a restored snapshot.
\<close>

section \<open>The replicated part of the book\<close>

definition book_view ::
  "OrderBook \<Rightarrow> (BidKey, Order) btree \<times> (AskKey, Order) btree \<times> Order list \<times> u64 \<times> fixed option" where
  "book_view b = (bids b, asks b, stops b, ob_sequence b, last_trade_price b)"

lemma book_view_iff:
  "book_view b = book_view c \<longleftrightarrow> bids b = bids c \<and> asks b = asks c \<and> stops b = stops c
     \<and> ob_sequence b = ob_sequence c \<and> last_trade_price b = last_trade_price c"
  by (simp add: book_view_def)

lemma book_view_local [simp]:
  "book_view (b\<lparr>depth_journal := j\<rparr>) = book_view b" "book_view (b\<lparr>record_depth := r\<rparr>) = book_view b"
  "book_view (b\<lparr>earliest_gtd_expiry := x\<rparr>) = book_view b" "book_view (b\<lparr>gtd_scan_dirty := d\<rparr>) = book_view b"
  "book_view (record_depth_change b side p v n) = book_view b"
  "book_view (refresh_earliest_gtd b) = book_view b"
  by (simp_all add: book_view_def)

subsection \<open>Sweeps\<close>

definition sweep_view :: "'k sweep_state \<Rightarrow> ('k, Order) btree \<times> fixed \<times> MatchResult list" where
  "sweep_view s = (sw_resting s, sw_remaining s, sw_results s)"

definition flow_view ::
  "panic + 'k flow \<Rightarrow> panic + bool \<times> ('k, Order) btree \<times> fixed \<times> MatchResult list" where
  "flow_view r = (case r of Inl p \<Rightarrow> Inl p | Inr (Break s) \<Rightarrow> Inr (False, sweep_view s)
     | Inr (Continue s) \<Rightarrow> Inr (True, sweep_view s))"

lemma sweep_step_view:
  assumes "sweep_view s = sweep_view t" "sc_config ctx = sc_config ctx'"
  shows "flow_view (sweep_step I ctx o1 limit s) = flow_view (sweep_step I ctx' o1 limit t)"
proof -
  have e: "sw_resting s = sw_resting t" "sw_remaining s = sw_remaining t" "sw_results s = sw_results t"
    using assms(1) by (simp_all add: sweep_view_def)
  show ?thesis
  proof (cases "sw_resting t")
    case Nil
    then show ?thesis using e by (simp add: sweep_step_def Let_def flow_view_def sweep_view_def)
  next
    case (Cons entry others)
    obtain k maker where entry: "entry = (k, maker)" by fastforce
    show ?thesis
    proof (cases "match_volume I (sc_config ctx') (sweep_mode o1) (sw_remaining t) maker")
      case (Inl p)
      then show ?thesis using e Cons entry assms(2)
        by (simp add: sweep_step_def Let_def flow_view_def sweep_view_def)
    next
      case (Inr mv)
      then show ?thesis using e Cons entry assms(2)
        by (simp add: sweep_step_def Let_def flow_view_def sweep_view_def)
    qed
  qed
qed

lemma sweep_run_view:
  assumes "sweep_view s = sweep_view t" "sc_config ctx = sc_config ctx'"
  shows "map_sum id sweep_view (sweep_run I ctx o1 limit s) = map_sum id sweep_view (sweep_run I ctx' o1 limit t)"
  using assms
proof (induction I ctx o1 limit s arbitrary: t rule: sweep_run.induct)
  case (1 I ctx o1 limit s)
  note v = sweep_step_view[OF 1(2,3), of I o1 limit]
  show ?case
  proof (cases "sweep_step I ctx o1 limit s")
    case (Inl p)
    with v have "sweep_step I ctx' o1 limit t = Inl p" by (auto simp: flow_view_def split: sum.splits flow.splits)
    then show ?thesis using Inl by (simp add: sweep_run.simps)
  next
    case (Inr fl)
    show ?thesis
    proof (cases fl)
      case (Break s')
      with Inr v obtain t' where "sweep_step I ctx' o1 limit t = Inr (Break t')" "sweep_view s' = sweep_view t'"
        by (auto simp: flow_view_def split: sum.splits flow.splits)
      then show ?thesis using Inr Break by (simp add: sweep_run.simps)
    next
      case (Continue s')
      with Inr v obtain t' where t': "sweep_step I ctx' o1 limit t = Inr (Continue t')" "sweep_view s' = sweep_view t'"
        by (auto simp: flow_view_def split: sum.splits flow.splits)
      then show ?thesis
        using Inr Continue 1(1)[OF Inr Continue t'(2) 1(3)] by (simp add: sweep_run.simps[of I ctx] sweep_run.simps[of I ctx'])
    qed
  qed
qed

abbreviation view1 :: "OrderBook \<times> 'a \<Rightarrow> _" where
  "view1 \<equiv> map_prod book_view id"

lemma sweep_book_view:
  assumes v: "book_view b = book_view c"
  shows "map_sum id view1 (sweep I b o1 limit config) = map_sum id view1 (sweep I c o1 limit config)"
proof -
  let ?ctx = "\<lambda>b. \<lparr>sc_config = config, sc_record = record_depth b, sc_track_gtd = has_gtd_deadlines b\<rparr>"
  have e: "bids b = bids c" "asks b = asks c" "stops b = stops c" "ob_sequence b = ob_sequence c"
    "last_trade_price b = last_trade_price c"
    using v by (simp_all add: book_view_iff)
  show ?thesis
  proof (cases "o_side o1")
    case Buy
    let ?s = "\<lambda>b. sweep_side I (asks b) o1 limit (?ctx b) (depth_journal b) (gtd_scan_dirty b)"
    have "map_sum id sweep_view (?s b) = map_sum id sweep_view (?s c)"
      unfolding sweep_side_def by (rule sweep_run_view) (simp_all add: sweep_view_def e)
    then show ?thesis
      using Buy e by (cases "?s b"; cases "?s c") (simp_all add: sweep_def Let_def book_view_def sweep_view_def)
  next
    case Sell
    let ?s = "\<lambda>b. sweep_side I (bids b) o1 limit (?ctx b) (depth_journal b) (gtd_scan_dirty b)"
    have "map_sum id sweep_view (?s b) = map_sum id sweep_view (?s c)"
      unfolding sweep_side_def by (rule sweep_run_view) (simp_all add: sweep_view_def e)
    then show ?thesis
      using Sell e by (cases "?s b"; cases "?s c") (simp_all add: sweep_def Let_def book_view_def sweep_view_def)
  qed
qed

lemma view_sum_cases:
  assumes "map_sum id view1 x = map_sum id view1 y"
  obtains (left) p where "x = Inl p" "y = Inl p"
  | (right) b c r where "x = Inr (b, r)" "y = Inr (c, r)" "book_view b = book_view c"
proof (cases x)
  case (Inl p)
  with assms left show ?thesis by (cases y) auto
next
  case (Inr z)
  with assms right show ?thesis by (cases y; cases z) auto
qed

lemma print_last_view: "book_view b = book_view c \<Longrightarrow> book_view (print_last fills b) = book_view (print_last fills c)"
  by (simp add: book_view_def print_last_def split: option.splits)

lemma run_stops_view:
  assumes "book_view b = book_view c"
  shows "map_sum id view1 (run_stops I config b oc) = map_sum id view1 (run_stops I config c oc)"
  using assms
proof (induction I config b oc arbitrary: c rule: run_stops.induct)
  case (1 I config b oc)
  have e: "stops b = stops c" "last_trade_price b = last_trade_price c" using 1(2) by (simp_all add: book_view_iff)
  show ?case
  proof (cases "last_trade_price c")
    case None
    then show ?thesis using 1(2) e by (simp add: run_stops.simps[of I config b] run_stops.simps[of I config c])
  next
    case l: (Some l)
    then have lb: "last_trade_price b = Some l" using e by simp
    show ?thesis
    proof (cases "position (\<lambda>stop. stop_elected stop l) (stops c)")
      case None
      then show ?thesis using 1(2) e l by (simp add: run_stops.simps[of I config b] run_stops.simps[of I config c])
    next
      case (Some i)
      then have ib: "position (\<lambda>stop. stop_elected stop l) (stops b) = Some i" using e by simp
      let ?b = "\<lambda>b. b\<lparr>stops := vec_remove i (stops b), gtd_scan_dirty := gtd_scan_dirty b \<or> is_gtd (o_tif (stops b ! i))\<rparr>"
      have "book_view (?b b) = book_view (?b c)" using 1(2) by (simp add: book_view_iff)
      from sweep_book_view[OF this, of I "stops b ! i" "order_limit (stops b ! i)" config] show ?thesis
      proof (cases rule: view_sum_cases)
        case (left p)
        then show ?thesis using l Some e
          by (simp add: run_stops.simps[of I config b] run_stops.simps[of I config c] Let_def)
      next
        case (right b2 c2 r)
        obtain fills remainder where r: "r = (fills, remainder)" by fastforce
        have pv: "book_view (print_last fills b2) = book_view (print_last fills c2)"
          by (rule print_last_view[OF right(3)])
        show ?thesis
          using 1(1)[OF lb ib refl refl right(1) refl r[symmetric] refl refl pv[unfolded print_last_def]] right l Some e r
          by (simp add: run_stops.simps[of I config b] run_stops.simps[of I config c] Let_def)
      qed
    qed
  qed
qed

subsection \<open>Expiry\<close>

definition unexpired :: "OrderBook \<Rightarrow> u64 \<Rightarrow> u64 option \<Rightarrow> OrderBook" where
  "unexpired b now day =
     b\<lparr>bids := filter (\<lambda>e. \<not> is_expired (o_tif (snd e)) now day) (bids b),
       asks := filter (\<lambda>e. \<not> is_expired (o_tif (snd e)) now day) (asks b),
       stops := filter (\<lambda>o1. \<not> is_expired (o_tif o1) now day) (stops b)\<rparr>"

lemma expired_none_unexpired:
  assumes "expired_orders b now day = []"
  shows "book_view (unexpired b now day) = book_view b"
proof -
  have "\<forall>o1 \<in> set (bt_values (bids b) @ bt_values (asks b) @ stops b). \<not> is_expired (o_tif o1) now day"
    using assms unfolding expired_orders_def filter_empty_conv .
  then show ?thesis by (auto simp: unexpired_def book_view_def bt_values_def filter_id_conv)
qed

lemma purge_expired_view:
  "book_core b \<Longrightarrow> book_view (fst (purge_expired b now day)) = book_view (unexpired b now day)"
  using purge_expired_eq[of b now day] core_bt_ok[of b] by (simp add: book_view_def unexpired_def)

lemma unexpired_cong: "book_view b = book_view c \<Longrightarrow> book_view (unexpired b now day) = book_view (unexpired c now day)"
  by (simp add: book_view_def unexpired_def)

lemma expired_cong: "book_view b = book_view c \<Longrightarrow> expired_orders b now day = expired_orders c now day"
  by (simp add: book_view_def expired_orders_def)

lemma purged_view:
  assumes core: "book_core b"
  shows "book_view (fst (purged b o1)) = book_view (unexpired b (o_timestamp o1) None)"
proof (cases "has_gtd_deadlines b")
  case False
  then have "expired_orders b (o_timestamp o1) None = []" using purged_core(8)[OF core, of o1] by (simp add: purged_def)
  then show ?thesis using False expired_none_unexpired by (simp add: purged_def)
next
  case True
  from purge_due_cases[OF core, of "o_timestamp o1"] show ?thesis
  proof
    assume "purge_due_gtd b (o_timestamp o1) = purge_expired (refresh_earliest_gtd b) (o_timestamp o1) None"
    then show ?thesis
      using True purge_expired_view[OF refresh_core[OF core]] unexpired_cong[of "refresh_earliest_gtd b" b]
      by (simp add: purged_def)
  next
    assume "purge_due_gtd b (o_timestamp o1) = (refresh_earliest_gtd b, []) \<and> expired_orders b (o_timestamp o1) None = []"
    then show ?thesis using True expired_none_unexpired by (simp add: purged_def)
  qed
qed

lemma purged_cong:
  assumes "book_core b" "book_core c" "book_view b = book_view c"
  shows "book_view (fst (purged b o1)) = book_view (fst (purged c o1))" "snd (purged b o1) = snd (purged c o1)"
  using purged_view[OF assms(1)] purged_view[OF assms(2)] unexpired_cong[OF assms(3)]
    purged_core(8)[OF assms(1)] purged_core(8)[OF assms(2)] expired_cong[OF assms(3)] by simp_all

subsection \<open>Submission\<close>

lemma rest_cong:
  assumes "book_view b = book_view c"
  shows "book_view (fst (rest b o1 tot)) = book_view (fst (rest c o1 tot))" "snd (rest b o1 tot) = snd (rest c o1 tot)"
  using assms
  by (auto simp: rest_def Let_def book_view_def record_depth_change_def split: OrderSide.splits TimeInForce.splits)

lemma settle_cong:
  assumes "book_view b = book_view c"
  shows "book_view (fst (settle_remainder b o1 r oc)) = book_view (fst (settle_remainder c o1 r oc))"
    "snd (settle_remainder b o1 r oc) = snd (settle_remainder c o1 r oc)"
  using rest_cong[OF assms, of o1 r] assms by (simp_all add: settle_remainder_def)

lemma execute_taker_view:
  assumes v: "book_view b = book_view c"
  shows "map_sum id view1 (execute_taker I b o1 config oc) = map_sum id view1 (execute_taker I c o1 config oc)"
  using sweep_book_view[OF v, of I o1 "order_limit o1" config]
proof (cases rule: view_sum_cases)
  case (left p)
  then show ?thesis by (simp add: execute_taker_eq)
next
  case (right b2 c2 r)
  obtain fills remainder where r: "r = (fills, remainder)" by fastforce
  let ?oc = "oc\<lparr>oc_fills := fills\<rparr>"
  note s = settle_cong[OF right(3), of o1 remainder ?oc]
  show ?thesis
    using run_stops_view[OF print_last_view[OF s(1)], of I config "fills"] right r s(2)
    by (simp add: execute_taker_eq)
qed

lemma reads_cong:
  assumes "book_view b = book_view c"
  shows "would_cross b o1 = would_cross c o1" "fillable_volume b o1 = fillable_volume c o1"
  using assms by (simp_all add: book_view_def would_cross_def best_ask_def best_bid_def fillable_volume_def
      split: OrderSide.split)

lemma execute_admitted_view:
  assumes core: "book_core b" "book_core c" and v: "book_view b = book_view c"
  shows "map_sum id view1 (execute_admitted I b o1 config oc) = map_sum id view1 (execute_admitted I c o1 config oc)"
proof -
  let ?b = "fst (purged b o1)" and ?c = "fst (purged c o1)"
  note p = purged_cong[OF core v, of o1]
  have e: "stops ?b = stops ?c" "last_trade_price ?b = last_trade_price ?c" using p(1) by (simp_all add: book_view_def)
  note r = rest_cong[OF p(1), of o1 "o_volume o1"] and w = reads_cong[OF p(1), of o1]
  show ?thesis
    unfolding execute_admitted_eq Let_def p(2) e(2) w r(2)
    using p(1) e(1) r(1) execute_taker_view[OF p(1), of I o1 config "oc\<lparr>oc_expired := snd (purged c o1)\<rparr>"]
    by (simp add: book_view_def)
qed

lemma execute_order_view:
  assumes core: "book_inv b" "book_inv c" and v: "book_view b = book_view c" and seq: "ob_sequence b < 2 ^ 64 - 1"
  shows "map_sum id view1 (execute_order_inner I b o1 config) = map_sum id view1 (execute_order_inner I c o1 config)"
proof -
  have e: "ob_sequence c = ob_sequence b" using v by (simp add: book_view_def)
  have n: "snd (next_market_sequence b) = next_book b" "snd (next_market_sequence c) = next_book c"
    using next_sequence_inv(3)[OF core(1) seq] next_sequence_inv(3)[OF core(2)] seq e by simp_all
  have k: "book_core (next_book b)" "book_core (next_book c)"
    using next_sequence_inv(1)[OF core(1) seq] next_sequence_inv(1)[OF core(2)] seq e by (simp_all add: book_inv_def)
  have v': "book_view (next_book b) = book_view (next_book c)" using v by (simp add: book_view_def)
  obtain o2 r where no: "normalize_order I (o1\<lparr>o_sequence := ob_sequence b\<rparr>) config = (o2, r)" by fastforce
  note x = execute_admitted_view[OF k v', of I o2 config "Outcome_default\<lparr>oc_market_seq := ob_sequence b\<rparr>"]
  have nb: "next_market_sequence b = (ob_sequence b, next_book b)" "next_market_sequence c = (ob_sequence b, next_book c)"
    using n e by (simp_all add: next_market_sequence_def)
  show ?thesis
  proof (cases r)
    case (Some reason)
    then show ?thesis using no nb v' by (simp add: execute_order_inner_def)
  next
    case None
    show ?thesis
    proof (cases "case validate_order o2 of Some reason \<Rightarrow> Some reason | None \<Rightarrow> validate_order_for_symbol o2 config")
      case (Some reason)
      then show ?thesis using no nb v' None by (simp add: execute_order_inner_def)
    next
      case vn: None
      from x show ?thesis
      proof (cases rule: view_sum_cases)
        case (left p)
        then show ?thesis using no nb None vn by (simp add: execute_order_inner_def)
      next
        case (right b2 c2 oc)
        then show ?thesis using no nb None vn by (simp add: execute_order_inner_def)
      qed
    qed
  qed
qed

subsection \<open>Cancellation and amendment\<close>

lemma cancel_view:
  assumes v: "book_view b = book_view c"
  shows "map_prod book_view id (cancel b o1) = map_prod book_view id (cancel c o1)"
proof -
  have e: "bids b = bids c" "asks b = asks c" "stops b = stops c" "ob_sequence b = ob_sequence c"
    "last_trade_price b = last_trade_price c" using v by (simp_all add: book_view_iff)
  show ?thesis
    by (simp add: cancel_def e Let_def book_view_def split: option.splits OrderSide.splits)
qed

lemma record_amendment_view [simp]: "book_view (record_amendment b side a r) = book_view b"
  by (simp add: record_amendment_def)

lemma amend_view:
  assumes v: "book_view b = book_view c"
  shows "map_prod book_view id (amend_with_sequence b key price volume ms) =
    map_prod book_view id (amend_with_sequence c key price volume ms)"
proof -
  have e: "bids b = bids c" "asks b = asks c" "stops b = stops c" "ob_sequence b = ob_sequence c"
    "last_trade_price b = last_trade_price c" using v by (simp_all add: book_view_iff)
  have r: "best_ask b = best_ask c" "best_bid b = best_bid c" by (simp_all add: best_ask_def best_bid_def e)
  have u: "book_view (b\<lparr>bids := m\<rparr>) = book_view (c\<lparr>bids := m\<rparr>)" "book_view (b\<lparr>asks := n\<rparr>) = book_view (c\<lparr>asks := n\<rparr>)"
    for m n by (simp_all add: book_view_iff e)
  show ?thesis
    by (cases "o_side key") (simp_all add: amend_with_sequence_def e r Let_def split_beta v u
        if_distrib[of "map_prod book_view id"] option.case_distrib[of "map_prod book_view id"]
        cong: if_cong option.case_cong)
qed

section \<open>The replicated state\<close>

text \<open>\<open>#[serde(skip)] first_ordinal\<close>: the part of a dedupe record that snapshots do not carry.\<close>

definition strip_submission :: "SubmissionRecord \<Rightarrow> SubmissionRecord" where
  "strip_submission r = r\<lparr>sub_first_ordinal := None\<rparr>"

definition replica_eq ::
  "('l, 'sm) StateMachineStoreInner \<Rightarrow> ('l, 'sm) StateMachineStoreInner \<Rightarrow> bool" where
  "replica_eq s t \<longleftrightarrow> book_view (orderbook s) = book_view (orderbook t)
     \<and> symbol_config s = symbol_config t \<and> symbol_locked s = symbol_locked t
     \<and> map strip_submission (submission_order s) = map strip_submission (submission_order t)
     \<and> submissions_evicted s = submissions_evicted t \<and> max_submissions s = max_submissions t
     \<and> last_applied_log s = last_applied_log t \<and> last_membership s = last_membership t
     \<and> (max_events s = max_events t \<longrightarrow> sm_events s = sm_events t \<and> events_evicted s = events_evicted t)"

lemma strip_fields [simp]:
  "sub_client_order_id (strip_submission r) = sub_client_order_id r"
  "sub_order_sequence (strip_submission r) = sub_order_sequence r"
  by (simp_all add: strip_submission_def)

lemma strip_mem:
  assumes "map strip_submission xs = map strip_submission ys" "x \<in> set xs"
  shows "\<exists>y \<in> set ys. strip_submission y = strip_submission x"
proof -
  have "strip_submission x \<in> strip_submission ` set ys" using assms by (metis imageI list.set_map)
  then show ?thesis by auto
qed

lemma replica_lookup:
  assumes t: "table_ok m xs" "table_ok n ys" and e: "map strip_submission xs = map strip_submission ys"
  shows "map_option strip_submission (bt_get c m) = map_option strip_submission (bt_get c n)"
proof (cases "bt_get c m")
  case (Some x)
  then have x: "x \<in> set xs" "sub_client_order_id x = c" using table_okD(4)[OF t(1)] by blast+
  then obtain y where y: "y \<in> set ys" "strip_submission y = strip_submission x" using strip_mem[OF e] by blast
  then have "sub_client_order_id y = c" using x(2) by (metis strip_fields(1))
  then show ?thesis using Some table_okD(3)[OF t(2) y(1)] y(2) by simp
next
  case None
  have "bt_get c n = None"
  proof (rule ccontr)
    assume "bt_get c n \<noteq> None"
    then obtain y where "bt_get c n = Some y" by blast
    then have y: "y \<in> set ys" "sub_client_order_id y = c" using table_okD(4)[OF t(2)] by blast+
    then obtain x where x: "x \<in> set xs" "strip_submission x = strip_submission y" using strip_mem[OF e[symmetric]] by blast
    then have "sub_client_order_id x = c" using y(2) by (metis strip_fields(1))
    then show False using None table_okD(3)[OF t(1) x(1)] by simp
  qed
  then show ?thesis using None by simp
qed

lemma drained_replica:
  "replica_eq s t \<Longrightarrow> replica_eq (drained s) (drained t)"
  by (simp add: replica_eq_def drained_def)

lemma record_events_replica:
  assumes "replica_eq s t" "book_view b1 = book_view c1"
  shows "replica_eq (record_events (s\<lparr>orderbook := b1, symbol_locked := l\<rparr>) evs)
    (record_events (t\<lparr>orderbook := c1, symbol_locked := l\<rparr>) evs)"
  using assms by (simp add: replica_eq_def record_events_window record_events_def trim_events_eq)

lemma record_submission_replica:
  assumes e: "replica_eq s t" and t: "table_ok (submissions s) (submission_order s)" "table_ok (submissions t) (submission_order t)"
    and c: "bt_get c (submissions s) = None"
  shows "replica_eq (record_submission s c q i f n) (record_submission t c q i f n)"
proof -
  let ?sub = "\<lparr>sub_client_order_id = c, sub_order_sequence = q, sub_log_index = i,
    sub_event_count = n, sub_first_ordinal = Some f\<rparr>"
  have m: "map strip_submission (submission_order s) = map strip_submission (submission_order t)"
    using e by (simp add: replica_eq_def)
  then have l: "length (submission_order s) = length (submission_order t)" by (metis length_map)
  have c': "bt_get c (submissions t) = None" using replica_lookup[OF t m, of c] c by simp
  have shape: "submission_order (record_submission s c q i f n) =
      drop (Suc (length (submission_order s)) - max_submissions s) (submission_order s @ [?sub])
    \<and> submissions_evicted (record_submission s c q i f n) =
      evict (Suc (length (submission_order s)) - max_submissions s) (submissions_evicted s)"
    if "table_ok (submissions s) (submission_order s)" "bt_get c (submissions s) = None"
    for s :: "('l, 'sm) StateMachineStoreInner"
  proof -
    let ?s = "s\<lparr>submissions := bt_insert c ?sub (submissions s), submission_order := submission_order s @ [?sub]\<rparr>"
    have "table_ok (submissions ?s) (submission_order ?s)" using table_ok_snoc[OF that(1), of ?sub] that(2) by simp
    from trim_submissions_table[OF this] show ?thesis by (auto simp: record_submission_def Let_def)
  qed
  have "map strip_submission (submission_order (record_submission s c q i f n)) =
      map strip_submission (submission_order (record_submission t c q i f n))"
    using shape[OF t(1) c] shape[OF t(2) c'] e m l by (simp add: drop_map[symmetric] replica_eq_def)
  then show ?thesis
    using shape[OF t(1) c] shape[OF t(2) c'] e l by (simp add: replica_eq_def)
qed

subsection \<open>Responses\<close>

fun strip_response :: "MatchEngineResponse \<Rightarrow> MatchEngineResponse" where
  "strip_response (MatchEngineResponse v q e t er rs) =
     MatchEngineResponse v q [] False er (map strip_response rs)"

text \<open>Two results agree: both panic alike, or states, event counts, new events and answers agree.\<close>

definition agree ::
  "apply_out \<Rightarrow> apply_out
    \<Rightarrow> panic + ('l, 'sm) StateMachineStoreInner \<times> MatchEngineResponse \<times> nat \<times> apply_out
    \<Rightarrow> panic + ('l, 'sm) StateMachineStoreInner \<times> MatchEngineResponse \<times> nat \<times> apply_out \<Rightarrow> bool" where
  "agree out out' x y \<longleftrightarrow>
     (case (x, y) of
        (Inl p, Inl q) \<Rightarrow> p = q
      | (Inr (s, r, n, o1), Inr (t, r', n', o2)) \<Rightarrow>
          replica_eq s t \<and> n = n' \<and> strip_response r = strip_response r'
          \<and> (\<exists>evs. out_events o1 = out_events out @ evs \<and> out_events o2 = out_events out' @ evs)
      | _ \<Rightarrow> False)"

lemma finish_agree:
  assumes "replica_eq (record_events s evs) (record_events t evs)"
  shows "agree out out' (Inr (finish_mutation gate s i ms ts sid evs out)) (Inr (finish_mutation gate' t i ms ts sid evs out'))"
  using drained_replica[OF assms]
  by (simp add: agree_def finish_mutation_def Let_def take_market_frame_eq)

lemma duplicate_strip:
  "strip_submission a = strip_submission b \<Longrightarrow>
   strip_response (duplicate_response s a) = strip_response (duplicate_response t b)"
  by (simp add: duplicate_response_def duplicate_def split_beta) (metis strip_fields(2))

lemma configured_cong: "replica_eq s t \<Longrightarrow> configured_symbol_for s o1 = configured_symbol_for t o1"
  by (simp add: replica_eq_def configured_symbol_for_def)

lemma validate_amend_cong: "replica_eq s t \<Longrightarrow> validate_amend_values s o1 p v = validate_amend_values t o1 p v"
  by (simp add: validate_amend_values_def configured_cong)

definition placed ::
  "('l, 'sm) StateMachineStoreInner \<Rightarrow> OrderBook \<Rightarrow> Order \<Rightarrow> Outcome \<Rightarrow> string option \<Rightarrow> u64 \<Rightarrow> u32
    \<Rightarrow> ('l, 'sm) StateMachineStoreInner" where
  "placed s b1 o2 oc cid i f =
     (let evs = place_events i f o2 oc;
          r = record_events (s\<lparr>orderbook := b1, symbol_locked := symbol_locked s \<or> oc_rejected oc = None\<rparr>) evs
      in case cid of None \<Rightarrow> r | Some c \<Rightarrow> record_submission r c (o_sequence o2) i f (wrap_u32 (length evs)))"

lemma apply_place_new:
  assumes "(case cid of None \<Rightarrow> None | Some c \<Rightarrow> bt_get c (submissions s)) = None"
    and "(case configured_symbol_for s o1 of
           Inr config \<Rightarrow> execute_order_with_symbol I (orderbook s) o1 config
         | Inl reason \<Rightarrow> Inr (reject_order (orderbook s) o1 reason)) = Inr (b1, o2, oc)"
  shows "\<exists>m. apply_place I gate s o1 cid i f out =
    Inr (drained (placed s b1 o2 oc cid i f), applied (o_sequence o2) (place_events i f o2 oc),
         length (place_events i f o2 oc), push_publish out (place_events i f o2 oc) m)"
proof -
  show ?thesis
    unfolding apply_place_def assms
    by (cases "oc_rejected oc"; cases cid) (auto simp: Let_def take_market_frame_eq placed_def lock_eq)
qed

lemma apply_place_agree:
  assumes inv: "core_inv s" "core_inv t" and e: "replica_eq s t"
    and seq: "ob_sequence (orderbook s) < 2 ^ 64 - 1"
  shows "agree out out' (apply_place I gate s o1 cid i f out) (apply_place I gate' t o1 cid i f out')"
proof -
  have tab: "table_ok (submissions s) (submission_order s)" "table_ok (submissions t) (submission_order t)"
    "map strip_submission (submission_order s) = map strip_submission (submission_order t)"
    using inv e by (simp_all add: core_inv_def replica_eq_def)
  let ?d = "\<lambda>s. case cid of None \<Rightarrow> None | Some c \<Rightarrow> bt_get c (submissions s)"
  have d: "map_option strip_submission (?d s) = map_option strip_submission (?d t)"
    using replica_lookup[OF tab] by (simp split: option.split)
  show ?thesis
  proof (cases "?d s")
    case (Some a)
    with d obtain b where b: "?d t = Some b" "strip_submission a = strip_submission b"
      by (cases "?d t") auto
    then show ?thesis using Some e duplicate_strip[OF b(2)] by (simp add: apply_place_def agree_def)
  next
    case None
    then have nt: "?d t = None" using d by simp
    let ?x = "\<lambda>s. case configured_symbol_for s o1 of
         Inr config \<Rightarrow> execute_order_with_symbol I (orderbook s) o1 config
       | Inl reason \<Rightarrow> Inr (reject_order (orderbook s) o1 reason)"
    have v: "book_view (orderbook s) = book_view (orderbook t)" using e by (simp add: replica_eq_def)
    have bi: "book_inv (orderbook s)" "book_inv (orderbook t)" using inv by (simp_all add: core_inv_def)
    have "map_sum id view1 (?x s) = map_sum id view1 (?x t)"
      using execute_order_view[OF bi v seq, of I o1] v configured_cong[OF e, of o1]
      by (simp add: execute_order_with_symbol_def reject_order_def next_market_sequence_def book_view_def split: sum.split)
    then show ?thesis
    proof (cases rule: view_sum_cases)
      case (left p)
      then show ?thesis using None nt by (simp add: apply_place_def agree_def)
    next
      case (right b1 c1 r)
      obtain o2 oc where r: "r = (o2, oc)" by fastforce
      have rec: "replica_eq (record_events (s\<lparr>orderbook := b1, symbol_locked := symbol_locked s \<or> oc_rejected oc = None\<rparr>) evs)
          (record_events (t\<lparr>orderbook := c1, symbol_locked := symbol_locked t \<or> oc_rejected oc = None\<rparr>) evs)" for evs
        using record_events_replica[OF e right(3)] e by (simp add: replica_eq_def)
      have "replica_eq (placed s b1 o2 oc cid i f) (placed t c1 o2 oc cid i f)"
      proof (cases cid)
        case None
        then show ?thesis using rec by (simp add: placed_def Let_def)
      next
        case (Some c)
        with None show ?thesis
          using record_submission_replica[OF rec] tab by (simp add: placed_def Let_def)
      qed
      then show ?thesis
        using apply_place_new[OF None right(1)[unfolded r], of gate i f out]
          apply_place_new[OF nt right(2)[unfolded r], of gate' i f out'] drained_replica
        by (auto simp: agree_def)
    qed
  qed
qed

lemma events_replica:
  assumes "replica_eq s t" "book_view b1 = book_view c1"
  shows "replica_eq (record_events (s\<lparr>orderbook := b1\<rparr>) evs) (record_events (t\<lparr>orderbook := c1\<rparr>) evs)"
proof -
  have "symbol_locked s = symbol_locked t" using assms(1) by (simp add: replica_eq_def)
  then have "t\<lparr>orderbook := c1, symbol_locked := symbol_locked s\<rparr> = t\<lparr>orderbook := c1\<rparr>" by (simp add: lock_eq)
  with record_events_replica[OF assms, of "symbol_locked s" evs] show ?thesis by (simp only: lock_eq)
qed

lemma mutation_start_agree:
  assumes inv: "core_inv s" "core_inv t" and e: "replica_eq s t"
    and seq: "ob_sequence (orderbook s) < 2 ^ 64 - 1"
  shows "\<exists>b c. begin_mutation (orderbook s) o1 i f =
      (ob_sequence (orderbook s), b, foldl (push_expired i f) [] (snd (purged (next_book (orderbook s)) o1)))
    \<and> begin_mutation (orderbook t) o1 i f =
      (ob_sequence (orderbook s), c, foldl (push_expired i f) [] (snd (purged (next_book (orderbook s)) o1)))
    \<and> book_view b = book_view c"
proof -
  have v: "book_view (orderbook s) = book_view (orderbook t)" using e by (simp add: replica_eq_def)
  then have q: "ob_sequence (orderbook t) = ob_sequence (orderbook s)" by (simp add: book_view_def)
  have bi: "book_inv (orderbook s)" "book_inv (orderbook t)" using inv by (simp_all add: core_inv_def)
  have seq': "ob_sequence (orderbook t) < 2 ^ 64 - 1" using seq q by simp
  have k: "book_core (next_book (orderbook s))" "book_core (next_book (orderbook t))"
    using next_sequence_inv(1)[OF bi(1) seq] next_sequence_inv(1)[OF bi(2) seq'] by (simp_all add: book_inv_def)
  have v': "book_view (next_book (orderbook s)) = book_view (next_book (orderbook t))" using v by (simp add: book_view_def)
  show ?thesis
    using begin_mutation_eq[OF bi(1) seq, of o1 i f] begin_mutation_eq[OF bi(2) seq', of o1 i f]
      purged_cong[OF k v', of o1] q by simp
qed

lemma apply_cancel_agree:
  assumes inv: "core_inv s" "core_inv t" and e: "replica_eq s t"
    and seq: "ob_sequence (orderbook s) < 2 ^ 64 - 1"
  shows "agree out out' (Inr (apply_cancel gate s o1 i f out)) (Inr (apply_cancel gate' t o1 i f out'))"
proof -
  let ?x = "foldl (push_expired i f) [] (snd (purged (next_book (orderbook s)) o1))"
  obtain b c where m: "begin_mutation (orderbook s) o1 i f = (ob_sequence (orderbook s), b, ?x)"
      "begin_mutation (orderbook t) o1 i f = (ob_sequence (orderbook s), c, ?x)" "book_view b = book_view c"
    using mutation_start_agree[OF assms] by blast
  obtain b1 r where b1: "cancel b o1 = (b1, r)" by fastforce
  obtain c1 r' where c1: "cancel c o1 = (c1, r')" by fastforce
  have r: "r' = r" "book_view b1 = book_view c1" using cancel_view[OF m(3), of o1] b1 c1 by simp_all
  show ?thesis
    using m b1 c1 r events_replica[OF e m(3)] events_replica[OF e r(2)] configured_cong[OF e, of o1]
    by (auto simp: apply_cancel_def intro!: finish_agree split: sum.split option.split)
qed

lemma apply_amend_agree:
  assumes inv: "core_inv s" "core_inv t" and e: "replica_eq s t"
    and seq: "ob_sequence (orderbook s) < 2 ^ 64 - 1"
  shows "agree out out' (Inr (apply_amend gate s o1 p v i f out)) (Inr (apply_amend gate' t o1 p v i f out'))"
proof -
  let ?x = "foldl (push_expired i f) [] (snd (purged (next_book (orderbook s)) o1))"
  let ?q = "ob_sequence (orderbook s)"
  obtain b c where m: "begin_mutation (orderbook s) o1 i f = (?q, b, ?x)"
      "begin_mutation (orderbook t) o1 i f = (?q, c, ?x)" "book_view b = book_view c"
    using mutation_start_agree[OF assms] by blast
  obtain b1 r where b1: "amend_with_sequence b o1 p v ?q = (b1, r)" by fastforce
  obtain c1 r' where c1: "amend_with_sequence c o1 p v ?q = (c1, r')" by fastforce
  have r: "r' = r" "book_view b1 = book_view c1" using amend_view[OF m(3), of o1 p v ?q] b1 c1 by simp_all
  show ?thesis
    using m b1 c1 r events_replica[OF e m(3)] events_replica[OF e r(2)] validate_amend_cong[OF e, of o1 p v]
    by (auto simp: apply_amend_def intro!: finish_agree split: sum.split)
qed

lemma apply_purge_agree:
  assumes inv: "core_inv s" "core_inv t" and e: "replica_eq s t"
    and seq: "ob_sequence (orderbook s) < 2 ^ 64 - 1"
  shows "agree out out' (Inr (apply_purge gate s now day i f out)) (Inr (apply_purge gate' t now day i f out'))"
proof -
  have v: "book_view (orderbook s) = book_view (orderbook t)" using e by (simp add: replica_eq_def)
  then have q: "ob_sequence (orderbook t) = ob_sequence (orderbook s)" by (simp add: book_view_def)
  have bi: "book_inv (orderbook s)" "book_inv (orderbook t)" using inv by (simp_all add: core_inv_def)
  have seq': "ob_sequence (orderbook t) < 2 ^ 64 - 1" using seq q by simp
  let ?b = "next_book (orderbook s)" and ?c = "next_book (orderbook t)"
  have n: "next_market_sequence (orderbook s) = (ob_sequence (orderbook s), ?b)"
    "next_market_sequence (orderbook t) = (ob_sequence (orderbook s), ?c)"
    using next_sequence_inv(3)[OF bi(1) seq] next_sequence_inv(3)[OF bi(2) seq'] q
    by (simp_all add: next_market_sequence_def)
  have k: "book_core ?b" "book_core ?c"
    using next_sequence_inv(1)[OF bi(1) seq] next_sequence_inv(1)[OF bi(2) seq'] by (simp_all add: book_inv_def)
  have v': "book_view ?b = book_view ?c" using v by (simp add: book_view_def)
  have pv: "book_view (fst (purge_expired ?b now day)) = book_view (fst (purge_expired ?c now day))"
    using purge_expired_view[OF k(1)] purge_expired_view[OF k(2)] unexpired_cong[OF v'] by simp
  have px: "snd (purge_expired ?b now day) = snd (purge_expired ?c now day)"
    using purge_expired_eq[of ?b now day] purge_expired_eq[of ?c now day] core_bt_ok[OF k(1)] core_bt_ok[OF k(2)]
      expired_cong[OF v', of now day] by simp
  have sid: "cfg_symbol_id (symbol_config t) = cfg_symbol_id (symbol_config s)" using e by (simp add: replica_eq_def)
  show ?thesis
    unfolding apply_purge_def n sid using px events_replica[OF e pv]
    by (simp add: split_beta Let_def finish_agree)
qed

lemma apply_configure_agree:
  assumes e: "replica_eq s t"
  shows "agree out out' (Inr (apply_configure raft env s config out)) (Inr (apply_configure raft env' t config out'))"
proof -
  have v: "book_view (orderbook s) = book_view (orderbook t)" "symbol_locked s = symbol_locked t"
    using e by (simp_all add: replica_eq_def)
  let ?set = "\<lambda>s cfg. s\<lparr>symbol_config := cfg, orderbook := (orderbook s)\<lparr>last_trade_price := None\<rparr>\<rparr>"
  have "(\<exists>msg. configure_symbol s config = Inl msg \<and> configure_symbol t config = Inl msg)
      \<or> (\<exists>cfg. configure_symbol s config = Inr (?set s cfg) \<and> configure_symbol t config = Inr (?set t cfg))"
    using v by (auto simp: configure_symbol_def book_view_def split: sum.split)
  moreover have "replica_eq (?set s cfg) (?set t cfg)" for cfg using e by (simp add: replica_eq_def book_view_def)
  ultimately show ?thesis
    using e by (auto simp: agree_def apply_configure_def configure_symbol_locked_def)
qed

lemma apply_one_agree:
  assumes inv: "core_inv s" "core_inv t" and e: "replica_eq s t"
    and seq: "ob_sequence (orderbook s) < 2 ^ 64 - 1"
  shows "agree out out' (apply_one I raft env pos s r i f out) (apply_one I raft env' pos t r i f out')"
proof (cases r)
  case (Place o1 cid)
  then show ?thesis using apply_place_agree[OF assms] by simp
next
  case (Cancel o1)
  then show ?thesis using apply_cancel_agree[OF assms] by simp
next
  case (Amend o1 p v)
  then show ?thesis using apply_amend_agree[OF assms] by simp
next
  case (PurgeExpired now day)
  then show ?thesis using apply_purge_agree[OF assms] by simp
next
  case (ConfigureSymbol config)
  then show ?thesis using apply_configure_agree[OF e] by simp
next
  case (Batch rs)
  then show ?thesis using e by (simp add: agree_def)
qed

section \<open>Batches and entries\<close>

lemma agree_cases [consumes 1, case_names panic results]:
  assumes "agree out out' x y"
  obtains p where "x = Inl p" "y = Inl p"
  | s r n o1 t r' o2 where "x = Inr (s, r, n, o1)" "y = Inr (t, r', n, o2)" "replica_eq s t"
      "strip_response r = strip_response r'" "out_events out = out_events out' \<Longrightarrow> out_events o1 = out_events o2"
  using assms by (cases x; cases y) (auto simp: agree_def)

lemma apply_batch_agree:
  assumes "core_inv s" "core_inv t" "replica_eq s t" "i128_typed I"
    and "\<And>r. r \<in> set rs \<Longrightarrow> request_typed r"
    and "ob_sequence (orderbook s) + length rs \<le> 2 ^ 64 - 1"
    and "map strip_response acc = map strip_response acc'" "out_events out = out_events out'"
  shows "(\<exists>p. apply_batch I raft env pos s rs i f acc out = Inl p \<and> apply_batch I raft env' pos t rs i f acc' out' = Inl p)
    \<or> (\<exists>s' t' resp resp' o1 o2. apply_batch I raft env pos s rs i f acc out = Inr (s', resp, o1)
        \<and> apply_batch I raft env' pos t rs i f acc' out' = Inr (t', resp', o2)
        \<and> replica_eq s' t' \<and> core_inv s' \<and> core_inv t' \<and> ob_sequence (orderbook s') \<le> ob_sequence (orderbook s) + length rs
        \<and> map strip_response resp = map strip_response resp' \<and> out_events o1 = out_events o2)"
  using assms
proof (induction rs arbitrary: s t f pos acc acc' out out')
  case Nil
  then show ?case by simp
next
  case (Cons r rs)
  have seq: "ob_sequence (orderbook s) < 2 ^ 64 - 1" using Cons.prems(6) by simp
  have q: "ob_sequence (orderbook t) = ob_sequence (orderbook s)"
    using Cons.prems(3) by (simp add: replica_eq_def book_view_def)
  have ty: "request_typed r" using Cons.prems(5) by simp
  note agr = apply_one_agree[OF Cons.prems(1,2,3) seq, of out out' I raft env pos r i f env']
  show ?case
  using agr proof (cases rule: agree_cases)
    case panic
    then show ?thesis by simp
  next
    case (results s1 x n o1 t1 x' o2)
    have c: "core_inv s1 \<and> ob_sequence (orderbook s1) \<le> ob_sequence (orderbook s) + 1" "core_inv t1"
      using apply_one_core[OF results(1) Cons.prems(1) seq Cons.prems(4) ty]
        apply_one_core[OF results(2) Cons.prems(2) _ Cons.prems(4) ty] seq q by simp_all
    have IH: "(\<exists>p. apply_batch I raft env (Suc pos) s1 rs i (sat_add_u32 f (wrap_u32 n)) (acc @ [x]) o1 = Inl p
          \<and> apply_batch I raft env' (Suc pos) t1 rs i (sat_add_u32 f (wrap_u32 n)) (acc' @ [x']) o2 = Inl p)
      \<or> (\<exists>s' t' resp resp' p1 p2. apply_batch I raft env (Suc pos) s1 rs i (sat_add_u32 f (wrap_u32 n)) (acc @ [x]) o1 = Inr (s', resp, p1)
        \<and> apply_batch I raft env' (Suc pos) t1 rs i (sat_add_u32 f (wrap_u32 n)) (acc' @ [x']) o2 = Inr (t', resp', p2)
        \<and> replica_eq s' t' \<and> core_inv s' \<and> core_inv t' \<and> ob_sequence (orderbook s') \<le> ob_sequence (orderbook s1) + length rs
        \<and> map strip_response resp = map strip_response resp' \<and> out_events p1 = out_events p2)"
      by (rule Cons.IH) (use c results Cons.prems in simp_all)
    have le: "m \<le> ob_sequence (orderbook s) + length (r # rs)" if "m \<le> ob_sequence (orderbook s1) + length rs" for m
      using that c(1) by simp
    from IH show ?thesis
      using results(1,2) le by (elim disjE exE conjE) simp_all
  qed
qed

definition entry_requests :: "('l, 'm) Entry \<Rightarrow> MatchEngineRequest list" where
  "entry_requests e = payload_requests (en_payload e)"

lemma core_applied [simp]: "core_inv (s\<lparr>last_applied_log := l\<rparr>) = core_inv s"
    "core_inv (s\<lparr>last_membership := m\<rparr>) = core_inv s"
  by (simp_all add: core_inv_def)

lemma replica_applied:
  "replica_eq s t \<Longrightarrow> replica_eq (s\<lparr>last_applied_log := l\<rparr>) (t\<lparr>last_applied_log := l\<rparr>)"
  "replica_eq s t \<Longrightarrow> replica_eq (s\<lparr>last_membership := m\<rparr>) (t\<lparr>last_membership := m\<rparr>)"
  by (simp_all add: replica_eq_def)

text \<open>Two applications agree: both panic alike, or both give related states and the same answers and events.\<close>

definition entry_agree ::
  "panic + ('l, 'sm) StateMachineStoreInner \<times> MatchEngineResponse \<times> apply_out
    \<Rightarrow> panic + ('l, 'sm) StateMachineStoreInner \<times> MatchEngineResponse \<times> apply_out \<Rightarrow> nat \<Rightarrow> bool" where
  "entry_agree x y bound \<longleftrightarrow>
     (\<exists>p. x = Inl p \<and> y = Inl p)
     \<or> (\<exists>s r o1 t r' o2. x = Inr (s, r, o1) \<and> y = Inr (t, r', o2) \<and> replica_eq s t \<and> core_inv s \<and> core_inv t
          \<and> ob_sequence (orderbook s) \<le> bound \<and> strip_response r = strip_response r' \<and> out_events o1 = out_events o2)"

lemma entry_agree_panic: "entry_agree (Inl p) (Inl p) n"
  by (simp add: entry_agree_def)

lemma entry_agree_results:
  "replica_eq s t \<Longrightarrow> core_inv s \<Longrightarrow> core_inv t \<Longrightarrow> ob_sequence (orderbook s) \<le> n
    \<Longrightarrow> strip_response r = strip_response r' \<Longrightarrow> out_events o1 = out_events o2
    \<Longrightarrow> entry_agree (Inr (s, r, o1)) (Inr (t, r', o2)) n"
  by (simp add: entry_agree_def)

lemma apply_entry_agree:
  assumes inv: "core_inv s" "core_inv t" and e: "replica_eq s t" and I: "i128_typed I"
    and ty: "\<And>r. r \<in> set (entry_requests x) \<Longrightarrow> request_typed r"
    and seq: "ob_sequence (orderbook s) + length (entry_requests x) \<le> 2 ^ 64 - 1"
  shows "entry_agree (apply_entry I raft env s x) (apply_entry I raft env' t x)
    (ob_sequence (orderbook s) + length (entry_requests x))"
proof -
  let ?s = "s\<lparr>last_applied_log := Some (en_log_id x)\<rparr>" and ?t = "t\<lparr>last_applied_log := Some (en_log_id x)\<rparr>"
  let ?i = "rf_index raft (en_log_id x)" and ?o = "\<lparr>out_publishes = [], out_resets = []\<rparr>"
  have c: "core_inv ?s" "core_inv ?t" "replica_eq ?s ?t" using inv replica_applied(1)[OF e] by simp_all
  show ?thesis
  proof (cases "en_payload x")
    case Blank
    then show ?thesis using c by (simp add: apply_entry_def entry_agree_results)
  next
    case (Membership m)
    then show ?thesis using c replica_applied(2)[OF c(3)] by (simp add: apply_entry_def entry_agree_results)
  next
    case (Normal r)
    show ?thesis
    proof (cases "\<exists>rs. r = Batch rs")
      case True
      then obtain rs where r: "r = Batch rs" ..
      have rs: "entry_requests x = rs" using Normal r by (simp add: entry_requests_def)
      have "(\<exists>p. apply_batch I raft env 0 ?s rs ?i 0 [] ?o = Inl p \<and> apply_batch I raft env' 0 ?t rs ?i 0 [] ?o = Inl p)
        \<or> (\<exists>s' t' resp resp' o1 o2. apply_batch I raft env 0 ?s rs ?i 0 [] ?o = Inr (s', resp, o1)
          \<and> apply_batch I raft env' 0 ?t rs ?i 0 [] ?o = Inr (t', resp', o2)
          \<and> replica_eq s' t' \<and> core_inv s' \<and> core_inv t' \<and> ob_sequence (orderbook s') \<le> ob_sequence (orderbook ?s) + length rs
          \<and> map strip_response resp = map strip_response resp' \<and> out_events o1 = out_events o2)"
        by (rule apply_batch_agree) (use c I ty seq rs in simp_all)
      then show ?thesis
        using Normal r rs by (auto simp: apply_entry_def response_batch_def entry_agree_panic intro!: entry_agree_results)
    next
      case False
      then have rs: "entry_requests x = [r]" using Normal by (cases r) (auto simp: entry_requests_def)
      have q: "ob_sequence (orderbook ?s) < 2 ^ 64 - 1" "ob_sequence (orderbook ?t) < 2 ^ 64 - 1"
        using seq rs e by (simp_all add: replica_eq_def book_view_def)
      have tr: "request_typed r" using ty rs by simp
      show ?thesis
        using apply_one_agree[OF c q(1), of ?o ?o I raft env 0 r ?i 0 env']
      proof (cases rule: agree_cases)
        case panic
        then show ?thesis by (simp add: apply_entry_single[OF Normal False] entry_agree_panic)
      next
        case (results s1 a n o1 t1 b o2)
        note k = apply_one_core[OF results(1) c(1) q(1) I tr] apply_one_core[OF results(2) c(2) q(2) I tr]
        show ?thesis
          using results(1,2) k rs
          by (simp add: apply_entry_single[OF Normal False] entry_agree_results results(3,4) results(5)[OF refl])
      qed
    qed
  qed
qed

lemma apply_entries_agree:
  assumes "core_inv s" "core_inv t" "replica_eq s t" "i128_typed I" "map snd es = map snd es'"
    and "\<forall>e \<in> set es. \<forall>r \<in> set (entry_requests (snd e)). request_typed r"
    and "ob_sequence (orderbook s) + (\<Sum>e\<leftarrow>es. length (entry_requests (snd e))) \<le> 2 ^ 64 - 1"
  shows "(\<exists>p. apply_entries I raft s es = Inl p \<and> apply_entries I raft t es' = Inl p)
    \<or> (\<exists>s' t' outs outs'. apply_entries I raft s es = Inr (s', outs) \<and> apply_entries I raft t es' = Inr (t', outs')
        \<and> replica_eq s' t' \<and> core_inv s' \<and> core_inv t'
        \<and> map (strip_response \<circ> fst) outs = map (strip_response \<circ> fst) outs'
        \<and> map (out_events \<circ> snd) outs = map (out_events \<circ> snd) outs')"
  using assms
proof (induction es arbitrary: s t es')
  case Nil
  then show ?case by simp
next
  case (Cons e es)
  obtain e' es1 where es': "es' = e' # es1" "snd e' = snd e" "map snd es1 = map snd es"
    using Cons.prems(5) by (cases es') auto
  have "entry_agree (apply_entry I raft (fst e) s (snd e)) (apply_entry I raft (fst e') t (snd e))
      (ob_sequence (orderbook s) + length (entry_requests (snd e)))"
    by (rule apply_entry_agree) (use Cons.prems in simp_all)
  then consider (panic) p where "apply_entry I raft (fst e) s (snd e) = Inl p" "apply_entry I raft (fst e') t (snd e) = Inl p"
    | (results) s1 r o1 t1 r' o2 where "apply_entry I raft (fst e) s (snd e) = Inr (s1, r, o1)"
        "apply_entry I raft (fst e') t (snd e) = Inr (t1, r', o2)" "replica_eq s1 t1" "core_inv s1" "core_inv t1"
        "ob_sequence (orderbook s1) \<le> ob_sequence (orderbook s) + length (entry_requests (snd e))"
        "strip_response r = strip_response r'" "out_events o1 = out_events o2"
    unfolding entry_agree_def by blast
  then show ?case
  proof cases
    case panic
    then show ?thesis using es' by simp
  next
    case results
    have "(\<exists>p. apply_entries I raft s1 es = Inl p \<and> apply_entries I raft t1 es1 = Inl p)
      \<or> (\<exists>s' t' outs outs'. apply_entries I raft s1 es = Inr (s', outs) \<and> apply_entries I raft t1 es1 = Inr (t', outs')
        \<and> replica_eq s' t' \<and> core_inv s' \<and> core_inv t'
        \<and> map (strip_response \<circ> fst) outs = map (strip_response \<circ> fst) outs'
        \<and> map (out_events \<circ> snd) outs = map (out_events \<circ> snd) outs')"
      by (rule Cons.IH) (use results es' Cons.prems in simp_all)
    then show ?thesis using results es' by (elim disjE exE conjE) (simp_all add: comp_def)
  qed
qed

section \<open>Restoring a snapshot\<close>

text \<open>
  The content of a snapshot goes through the encoder, which skips the first ordinal of a submission.
\<close>

definition serde_image :: "StateMachineData \<Rightarrow> StateMachineData" where
  "serde_image content = content\<lparr>sd_submissions := map strip_submission (sd_submissions content)\<rparr>"

lemma event_of_stored_inverse [simp]: "event_of_stored (stored_of_event e) = e"
  by (simp add: event_of_stored_def stored_of_event_def)

lemma events_of_stored: "map event_of_stored (map stored_of_event es) = es"
  by (simp add: comp_def)

lemma foldl_insert_bids:
  assumes "\<And>e. e \<in> set m \<Longrightarrow> fst e = BidKey (o_price (snd e)) (o_sequence (snd e)) \<and> o_side (snd e) = Buy"
  shows "foldl insert_order b (bt_values m) = b\<lparr>bids := fold (\<lambda>e. bt_insert (fst e) (snd e)) m (bids b)\<rparr>"
  using assms
proof (induction m arbitrary: b)
  case Nil
  then show ?case by (simp add: bt_values_def)
next
  case (Cons e m)
  have "insert_order b (snd e) = b\<lparr>bids := bt_insert (fst e) (snd e) (bids b)\<rparr>"
    using Cons.prems[of e] by (simp only: list.set_intros insert_order_def OrderSide.case simp_thms)
  then show ?case
    using Cons.IH[OF Cons.prems[OF list.set_intros(2)], of "insert_order b (snd e)"] by (simp add: bt_values_def)
qed

lemma foldl_insert_asks:
  assumes "\<And>e. e \<in> set m \<Longrightarrow> fst e = AskKey (o_price (snd e)) (o_sequence (snd e)) \<and> o_side (snd e) = Sell"
  shows "foldl insert_order b (bt_values m) = b\<lparr>asks := fold (\<lambda>e. bt_insert (fst e) (snd e)) m (asks b)\<rparr>"
  using assms
proof (induction m arbitrary: b)
  case Nil
  then show ?case by (simp add: bt_values_def)
next
  case (Cons e m)
  have "insert_order b (snd e) = b\<lparr>asks := bt_insert (fst e) (snd e) (asks b)\<rparr>"
    using Cons.prems[of e] by (simp only: list.set_intros insert_order_def OrderSide.case simp_thms)
  then show ?case
    using Cons.IH[OF Cons.prems[OF list.set_intros(2)], of "insert_order b (snd e)"] by (simp add: bt_values_def)
qed

lemma rebuilt_sides:
  assumes core: "book_core b" and e: "bids c = []" "asks c = []"
  shows "foldl insert_order c (bt_values (bids b) @ bt_values (asks b)) = c\<lparr>bids := bids b, asks := asks b\<rparr>"
proof -
  have ok: "bt_ok (bids b)" "bt_ok (asks b)" using core_bt_ok[OF core] by simp_all
  have k: "\<And>e. e \<in> set (bids b) \<Longrightarrow> fst e = BidKey (o_price (snd e)) (o_sequence (snd e)) \<and> o_side (snd e) = Buy"
      "\<And>e. e \<in> set (asks b) \<Longrightarrow> fst e = AskKey (o_price (snd e)) (o_sequence (snd e)) \<and> o_side (snd e) = Sell"
    using core unfolding book_core_def side_ok_def resting_ok_def by blast+
  show ?thesis
    using fold_bt_insert[of "[]" "bids b"] fold_bt_insert[of "[]" "asks b"] ok e
      foldl_insert_bids[OF k(1), where b = c] foldl_insert_asks[OF k(2), where b = "c\<lparr>bids := bids b\<rparr>"]
    by simp
qed

lemma foldl_table:
  "distinct (map sub_client_order_id (pre @ order)) \<Longrightarrow> table_ok m pre \<Longrightarrow>
   table_ok (foldl (\<lambda>m sub. bt_insert (sub_client_order_id sub) sub m) m order) (pre @ order)"
proof (induction order arbitrary: m pre)
  case Nil
  then show ?case by simp
next
  case (Cons r order)
  have fresh: "sub_client_order_id r \<notin> sub_client_order_id ` set pre" using Cons.prems(1) by auto
  have "bt_get (sub_client_order_id r) m = None"
  proof (cases "bt_get (sub_client_order_id r) m")
    case (Some x)
    then show ?thesis using table_okD(4)[OF Cons.prems(2) Some] fresh by (metis image_eqI)
  qed
  from table_ok_snoc[OF Cons.prems(2) this] show ?case
    using Cons.IH[of "pre @ [r]"] Cons.prems(1) by simp
qed

lemma core_view_inv:
  assumes core: "book_core b" and v: "bids c = bids b" "asks c = asks b" "stops c = stops b" "ob_sequence c = ob_sequence b"
    and g: "gtd_index_ok c"
  shows "book_core c"
proof -
  have o1: "book_orders c = book_orders b" by (simp add: book_orders_def v)
  have "seqs_ok c = seqs_ok b" by (simp add: seqs_ok_def v o1)
  then show ?thesis using core g by (simp add: book_core_def uncrossed_def v)
qed

lemma rebuild_core:
  assumes core: "book_core b" and v: "bids c = bids b" "asks c = asks b" "stops c = stops b" "ob_sequence c = ob_sequence b"
  shows "book_core (rebuild_derived_indexes c)"
proof -
  have "book_core (c\<lparr>gtd_scan_dirty := True\<rparr>)"
    by (rule core_view_inv[OF core]) (simp_all add: v gtd_index_ok_def)
  then show ?thesis unfolding rebuild_derived_indexes_def by (rule refresh_core)
qed

lemma rebuild_sel [simp]:
  "bids (rebuild_derived_indexes b) = bids b" "asks (rebuild_derived_indexes b) = asks b"
  "stops (rebuild_derived_indexes b) = stops b" "ob_sequence (rebuild_derived_indexes b) = ob_sequence b"
  "last_trade_price (rebuild_derived_indexes b) = last_trade_price b"
  "depth_journal (rebuild_derived_indexes b) = depth_journal b"
  "record_depth (rebuild_derived_indexes b) = record_depth b"
  by (simp_all add: rebuild_derived_indexes_def)

text \<open>The book a snapshot rebuilds in a replica whose book is \<open>c\<close>.\<close>

definition rebuilt_book :: "OrderBook \<Rightarrow> OrderBook \<Rightarrow> OrderBook" where
  "rebuilt_book b c =
     rebuild_derived_indexes (c\<lparr>ob_sequence := ob_sequence b, last_trade_price := last_trade_price b,
       bids := bids b, asks := asks b, stops := stops b, depth_journal := []\<rparr>)"

lemma rebuilt_book_view [simp]:
  "book_view (rebuilt_book b c) = book_view b" "depth_journal (rebuilt_book b c) = []"
  "record_depth (rebuilt_book b c) = record_depth c"
  by (simp_all add: rebuilt_book_def book_view_def)

lemma rebuilt_book_inv: "book_inv b \<Longrightarrow> book_inv (rebuilt_book b c)"
  using rebuild_core[of b "c\<lparr>ob_sequence := ob_sequence b, last_trade_price := last_trade_price b,
       bids := bids b, asks := asks b, stops := stops b, depth_journal := []\<rparr>"]
  by (simp add: book_inv_def rebuilt_book_def settled_def)

lemma strip_ids [simp]: "map sub_client_order_id (map strip_submission order) = map sub_client_order_id order"
  by simp

lemma install_restores:
  fixes s t :: "('l, 'sm) StateMachineStoreInner"
  assumes inv: "core_inv s" and cfg: "SymbolConfig_validate (symbol_config s) = Inr (symbol_config s)"
    and m: "max_submissions t = max_submissions s"
  shows "\<exists>table. table_ok table (map strip_submission (submission_order s)) \<and>
    install_content t (serde_image (to_content s)) =
      t\<lparr>symbol_config := symbol_config s, symbol_locked := symbol_locked s,
        orderbook := rebuilt_book (orderbook s) (orderbook t), sm_events := retain (max_events t) (sm_events s),
        events_evicted := evict (length (sm_events s) - max_events t) (events_evicted s),
        submissions := table, submission_order := map strip_submission (submission_order s),
        submissions_evicted := submissions_evicted s\<rparr>"
proof -
  let ?order = "map strip_submission (submission_order s)"
  let ?table = "foldl (\<lambda>m sub. bt_insert (sub_client_order_id sub) sub m) [] ?order"
  have core: "book_core (orderbook s)" using inv by (simp add: core_inv_def book_inv_def)
  have "distinct (map sub_client_order_id ([] @ ?order))"
    using inv table_okD(2)[of "submissions s" "submission_order s"] by (simp add: core_inv_def comp_def)
  moreover have "table_ok [] []" by (simp add: table_ok_def)
  ultimately have t: "table_ok ?table ?order" using foldl_table[of "[]" ?order "[]"] by simp
  let ?r = "t\<lparr>symbol_config := symbol_config s, symbol_locked := symbol_locked s,
        orderbook := rebuilt_book (orderbook s) (orderbook t), sm_events := sm_events s,
        events_evicted := events_evicted s,
        submissions := ?table, submission_order := ?order,
        submissions_evicted := submissions_evicted s\<rparr>"
  let ?c = "(orderbook t)\<lparr>asks := [], bids := [], stops := [], ob_sequence := ob_sequence (orderbook s),
      last_trade_price := last_trade_price (orderbook s)\<rparr>"
  have "foldl insert_order ?c (bt_values (bids (orderbook s)) @ bt_values (asks (orderbook s)))
      = ?c\<lparr>bids := bids (orderbook s), asks := asks (orderbook s)\<rparr>"
    by (rule rebuilt_sides[OF core]) simp_all
  note sides = this[unfolded foldl_append]
  have "install_content t (serde_image (to_content s)) = trim_submissions (trim_events ?r)"
    using sides cfg by (simp add: install_content_def to_content_def serde_image_def Let_def take_depth_journal_def
        rebuilt_book_def comp_def)
  also have "trim_events ?r = ?r\<lparr>sm_events := retain (max_events t) (sm_events s),
      events_evicted := evict (length (sm_events s) - max_events t) (events_evicted s)\<rparr>"
    by (simp add: trim_events_eq retain_def)
  also have "trim_submissions \<dots> = \<dots>"
    using inv m by (subst trim_submissions.simps) (simp add: core_inv_def)
  finally show ?thesis using t by (intro exI[of _ ?table]) simp
qed

definition restored ::
  "('l, 'sm) StateMachineStoreInner \<Rightarrow> ('l, 'sm) StateMachineStoreInner \<Rightarrow> ('l, 'sm) StateMachineStoreInner" where
  "restored t s =
     (install_content t (serde_image (to_content s)))
       \<lparr>last_applied_log := last_applied_log s, last_membership := last_membership s\<rparr>"

lemma retain_drop_sorted: "sorted_wrt P (map f xs) \<Longrightarrow> sorted_wrt P (map f (retain n xs))"
  by (simp add: retain_def drop_map[symmetric] sorted_wrt_drop)

lemma map_strip_strip: "map strip_submission (map strip_submission xs) = map strip_submission xs"
  by (simp add: strip_submission_def)

lemma restored_ok:
  assumes inv: "machine_inv s" and m: "max_submissions t = max_submissions s"
    and rd: "market_data t \<longrightarrow> record_depth (orderbook t)"
  shows "replica_eq s (restored t s)" "machine_inv (restored t s)"
proof -
  have cfg: "SymbolConfig_validate (symbol_config s) = Inr (symbol_config s)" using inv by (simp add: machine_inv_def)
  obtain table where tb: "table_ok table (map strip_submission (submission_order s))"
    and r: "install_content t (serde_image (to_content s)) =
      t\<lparr>symbol_config := symbol_config s, symbol_locked := symbol_locked s,
        orderbook := rebuilt_book (orderbook s) (orderbook t), sm_events := retain (max_events t) (sm_events s),
        events_evicted := evict (length (sm_events s) - max_events t) (events_evicted s),
        submissions := table, submission_order := map strip_submission (submission_order s),
        submissions_evicted := submissions_evicted s\<rparr>"
    using install_restores[OF machine_core[OF inv] cfg m] by blast
  have ev: "retain (max_events s) (sm_events s) = sm_events s" "length (sm_events s) - max_events s = 0"
    using inv by (simp_all add: machine_inv_def retain_id)
  show "replica_eq s (restored t s)"
    unfolding restored_def r using m ev by (auto simp: replica_eq_def map_strip_strip[unfolded map_map] evict_def)
  show "machine_inv (restored t s)"
    unfolding restored_def r using inv tb m rd rebuilt_book_inv[of "orderbook s" "orderbook t"]
    by (simp add: machine_inv_def retain_drop_sorted length_retain)
qed

end
