(* ===== verification/Byte_Strings.thy ===== *)
theory Byte_Strings
  imports ME_Prelude
begin

text \<open>
  Bytes of the binary formats: \<open>to_le_bytes\<close> and \<open>from_le_bytes\<close> of the unsigned integers and of
  \<open>i128\<close>.  A byte is a natural number below 256; \<open>bytes_ok\<close> is the type invariant of a byte slice.
\<close>

type_synonym bytes = "u8 list"

definition bytes_ok :: "bytes \<Rightarrow> bool" where
  "bytes_ok bs \<longleftrightarrow> (\<forall>x \<in> set bs. x < 256)"

primrec to_le_bytes :: "nat \<Rightarrow> nat \<Rightarrow> bytes" where
  "to_le_bytes 0 n = []"
| "to_le_bytes (Suc k) n = (n mod 256) # to_le_bytes k (n div 256)"

primrec from_le_bytes :: "bytes \<Rightarrow> nat" where
  "from_le_bytes [] = 0"
| "from_le_bytes (x # xs) = x + 256 * from_le_bytes xs"

definition i128_to_le_bytes :: "int \<Rightarrow> bytes" where
  "i128_to_le_bytes x = to_le_bytes 16 (nat (x mod 2 ^ 128))"

definition i128_from_le_bytes :: "bytes \<Rightarrow> int" where
  "i128_from_le_bytes bs = wrap_i128 (int (from_le_bytes bs))"

lemma bytes_ok_simps [simp]:
  "bytes_ok []" "bytes_ok (x # xs) \<longleftrightarrow> x < 256 \<and> bytes_ok xs"
  "bytes_ok (xs @ ys) \<longleftrightarrow> bytes_ok xs \<and> bytes_ok ys"
  by (auto simp: bytes_ok_def)

lemma bytes_ok_sub: "bytes_ok bs \<Longrightarrow> bytes_ok (take n bs)" "bytes_ok bs \<Longrightarrow> bytes_ok (drop n bs)"
  by (auto simp: bytes_ok_def dest: in_set_takeD in_set_dropD)

lemma length_to_le_bytes [simp]: "length (to_le_bytes k n) = k"
  by (induction k arbitrary: n) auto

lemma bytes_ok_to_le_bytes [simp]: "bytes_ok (to_le_bytes k n)"
  by (induction k arbitrary: n) auto

lemma from_to_le_bytes_mod: "from_le_bytes (to_le_bytes k n) = n mod 256 ^ k"
proof (induction k arbitrary: n)
  case 0
  then show ?case by simp
next
  case (Suc k)
  have "n mod (256 * 256 ^ k) = 256 * (n div 256 mod 256 ^ k) + n mod 256"
    by (rule mod_mult2_eq)
  with Suc show ?case by simp
qed

lemma from_to_le_bytes: "n < 256 ^ k \<Longrightarrow> from_le_bytes (to_le_bytes k n) = n"
  by (simp add: from_to_le_bytes_mod)

lemma from_le_bytes_less: "bytes_ok bs \<Longrightarrow> from_le_bytes bs < 256 ^ length bs"
proof (induction bs)
  case (Cons x xs)
  then have "x < 256" and "from_le_bytes xs < 256 ^ length xs" by auto
  then have "from_le_bytes xs + 1 \<le> 256 ^ length xs" by simp
  then have "256 * (from_le_bytes xs + 1) \<le> 256 * 256 ^ length xs" by (rule mult_left_mono) simp
  with \<open>x < 256\<close> show ?case by simp
qed simp

lemma to_from_le_bytes: "bytes_ok bs \<Longrightarrow> to_le_bytes (length bs) (from_le_bytes bs) = bs"
  by (induction bs) auto

lemma length_i128_to_le_bytes [simp]: "length (i128_to_le_bytes x) = 16"
  by (simp add: i128_to_le_bytes_def)

lemma bytes_ok_i128 [simp]: "bytes_ok (i128_to_le_bytes x)"
  by (simp add: i128_to_le_bytes_def)

lemma in_i128_from [simp]: "in_i128 (i128_from_le_bytes bs)"
  by (simp add: i128_from_le_bytes_def)

lemma wrap_i128_mod: "wrap_i128 (x mod 2 ^ 128) = wrap_i128 x"
  by (simp add: wrap_i128_def mod_add_left_eq)

lemma i128_from_to: "in_i128 x \<Longrightarrow> i128_from_le_bytes (i128_to_le_bytes x) = x"
proof -
  assume x: "in_i128 x"
  have "nat (x mod 2 ^ 128) < 256 ^ 16" by (simp add: nat_less_iff)
  then have "i128_from_le_bytes (i128_to_le_bytes x) = wrap_i128 (int (nat (x mod 2 ^ 128)))"
    by (simp add: i128_from_le_bytes_def i128_to_le_bytes_def from_to_le_bytes)
  also have "\<dots> = wrap_i128 (x mod 2 ^ 128)" by simp
  also have "\<dots> = x" by (simp only: wrap_i128_mod wrap_i128_id[OF x])
  finally show ?thesis .
qed

lemma i128_to_from:
  assumes "bytes_ok bs" "length bs = 16"
  shows "i128_to_le_bytes (i128_from_le_bytes bs) = bs"
proof -
  let ?n = "from_le_bytes bs"
  have n: "?n < 256 ^ 16" using from_le_bytes_less[OF assms(1)] assms(2) by simp
  have "wrap_i128 (int ?n) mod 2 ^ 128 = int ?n mod 2 ^ 128"
    unfolding wrap_i128_def by (metis add_diff_cancel_right' mod_diff_left_eq)
  also have "\<dots> = int ?n" using n by simp
  finally have "nat (wrap_i128 (int ?n) mod 2 ^ 128) = ?n" by simp
  then show ?thesis
    using to_from_le_bytes[OF assms(1)] assms(2) by (simp add: i128_to_le_bytes_def i128_from_le_bytes_def)
qed

end
