(* ===== verification/Snapshot_Store.thy ===== *)
theory Snapshot_Store
  imports Replica Byte_Strings
begin

text \<open>
  The durable half of the state machine (\<open>store/state_machine.rs\<close>): the snapshot file format, the
  atomic write of a snapshot file as a sequence of file system operations, building, persisting and
  installing a snapshot, and opening a store from its directory.  The postcard encoder and the CRC
  hasher are parameters; the laws the store relies on are the assumptions of a locale.
\<close>

section \<open>Third-party codec and hasher\<close>

datatype ErrorKind = NotFound | InvalidData | InvalidInput | AlreadyExists | UnexpectedEof | StorageFull | OtherKind

datatype io_error = IoError (io_kind: ErrorKind) (io_message: string)

type_synonym ('l, 'sm) payload = "('l, 'sm) SnapshotMeta \<times> bytes"

text \<open>
  \<open>to_io\<close> hands its output to the writer in chunks and may fail after some of them.  The state of
  the hasher has the type \<open>'h\<close>.
\<close>

record ('l, 'sm, 'h) codec =
  postcard_to_allocvec :: "StateMachineData \<Rightarrow> string + bytes"
  postcard_content :: "bytes \<Rightarrow> string + StateMachineData"
  postcard_to_io :: "('l, 'sm) payload \<Rightarrow> bytes list \<times> string option"
  postcard_payload :: "bytes \<Rightarrow> string + ('l, 'sm) payload"
  crc_hash :: "bytes \<Rightarrow> u32"
  hasher_new :: 'h
  hasher_update :: "'h \<Rightarrow> bytes \<Rightarrow> 'h"
  hasher_finalize :: "'h \<Rightarrow> u32"

section \<open>The file format\<close>

definition SNAPSHOT_MAGIC :: bytes where
  "SNAPSHOT_MAGIC = [77, 82, 70, 83, 78, 65, 80]"

definition SNAPSHOT_VERSION :: u32 where
  "SNAPSHOT_VERSION = 10"

definition SNAPSHOT_HEADER_LEN :: nat where
  "SNAPSHOT_HEADER_LEN = length SNAPSHOT_MAGIC + 4 + 4"

definition encode_content :: "('l, 'sm, 'h) codec \<Rightarrow> StateMachineData \<Rightarrow> io_error + bytes" where
  "encode_content C content =
     (case postcard_to_allocvec C content of Inl e \<Rightarrow> Inl (IoError InvalidData e) | Inr data \<Rightarrow> Inr data)"

definition decode_content :: "('l, 'sm, 'h) codec \<Rightarrow> bytes \<Rightarrow> io_error + StateMachineData" where
  "decode_content C data =
     (case postcard_content C data of
        Inl e \<Rightarrow> Inl (IoError InvalidData (''corrupt snapshot: '' @ e))
      | Inr content \<Rightarrow> Inr content)"

definition decode_snapshot_bytes ::
  "('l, 'sm, 'h) codec \<Rightarrow> bytes \<Rightarrow> string \<Rightarrow> io_error + ('l, 'sm) payload" where
  "decode_snapshot_bytes C bs source =
     (if length bs < SNAPSHOT_HEADER_LEN \<or> take (length SNAPSHOT_MAGIC) bs \<noteq> SNAPSHOT_MAGIC
      then Inl (IoError InvalidData (source @ '' is not a snapshot file''))
      else
        let version = from_le_bytes (take 4 (drop (length SNAPSHOT_MAGIC) bs))
        in if version \<noteq> SNAPSHOT_VERSION
           then Inl (IoError InvalidData (source @ '' has unsupported snapshot version '' @ show_nat version))
           else
             let expected_crc = from_le_bytes (take 4 (drop (length SNAPSHOT_MAGIC + 4) bs))
             in if crc_hash C (drop SNAPSHOT_HEADER_LEN bs) \<noteq> expected_crc
                then Inl (IoError InvalidData (source @ '' has a snapshot checksum mismatch''))
                else (case postcard_payload C (drop SNAPSHOT_HEADER_LEN bs) of
                        Inl e \<Rightarrow> Inl (IoError InvalidData (''corrupt snapshot: '' @ e))
                      | Inr payload \<Rightarrow> Inr payload))"

definition read_snapshot_bytes ::
  "('l, 'sm, 'h) codec \<Rightarrow> bytes \<Rightarrow> io_error + ('l, 'sm) payload" where
  "read_snapshot_bytes C bs = decode_snapshot_bytes C bs ''snapshot bytes''"

section \<open>The snapshot directory\<close>

text \<open>
  The two files of the directory.  \<open>dk_current\<close> is what a reader of \<open>current.snap\<close> sees;
  \<open>dk_stable\<close> is the directory entry as of the last directory sync, and \<open>dk_flushed\<close> tells whether
  the bytes behind \<open>dk_current\<close> were synced.  The handle on the temporary file has a position.
  \<open>dk_path\<close> is the name of the directory, \<open>dk_fault\<close> the error every read gives, if any.
\<close>

record disk =
  dk_path :: string
  dk_current :: "bytes option"
  dk_stable :: "bytes option"
  dk_flushed :: bool
  dk_tmp :: bytes
  dk_tmp_pos :: nat
  dk_tmp_flushed :: bool
  dk_fault :: "io_error option"

datatype fs_op = CreateTmp | WriteAll bytes | SeekTo nat | SyncAll | RenameTmp | SyncDir

definition overwrite :: "bytes \<Rightarrow> nat \<Rightarrow> bytes \<Rightarrow> bytes" where
  "overwrite file pos buf = take pos file @ buf @ drop (pos + length buf) file"

primrec fs_step :: "disk \<Rightarrow> fs_op \<Rightarrow> disk" where
  "fs_step d CreateTmp = d\<lparr>dk_tmp := [], dk_tmp_pos := 0, dk_tmp_flushed := False\<rparr>"
| "fs_step d (WriteAll buf) =
     d\<lparr>dk_tmp := overwrite (dk_tmp d) (dk_tmp_pos d) buf, dk_tmp_pos := dk_tmp_pos d + length buf,
       dk_tmp_flushed := False\<rparr>"
| "fs_step d (SeekTo pos) = d\<lparr>dk_tmp_pos := pos\<rparr>"
| "fs_step d SyncAll = d\<lparr>dk_tmp_flushed := True\<rparr>"
| "fs_step d RenameTmp = d\<lparr>dk_current := Some (dk_tmp d), dk_flushed := dk_tmp_flushed d\<rparr>"
| "fs_step d SyncDir = d\<lparr>dk_stable := dk_current d\<rparr>"

text \<open>
  What a crash leaves: the entry of the last directory sync or the entry a reader saw; the bytes of
  a file that was not synced can be anything, and so can the temporary file.
\<close>

inductive crash :: "disk \<Rightarrow> disk \<Rightarrow> bool" where
  crash_stable: "dk_current d' = dk_stable d \<Longrightarrow> dk_stable d' = dk_stable d \<Longrightarrow> dk_flushed d'
     \<Longrightarrow> dk_fault d' = None \<Longrightarrow> dk_path d' = dk_path d \<Longrightarrow> crash d d'"
| crash_renamed: "dk_flushed d \<Longrightarrow> dk_current d' = dk_current d \<Longrightarrow> dk_stable d' = dk_current d
     \<Longrightarrow> dk_flushed d' \<Longrightarrow> dk_fault d' = None \<Longrightarrow> dk_path d' = dk_path d \<Longrightarrow> crash d d'"
| crash_torn: "\<not> dk_flushed d \<Longrightarrow> dk_current d' = Some bs \<Longrightarrow> dk_stable d' = Some bs
     \<Longrightarrow> dk_flushed d' \<Longrightarrow> dk_fault d' = None \<Longrightarrow> dk_path d' = dk_path d \<Longrightarrow> crash d d'"

inductive_simps crash_iff: "crash d d'"

definition fs_read :: "disk \<Rightarrow> io_error + bytes" where
  "fs_read d =
     (case dk_fault d of
        Some e \<Rightarrow> Inl e
      | None \<Rightarrow> (case dk_current d of None \<Rightarrow> Inl (IoError NotFound '''') | Some bs \<Rightarrow> Inr bs))"

definition SNAPSHOT_FILE :: string where
  "SNAPSHOT_FILE = ''current.snap''"

definition read_snapshot_file ::
  "('l, 'sm, 'h) codec \<Rightarrow> disk \<Rightarrow> io_error + ('l, 'sm) payload option" where
  "read_snapshot_file C d =
     (case fs_read d of
        Inr bs \<Rightarrow> (case decode_snapshot_bytes C bs (dk_path d @ ''/'' @ SNAPSHOT_FILE) of Inl e \<Rightarrow> Inl e | Inr p \<Rightarrow> Inr (Some p))
      | Inl e \<Rightarrow> if io_kind e = NotFound then Inr None else Inl e)"

text \<open>\<open>CrcWriter\<close>: every accepted buffer goes to the file and into the hasher.\<close>

record 'h CrcWriter =
  cw_ops :: "fs_op list"
  cw_hasher :: 'h

definition CrcWriter_new :: "('l, 'sm, 'h) codec \<Rightarrow> fs_op list \<Rightarrow> 'h CrcWriter" where
  "CrcWriter_new C ops = \<lparr>cw_ops = ops, cw_hasher = hasher_new C\<rparr>"

definition CrcWriter_write :: "('l, 'sm, 'h) codec \<Rightarrow> 'h CrcWriter \<Rightarrow> bytes \<Rightarrow> 'h CrcWriter" where
  "CrcWriter_write C w buf =
     \<lparr>cw_ops = cw_ops w @ [WriteAll buf], cw_hasher = hasher_update C (cw_hasher w) buf\<rparr>"

definition CrcWriter_finish :: "('l, 'sm, 'h) codec \<Rightarrow> 'h CrcWriter \<Rightarrow> fs_op list \<times> u32" where
  "CrcWriter_finish C w = (cw_ops w, hasher_finalize C (cw_hasher w))"

text \<open>The operations \<open>write_snapshot_file\<close> performs, in order, and its result.\<close>

definition write_ops ::
  "('l, 'sm, 'h) codec \<Rightarrow> ('l, 'sm) SnapshotMeta \<Rightarrow> bytes \<Rightarrow> fs_op list \<times> io_error option" where
  "write_ops C meta data =
     (let ops = [CreateTmp, WriteAll SNAPSHOT_MAGIC, WriteAll (to_le_bytes 4 SNAPSHOT_VERSION),
                 WriteAll (to_le_bytes 4 0)];
          (chunks, failure) = postcard_to_io C (meta, data);
          writer = foldl (CrcWriter_write C) (CrcWriter_new C ops) chunks
      in case failure of
           Some e \<Rightarrow> (cw_ops writer, Some (IoError InvalidData e))
         | None \<Rightarrow>
             let (ops, crc) = CrcWriter_finish C writer
             in (ops @ [SeekTo (length SNAPSHOT_MAGIC + 4), WriteAll (to_le_bytes 4 crc), SyncAll,
                        RenameTmp, SyncDir], None))"

definition write_snapshot_file ::
  "('l, 'sm, 'h) codec \<Rightarrow> disk \<Rightarrow> ('l, 'sm) SnapshotMeta \<Rightarrow> bytes \<Rightarrow> disk \<times> io_error option" where
  "write_snapshot_file C d meta data =
     (let (ops, result) = write_ops C meta data in (foldl fs_step d ops, result))"

section \<open>The store\<close>

record ('l, 'sm) StateMachineStore =
  inner :: "('l, 'sm) StateMachineStoreInner"
  dir :: disk
  events_changed :: "EventId option"

definition open_with_sinks_and_retention ::
  "('l, 'm, 'sm) openraft \<Rightarrow> ('l, 'sm, 'h) codec \<Rightarrow> disk \<Rightarrow> bool \<Rightarrow> nat
    \<Rightarrow> io_error + ('l, 'sm) StateMachineStore" where
  "open_with_sinks_and_retention raft C d market max_ev =
     (let i = (Inner_default raft)\<lparr>max_events := max_ev\<rparr>;
          loaded = (case read_snapshot_file C d of
             Inl e \<Rightarrow> Inl e
           | Inr None \<Rightarrow> Inr i
           | Inr (Some (meta, data)) \<Rightarrow>
               (case decode_content C data of
                  Inl e \<Rightarrow> Inl e
                | Inr content \<Rightarrow>
                    Inr ((install_content i content)
                      \<lparr>last_applied_log := meta_last_log_id meta,
                       last_membership := meta_last_membership meta,
                       current_snapshot := Some \<lparr>ss_meta = meta, ss_data = data\<rparr>\<rparr>)))
      in case loaded of
           Inl e \<Rightarrow> Inl e
         | Inr i \<Rightarrow>
             let i = (if market then i\<lparr>orderbook := enable_depth_journal (orderbook i)\<rparr> else i);
                 i = i\<lparr>market_data := market\<rparr>
             in Inr \<lparr>inner = i, dir = d, events_changed = last_event_id i\<rparr>)"

definition open_with_sinks ::
  "('l, 'm, 'sm) openraft \<Rightarrow> ('l, 'sm, 'h) codec \<Rightarrow> disk \<Rightarrow> bool \<Rightarrow> io_error + ('l, 'sm) StateMachineStore" where
  "open_with_sinks raft C d market = open_with_sinks_and_retention raft C d market DEFAULT_MAX_EVENTS"

definition snapshot_image :: "('l, 'sm) StateMachineStoreInner \<Rightarrow> ('l, 'sm) SnapshotMeta \<times> StateMachineData" where
  "snapshot_image i =
     (\<lparr>meta_last_log_id = last_applied_log i, meta_last_membership = last_membership i\<rparr>, to_content i)"

definition persist_snapshot ::
  "('l, 'sm, 'h) codec \<Rightarrow> ('l, 'sm) StateMachineStore
    \<Rightarrow> ('l, 'sm) StateMachineStore \<times> (io_error + ('l, 'sm) SnapshotMeta)" where
  "persist_snapshot C st =
     (let (meta, content) = snapshot_image (inner st)
      in case encode_content C content of
           Inl e \<Rightarrow> (st, Inl e)
         | Inr data \<Rightarrow>
             (case write_snapshot_file C (dir st) meta data of
                (d, Some e) \<Rightarrow> (st\<lparr>dir := d\<rparr>, Inl e)
              | (d, None) \<Rightarrow> (st\<lparr>dir := d\<rparr>, Inr meta)))"

text \<open>
  \<open>build_snapshot\<close> captures the image and the encoded bytes under the lock and publishes them later;
  entries applied in between change only the state the lock protects, so the two halves are separate
  steps.
\<close>

definition build_write ::
  "('l, 'sm, 'h) codec \<Rightarrow> disk \<Rightarrow> ('l, 'sm) SnapshotMeta \<times> StateMachineData
    \<Rightarrow> disk \<times> (io_error + ('l, 'sm) StoredSnapshot)" where
  "build_write C d captured =
     (case encode_content C (snd captured) of
        Inl e \<Rightarrow> (d, Inl e)
      | Inr data \<Rightarrow>
          (case write_snapshot_file C d (fst captured) data of
             (d, Some e) \<Rightarrow> (d, Inl e)
           | (d, None) \<Rightarrow> (d, Inr \<lparr>ss_meta = fst captured, ss_data = data\<rparr>)))"

definition build_publish ::
  "('l, 'sm) StateMachineStoreInner \<Rightarrow> ('l, 'sm) StoredSnapshot \<Rightarrow> ('l, 'sm) StateMachineStoreInner" where
  "build_publish i snapshot = i\<lparr>current_snapshot := Some snapshot\<rparr>"

definition build_snapshot ::
  "('l, 'sm, 'h) codec \<Rightarrow> ('l, 'sm) StateMachineStore
    \<Rightarrow> ('l, 'sm) StateMachineStore \<times> (io_error + ('l, 'sm) StoredSnapshot)" where
  "build_snapshot C st =
     (case build_write C (dir st) (snapshot_image (inner st)) of
        (d, Inl e) \<Rightarrow> (st\<lparr>dir := d\<rparr>, Inl e)
      | (d, Inr snapshot) \<Rightarrow> (st\<lparr>dir := d, inner := build_publish (inner st) snapshot\<rparr>, Inr snapshot))"

definition applied_state :: "('l, 'sm) StateMachineStore \<Rightarrow> 'l option \<times> 'sm" where
  "applied_state st = (last_applied_log (inner st), last_membership (inner st))"

definition install_snapshot ::
  "('l, 'sm, 'h) codec \<Rightarrow> ('l, 'sm) StateMachineStore \<Rightarrow> ('l, 'sm) SnapshotMeta \<Rightarrow> bytes
    \<Rightarrow> ('l, 'sm) StateMachineStore \<times> io_error option" where
  "install_snapshot C st meta data =
     (case decode_content C data of
        Inl e \<Rightarrow> (st, Some e)
      | Inr content \<Rightarrow>
          (case write_snapshot_file C (dir st) meta data of
             (d, Some e) \<Rightarrow> (st\<lparr>dir := d\<rparr>, Some e)
           | (d, None) \<Rightarrow>
               let i = (inner st)\<lparr>last_applied_log := meta_last_log_id meta,
                                  last_membership := meta_last_membership meta\<rparr>;
                   i = install_content i content;
                   i = i\<lparr>current_snapshot := Some \<lparr>ss_meta = meta, ss_data = data\<rparr>\<rparr>;
                   (changed, _) = notify_events (events_changed st) (last_event_id i)
               in (st\<lparr>dir := d, inner := i, events_changed := changed\<rparr>, None)))"

definition get_current_snapshot :: "('l, 'sm) StateMachineStore \<Rightarrow> ('l, 'sm) StoredSnapshot option" where
  "get_current_snapshot st = current_snapshot (inner st)"

section \<open>What the store relies on\<close>

locale snapshot_codec =
  fixes C :: "('l, 'sm, 'h) codec"
  assumes crc_u32: "crc_hash C bs < 2 ^ 32"
    and hasher_streams: "hasher_finalize C (foldl (hasher_update C) (hasher_new C) chunks) = crc_hash C (concat chunks)"
    and content_law: "postcard_to_allocvec C content = Inr data \<Longrightarrow> postcard_content C data = Inr (serde_image content)"
    and payload_law: "postcard_to_io C p = (chunks, None) \<Longrightarrow> postcard_payload C (concat chunks) = Inr p"

section \<open>The bytes of a snapshot file\<close>

definition snapshot_bytes :: "('l, 'sm, 'h) codec \<Rightarrow> bytes \<Rightarrow> bytes" where
  "snapshot_bytes C body =
     SNAPSHOT_MAGIC @ to_le_bytes 4 SNAPSHOT_VERSION @ to_le_bytes 4 (crc_hash C body) @ body"

lemma writer_fold:
  "foldl (CrcWriter_write C) w chunks =
     \<lparr>cw_ops = cw_ops w @ map WriteAll chunks, cw_hasher = foldl (hasher_update C) (cw_hasher w) chunks\<rparr>"
  by (induction chunks arbitrary: w) (simp_all add: CrcWriter_write_def)

lemma overwrite_end: "overwrite file (length file) buf = file @ buf"
  by (simp add: overwrite_def)

lemma fold_writes:
  "dk_tmp_pos d = length (dk_tmp d) \<Longrightarrow> \<not> dk_tmp_flushed d \<Longrightarrow>
   foldl fs_step d (map WriteAll chunks) =
     d\<lparr>dk_tmp := dk_tmp d @ concat chunks, dk_tmp_pos := length (dk_tmp d @ concat chunks), dk_tmp_flushed := False\<rparr>"
  by (induction chunks arbitrary: d) (simp_all add: overwrite_end)

definition body_ops :: "('l, 'sm, 'h) codec \<Rightarrow> bytes list \<Rightarrow> fs_op list" where
  "body_ops C chunks =
     [CreateTmp, WriteAll SNAPSHOT_MAGIC, WriteAll (to_le_bytes 4 SNAPSHOT_VERSION), WriteAll (to_le_bytes 4 0)]
     @ map WriteAll chunks"

lemma magic_length [simp]: "length SNAPSHOT_MAGIC = 7"
  by (simp add: SNAPSHOT_MAGIC_def)

lemma write_ops_eq:
  "write_ops C meta data =
     (case postcard_to_io C (meta, data) of
        (chunks, Some e) \<Rightarrow> (body_ops C chunks, Some (IoError InvalidData e))
      | (chunks, None) \<Rightarrow>
          ((body_ops C chunks @ [SeekTo 11, WriteAll (to_le_bytes 4 (hasher_finalize C (foldl (hasher_update C) (hasher_new C) chunks))), SyncAll])
             @ [RenameTmp, SyncDir], None))"
  by (simp add: write_ops_def body_ops_def writer_fold CrcWriter_new_def CrcWriter_finish_def Let_def
      split: prod.split option.split)

lemma overwrite_middle:
  "n = length pre \<Longrightarrow> length buf = length old \<Longrightarrow> overwrite (pre @ old @ post) n buf = pre @ buf @ post"
  by (simp add: overwrite_def)

lemma body_written:
  "foldl fs_step d (body_ops C chunks) =
     d\<lparr>dk_tmp := SNAPSHOT_MAGIC @ to_le_bytes 4 SNAPSHOT_VERSION @ to_le_bytes 4 0 @ concat chunks,
       dk_tmp_pos := 15 + length (concat chunks), dk_tmp_flushed := False\<rparr>"
proof -
  let ?d = "d\<lparr>dk_tmp := SNAPSHOT_MAGIC @ to_le_bytes 4 SNAPSHOT_VERSION @ to_le_bytes 4 0, dk_tmp_pos := 15, dk_tmp_flushed := False\<rparr>"
  have h: "foldl fs_step d [CreateTmp, WriteAll SNAPSHOT_MAGIC, WriteAll (to_le_bytes 4 SNAPSHOT_VERSION), WriteAll (to_le_bytes 4 0)] = ?d"
    by (simp add: overwrite_def)
  have l: "dk_tmp_pos ?d = length (dk_tmp ?d)" by simp
  show ?thesis
    unfolding body_ops_def foldl_append h using fold_writes[OF l] by simp
qed

context snapshot_codec
begin

lemma file_written:
  assumes "postcard_to_io C (meta, data) = (chunks, None)"
  shows "write_snapshot_file C d meta data =
    (d\<lparr>dk_tmp := snapshot_bytes C (concat chunks), dk_tmp_pos := 15, dk_tmp_flushed := True,
       dk_current := Some (snapshot_bytes C (concat chunks)), dk_flushed := True,
       dk_stable := Some (snapshot_bytes C (concat chunks))\<rparr>, None)"
proof -
  let ?crc = "to_le_bytes 4 (crc_hash C (concat chunks))"
  have "overwrite (SNAPSHOT_MAGIC @ to_le_bytes 4 SNAPSHOT_VERSION @ to_le_bytes 4 0 @ concat chunks) 11 ?crc
      = snapshot_bytes C (concat chunks)"
    using overwrite_middle[of 11 "SNAPSHOT_MAGIC @ to_le_bytes 4 SNAPSHOT_VERSION" ?crc "to_le_bytes 4 0" "concat chunks"]
    by (simp add: snapshot_bytes_def)
  then show ?thesis
    using assms by (simp add: write_snapshot_file_def write_ops_eq body_written hasher_streams)
qed

lemma decode_written:
  assumes "postcard_to_io C p = (chunks, None)"
  shows "decode_snapshot_bytes C (snapshot_bytes C (concat chunks)) source = Inr p"
proof -
  have "from_le_bytes (to_le_bytes 4 (crc_hash C (concat chunks))) = crc_hash C (concat chunks)"
    using crc_u32[of "concat chunks"] by (intro from_to_le_bytes) simp
  moreover have "from_le_bytes (to_le_bytes 4 SNAPSHOT_VERSION) = SNAPSHOT_VERSION"
    by (intro from_to_le_bytes) (simp add: SNAPSHOT_VERSION_def)
  ultimately show ?thesis
    using payload_law[OF assms]
    by (simp add: decode_snapshot_bytes_def snapshot_bytes_def SNAPSHOT_HEADER_LEN_def Let_def)
qed

end

section \<open>Crash safety of the write\<close>

primrec on_tmp :: "fs_op \<Rightarrow> bool" where
  "on_tmp CreateTmp \<longleftrightarrow> True"
| "on_tmp (WriteAll buf) \<longleftrightarrow> True"
| "on_tmp (SeekTo pos) \<longleftrightarrow> True"
| "on_tmp SyncAll \<longleftrightarrow> True"
| "on_tmp RenameTmp \<longleftrightarrow> False"
| "on_tmp SyncDir \<longleftrightarrow> False"

definition same_entry :: "disk \<Rightarrow> disk \<Rightarrow> bool" where
  "same_entry d d' \<longleftrightarrow> dk_current d' = dk_current d \<and> dk_stable d' = dk_stable d \<and> dk_flushed d' = dk_flushed d
     \<and> dk_fault d' = dk_fault d \<and> dk_path d' = dk_path d"

lemma tmp_ops_same_entry: "list_all on_tmp ops \<Longrightarrow> same_entry d (foldl fs_step d ops)"
proof (induction ops arbitrary: d)
  case (Cons op ops)
  then have "same_entry d (fs_step d op)" by (cases op) (simp_all add: same_entry_def)
  then show ?case using Cons by (fastforce simp: same_entry_def)
qed (simp add: same_entry_def)

definition disk_settled :: "disk \<Rightarrow> bool" where
  "disk_settled d \<longleftrightarrow> dk_stable d = dk_current d \<and> dk_flushed d \<and> dk_fault d = None"

lemma read_cong:
  assumes "dk_current d = dk_current d'" "dk_fault d = dk_fault d'" "dk_path d = dk_path d'"
  shows "read_snapshot_file C d = read_snapshot_file C d'"
  unfolding read_snapshot_file_def fs_read_def assms ..

lemma body_on_tmp: "list_all on_tmp (body_ops C chunks)"
  by (simp add: body_ops_def list_all_iff)

lemma crash_same_entry:
  assumes "disk_settled d" "same_entry d e" "crash e d'"
  shows "disk_settled d' \<and> read_snapshot_file C d' = read_snapshot_file C d"
  using assms by (auto simp: crash_iff disk_settled_def same_entry_def intro!: read_cong)

lemma list_all_take: "list_all P xs \<Longrightarrow> list_all P (take n xs)"
  by (auto simp: list_all_iff dest: in_set_takeD)

lemma take_tail2: "take n [a, b] = [] \<or> take n [a, b] = [a] \<or> take n [a, b] = [a, b]"
  by (cases n; cases "n - 1") simp_all

context snapshot_codec
begin

lemma read_written:
  assumes "postcard_to_io C p = (chunks, None)" "dk_current d = Some (snapshot_bytes C (concat chunks))" "dk_fault d = None"
  shows "read_snapshot_file C d = Inr (Some p)"
  using assms by (simp add: read_snapshot_file_def fs_read_def decode_written)

lemma write_crash_safe:
  assumes d: "disk_settled d" and cr: "crash (foldl fs_step d (take n (fst (write_ops C meta data)))) d'"
  shows "disk_settled d' \<and> (read_snapshot_file C d' = read_snapshot_file C d
    \<or> read_snapshot_file C d' = Inr (Some (meta, data)))"
proof -
  obtain chunks failure where io: "postcard_to_io C (meta, data) = (chunks, failure)" by fastforce
  show ?thesis
  proof (cases failure)
    case (Some e)
    have "list_all on_tmp (take n (body_ops C chunks))" by (rule list_all_take[OF body_on_tmp])
    from crash_same_entry[OF d tmp_ops_same_entry[OF this], where C = C] cr show ?thesis
      using io Some by (simp add: write_ops_eq)
  next
    case None
    let ?f = "snapshot_bytes C (concat chunks)"
    let ?pre = "body_ops C chunks @ [SeekTo 11, WriteAll (to_le_bytes 4 (hasher_finalize C (foldl (hasher_update C) (hasher_new C) chunks))), SyncAll]"
    have ops: "fst (write_ops C meta data) = ?pre @ [RenameTmp, SyncDir]" using io None by (simp add: write_ops_eq)
    have pre: "list_all on_tmp (take n ?pre)" for n
    proof (rule list_all_take)
      show "list_all on_tmp ?pre" using body_on_tmp[of C chunks] by simp
    qed
    consider (early) "take n (fst (write_ops C meta data)) = take n ?pre"
      | (renamed) "take n (fst (write_ops C meta data)) = ?pre @ [RenameTmp]"
      | (done1) "take n (fst (write_ops C meta data)) = ?pre @ [RenameTmp, SyncDir]"
      unfolding ops take_append using take_tail2[of "n - length ?pre" RenameTmp SyncDir]
      by (cases "n \<le> length ?pre") auto
    then show ?thesis
    proof cases
      case early
      then show ?thesis using crash_same_entry[OF d tmp_ops_same_entry[OF pre], where C = C] cr by simp
    next
      case renamed
      define e where "e = foldl fs_step d (?pre @ [RenameTmp])"
      have w: "fs_step e SyncDir = fst (write_snapshot_file C d meta data)"
        by (simp add: e_def write_snapshot_file_def split_beta ops)
      have e: "dk_current e = Some ?f \<and> dk_flushed e \<and> dk_fault e = None \<and> dk_path e = dk_path d"
        using w d file_written[OF io[unfolded None], of d] by (auto simp: disk_settled_def dest!: arg_cong[of _ _ "\<lambda>x. (dk_current x, dk_flushed x, dk_fault x, dk_path x)"])
      have s: "dk_stable e = dk_current d"
        using tmp_ops_same_entry[of ?pre d] pre[of "length ?pre"] d by (simp add: e_def same_entry_def disk_settled_def)
      from cr[unfolded renamed, folded e_def] e s d show ?thesis
        using read_written[OF io[unfolded None], of d'] read_cong[of d' d C] by (auto simp: crash_iff disk_settled_def)
    next
      case done1
      have "foldl fs_step d (?pre @ [RenameTmp, SyncDir]) = fst (write_snapshot_file C d meta data)"
        by (simp add: write_snapshot_file_def split_beta ops)
      then have "crash (fst (write_snapshot_file C d meta data)) d'" using cr unfolding done1 by (simp only:)
      then show ?thesis
        unfolding file_written[OF io[unfolded None]] fst_conv
        using read_written[OF io[unfolded None], of d'] d by (auto simp: crash_iff disk_settled_def)
    qed
  qed
qed

end

section \<open>Recovery\<close>

definition image_meta :: "('l, 'sm) StateMachineStoreInner \<Rightarrow> ('l, 'sm) SnapshotMeta" where
  "image_meta s = \<lparr>meta_last_log_id = last_applied_log s, meta_last_membership = last_membership s\<rparr>"

definition holds ::
  "('l, 'sm, 'h) codec \<Rightarrow> disk \<Rightarrow> ('l, 'sm) StateMachineStoreInner \<Rightarrow> bool" where
  "holds C d s \<longleftrightarrow> (\<exists>data. read_snapshot_file C d = Inr (Some (image_meta s, data))
     \<and> decode_content C data = Inr (serde_image (to_content s)))"

lemma image_meta_sel [simp]:
  "meta_last_log_id (image_meta s) = last_applied_log s" "meta_last_membership (image_meta s) = last_membership s"
  by (simp_all add: image_meta_def)

lemma inner_default_book [simp]:
  "record_depth (orderbook (Inner_default raft)) = False" "max_submissions (Inner_default raft) = MAX_SUBMISSIONS"
  "market_data (Inner_default raft) = False"
  by (simp_all add: Inner_default_def OrderBook_new_def)

lemma replica_local [simp]:
  "replica_eq s (t\<lparr>current_snapshot := c\<rparr>) = replica_eq s t"
  "replica_eq s (t\<lparr>market_data := m\<rparr>) = replica_eq s t"
  "book_view b = book_view (orderbook t) \<Longrightarrow> replica_eq s (t\<lparr>orderbook := b\<rparr>) = replica_eq s t"
  by (simp_all add: replica_eq_def)

lemma enable_journal_inv: "book_inv (enable_depth_journal b) = book_inv b"
  using core_cong[of "b\<lparr>record_depth := True\<rparr>" b] by (simp add: enable_depth_journal_def book_inv_def settled_def)

lemma machine_inv_market:
  assumes "machine_inv t" "depth_journal (orderbook t) = []"
  shows "machine_inv (t\<lparr>orderbook := enable_depth_journal (orderbook t), market_data := True\<rparr>)"
    "machine_inv (t\<lparr>market_data := False\<rparr>)"
  using assms by (simp_all add: machine_inv_def enable_journal_inv) (simp add: enable_depth_journal_def)

lemma machine_inv_snapshot [simp]: "machine_inv (t\<lparr>current_snapshot := c\<rparr>) = machine_inv t"
  by (simp add: machine_inv_def)

lemma restored_journal: "book_core (orderbook s) \<Longrightarrow> core_inv s \<Longrightarrow>
    SymbolConfig_validate (symbol_config s) = Inr (symbol_config s) \<Longrightarrow> max_submissions t = max_submissions s \<Longrightarrow>
    depth_journal (orderbook (restored t s)) = [] \<and> sm_events (restored t s) = retain (max_events t) (sm_events s)"
  using install_restores[of s t] by (auto simp: restored_def)

lemma open_restores:
  fixes s :: "('l, 'sm) StateMachineStoreInner"
  assumes h: "holds C d s" and inv: "machine_inv s" and m: "max_submissions s = MAX_SUBMISSIONS"
  shows "\<exists>st. open_with_sinks_and_retention raft C d market n = Inr st \<and> dir st = d \<and> replica_eq s (inner st)
    \<and> machine_inv (inner st) \<and> sm_events (inner st) = retain n (sm_events s)"
proof -
  from h obtain data where r: "read_snapshot_file C d = Inr (Some (image_meta s, data))"
    and c: "decode_content C data = Inr (serde_image (to_content s))" unfolding holds_def by blast
  let ?i = "(Inner_default raft)\<lparr>max_events := n\<rparr>"
  let ?t = "(restored ?i s)\<lparr>current_snapshot := Some \<lparr>ss_meta = image_meta s, ss_data = data\<rparr>\<rparr>"
  have ms: "max_submissions ?i = max_submissions s" using m by simp
  note ok = restored_ok[OF inv ms]
  have j: "depth_journal (orderbook (restored ?i s)) = []" "sm_events (restored ?i s) = retain n (sm_events s)"
    using restored_journal[OF _ machine_core[OF inv] _ ms] inv by (simp_all add: machine_inv_def book_inv_def)
  have t: "replica_eq s ?t" "machine_inv ?t" "depth_journal (orderbook ?t) = []" using ok j by simp_all
  show ?thesis
    using r c t j machine_inv_market[OF t(2,3)]
    by (cases market) (simp_all add: open_with_sinks_and_retention_def Let_def restored_def enable_depth_journal_def)
qed

lemma open_fresh:
  assumes "dk_current d = None" "dk_fault d = None"
  shows "open_with_sinks_and_retention raft C d market n =
    Inr \<lparr>inner = (Inner_default raft)\<lparr>max_events := n, orderbook := OrderBook_new\<lparr>record_depth := market\<rparr>, market_data := market\<rparr>,
         dir = d, events_changed = None\<rparr>"
  using assms
  by (simp add: open_with_sinks_and_retention_def read_snapshot_file_def fs_read_def Let_def Inner_default_def
      enable_depth_journal_def last_event_id_def OrderBook_new_def vec_last_def)

lemma fresh_inv:
  "machine_inv ((Inner_default raft)\<lparr>max_events := n, orderbook := OrderBook_new\<lparr>record_depth := market\<rparr>, market_data := market\<rparr>)"
proof -
  have "book_inv (OrderBook_new\<lparr>record_depth := market\<rparr>)"
    by (simp add: OrderBook_new_def book_inv_def book_core_def settled_def side_ok_def uncrossed_def seqs_ok_def gtd_index_ok_def
        side_seqs_def book_orders_def earliest_of_def gtd_times_def)
  moreover have "SymbolConfig_validate SymbolConfig_default = Inr SymbolConfig_default" by code_simp
  ultimately show ?thesis by (simp add: machine_inv_def Inner_default_def table_ok_def OrderBook_new_def)
qed

context snapshot_codec
begin

lemma content_decoded: "encode_content C content = Inr data \<Longrightarrow> decode_content C data = Inr (serde_image content)"
  using content_law by (auto simp: encode_content_def decode_content_def split: sum.splits)

lemma write_holds:
  assumes "encode_content C (to_content s) = Inr data" "write_snapshot_file C d (image_meta s) data = (d', None)"
    and "dk_fault d = None"
  shows "holds C d' s" "disk_settled d'"
proof -
  obtain chunks where io: "postcard_to_io C (image_meta s, data) = (chunks, None)"
    using assms(2) by (auto simp: write_snapshot_file_def write_ops_eq split: prod.splits option.splits)
  have d': "d' = fst (write_snapshot_file C d (image_meta s) data)" using assms(2) by simp
  show "holds C d' s"
    using read_written[OF io, of d'] content_decoded[OF assms(1)] assms(3)
    unfolding holds_def d' file_written[OF io] by simp
  show "disk_settled d'" using assms(3) unfolding d' file_written[OF io] by (simp add: disk_settled_def)
qed

lemma persist_holds:
  assumes "persist_snapshot C st = (st', Inr meta)" "dk_fault (dir st) = None"
  shows "holds C (dir st') (inner st)" "disk_settled (dir st')" "inner st' = inner st"
  using assms write_holds
  by (auto simp: persist_snapshot_def snapshot_image_def image_meta_def[symmetric] split: sum.splits prod.splits option.splits)

lemma persist_crash:
  assumes h: "holds C d s0" "disk_settled d" and enc: "encode_content C (to_content s) = Inr data"
    and cr: "crash (foldl fs_step d (take n (fst (write_ops C (image_meta s) data)))) d'"
  shows "holds C d' s0 \<or> holds C d' s"
  using write_crash_safe[OF h(2) cr] h(1) content_decoded[OF enc] unfolding holds_def by auto

lemma build_holds:
  assumes "build_snapshot C st = (st', Inr snapshot)" "dk_fault (dir st) = None"
  shows "holds C (dir st') (inner st)" "get_current_snapshot st' = Some snapshot"
    "ss_meta snapshot = image_meta (inner st)" "decode_content C (ss_data snapshot) = Inr (serde_image (to_content (inner st)))"
  using assms write_holds content_decoded
  by (auto simp: build_snapshot_def build_write_def build_publish_def snapshot_image_def image_meta_def[symmetric]
      get_current_snapshot_def split: sum.splits prod.splits option.splits)

end

lemma install_snapshot_error:
  assumes "install_snapshot C st meta data = (st', Some e)"
  shows "inner st' = inner st" "events_changed st' = events_changed st"
  using assms by (auto simp: install_snapshot_def Let_def split: sum.splits prod.splits option.splits)

lemma install_snapshot_replica:
  assumes ins: "install_snapshot C st (image_meta s) data = (st', None)"
    and c: "decode_content C data = Inr (serde_image (to_content s))"
    and inv: "machine_inv s" "machine_inv (inner st)" and m: "max_submissions (inner st) = max_submissions s"
  shows "replica_eq s (inner st')" "machine_inv (inner st')" "events_changed st' = last_event_id (inner st')"
proof -
  let ?t = "(inner st)\<lparr>last_applied_log := last_applied_log s, last_membership := last_membership s\<rparr>"
  have t: "max_submissions ?t = max_submissions s" "market_data ?t \<longrightarrow> record_depth (orderbook ?t)"
    using m inv(2) by (simp_all add: machine_inv_def)
  obtain table where "install_content ?t (serde_image (to_content s)) =
      ?t\<lparr>symbol_config := symbol_config s, symbol_locked := symbol_locked s,
        orderbook := rebuilt_book (orderbook s) (orderbook ?t), sm_events := retain (max_events ?t) (sm_events s),
        events_evicted := evict (length (sm_events s) - max_events ?t) (events_evicted s),
        submissions := table, submission_order := map strip_submission (submission_order s),
        submissions_evicted := submissions_evicted s\<rparr>"
    using install_restores[OF machine_core[OF inv(1)] _ t(1)] inv(1) by (auto simp: machine_inv_def)
  then have r: "install_content ?t (serde_image (to_content s)) = restored ?t s" by (simp add: restored_def)
  have "inner st' = (restored ?t s)\<lparr>current_snapshot := Some \<lparr>ss_meta = image_meta s, ss_data = data\<rparr>\<rparr>
      \<and> events_changed st' = last_event_id (inner st')"
    using ins c r by (auto simp: install_snapshot_def Let_def notify_events_def split: prod.splits option.splits if_splits)
  then show "replica_eq s (inner st')" "machine_inv (inner st')" "events_changed st' = last_event_id (inner st')"
    using restored_ok[OF inv(1) t] by simp_all
qed

end
