(* ===== verification/Book_Properties.thy ===== *)
theory Book_Properties
  imports Book_Submission "HOL-Library.Multiset"
begin

text \<open>
  The promises of the order book to its callers: the invariant, price-time priority, exact
  volumes, the behaviour of each time in force, stops, cancellation, amendment and the depth feed.
\<close>

section \<open>Fills of a sweep\<close>

text \<open>Priority between two orders of one side: better price first, then earlier sequence.\<close>

definition ranks_before :: "Order \<Rightarrow> Order \<Rightarrow> bool" where
  "ranks_before x y \<longleftrightarrow>
     (case o_side x of Buy \<Rightarrow> o_price y < o_price x | Sell \<Rightarrow> o_price x < o_price y)
     \<or> (o_price x = o_price y \<and> o_sequence x \<le> o_sequence y)"

definition avail :: "fixed option \<Rightarrow> OrderSide \<Rightarrow> Order list \<Rightarrow> int" where
  "avail limit side os =
     (\<Sum>o1 \<leftarrow> os. if within_limit limit side (o_price o1) then o_volume o1 + o_hidden_volume o1 else 0)"

lemma avail_Cons:
  "avail limit side (o1 # os) =
     (if within_limit limit side (o_price o1) then o_volume o1 + o_hidden_volume o1 else 0) + avail limit side os"
  by (simp add: avail_def)

lemma avail_put_head:
  assumes "resting_ok side maker" "0 < mv" "mv \<le> o_volume maker" "within_limit limit tside (o_price maker)"
  shows "avail limit tside (bt_values (put_head k (after_fill maker mv) others)) + mv =
    avail limit tside (maker # bt_values others)"
proof (cases "after_fill maker mv")
  case None
  from after_fill_NoneD[OF this assms(1,3)] None assms(4) show ?thesis
    by (simp add: put_head_def avail_Cons)
next
  case (Some m)
  from after_fill_SomeD(3)[OF this assms(1-3)] frozen_eqD(1)[OF after_fill_SomeD(1)[OF Some assms(1-3)]]
    Some assms(4)
  show ?thesis by (simp add: put_head_def avail_Cons bt_values_def)
qed

context price_time_side
begin

lemma run_conserves_avail:
  assumes "sweep_run I ctx o1 limit s = Inr s'" "side_ok mk side (sw_resting s)" "in_i128 (sw_remaining s)"
  shows "avail limit (o_side o1) (bt_values (sw_resting s')) + fill_sum (sw_results s') =
    avail limit (o_side o1) (bt_values (sw_resting s)) + fill_sum (sw_results s)"
  using assms
proof (induction rule: run_induct)
  case (fill s s' k maker others mv r)
  from fill(2,9) avail_put_head[OF fill(3,5,6,4), of k others] show ?case
    by (simp add: fill_state_results bt_values_def)
qed simp

lemma ranks_key:
  assumes "o_side x = side" "mk (o_price x) (o_sequence x) \<le> mk (o_price y) (o_sequence y)"
  shows "ranks_before x y"
  using assms by (auto simp: ranks_before_def le_less key_less key_inj split: OrderSide.splits)

lemma run_ranks:
  assumes run: "sweep_run I ctx o1 limit s = Inr s'" and ok: "side_ok mk side (sw_resting s)"
    and rem: "in_i128 (sw_remaining s)" and start: "sw_results s = []"
  shows "sorted_wrt ranks_before (map mr_maker (sw_results s')) \<and>
    (\<forall>r \<in> set (sw_results s'). \<forall>maker \<in> set (bt_values (sw_resting s')). ranks_before (mr_maker r) maker)"
proof -
  have p: "sorted (fill_keys mk (sw_results s'))"
    "\<forall>k \<in> set (fill_keys mk (sw_results s')). \<forall>e \<in> set (sw_resting s'). k \<le> fst e"
    using run_priority[OF run ok rem] start by (auto simp: fill_keys_def)
  have sd: "o_side (mr_maker r) = side" if "r \<in> set (sw_results s')" for r
    using run_fills[OF run ok rem that] start by (simp add: resting_ok_def)
  have ok': "side_ok mk side (sw_resting s')" using run_ok[OF run ok rem] by simp
  have "sorted_wrt (\<lambda>x y. mk (o_price (mr_maker x)) (o_sequence (mr_maker x)) \<le>
      mk (o_price (mr_maker y)) (o_sequence (mr_maker y))) (sw_results s')"
    using p(1) by (simp add: fill_keys_def sorted_map)
  then have "sorted_wrt (\<lambda>x y. ranks_before (mr_maker x) (mr_maker y)) (sw_results s')"
    by (rule sorted_wrt_mono_rel[rotated]) (simp add: ranks_key sd)
  moreover have "ranks_before (mr_maker r) maker"
    if r: "r \<in> set (sw_results s')" and m: "maker \<in> set (bt_values (sw_resting s'))" for r maker
  proof -
    obtain e where e: "e \<in> set (sw_resting s')" "maker = snd e" using m by (auto simp: bt_values_def)
    then have "mk (o_price (mr_maker r)) (o_sequence (mr_maker r)) \<le> fst e"
      using p(2) r by (auto simp: fill_keys_def)
    moreover have "fst e = mk (o_price maker) (o_sequence maker)" using ok' e by (auto simp: side_ok_def)
    ultimately show ?thesis using ranks_key sd[OF r] by simp
  qed
  ultimately show ?thesis by (simp add: sorted_wrt_map)
qed

end

lemma sweep_ranks:
  assumes sw: "sweep I b o1 limit config = Inr (b', fills, remainder)"
    and core: "book_core b" and vol: "in_i128 (o_volume o1)"
  shows "sorted_wrt ranks_before (map mr_maker fills) \<and>
    (\<forall>r \<in> set fills. \<forall>maker \<in> set (opposing b' (o_side o1)). ranks_before (mr_maker r) maker)"
  using sw
proof (cases rule: sweep_cases)
  case (Buy s)
  then show ?thesis using ask.run_ranks[OF Buy(2)] core vol by (simp add: book_core_def opposing_def)
next
  case (Sell s)
  then show ?thesis using bid.run_ranks[OF Sell(2)] core vol by (simp add: book_core_def opposing_def)
qed

lemma sweep_avail:
  assumes sw: "sweep I b o1 limit config = Inr (b', fills, remainder)"
    and core: "book_core b" and vol: "in_i128 (o_volume o1)"
  shows "avail limit (o_side o1) (opposing b' (o_side o1)) + fill_sum fills =
    avail limit (o_side o1) (opposing b (o_side o1))"
  using sw
proof (cases rule: sweep_cases)
  case (Buy s)
  then show ?thesis
    using ask.run_conserves_avail[OF Buy(2)] core vol by (simp add: book_core_def opposing_def fill_sum_def)
next
  case (Sell s)
  then show ?thesis
    using bid.run_conserves_avail[OF Sell(2)] core vol by (simp add: book_core_def opposing_def fill_sum_def)
qed

lemma sweep_open:
  assumes sw: "sweep I b o1 limit config = Inr (b', fills, remainder)"
    and core: "book_core b" and vol: "in_i128 (o_volume o1)"
  shows "(\<Sum>m \<leftarrow> opposing b' (o_side o1). o_volume m + o_hidden_volume m) + fill_sum fills =
    (\<Sum>m \<leftarrow> opposing b (o_side o1). o_volume m + o_hidden_volume m)"
  using sw
proof (cases rule: sweep_cases)
  case (Buy s)
  then show ?thesis using ask.run_conserves_open[OF Buy(2)] core vol
    by (simp add: book_core_def opposing_def fill_sum_def open_sum_def bt_values_def comp_def)
next
  case (Sell s)
  then show ?thesis using bid.run_conserves_open[OF Sell(2)] core vol
    by (simp add: book_core_def opposing_def fill_sum_def open_sum_def bt_values_def comp_def)
qed

lemma sweep_fills:
  assumes sw: "sweep I b o1 limit config = Inr (b', fills, remainder)"
    and core: "book_core b" and vol: "in_i128 (o_volume o1)" and r: "r \<in> set fills"
  shows "0 < mr_matches r \<and> mr_matches r \<le> o_volume (mr_maker r)
    \<and> within_limit limit (o_side o1) (o_price (mr_maker r))
    \<and> o_side (mr_maker r) \<noteq> o_side o1
    \<and> frozen (mr_maker r) \<in> frozen ` set (opposing b (o_side o1))
    \<and> (\<exists>v. mr_taker r = o1\<lparr>o_volume := v\<rparr>)"
  using sw
proof (cases rule: sweep_cases)
  case (Buy s)
  then show ?thesis
    using ask.run_fills[OF Buy(2)] core vol r
    by (simp add: book_core_def opposing_def bt_values_def resting_ok_def)
next
  case (Sell s)
  then show ?thesis
    using bid.run_fills[OF Sell(2)] core vol r
    by (simp add: book_core_def opposing_def bt_values_def resting_ok_def)
qed

section \<open>Fill-or-kill\<close>

lemma saturating_sum_le:
  "0 \<le> acc \<Longrightarrow> (\<forall>x \<in> set xs. 0 \<le> x) \<Longrightarrow> foldl saturating_add acc xs \<le> acc + sum_list xs"
proof (induction xs arbitrary: acc)
  case (Cons x xs)
  have "0 \<le> saturating_add acc x" "saturating_add acc x \<le> acc + x"
    using Cons.prems by (auto simp: saturating_add_def clamp_i128_def)
  then show ?case using Cons.IH[of "saturating_add acc x"] Cons.prems by simp
qed simp

lemma core_opposing: "book_core b \<Longrightarrow> o1 \<in> set (opposing b side) \<Longrightarrow> \<exists>s. resting_ok s o1"
  by (auto simp: opposing_def bt_values_def book_core_def side_ok_def split: OrderSide.splits)

lemma open_volume_exact: "resting_ok side o1 \<Longrightarrow> open_volume o1 = o_volume o1 + o_hidden_volume o1"
  by (auto simp: open_volume_def resting_ok_def fixed_add_def in_i128_def saturating_add_def clamp_i128_def
      intro!: wrap_i128_id)

lemma takeWhile_avail:
  "(\<forall>o1 \<in> set os. 0 \<le> o_volume o1 + o_hidden_volume o1) \<Longrightarrow>
   (\<Sum>o1 \<leftarrow> takeWhile (\<lambda>o1. within_limit limit side (o_price o1)) os. o_volume o1 + o_hidden_volume o1)
     \<le> avail limit side os"
proof (induction os)
  case (Cons o1 os)
  have "0 \<le> avail limit side os"
    using Cons.prems unfolding avail_def by (intro sum_list_nonneg) auto
  then show ?case using Cons by (simp add: avail_Cons)
qed (simp add: avail_def)

lemma fillable_le_avail:
  assumes core: "book_core b"
  shows "fillable_volume b o1 \<le> avail (order_limit o1) (o_side o1) (opposing b (o_side o1))"
proof -
  let ?os = "opposing b (o_side o1)"
  let ?t = "takeWhile (\<lambda>m. within_limit (order_limit o1) (o_side o1) (o_price m)) ?os"
  have ok: "\<exists>s. resting_ok s m" if "m \<in> set ?os" for m using core_opposing[OF core that] .
  then have nn: "0 \<le> o_volume m + o_hidden_volume m" if "m \<in> set ?os" for m
    using that by (fastforce simp: resting_ok_def)
  have t: "m \<in> set ?os" if "m \<in> set ?t" for m using that by (rule set_takeWhileD[THEN conjunct1])
  have eq: "map open_volume ?t = map (\<lambda>m. o_volume m + o_hidden_volume m) ?t"
    using ok t open_volume_exact by (intro map_cong) blast+
  have "fillable_volume b o1 = foldl saturating_add 0 (map open_volume ?t)"
    by (simp add: fillable_volume_def Let_def opposing_def)
  also have "\<dots> \<le> 0 + (\<Sum>m \<leftarrow> ?t. o_volume m + o_hidden_volume m)"
    unfolding eq using nn t by (intro saturating_sum_le) auto
  also have "\<dots> \<le> avail (order_limit o1) (o_side o1) ?os"
    using takeWhile_avail[of ?os] nn by simp
  finally show ?thesis .
qed

lemma avail_none:
  "(\<forall>o1 \<in> set os. \<not> within_limit limit side (o_price o1)) \<Longrightarrow> avail limit side os = 0"
  by (induction os) (simp_all add: avail_def)

lemma fok_sweep:
  assumes sw: "sweep I b o1 (order_limit o1) config = Inr (b', fills, remainder)"
    and core: "book_core b" and vol: "in_i128 (o_volume o1)" "0 \<le> o_volume o1"
    and base: "sweep_mode o1 = SM_Base" and fok: "o_volume o1 \<le> fillable_volume b o1"
  shows "remainder = 0 \<and> fill_sum fills = o_volume o1"
proof -
  note v = sweep_volume[OF sw core vol base]
  have "remainder = 0"
  proof (rule ccontr)
    assume "remainder \<noteq> 0"
    then have p: "0 < remainder" using v by simp
    then have "avail (order_limit o1) (o_side o1) (opposing b' (o_side o1)) = 0"
      using v by (intro avail_none) auto
    then have "fill_sum fills = avail (order_limit o1) (o_side o1) (opposing b (o_side o1))"
      using sweep_avail[OF sw core vol(1)] by simp
    then show False using fillable_le_avail[OF core, of o1] fok v p by linarith
  qed
  then show ?thesis using v by simp
qed

section \<open>Outcomes\<close>

lemma mset_vec_remove: "i < length xs \<Longrightarrow> mset xs = add_mset (xs ! i) (mset (vec_remove i xs))"
  by (subst id_take_nth_drop[of i xs]) (simp_all add: vec_remove_def)

lemma run_stops_outcome:
  assumes "run_stops I config b oc = Inr (b', oc')"
  shows "\<exists>new. oc' = oc\<lparr>oc_triggers := oc_triggers oc @ new\<rparr>
    \<and> mset (map se_stop new) + mset (stops b') = mset (stops b)
    \<and> (\<forall>t \<in> set new. stop_elected (se_stop t) (se_trigger_price t))"
  using assms
proof (induction b arbitrary: oc rule: measure_induct_rule[of "\<lambda>b. length (stops b)"])
  case (less b)
  from less.prems show ?case
  proof (cases rule: run_stops_cases)
    case quiet
    then show ?thesis by (intro exI[of _ "[]"]) simp
  next
    case (trigger l i b2 fills remainder)
    let ?t = "\<lparr>se_stop = stops b ! i, se_trigger_price = l, se_fills = fills,
      se_cancelled = (if 0 < remainder then Some remainder else None)\<rparr>"
    have st: "stops b2 = vec_remove i (stops b)" by (simp add: sweep_sel[OF trigger(5)])
    have "length (stops (print_last fills b2)) < length (stops b)"
      using trigger(2) by (simp add: st length_vec_remove)
    from less.IH[OF this trigger(6)] obtain new where
      new: "oc' = oc\<lparr>oc_triggers := oc_triggers oc @ [?t] @ new\<rparr>"
        "mset (map se_stop new) + mset (stops b') = mset (vec_remove i (stops b))"
        "\<forall>t \<in> set new. stop_elected (se_stop t) (se_trigger_price t)"
      by (auto simp: st)
    have "mset (stops b) = add_mset (stops b ! i) (mset (vec_remove i (stops b)))"
      using trigger(2) by (rule mset_vec_remove)
    then show ?thesis
      using new trigger(3) by (intro exI[of _ "?t # new"]) simp
  qed
qed

lemma execute_taker_outcome:
  assumes ex: "execute_taker I b o1 config oc = Inr (b', oc')"
  obtains b1 fills remainder new where
    "sweep I b o1 (order_limit o1) config = Inr (b1, fills, remainder)"
    "oc' = (snd (settle_remainder b1 o1 remainder (oc\<lparr>oc_fills := fills\<rparr>)))\<lparr>oc_triggers := oc_triggers oc @ new\<rparr>"
    "oc_fills oc' = fills"
proof -
  obtain b1 fills remainder where sw: "sweep I b o1 (order_limit o1) config = Inr (b1, fills, remainder)"
    and run: "run_stops I config
       (print_last fills (fst (settle_remainder b1 o1 remainder (oc\<lparr>oc_fills := fills\<rparr>))))
       (snd (settle_remainder b1 o1 remainder (oc\<lparr>oc_fills := fills\<rparr>))) = Inr (b', oc')"
    using ex by (auto simp: execute_taker_eq split: sum.splits)
  from run_stops_outcome[OF run] obtain new where
    "oc' = (snd (settle_remainder b1 o1 remainder (oc\<lparr>oc_fills := fills\<rparr>)))\<lparr>oc_triggers :=
       oc_triggers (snd (settle_remainder b1 o1 remainder (oc\<lparr>oc_fills := fills\<rparr>))) @ new\<rparr>" by blast
  then show thesis
    using that[OF sw, of new] by (simp add: settle_remainder_def)
qed

lemma validate_order_reason: "validate_order o1 = Some r \<Longrightarrow> r = InvalidOrder \<or> r = GtdAlreadyExpired"
  by (auto simp: validate_order_def split: if_splits TimeInForce.splits)

lemma validate_symbol_reason:
  "validate_order_for_symbol o1 config = Some r \<Longrightarrow> r = InvalidOrder \<or> r = UnsupportedOrder"
  by (auto simp: validate_order_for_symbol_def split: if_splits VolumeUnit.splits)

lemma normalize_reason: "normalize_order I o1 config = (o2, Some r) \<Longrightarrow> r = InvalidOrder"
  by (auto simp: normalize_order_def Let_def split: if_splits option.splits)

text \<open>A submission is turned away by the checks, or its normalised order is executed.\<close>

lemma submit_cases [consumes 4, case_names refused admitted]:
  assumes ex: "execute_order_with_symbol I b o1 config = Inr (b', o2, oc)"
    and seq: "ob_sequence b < 2 ^ 64 - 1" and I: "i128_typed I" and ty: "order_typed o1"
  obtains (refused) r where "b' = b\<lparr>ob_sequence := ob_sequence b + 1\<rparr>"
      "oc = Outcome_default\<lparr>oc_market_seq := ob_sequence b, oc_rejected := Some r\<rparr>"
      "r \<in> {InvalidOrder, GtdAlreadyExpired, UnsupportedOrder}"
  | (admitted) "normalize_order I (o1\<lparr>o_sequence := ob_sequence b\<rparr>) config = (o2, None)" "admissible o2"
      "o_sequence o2 = ob_sequence b"
      "execute_admitted I (b\<lparr>ob_sequence := ob_sequence b + 1\<rparr>) o2 config
         (Outcome_default\<lparr>oc_market_seq := ob_sequence b\<rparr>) = Inr (b', oc)"
proof -
  let ?b = "b\<lparr>ob_sequence := ob_sequence b + 1\<rparr>" and ?o3 = "o1\<lparr>o_sequence := ob_sequence b\<rparr>"
  have nm: "next_market_sequence b = (ob_sequence b, ?b)"
    using seq by (simp add: next_market_sequence_def wrap_u64_def)
  note ex' = ex[unfolded execute_order_with_symbol_def execute_order_inner_def nm Let_def prod.case]
  obtain o4 i where n: "normalize_order I ?o3 config = (o4, i)" by (cases "normalize_order I ?o3 config")
  show thesis
  proof (cases i)
    case (Some r)
    then show thesis using refused[of r] ex' n normalize_reason[of I ?o3 config o4 r] by simp
  next
    case None
    note n = n[unfolded None]
    show thesis
    proof (cases "case validate_order o4 of Some r \<Rightarrow> Some r | None \<Rightarrow> validate_order_for_symbol o4 config")
      case (Some r)
      then have "r \<in> {InvalidOrder, GtdAlreadyExpired, UnsupportedOrder}"
        using validate_order_reason[of o4] validate_symbol_reason[of o4 config] by (auto split: option.splits)
      then show thesis using refused[of r] ex' n Some by simp
    next
      case N: None
      have t3: "order_typed ?o3" using ty by (simp add: order_typed_def)
      note nn = normalize_order_NoneD[OF n I t3]
      have "validate_order o4 = None" using N by (simp split: option.splits)
      then have a: "admissible o4" using nn(1,2) by (simp add: admissible_def)
      have "o2 = o4" using ex' n N by (auto split: sum.splits)
      moreover from this have "execute_admitted I ?b o4 config (Outcome_default\<lparr>oc_market_seq := ob_sequence b\<rparr>) = Inr (b', oc)"
        using ex' n N by (auto split: sum.splits)
      ultimately show thesis using admitted n a nn(3) by simp
    qed
  qed
qed

lemmas book_eval =
  execute_order_with_symbol_def execute_order_inner_def execute_order_def next_market_sequence_def wrap_u64_def normalize_order_def
  validate_order_def validate_order_for_symbol_def execute_admitted_def execute_taker_def sweep_def
  sweep_side_def sweep_run.simps sweep_step_def run_stops.simps rest_def record_depth_change_def
  has_gtd_deadlines_def purge_due_gtd_def refresh_earliest_gtd_def is_finite_def MIN_FEE_RATE_def MAX_FEE_RATE_def
  is_stop_def has_at_most_decimals_def is_multiple_of_def SymbolConfig_default_def default_symbol_assets_def AssetId_new_def
  order_limit_def within_limit_def match_volume_def sweep_mode_def fixed_min_def fixed_sub_def fixed_neg_def wrap_i128_def
  push_depth_change_def MatchResult_new_with_policy_def notional_def checked_mul_def in_i128_def
  fee_asset.simps vec_last_def Outcome_default_def OrderBook_new_def Order_new_def trem_def tdiv_def DECIMALS_def SCALE_def
  from_units_def from_raw_def exact_i256_def Let_def stop_elected_def vec_remove_def

section \<open>A sample book\<close>

text \<open>Two offers, one bid and one parked buy stop; the journal is on.\<close>

definition sample_book :: OrderBook where
  "sample_book = OrderBook_new\<lparr>
     asks := [(AskKey 100 0, Order_new Sell 100 5 0), (AskKey 101 1, Order_new Sell 101 4 1)],
     bids := [(BidKey 90 2, Order_new Buy 90 3 2)],
     stops := [(Order_new Buy 0 2 3)\<lparr>o_live := Market, o_stop_price := 110\<rparr>],
     ob_sequence := 4, record_depth := True\<rparr>"

definition sample_buy :: Order where
  "sample_buy = Order_new Buy 100 8 0"

lemma sample_book_inv: "book_inv sample_book"
  by (simp add: sample_book_def book_inv_def book_core_def side_ok_def bt_ok_Cons resting_ok_def stop_ok_def
      settled_def uncrossed_def seqs_ok_def side_seqs_def book_orders_def gtd_index_ok_def gtd_times_def
      OrderBook_new_def Order_new_def is_stop_def less_AskKey_iff)

lemma exact_typed: "i128_typed exact_i256"
  by (simp add: i128_typed_def exact_i256_def)

lemma sample_typed: "ob_sequence sample_book < 2 ^ 64 - 1" "order_typed sample_buy"
  by (simp_all add: order_typed_def sample_buy_def Order_new_def in_i128_def sample_book_def)

lemma sample_runs:
  "\<exists>b' o2 oc. execute_order_with_symbol exact_i256 sample_book sample_buy SymbolConfig_default = Inr (b', o2, oc)"
  by (simp add: book_eval sample_book_def sample_buy_def)

section \<open>Properties\<close>

text \<open>
  C1: Every accepted or rejected submission keeps the book well formed.  From a book that satisfies
  the invariant, \<open>execute_order_with_symbol\<close> returns a book whose two sides are ordered maps keyed by
  price and sequence with valid orders, whose best bid is below its best ask, whose sequences are
  unique and below the counter, whose deadline index is exact or marked dirty and in which no parked
  stop is electable; it takes exactly one sequence number.
\<close>

theorem execute_order_invariant:
  assumes "book_inv b" "ob_sequence b < 2 ^ 64 - 1" "i128_typed I" "order_typed o1"
    and "execute_order_with_symbol I b o1 config = Inr (b', o2, oc)"
  shows "book_inv b' \<and> ob_sequence b' = ob_sequence b + 1"
  using execute_order_inner_keeps[OF assms(5)[unfolded execute_order_with_symbol_def] assms(1-4)]
  by (simp add: keeps_def)

theorem execute_order_invariant_witness:
  "case execute_order_with_symbol exact_i256 sample_book sample_buy SymbolConfig_default of
     Inl p \<Rightarrow> False | Inr (b', o2, oc) \<Rightarrow> book_inv b' \<and> ob_sequence b' = 5"
proof -
  obtain b' o2 oc where
    r: "execute_order_with_symbol exact_i256 sample_book sample_buy SymbolConfig_default = Inr (b', o2, oc)"
    using sample_runs by auto
  from execute_order_invariant[OF sample_book_inv sample_typed(1) exact_typed sample_typed(2) r] show ?thesis
    by (simp add: r) (simp add: sample_book_def)
qed

text \<open>
  C2: Price-time priority.  The fills of a sweep are in priority order of their makers (better
  price first, earlier sequence at equal price), and no maker left on the opposing side ranks before a
  maker that was filled.
\<close>

theorem sweep_price_time_priority:
  assumes "book_core b" "in_i128 (o_volume o1)"
    and "sweep I b o1 limit config = Inr (b', fills, remainder)"
  shows "sorted_wrt ranks_before (map mr_maker fills) \<and>
    (\<forall>r \<in> set fills. \<forall>maker \<in> set (opposing b' (o_side o1)). ranks_before (mr_maker r) maker)"
  using sweep_ranks[OF assms(3,1,2)] .

lemma sample_sweep:
  "\<exists>b'. sweep exact_i256 sample_book (sample_buy\<lparr>o_price := 101\<rparr>) (Some 101) SymbolConfig_default = Inr (b',
     [MatchResult_new_with_policy exact_i256 (sample_buy\<lparr>o_price := 101\<rparr>) (Order_new Sell 100 5 0) 5 Received,
      MatchResult_new_with_policy exact_i256 (sample_buy\<lparr>o_price := 101, o_volume := 3\<rparr>) (Order_new Sell 101 4 1) 3 Received],
     0) \<and> opposing b' Buy = [Order_new Sell 101 1 1]"
  by (simp add: sweep_def sweep_side_def sweep_run.simps sweep_step_def sample_book_def sample_buy_def Let_def
      sweep_mode_def within_limit_def match_volume_def fixed_min_def fixed_sub_def wrap_i128_def
      SymbolConfig_default_def default_symbol_assets_def opposing_def bt_values_def Order_new_def OrderBook_new_def)

lemma sample_core: "book_core sample_book" "in_i128 (o_volume sample_buy)"
  using sample_book_inv sample_typed(2) by (simp_all add: book_inv_def order_typed_def)

theorem sweep_price_time_priority_witness:
  "\<exists>b' fills. sweep exact_i256 sample_book (sample_buy\<lparr>o_price := 101\<rparr>) (Some 101) SymbolConfig_default = Inr (b', fills, 0)
     \<and> length fills = 2 \<and> opposing b' Buy \<noteq> []
     \<and> sorted_wrt ranks_before (map mr_maker fills)
     \<and> (\<forall>r \<in> set fills. \<forall>maker \<in> set (opposing b' Buy). ranks_before (mr_maker r) maker)"
proof -
  obtain b' fills where r: "sweep exact_i256 sample_book (sample_buy\<lparr>o_price := 101\<rparr>) (Some 101) SymbolConfig_default = Inr (b', fills, 0)"
    and l: "length fills = 2" "opposing b' Buy \<noteq> []" using sample_sweep by auto
  have "in_i128 (o_volume (sample_buy\<lparr>o_price := 101\<rparr>))" "o_side (sample_buy\<lparr>o_price := 101\<rparr>) = Buy"
    using sample_core(2) by (simp_all add: sample_buy_def Order_new_def)
  with sweep_price_time_priority[OF sample_core(1) _ r] r l show ?thesis by auto
qed

text \<open>
  C5: Every fill is legitimate.  A fill trades a positive volume not above what the maker shows, at
  a price the taker's limit accepts, against an order of the other side that was resting in the book
  before the sweep (up to its open volume), and its taker is the submitted order.
\<close>

theorem sweep_fills_legitimate:
  assumes "book_core b" "in_i128 (o_volume o1)"
    and "sweep I b o1 limit config = Inr (b', fills, remainder)" "r \<in> set fills"
  shows "0 < mr_matches r \<and> mr_matches r \<le> o_volume (mr_maker r)
    \<and> within_limit limit (o_side o1) (o_price (mr_maker r))
    \<and> o_side (mr_maker r) \<noteq> o_side o1
    \<and> frozen (mr_maker r) \<in> frozen ` set (opposing b (o_side o1))
    \<and> (\<exists>v. mr_taker r = o1\<lparr>o_volume := v\<rparr>)"
  using sweep_fills[OF assms(3,1,2,4)] .

theorem sweep_fills_legitimate_witness:
  "\<exists>b' r fills. sweep exact_i256 sample_book (sample_buy\<lparr>o_price := 101\<rparr>) (Some 101) SymbolConfig_default = Inr (b', r # fills, 0)
     \<and> 0 < mr_matches r \<and> mr_matches r \<le> o_volume (mr_maker r)
     \<and> within_limit (Some 101) Buy (o_price (mr_maker r))"
proof -
  obtain b' r fills where s: "sweep exact_i256 sample_book (sample_buy\<lparr>o_price := 101\<rparr>) (Some 101) SymbolConfig_default = Inr (b', r # fills, 0)"
    using sample_sweep by auto
  have "in_i128 (o_volume (sample_buy\<lparr>o_price := 101\<rparr>))" "o_side (sample_buy\<lparr>o_price := 101\<rparr>) = Buy"
    using sample_core(2) by (simp_all add: sample_buy_def Order_new_def)
  with sweep_fills_legitimate[OF sample_core(1) _ s, of r] s show ?thesis by auto
qed

text \<open>
  C3: Volume is conserved.  When a base-volume order is swept, what it fills plus what it keeps
  is its volume, the remainder is never negative, the open volume (visible and hidden) of the opposing
  side drops by exactly the filled volume, and a positive remainder means that no maker within the limit
  is left.
\<close>

theorem sweep_conserves_volume:
  assumes "book_core b" "in_i128 (o_volume o1)" "0 \<le> o_volume o1" "o_volume_unit o1 = VU_Base"
    and "sweep I b o1 limit config = Inr (b', fills, remainder)"
  shows "remainder + fill_sum fills = o_volume o1 \<and> 0 \<le> remainder
    \<and> (\<Sum>m \<leftarrow> opposing b' (o_side o1). o_volume m + o_hidden_volume m) + fill_sum fills =
        (\<Sum>m \<leftarrow> opposing b (o_side o1). o_volume m + o_hidden_volume m)
    \<and> (0 < remainder \<longrightarrow> (\<forall>m \<in> set (opposing b' (o_side o1)). \<not> within_limit limit (o_side o1) (o_price m)))"
  using sweep_volume[OF assms(5,1,2,3)] sweep_open[OF assms(5,1,2)] assms(4)
  by (simp add: sweep_mode_def)

theorem sweep_conserves_volume_witness:
  "\<exists>b' fills. sweep exact_i256 sample_book (sample_buy\<lparr>o_price := 101\<rparr>) (Some 101) SymbolConfig_default = Inr (b', fills, 0)
     \<and> fill_sum fills = 8 \<and> (\<Sum>m \<leftarrow> opposing b' Buy. o_volume m + o_hidden_volume m) + 8 = 9"
proof -
  obtain b' fills where s: "sweep exact_i256 sample_book (sample_buy\<lparr>o_price := 101\<rparr>) (Some 101) SymbolConfig_default = Inr (b', fills, 0)"
    using sample_sweep by auto
  from sweep_conserves_volume[OF sample_core(1) _ _ _ s] s show ?thesis
    by (simp add: sample_buy_def Order_new_def in_i128_def sample_book_def opposing_def bt_values_def)
qed

definition visible_part :: "Order \<Rightarrow> fixed \<Rightarrow> fixed" where
  "visible_part o1 tot = (if 0 < o_display_volume o1 then min (o_display_volume o1) tot else tot)"

lemma rested_visible: "o_volume (rested o1 tot) = visible_part o1 tot"
  by (simp add: rested_def visible_part_def Let_def)

text \<open>
  C4: Fill-or-kill is all or nothing.  A FOK order in base volume that is accepted and not post-only is
  filled for exactly its volume, and nothing of it is cancelled or rests; one that is accepted and post-only
  (which validation lets pass) trades nothing and rests whole; one that is refused leaves no fill, no
  cancelled or resting remainder and triggers no stop.
\<close>

theorem fok_all_or_nothing:
  assumes "book_inv b" "ob_sequence b < 2 ^ 64 - 1" "i128_typed I" "order_typed o1"
    and "execute_order_with_symbol I b o1 config = Inr (b', o2, oc)"
    and "o_tif o2 = Fok" "o_volume_unit o2 = VU_Base"
  shows "(oc_rejected oc = None \<longrightarrow> oc_cancelled oc = None \<and>
       (if o_post_only o2 then oc_fills oc = [] \<and> oc_resting oc = Some (visible_part o2 (o_volume o2))
        else fill_sum (oc_fills oc) = o_volume o2 \<and> oc_resting oc = None))
    \<and> (oc_rejected oc \<noteq> None \<longrightarrow> oc_fills oc = [] \<and> oc_cancelled oc = None \<and> oc_resting oc = None \<and> oc_triggers oc = [])"
  using assms(5,2,3,4)
proof (cases rule: submit_cases)
  case (refused r)
  then show ?thesis by (simp add: Outcome_default_def)
next
  case admitted
  have core: "book_core (b\<lparr>ob_sequence := ob_sequence b + 1\<rparr>)"
    using next_sequence_inv(1)[OF assms(1,2)] by (simp add: book_inv_def)
  note p = purged_core(1)[OF core, of o2]
  have ns: "\<not> is_stop o2"
    using admitted(2) assms(6) validate_order_NoneD(7)[of o2] by (auto simp: admissible_def)
  have v: "in_i128 (o_volume o2)" "0 < o_volume o2" "o_volume o2 \<le> i128_max"
    using admitted(2) validate_order_NoneD(1)[of o2] by (auto simp: admissible_def order_typed_def in_i128_def)
  from admitted(4) show ?thesis
  proof (cases rule: execute_admitted_cases)
    case post_rested
    then show ?thesis using rest_eq(2)[OF v(2,3)] by (simp add: Outcome_default_def rested_visible)
  next
    case taken
    have base: "sweep_mode o2 = SM_Base" using assms(7) by (simp add: sweep_mode_def)
    from taken(4) show ?thesis
    proof (cases rule: execute_taker_outcome)
      case (1 b1 fills remainder new)
      have "remainder = 0 \<and> fill_sum fills = o_volume o2"
        using fok_sweep[OF 1(1) p v(1) _ base taken(3)[OF assms(6)]] v(2) by simp
      then show ?thesis using 1(2,3) taken(2) by (simp add: settle_remainder_def Outcome_default_def)
    qed
  qed (use ns in \<open>simp_all add: Outcome_default_def\<close>)
qed

lemma sample_fok:
  "\<exists>b' o2 oc. execute_order_with_symbol exact_i256 sample_book
       (sample_buy\<lparr>o_price := 101, o_tif := Fok\<rparr>) SymbolConfig_default = Inr (b', o2, oc)
     \<and> o_tif o2 = Fok \<and> \<not> o_post_only o2 \<and> o_volume_unit o2 = VU_Base \<and> o_volume o2 = 8 \<and> oc_rejected oc = None"
  by (simp add: book_eval sample_book_def sample_buy_def fillable_volume_def bt_values_def open_volume_def
      saturating_add_def clamp_i128_def fixed_add_def)

theorem fok_all_or_nothing_witness:
  "\<exists>b' o2 oc. execute_order_with_symbol exact_i256 sample_book
       (sample_buy\<lparr>o_price := 101, o_tif := Fok\<rparr>) SymbolConfig_default = Inr (b', o2, oc)
     \<and> oc_rejected oc = None \<and> fill_sum (oc_fills oc) = 8 \<and> oc_resting oc = None"
proof -
  obtain b' o2 oc where r: "execute_order_with_symbol exact_i256 sample_book
      (sample_buy\<lparr>o_price := 101, o_tif := Fok\<rparr>) SymbolConfig_default = Inr (b', o2, oc)"
    and f: "o_tif o2 = Fok" "o_volume_unit o2 = VU_Base" "\<not> o_post_only o2" "o_volume o2 = 8" "oc_rejected oc = None"
    using sample_fok by auto
  have "order_typed (sample_buy\<lparr>o_price := 101, o_tif := Fok\<rparr>)"
    using sample_typed(2) by (simp add: order_typed_def in_i128_def)
  from fok_all_or_nothing[OF sample_book_inv sample_typed(1) exact_typed this r f(1,2)] r f(3-5)
  show ?thesis by auto
qed

lemma run_stops_untriggered:
  assumes "run_stops I config b oc = Inr (b', oc')" "oc_triggers oc' = oc_triggers oc"
  shows "b' = b"
  using assms(1)
proof (cases rule: run_stops_cases)
  case (trigger l i b2 fills remainder)
  then show ?thesis using assms(2) by (auto dest!: run_stops_outcome)
qed

lemma rested_split: "rested o1 tot = o1\<lparr>o_volume := visible_part o1 tot, o_hidden_volume := tot - visible_part o1 tot\<rparr>"
  by (simp add: rested_def visible_part_def Let_def)

lemma print_last_orders: "book_orders (print_last fills b) = book_orders b"
  by (simp add: print_last_def book_orders_def split: option.split)

lemma rested_in_book:
  assumes "0 < tot" "tot \<le> i128_max" "book_core b"
  shows "rested o1 tot \<in> book_orders (fst (rest b o1 tot))"
proof -
  have "bt_ok (bids b)" "bt_ok (asks b)" using core_bt_ok[OF assms(3)] by auto
  then show ?thesis
    by (cases "o_side o1") (auto simp: rest_eq(1)[OF assms(1,2)] book_orders_def set_bt_insert image_iff)
qed

text \<open>
  C6: The report of an accepted base-volume order accounts for all of its volume.  A stop is parked whole
  and nothing of it is filled, cancelled or rested.  Of any other order nothing is both cancelled and
  rested; a cancelled remainder is exactly the unfilled volume; with a resting remainder the unfilled
  volume is positive, the reported part is what an iceberg shows of it, and, when no stop was triggered
  after it, the order stands in the book with this visible volume and the rest of the unfilled volume
  hidden; with neither, the order is completely filled.
\<close>

theorem report_adds_up:
  assumes "book_inv b" "ob_sequence b < 2 ^ 64 - 1" "i128_typed I" "order_typed o1"
    and "execute_order_with_symbol I b o1 config = Inr (b', o2, oc)"
    and "oc_rejected oc = None" "o_volume_unit o2 = VU_Base"
  shows "let unfilled = o_volume o2 - fill_sum (oc_fills oc) in
    (oc_parked oc \<longleftrightarrow> is_stop o2) \<and>
    (case (oc_cancelled oc, oc_resting oc) of
      (Some c, r) \<Rightarrow> r = None \<and> \<not> is_stop o2 \<and> c = unfilled \<and> 0 < unfilled
    | (None, Some v) \<Rightarrow> \<not> is_stop o2 \<and> 0 < unfilled \<and> v = visible_part o2 unfilled
        \<and> (oc_triggers oc = [] \<longrightarrow> o2\<lparr>o_volume := v, o_hidden_volume := unfilled - v\<rparr> \<in> book_orders b')
    | (None, None) \<Rightarrow> if is_stop o2 then oc_fills oc = [] \<and> o2 \<in> set (stops b') else unfilled = 0)"
  using assms(5,2,3,4)
proof (cases rule: submit_cases)
  case (refused r)
  then show ?thesis using assms(6) by (simp add: Outcome_default_def)
next
  case admitted
  have core: "book_core (b\<lparr>ob_sequence := ob_sequence b + 1\<rparr>)"
    using next_sequence_inv(1)[OF assms(1,2)] by (simp add: book_inv_def)
  note p = purged_core(1)[OF core, of o2]
  have v: "in_i128 (o_volume o2)" "0 < o_volume o2" "o_volume o2 \<le> i128_max"
    using admitted(2) validate_order_NoneD(1)[of o2] by (auto simp: admissible_def order_typed_def in_i128_def)
  from admitted(4) show ?thesis
  proof (cases rule: execute_admitted_cases)
    case parked
    then show ?thesis by (simp add: Outcome_default_def fill_sum_def)
  next
    case post_rested
    then show ?thesis
      using v rest_eq(2)[OF v(2,3)] rested_in_book[OF v(2,3) p, of o2]
      by (simp add: Outcome_default_def fill_sum_def rested_split)
  next
    case taken
    have base: "sweep_mode o2 = SM_Base" using assms(7) by (simp add: sweep_mode_def)
    let ?b = "fst (purged (b\<lparr>ob_sequence := ob_sequence b + 1\<rparr>) o2)"
    let ?oc = "Outcome_default\<lparr>oc_market_seq := ob_sequence b, oc_expired := snd (purged (b\<lparr>ob_sequence := ob_sequence b + 1\<rparr>) o2)\<rparr>"
    let ?st = "\<lambda>b1 fills remainder. settle_remainder b1 o2 remainder (?oc\<lparr>oc_fills := fills\<rparr>)"
    obtain b1 fills remainder where sw: "sweep I ?b o2 (order_limit o2) config = Inr (b1, fills, remainder)"
      and run: "run_stops I config (print_last fills (fst (?st b1 fills remainder))) (snd (?st b1 fills remainder)) = Inr (b', oc)"
      using taken(4) by (auto simp: execute_taker_eq split: sum.splits)
    have s: "o_volume o2 - fill_sum fills = remainder" "0 \<le> remainder"
      using sweep_volume[OF sw p v(1) _ base] v(2) by auto
    have r: "0 < remainder \<Longrightarrow> remainder \<le> i128_max"
      using sweep_range(1)[OF sw p v(1)] by (simp add: in_i128_def)
    note rests = rested_in_book[OF _ r sweep_core(1)[OF sw p v(1)], of o2]
    obtain new where new: "oc = (snd (?st b1 fills remainder))\<lparr>oc_triggers := new\<rparr>"
      using run_stops_outcome[OF run] by blast
    have "new = [] \<Longrightarrow> book_orders b' = book_orders (fst (?st b1 fills remainder))"
      using run_stops_untriggered[OF run] new by (simp add: settle_remainder_def Outcome_default_def print_last_orders)
    then show ?thesis
      using new s r rests rest_eq(2)[of remainder b1 o2] taken(1)
      by (auto simp: settle_remainder_def Outcome_default_def rested_split Let_def)
  qed (use assms(6) in simp_all)
qed

lemma sample_report:
  "\<exists>b' o2 oc. execute_order_with_symbol exact_i256 sample_book sample_buy SymbolConfig_default = Inr (b', o2, oc)
     \<and> oc_rejected oc = None \<and> o_volume_unit o2 = VU_Base \<and> \<not> is_stop o2 \<and> o_volume o2 = 8 \<and> o_display_volume o2 = 0
     \<and> oc_cancelled oc = None \<and> oc_resting oc = Some 3"
  by (simp add: book_eval sample_book_def sample_buy_def)

theorem report_adds_up_witness:
  "\<exists>b' o2 oc. execute_order_with_symbol exact_i256 sample_book sample_buy SymbolConfig_default = Inr (b', o2, oc)
     \<and> fill_sum (oc_fills oc) = 5 \<and> oc_resting oc = Some 3"
proof -
  obtain b' o2 oc where r: "execute_order_with_symbol exact_i256 sample_book sample_buy SymbolConfig_default = Inr (b', o2, oc)"
    and f: "oc_rejected oc = None" "o_volume_unit o2 = VU_Base" "\<not> is_stop o2" "o_volume o2 = 8"
      "o_display_volume o2 = 0" "oc_cancelled oc = None" "oc_resting oc = Some 3"
    using sample_report by auto
  from report_adds_up[OF sample_book_inv sample_typed(1) exact_typed sample_typed(2) r f(1,2)] r f(3-7)
  show ?thesis by (simp add: Let_def visible_part_def)
qed

text \<open>
  C7: A post-only order never takes liquidity: its submission reports no fill, no cancelled
  remainder and triggers no stop, whether it rests or is rejected.
\<close>

theorem post_only_never_takes:
  assumes "ob_sequence b < 2 ^ 64 - 1" "i128_typed I" "order_typed o1"
    and "execute_order_with_symbol I b o1 config = Inr (b', o2, oc)" "o_post_only o2"
  shows "oc_fills oc = [] \<and> oc_cancelled oc = None \<and> oc_triggers oc = []"
  using assms(4,1,2,3)
proof (cases rule: submit_cases)
  case admitted
  from admitted(4) show ?thesis
    by (cases rule: execute_admitted_cases) (use assms(5) in \<open>simp_all add: Outcome_default_def\<close>)
qed (simp add: Outcome_default_def)

theorem post_only_never_takes_witness:
  "\<exists>b' o2 oc. execute_order_with_symbol exact_i256 sample_book (sample_buy\<lparr>o_price := 99, o_post_only := True\<rparr>)
       SymbolConfig_default = Inr (b', o2, oc) \<and> oc_resting oc = Some 8 \<and> oc_fills oc = []"
proof -
  obtain b' o2 oc where r: "execute_order_with_symbol exact_i256 sample_book
      (sample_buy\<lparr>o_price := 99, o_post_only := True\<rparr>) SymbolConfig_default = Inr (b', o2, oc)"
    and f: "o_post_only o2" "oc_resting oc = Some 8"
    by (simp add: book_eval sample_book_def sample_buy_def would_cross_def best_ask_def bt_first_def)
  have "order_typed (sample_buy\<lparr>o_price := 99, o_post_only := True\<rparr>)"
    using sample_typed(2) by (simp add: order_typed_def in_i128_def)
  from post_only_never_takes[OF sample_typed(1) exact_typed this r f(1)] r f(2) show ?thesis by auto
qed

lemma run_stops_seqs:
  assumes "run_stops I config b oc = Inr (b', oc')" "book_core b"
  shows "o_sequence ` book_orders b' \<subseteq> o_sequence ` book_orders b"
  using assms
proof (induction b arbitrary: oc rule: measure_induct_rule[of "\<lambda>b. length (stops b)"])
  case (less b)
  from less.prems(1) show ?case
  proof (cases rule: run_stops_cases)
    case (trigger l i b2 fills remainder)
    let ?b1 = "b\<lparr>stops := vec_remove i (stops b),
      gtd_scan_dirty := gtd_scan_dirty b \<or> is_gtd (o_tif (stops b ! i))\<rparr>"
    have "stop_ok (stops b ! i)" using less.prems(2) trigger(2) by (simp add: book_core_def)
    then have v: "in_i128 (o_volume (stops b ! i))" by (auto simp: stop_ok_def in_i128_def)
    have c1: "book_core ?b1" using less.prems(2) trigger(2) by (rule drop_stop_core)
    have "length (stops (print_last fills b2)) < length (stops b)"
      using trigger(2) by (simp add: sweep_sel[OF trigger(5)] length_vec_remove)
    from less.IH[OF this trigger(6)] sweep_core[OF trigger(5) c1 v]
    have "o_sequence ` book_orders b' \<subseteq> o_sequence ` book_orders b2" by (simp add: book_orders_def)
    also have "\<dots> \<subseteq> o_sequence ` book_orders ?b1" using sweep_seqs[OF trigger(5) c1 v] .
    also have "\<dots> \<subseteq> o_sequence ` book_orders b"
      using set_vec_remove[of i "stops b"] by (auto simp: book_orders_def)
    finally show ?thesis .
  qed simp
qed

text \<open>
  C8: Immediate and market orders do not rest.  After the submission of a market, IOC or FOK order, a
  resting remainder is reported only if the order is post-only and no stop (validation lets a post-only
  IOC or FOK pass), and an order of the book carries its sequence only in that case or if it is a stop
  that was parked.
\<close>

theorem immediate_never_rests:
  assumes "book_inv b" "ob_sequence b < 2 ^ 64 - 1" "i128_typed I" "order_typed o1"
    and "execute_order_with_symbol I b o1 config = Inr (b', o2, oc)"
    and imm: "o_live o2 = Market \<or> is_immediate (o_tif o2)"
  shows "(oc_resting oc \<noteq> None \<longrightarrow> o_post_only o2 \<and> \<not> is_stop o2)
    \<and> (o_sequence o2 \<in> o_sequence ` book_orders b' \<longrightarrow> oc_resting oc \<noteq> None \<or> is_stop o2 \<and> oc_parked oc)"
proof -
  let ?b = "b\<lparr>ob_sequence := ob_sequence b + 1\<rparr>"
  have core: "book_core ?b" using next_sequence_inv(1)[OF assms(1,2)] by (simp add: book_inv_def)
  note p = purged_core[OF core, of o2]
  have nb: "ob_sequence b \<notin> o_sequence ` book_orders b" using next_sequence_inv(2)[OF assms(1,2)] .
  then have np: "ob_sequence b \<notin> o_sequence ` book_orders (fst (purged ?b o2))" using p(6) by auto
  have sq: "o_sequence o2 = ob_sequence b"
    using assms(5) by (auto simp: execute_order_with_symbol_def execute_order_inner_def next_market_sequence_def
        Let_def dest: arg_cong[where f = "o_sequence \<circ> fst"] split: prod.splits option.splits sum.splits)
  from assms(5,2,3,4) show ?thesis
  proof (cases rule: submit_cases)
    case (refused r)
    then show ?thesis using nb sq by (simp add: Outcome_default_def)
  next
    case admitted
    from admitted(4) show ?thesis
    proof (cases rule: execute_admitted_cases)
      case taken
      have v: "in_i128 (o_volume o2)" using admitted(2) by (simp add: admissible_def order_typed_def)
      obtain b1 fills remainder where
        sw: "sweep I (fst (purged ?b o2)) o2 (order_limit o2) config = Inr (b1, fills, remainder)"
        and run: "run_stops I config (print_last fills b1)
          (snd (settle_remainder b1 o2 remainder (Outcome_default\<lparr>oc_market_seq := ob_sequence b,
             oc_expired := snd (purged ?b o2), oc_fills := fills\<rparr>))) = Inr (b', oc)"
        using taken(4) imm by (auto simp: execute_taker_eq settle_remainder_def split: sum.splits if_splits)
      have "book_core (print_last fills b1)" using sweep_core[OF sw p(1) v] by simp
      from run_stops_seqs[OF run this] sweep_seqs[OF sw p(1) v]
      have "o_sequence ` book_orders b' \<subseteq> o_sequence ` book_orders (fst (purged ?b o2))"
        by (simp add: print_last_orders)
      moreover have "oc_resting oc = None"
        using run_stops_outcome[OF run] imm by (auto simp: settle_remainder_def Outcome_default_def)
      ultimately show ?thesis using np sq by auto
    qed (use np sq in \<open>simp_all add: Outcome_default_def\<close>)
  qed
qed

theorem immediate_never_rests_witness:
  "\<exists>b' o2 oc. execute_order_with_symbol exact_i256 sample_book (sample_buy\<lparr>o_tif := Ioc\<rparr>)
       SymbolConfig_default = Inr (b', o2, oc) \<and> oc_cancelled oc = Some 3 \<and> oc_resting oc = None
     \<and> o_sequence o2 \<notin> o_sequence ` book_orders b'"
proof -
  obtain b' o2 oc where r: "execute_order_with_symbol exact_i256 sample_book
      (sample_buy\<lparr>o_tif := Ioc\<rparr>) SymbolConfig_default = Inr (b', o2, oc)"
    and f: "o_live o2 = Market \<or> is_immediate (o_tif o2)" "\<not> o_post_only o2" "\<not> is_stop o2"
      "oc_cancelled oc = Some 3"
    by (simp add: book_eval sample_book_def sample_buy_def)
  have "order_typed (sample_buy\<lparr>o_tif := Ioc\<rparr>)" using sample_typed(2) by (simp add: order_typed_def)
  from immediate_never_rests[OF sample_book_inv sample_typed(1) exact_typed this r f(1)] r f(2-4)
  show ?thesis by auto
qed

text \<open>
  C9: The stop cascade is complete and exact.  When \<open>run_stops\<close> returns, no parked stop is
  electable at the last trade price; the stops triggered are, with multiplicity, exactly those missing
  from the parked list; each was electable at its recorded trigger price; the outcome is otherwise
  unchanged; and the book core survives.
\<close>

theorem run_stops_complete:
  assumes "book_core b" "run_stops I config b oc = Inr (b', oc')"
  shows "settled b' \<and> book_core b'
    \<and> (\<exists>new. oc' = oc\<lparr>oc_triggers := oc_triggers oc @ new\<rparr>
         \<and> mset (map se_stop new) + mset (stops b') = mset (stops b)
         \<and> (\<forall>t \<in> set new. stop_elected (se_stop t) (se_trigger_price t)))"
  using run_stops_core[OF assms(2,1)] run_stops_outcome[OF assms(2)] by blast

theorem run_stops_complete_witness:
  "\<exists>b' oc'. run_stops exact_i256 SymbolConfig_default (sample_book\<lparr>last_trade_price := Some 110\<rparr>) Outcome_default = Inr (b', oc')
     \<and> stops b' = [] \<and> settled b' \<and> length (oc_triggers oc') = 1"
proof -
  obtain b' oc' where r: "run_stops exact_i256 SymbolConfig_default (sample_book\<lparr>last_trade_price := Some 110\<rparr>)
      Outcome_default = Inr (b', oc')" and f: "stops b' = []" "length (oc_triggers oc') = 1"
    by (simp add: book_eval sample_book_def)
  have "book_core (sample_book\<lparr>last_trade_price := Some 110\<rparr>)"
    using core_cong[of "sample_book\<lparr>last_trade_price := Some 110\<rparr>" sample_book] sample_core(1) by simp
  from run_stops_complete[OF this r] r f show ?thesis by auto
qed

lemma sweep_run_total:
  assumes base: "sweep_mode o1 = SM_Base"
  shows "\<exists>s'. sweep_run I ctx o1 limit s = Inr s'"
proof (induction s rule: measure_induct_rule[of sweep_measure])
  case (less s)
  have "\<exists>f. sweep_step I ctx o1 limit s = Inr f"
    using base by (cases "sw_resting s")
      (auto simp: sweep_step_def match_volume_def Let_def split: if_splits)
  then obtain f where f: "sweep_step I ctx o1 limit s = Inr f" ..
  show ?case
  proof (cases f)
    case (Continue t)
    then show ?thesis
      using f less.IH[OF sweep_step_decreases] by (auto simp: sweep_run.simps[of I ctx o1 limit s])
  qed (use f in \<open>simp add: sweep_run.simps[of I ctx o1 limit s]\<close>)
qed

lemma sweep_total:
  assumes "sweep_mode o1 = SM_Base"
  shows "\<exists>b' fills remainder. sweep I b o1 limit config = Inr (b', fills, remainder)"
proof -
  let ?ctx = "\<lparr>sc_config = config, sc_record = record_depth b, sc_track_gtd = has_gtd_deadlines b\<rparr>"
  obtain s t where "sweep_side I (asks b) o1 limit ?ctx (depth_journal b) (gtd_scan_dirty b) = Inr s"
    "sweep_side I (bids b) o1 limit ?ctx (depth_journal b) (gtd_scan_dirty b) = Inr t"
    unfolding sweep_side_def using sweep_run_total[OF assms] by metis
  then show ?thesis by (cases "o_side o1") (simp_all add: sweep_def Let_def)
qed

lemma run_stops_total:
  assumes "\<forall>o1 \<in> set (stops b). o_volume_unit o1 = VU_Base"
  shows "\<exists>r. run_stops I config b oc = Inr r"
  using assms
proof (induction b arbitrary: oc rule: measure_induct_rule[of "\<lambda>b. length (stops b)"])
  case (less b)
  show ?case
  proof (cases "last_trade_price b")
    case (Some l)
    show ?thesis
    proof (cases "position (\<lambda>stop. stop_elected stop l) (stops b)")
      case (Some i)
      note i = Some
      from position_SomeD[OF i] have il: "i < length (stops b)" by simp
      then have "sweep_mode (stops b ! i) = SM_Base" using less.prems by (simp add: sweep_mode_def)
      from sweep_total[OF this, of I "b\<lparr>stops := vec_remove i (stops b),
          gtd_scan_dirty := gtd_scan_dirty b \<or> is_gtd (o_tif (stops b ! i))\<rparr>"]
      obtain b2 fills remainder where sw: "sweep I (b\<lparr>stops := vec_remove i (stops b),
          gtd_scan_dirty := gtd_scan_dirty b \<or> is_gtd (o_tif (stops b ! i))\<rparr>) (stops b ! i)
          (order_limit (stops b ! i)) config = Inr (b2, fills, remainder)" by blast
      have st: "stops b2 = vec_remove i (stops b)" by (simp add: sweep_sel[OF sw])
      have "length (stops (print_last fills b2)) < length (stops b)"
        using il by (simp add: st length_vec_remove)
      moreover have "\<forall>o1 \<in> set (stops (print_last fills b2)). o_volume_unit o1 = VU_Base"
        using less.prems set_vec_remove[of i "stops b"] by (auto simp: st)
      ultimately show ?thesis
        using less.IH \<open>last_trade_price b = Some l\<close> i sw
        by (simp add: run_stops.simps[of I config b oc] Let_def print_last_def[symmetric])
    qed (simp add: run_stops.simps[of I config b oc] Some)
  qed (simp add: run_stops.simps[of I config b oc])
qed

text \<open>
  C10: Submission in base volume never panics.  For a base-volume order and a book whose parked stops
  are sized in base volume, \<open>execute_order_with_symbol\<close> returns a result.
\<close>

theorem base_submission_returns:
  assumes "book_inv b" "ob_sequence b < 2 ^ 64 - 1" "o_volume_unit o1 = VU_Base"
    and "\<forall>s \<in> set (stops b). o_volume_unit s = VU_Base"
  shows "\<exists>b' o2 oc. execute_order_with_symbol I b o1 config = Inr (b', o2, oc)"
proof -
  let ?b = "b\<lparr>ob_sequence := ob_sequence b + 1\<rparr>" and ?o3 = "o1\<lparr>o_sequence := ob_sequence b\<rparr>"
  have nm: "next_market_sequence b = (ob_sequence b, ?b)"
    using assms(2) by (simp add: next_market_sequence_def wrap_u64_def)
  have core: "book_core ?b" using next_sequence_inv(1)[OF assms(1,2)] by (simp add: book_inv_def)
  have u: "o_volume_unit (fst (normalize_order I ?o3 config)) = VU_Base"
    using assms(3) by (simp add: normalize_order_def Let_def)
  have ad: "\<exists>r. execute_admitted I ?b o2 config oc = Inr r" if "o_volume_unit o2 = VU_Base" for o2 oc
  proof -
    have base: "sweep_mode o2 = SM_Base" using that by (simp add: sweep_mode_def)
    have "\<exists>r. execute_taker I (fst (purged ?b o2)) o2 config oc' = Inr r" for oc'
    proof -
      obtain b1 fills remainder where
        sw: "sweep I (fst (purged ?b o2)) o2 (order_limit o2) config = Inr (b1, fills, remainder)"
        using sweep_total[OF base] by blast
      have "stops (fst (settle_remainder b1 o2 remainder oc'')) = stops b1" for oc''
        by (simp add: settle_remainder_def)
      moreover have "set (stops b1) \<subseteq> set (stops b)"
        using purged_core(5)[OF core, of o2] by (simp add: sweep_sel[OF sw])
      ultimately have "\<forall>s \<in> set (stops (print_last fills (fst (settle_remainder b1 o2 remainder oc'')))).
          o_volume_unit s = VU_Base" for oc''
        using assms(4) by auto
      then show ?thesis unfolding execute_taker_eq sw sum.case prod.case by (rule run_stops_total)
    qed
    then show ?thesis by (simp add: execute_admitted_eq Let_def split: option.split)
  qed
  obtain o2 i where n: "normalize_order I ?o3 config = (o2, i)" by (cases "normalize_order I ?o3 config")
  then have "o_volume_unit o2 = VU_Base" using u by simp
  from ad[OF this, of "Outcome_default\<lparr>oc_market_seq := ob_sequence b\<rparr>"] show ?thesis
    by (auto simp: execute_order_with_symbol_def execute_order_inner_def nm n Let_def
        split: option.split)
qed

theorem base_submission_returns_witness:
  "\<exists>b' o2 oc. execute_order_with_symbol exact_i256 sample_book (Order_new Buy 101 20 0) SymbolConfig_default
     = Inr (b', o2, oc)"
  by (rule base_submission_returns[OF sample_book_inv sample_typed(1)])
    (simp_all add: Order_new_def sample_book_def OrderBook_new_def)

text \<open>
  Quote-sized takers can panic.  A well-formed book with one offer at the smallest price and a
  quote-sized market buy of the largest amount reach the \<open>expect\<close> on the quotient of the remaining
  amount by the price, so \<open>execute_order\<close> panics instead of returning.
\<close>

lemma quote_submission_panics:
  "\<exists>b o1. book_inv b \<and> order_typed o1 \<and> validate_order o1 = None
     \<and> execute_order exact_i256 b o1 = Inl DivOverflow"
proof (intro exI conjI)
  let ?b = "OrderBook_new\<lparr>asks := [(AskKey 1 0, Order_new Sell 1 5 0)], ob_sequence := 1\<rparr>"
  let ?o = "(Order_new Buy 0 i128_max 0)\<lparr>o_live := Market, o_volume_unit := VU_Quote\<rparr>"
  show "book_inv ?b"
    by (simp add: book_inv_def book_core_def side_ok_def bt_ok_Cons resting_ok_def settled_def uncrossed_def
        seqs_ok_def side_seqs_def book_orders_def gtd_index_ok_def gtd_times_def OrderBook_new_def Order_new_def
        is_stop_def)
  show "order_typed ?o" "validate_order ?o = None"
    by (simp_all add: order_typed_def in_i128_def Order_new_def validate_order_def is_finite_def MIN_FEE_RATE_def
        MAX_FEE_RATE_def is_stop_def from_units_def from_raw_def wrap_i128_def SCALE_def)
  show "execute_order exact_i256 ?b ?o = Inl DivOverflow"
    by (simp add: book_eval fixed_div_def checked_div_def)
qed

end
