(* ===== verification/Book_Maintenance.thy ===== *)
theory Book_Maintenance
  imports Book_Properties
begin

text \<open>
  Cancellation, amendment, expiry and the depth views of the order book.
\<close>

section \<open>Cancellation and amendment\<close>

lemma without_unique: "B = insert x A \<Longrightarrow> f x \<notin> f ` A \<Longrightarrow> A = {y \<in> B. f y \<noteq> f x}"
  by (auto simp: image_iff)

lemma drop_stop_orders:
  assumes s: "seqs_ok b" and i: "i < length (stops b)"
  shows "book_orders (b\<lparr>stops := vec_remove i (stops b), gtd_scan_dirty := d\<rparr>) =
    {o1 \<in> book_orders b. o_sequence o1 \<noteq> o_sequence (stops b ! i)}"
proof -
  let ?x = "stops b ! i"
  have x: "?x \<in> set (stops b)" using i by simp
  have d: "distinct (map o_sequence (stops b))" using s by (simp add: seqs_ok_def)
  have "mset (map o_sequence (stops b)) = add_mset (o_sequence ?x) (mset (map o_sequence (vec_remove i (stops b))))"
    using arg_cong[OF mset_vec_remove[OF i], of "image_mset o_sequence"] by simp
  then have "o_sequence ?x \<notin> set (map o_sequence (vec_remove i (stops b)))"
    using d by (metis distinct.simps(2) mset.simps(2) mset_eq_imp_distinct_iff)
  then have "set (vec_remove i (stops b)) = {o1 \<in> set (stops b). o_sequence o1 \<noteq> o_sequence ?x}"
    using without_unique[OF set_vec_split[OF i], of o_sequence] by simp
  moreover have "o_sequence o1 \<noteq> o_sequence ?x" if "o1 \<in> snd ` set (bids b) \<union> snd ` set (asks b)" for o1
    using s that x unfolding seqs_ok_def side_seqs_def by (metis Un_iff disjoint_iff imageI)
  ultimately show ?thesis unfolding book_orders_def by auto
qed

lemma drop_resting_orders_eq:
  assumes core: "book_core b" and f: "find_resting b o1 = Some stored"
  shows "book_orders (drop_resting b stored) = {o2 \<in> book_orders b. o_sequence o2 \<noteq> o_sequence stored}"
  by (rule without_unique[OF drop_resting_orders[OF core f] dropped_seq[OF core f]])

text \<open>
  C11: Cancellation is exact.  \<open>cancel\<close> keeps the invariant.  When it finds the order it returns it, and
  the orders left are exactly those with another sequence; when it does not, the book is unchanged and
  holds no order on that side with that sequence that is a stop or rests at the given price.
\<close>

theorem cancel_exact:
  assumes "book_inv b" "cancel b o1 = (b', r)"
  shows "book_inv b' \<and>
    (case r of
       Some x \<Rightarrow> x \<in> book_orders b \<and> o_side x = o_side o1 \<and> o_sequence x = o_sequence o1
         \<and> book_orders b' = {o2 \<in> book_orders b. o_sequence o2 \<noteq> o_sequence o1}
     | None \<Rightarrow> b' = b \<and> find_resting b o1 = None
         \<and> (\<forall>s \<in> set (stops b). \<not> (o_side s = o_side o1 \<and> o_sequence s = o_sequence o1)))"
proof -
  have core: "book_core b" and st: "settled b" using assms(1) by (simp_all add: book_inv_def)
  have c': "book_core b'" using cancel_core[OF core, of o1] assms(2) by simp
  show ?thesis
  proof (cases "position (\<lambda>stop. o_side stop = o_side o1 \<and> o_sequence stop = o_sequence o1) (stops b)")
    case (Some i)
    from position_SomeD[OF Some] have i: "i < length (stops b)" "o_side (stops b ! i) = o_side o1"
      "o_sequence (stops b ! i) = o_sequence o1" by auto
    have eq: "b' = b\<lparr>stops := vec_remove i (stops b),
        gtd_scan_dirty := gtd_scan_dirty b \<or> is_gtd (o_tif (stops b ! i))\<rparr>" "r = Some (stops b ! i)"
      using assms(2) cancel_stop[OF Some] by simp_all
    have "settled b'" using st set_vec_remove[of i "stops b"] eq(1) by (auto simp: settled_def)
    moreover have "book_orders b' = {o2 \<in> book_orders b. o_sequence o2 \<noteq> o_sequence o1}"
      using drop_stop_orders[OF _ i(1)] core i(3) eq(1) by (simp add: book_core_def)
    ultimately show ?thesis using c' i eq(2) by (auto simp: book_inv_def book_orders_def)
  next
    case None
    show ?thesis
    proof (cases "find_resting b o1")
      case (Some stored)
      note e = find_resting_entry[OF core Some]
      have eq: "b' = record_depth_change (drop_resting b stored) (o_side stored) (o_price stored)
          (- o_volume stored) (- 1)" "r = Some stored"
        using assms(2) cancel_resting[OF core None Some] by simp_all
      have "book_orders b' = book_orders (drop_resting b stored)" by (simp add: eq(1) book_orders_def)
      moreover have "settled b'" using st by (simp add: eq(1) settled_def)
      moreover have "stored \<in> book_orders b" using drop_resting_orders[OF core Some] by simp
      ultimately show ?thesis
        using c' e(1,3) eq(2) drop_resting_orders_eq[OF core Some] by (simp add: book_inv_def resting_ok_def)
    next
      case f: None
      then show ?thesis
        using assms cancel_miss[OF core None f] None by (auto simp: position_None_iff)
    qed
  qed
qed

theorem cancel_exact_witness:
  "\<exists>b'. cancel sample_book (Order_new Sell 100 5 0) = (b', Some (Order_new Sell 100 5 0))
     \<and> book_inv b' \<and> (\<forall>o2 \<in> book_orders b'. o_sequence o2 \<noteq> 0) \<and> bids b' \<noteq> []"
proof -
  obtain b' where r: "cancel sample_book (Order_new Sell 100 5 0) = (b', Some (Order_new Sell 100 5 0))"
    and "bids b' \<noteq> []"
    by (simp add: cancel_def sample_book_def OrderBook_new_def Order_new_def record_depth_change_def)
  with cancel_exact[OF sample_book_inv r] show ?thesis by (auto simp: Order_new_def)
qed

text \<open>
  C12: Amendment follows the priority rule.  An accepted amendment replaces exactly one resting order,
  at the requested price and volume; it keeps its sequence, hence its place in the queue, exactly when the
  price is unchanged and the volume not increased, and otherwise takes the new sequence; it never
  trades and never crosses, and the invariant is kept.  A refused amendment changes nothing but the counter.
\<close>

theorem amend_priority_rule:
  assumes "book_inv b" "ob_sequence b < 2 ^ 64 - 1"
    and "\<forall>p. price = Some p \<longrightarrow> p \<le> i128_max" "\<forall>v. volume = Some v \<longrightarrow> v \<le> i128_max"
    and "amend b key price volume = (b', r)"
  shows "book_inv b' \<and> ob_sequence b' = ob_sequence b + 1 \<and> last_trade_price b' = last_trade_price b \<and>
    (case r of
       Inl e \<Rightarrow> b' = b\<lparr>ob_sequence := ob_sequence b + 1\<rparr>
     | Inr a \<Rightarrow> \<exists>stored \<in> book_orders b.
         o_sequence stored = o_sequence key \<and> o_side stored = o_side key \<and> o_price stored = o_price key
         \<and> o_price (am_order a) = (case price of None \<Rightarrow> o_price stored | Some p \<Rightarrow> p)
         \<and> o_volume (am_order a) = (case volume of None \<Rightarrow> o_volume stored | Some v \<Rightarrow> v)
         \<and> o_sequence (am_order a) =
             (if o_price (am_order a) = o_price stored \<and> o_volume (am_order a) \<le> o_volume stored
              then o_sequence stored else ob_sequence b)
         \<and> book_orders b' = insert (am_order a) {o2 \<in> book_orders b. o_sequence o2 \<noteq> o_sequence stored})"
proof -
  let ?b = "b\<lparr>ob_sequence := ob_sequence b + 1\<rparr>"
  note nx = next_sequence_inv[OF assms(1,2)]
  have am: "amend_with_sequence ?b key price volume (ob_sequence b) = (b', r)"
    using assms(5) nx(3) by (simp add: amend_def next_market_sequence_def)
  have core: "book_core ?b" and st: "settled ?b" using nx(1) by (simp_all add: book_inv_def)
  have c': "book_core b'"
    using amend_core[OF core am] nx(2) assms(3,4) by simp
  show ?thesis
  proof (cases r)
    case (Inl e)
    with am have "b' = ?b" using amend_Inl by blast
    then show ?thesis using Inl nx(1) by simp
  next
    case (Inr a)
    with am have "amend_with_sequence ?b key price volume (ob_sequence b) = (b', Inr a)" by simp
    from core this show ?thesis
    proof (cases rule: amend_Inr)
      case (1 stored np nv)
      let ?u = "amended stored np nv (ob_sequence b)" and ?d = "drop_resting ?b stored"
      note e = find_resting_entry[OF core 1(1)]
      have fr: "o_sequence ?u \<notin> side_seqs (bids ?d)" "o_sequence ?u \<notin> side_seqs (asks ?d)"
        using amended_fresh(1)[OF core 1(1), of "ob_sequence b" np nv] nx(2) by (simp_all add: book_seqs_eq)
      have d: "side_ok BidKey Buy (bids ?d)" "side_ok AskKey Sell (asks ?d)"
        using drop_resting_core[OF core 1(1)] by (simp_all add: book_core_def)
      have "book_orders b' = book_orders (replace_resting ?b stored ?u)"
        by (simp add: 1(9) record_amendment_def book_orders_def)
      also have "\<dots> = insert ?u (book_orders ?d)"
        using bid.fresh_set[OF d(1) fr(1)] ask.fresh_set[OF d(2) fr(2)]
        by (cases "o_side stored") (simp_all add: replace_resting_def insert_order_def book_orders_def)
      finally have o: "book_orders b' = insert ?u {o2 \<in> book_orders b. o_sequence o2 \<noteq> o_sequence stored}"
        using drop_resting_orders_eq[OF core 1(1)] by simp
      have "stored \<in> book_orders ?b" unfolding drop_resting_orders[OF core 1(1)] by (rule insertI1)
      then have m: "stored \<in> book_orders b" by simp
      have st': "settled b'" using st by (simp add: 1(9) settled_def)
      have sel: "ob_sequence b' = ob_sequence b + 1" "last_trade_price b' = last_trade_price b"
        by (simp_all add: 1(9))
      have sd: "o_side stored = o_side key" using e(1) by (simp add: resting_ok_def)
      have a: "am_order a = ?u" by (simp add: 1(8) amendment_of_def)
      have u: "o_price ?u = np" "o_volume ?u = nv"
        "o_sequence ?u = (if np = o_price stored \<and> nv \<le> o_volume stored then o_sequence stored else ob_sequence b)"
        by (simp_all add: amended_def)
      show ?thesis
        unfolding Inr sum.case a u book_inv_def
        by (intro conjI bexI[OF _ m] c' st' sel e(2,3) sd 1(3,4) refl o)
    qed
  qed
qed

theorem amend_priority_rule_witness:
  "\<exists>b' a. amend sample_book (Order_new Sell 100 5 0) None (Some 2) = (b', Inr a)
     \<and> book_inv b' \<and> o_sequence (am_order a) = 0 \<and> o_volume (am_order a) = 2 \<and> o_price (am_order a) = 100"
proof -
  obtain b' a where r: "amend sample_book (Order_new Sell 100 5 0) None (Some 2) = (b', Inr a)"
    by (simp add: amend_def amend_with_sequence_def amend_in_map_def next_market_sequence_def
        sample_book_def OrderBook_new_def Order_new_def is_finite_def is_stop_def Let_def)
  have only: "stored = Order_new Sell 100 5 0" if "stored \<in> book_orders sample_book" "o_sequence stored = 0" for stored
    using that by (auto simp: book_orders_def sample_book_def OrderBook_new_def Order_new_def)
  from amend_priority_rule[OF sample_book_inv sample_typed(1) _ _ r] obtain stored where
    "book_inv b'" and m: "stored \<in> book_orders sample_book" "o_sequence stored = 0"
    and a: "o_price (am_order a) = o_price stored" "o_volume (am_order a) = 2"
      "o_sequence (am_order a) = (if o_price (am_order a) = o_price stored \<and> o_volume (am_order a) \<le> o_volume stored
         then o_sequence stored else ob_sequence sample_book)"
    by (auto simp: Order_new_def)
  then show ?thesis using r only[OF m] by (simp add: Order_new_def)
qed

section \<open>Expiry\<close>

text \<open>
  C13: The automatic purge does the full scan's work.  On a book with the invariant, \<open>purge_due_gtd\<close>,
  which consults the deadline index, removes and reports exactly the orders a full \<open>purge_expired\<close> scan
  with no day close removes, in the same order, and leaves the same sides, stops and journal.
\<close>

theorem purge_due_is_full_scan:
  assumes "book_inv b"
  shows "snd (purge_due_gtd b now) = snd (purge_expired b now None)
    \<and> bids (fst (purge_due_gtd b now)) = bids (fst (purge_expired b now None))
    \<and> asks (fst (purge_due_gtd b now)) = asks (fst (purge_expired b now None))
    \<and> stops (fst (purge_due_gtd b now)) = stops (fst (purge_expired b now None))
    \<and> depth_journal (fst (purge_due_gtd b now)) = depth_journal (fst (purge_expired b now None))"
proof -
  have core: "book_core b" using assms by (simp add: book_inv_def)
  have ok: "bt_ok (bids b)" "bt_ok (asks b)" using core_bt_ok[OF core] by auto
  show ?thesis
  proof (cases "expired_orders b now None = []")
    case True
    then have n: "\<forall>o1 \<in> book_orders b. \<not> is_expired (o_tif o1) now None"
      by (auto simp: expired_orders_def filter_empty_conv book_orders_def bt_values_def)
    then have "filter (\<lambda>e. \<not> is_expired (o_tif (snd e)) now None) (bids b) = bids b"
      "filter (\<lambda>e. \<not> is_expired (o_tif (snd e)) now None) (asks b) = asks b"
      "filter (\<lambda>o1. \<not> is_expired (o_tif o1) now None) (stops b) = stops b"
      "filter (\<lambda>o1. is_expired (o_tif o1) now None) (bt_values (bids b)) = []"
      "filter (\<lambda>o1. is_expired (o_tif o1) now None) (bt_values (asks b)) = []"
      by (auto simp: filter_id_conv filter_empty_conv book_orders_def bt_values_def)
    then show ?thesis
      using purge_due_cases[OF core, of now] True ok
      by (auto simp: purge_expired_eq expiry_changes_def)
  next
    case False
    then show ?thesis using purge_due_cases[OF core, of now] ok by (simp add: purge_expired_eq)
  qed
qed

theorem purge_due_is_full_scan_witness:
  "book_inv (OrderBook_new\<lparr>bids := [(BidKey 90 0, (Order_new Buy 90 3 0)\<lparr>o_tif := Gtd 7\<rparr>)], ob_sequence := 1,
       earliest_gtd_expiry := Some 7\<rparr>)
   \<and> length (snd (purge_due_gtd (OrderBook_new\<lparr>bids := [(BidKey 90 0, (Order_new Buy 90 3 0)\<lparr>o_tif := Gtd 7\<rparr>)],
       ob_sequence := 1, earliest_gtd_expiry := Some 7\<rparr>) 9)) = 1"
proof -
  let ?b = "OrderBook_new\<lparr>bids := [(BidKey 90 0, (Order_new Buy 90 3 0)\<lparr>o_tif := Gtd 7\<rparr>)], ob_sequence := 1,
    earliest_gtd_expiry := Some 7\<rparr>"
  have i: "book_inv ?b"
    by (simp add: book_inv_def book_core_def side_ok_def bt_ok_Cons resting_ok_def settled_def uncrossed_def
        seqs_ok_def side_seqs_def book_orders_def gtd_index_ok_def gtd_times_def earliest_of_def OrderBook_new_def
        Order_new_def is_stop_def)
  have "length (snd (purge_expired ?b 9 None)) = 1"
    by (simp add: purge_expired_def OrderBook_new_def Order_new_def Let_def)
  with purge_due_is_full_scan[OF i, of 9] i show ?thesis by simp
qed

section \<open>The depth feed\<close>

text \<open>
  C14: The depth journal is exact.  With the journal enabled and empty, after a submission the
  visible volume and the number of orders at every price of either side are those before plus the
  journalled changes of that side and price.
\<close>

theorem submission_journal_exact:
  assumes "book_inv b" "ob_sequence b < 2 ^ 64 - 1" "i128_typed I" "order_typed o1"
    and "record_depth b" "depth_journal b = []"
    and "execute_order_with_symbol I b o1 config = Inr (b', o2, oc)"
  shows "level_volume (bids b') p = level_volume (bids b) p + journal_volume (depth_journal b') Buy p
    \<and> level_orders (bids b') p = level_orders (bids b) p + journal_orders (depth_journal b') Buy p
    \<and> level_volume (asks b') p = level_volume (asks b) p + journal_volume (depth_journal b') Sell p
    \<and> level_orders (asks b') p = level_orders (asks b) p + journal_orders (depth_journal b') Sell p"
proof -
  have k: "keeps (b\<lparr>ob_sequence := ob_sequence b + 1\<rparr>) b'"
    using execute_order_inner_keeps[OF assms(7)[unfolded execute_order_with_symbol_def] assms(1-4)] .
  then have "depth_balance b' = depth_balance b"
    using assms(5) balance_cong[of "b\<lparr>ob_sequence := ob_sequence b + 1\<rparr>" b] keeps_balance[OF k] by simp
  then have "depth_balance b' Buy p = depth_balance b Buy p" "depth_balance b' Sell p = depth_balance b Sell p"
    by simp_all
  then show ?thesis
    using assms(6) by (simp add: depth_balance_def journal_volume_def journal_orders_def)
qed

theorem submission_journal_exact_witness:
  "\<exists>b' o2 oc. execute_order_with_symbol exact_i256 sample_book sample_buy SymbolConfig_default = Inr (b', o2, oc)
     \<and> depth_journal b' \<noteq> []
     \<and> level_volume (asks b') 100 = 5 + journal_volume (depth_journal b') Sell 100"
proof -
  obtain b' o2 oc where r: "execute_order_with_symbol exact_i256 sample_book sample_buy SymbolConfig_default = Inr (b', o2, oc)"
    and j: "depth_journal b' \<noteq> []"
    by (simp add: book_eval sample_book_def sample_buy_def)
  have s: "record_depth sample_book" "depth_journal sample_book = []" "level_volume (asks sample_book) 100 = 5"
    by (simp_all add: sample_book_def OrderBook_new_def level_volume_def Order_new_def)
  from submission_journal_exact[OF sample_book_inv sample_typed(1) exact_typed sample_typed(2) s(1,2) r, of 100] s(3) r j
  show ?thesis by auto
qed

text \<open>
  C15: Cancellations, amendments and expiries journal exactly what they change: each leaves level
  totals minus journalled changes as they were, on both sides, at every price.
\<close>

theorem maintenance_journal_exact:
  assumes "book_inv b" "record_depth b" "ob_sequence b < 2 ^ 64 - 1" "\<forall>v. volume = Some v \<longrightarrow> v \<le> i128_max"
  shows "depth_balance (fst (cancel b o1)) = depth_balance b
    \<and> depth_balance (fst (purge_expired b now day)) = depth_balance b
    \<and> depth_balance (fst (amend b o1 price volume)) = depth_balance b"
proof -
  have core: "book_core b" using assms(1) by (simp add: book_inv_def)
  let ?b = "b\<lparr>ob_sequence := ob_sequence b + 1\<rparr>"
  note nx = next_sequence_inv[OF assms(1,3)]
  have "book_core ?b" using nx(1) by (simp add: book_inv_def)
  moreover have "amend b o1 price volume = amend_with_sequence ?b o1 price volume (ob_sequence b)"
    using nx(3) by (simp add: amend_def next_market_sequence_def)
  ultimately have "depth_balance (fst (amend b o1 price volume)) = depth_balance ?b"
    using amend_balance[of ?b o1 price volume "ob_sequence b"] nx(2) assms(2,4)
    by (cases "amend_with_sequence ?b o1 price volume (ob_sequence b)") simp
  then show ?thesis
    using cancel_balance[OF core assms(2)] purge_balance[OF core assms(2)] balance_cong[of ?b b] by simp
qed

theorem maintenance_journal_exact_witness:
  "book_inv sample_book \<and> record_depth sample_book
   \<and> depth_balance (fst (cancel sample_book (Order_new Sell 100 5 0))) = depth_balance sample_book
   \<and> depth_balance (fst (amend sample_book (Order_new Sell 100 5 0) (Some 105) None)) = depth_balance sample_book"
proof -
  have s: "record_depth sample_book" by (simp add: sample_book_def)
  from maintenance_journal_exact[OF sample_book_inv s sample_typed(1), of None "Order_new Sell 100 5 0" 0 None "Some 105"]
  show ?thesis using sample_book_inv s by simp
qed

section \<open>Depth snapshots\<close>

definition level_of :: "Order list \<Rightarrow> fixed \<Rightarrow> DepthLevel" where
  "level_of os p =
     \<lparr>dl_price = p, dl_volume = (\<Sum>o1 \<leftarrow> filter (\<lambda>o1. o_price o1 = p) os. o_volume o1),
      dl_orders = length (filter (\<lambda>o1. o_price o1 = p) os)\<rparr>"

abbreviation prices_of :: "Order list \<Rightarrow> fixed list" where
  "prices_of os \<equiv> remdups_adj (map o_price os)"

lemma level_of_append:
  "o_price o1 \<noteq> q \<Longrightarrow> level_of (os @ [o1]) q = level_of os q"
  "p \<notin> o_price ` set ys \<Longrightarrow> level_of (os @ ys) p = level_of os p"
  "p \<notin> o_price ` set os \<Longrightarrow> level_of (os @ ys) p = level_of ys p"
proof -
  have e: "filter (\<lambda>o1. o_price o1 = p) xs = []" if "p \<notin> o_price ` set xs" for xs
    using that by (auto simp: filter_empty_conv)
  show "o_price o1 \<noteq> q \<Longrightarrow> level_of (os @ [o1]) q = level_of os q" by (simp add: level_of_def)
  show "p \<notin> o_price ` set ys \<Longrightarrow> level_of (os @ ys) p = level_of os p" by (simp add: level_of_def e)
  show "p \<notin> o_price ` set os \<Longrightarrow> level_of (os @ ys) p = level_of ys p" by (simp add: level_of_def e)
qed

lemma prices_of_snoc:
  "os \<noteq> [] \<Longrightarrow> prices_of (os @ [o1]) = prices_of os @ (if o_price (last os) = o_price o1 then [] else [o_price o1])"
  by (cases os rule: rev_cases) (simp_all add: remdups_adj_append_two)

lemma prices_of_split:
  assumes "os \<noteq> []" "o_price (last os) \<noteq> o_price o1"
  shows "prices_of (os @ o1 # ys) = prices_of os @ prices_of (o1 # ys)"
proof -
  have "prices_of (os @ o1 # ys) = prices_of (os @ [o1]) @ tl (prices_of (o1 # ys))"
    using remdups_adj_append[of "map o_price os" "o_price o1" "map o_price ys"] by simp
  also have "\<dots> = prices_of os @ [o_price o1] @ tl (prices_of (o1 # ys))"
    using assms by (simp add: prices_of_snoc del: map_append)
  also have "[o_price o1] @ tl (prices_of (o1 # ys)) = prices_of (o1 # ys)"
    by (simp add: remdups_adj_Cons')
  finally show ?thesis by simp
qed

lemma last_prices: "os \<noteq> [] \<Longrightarrow> last (prices_of os) = o_price (last os)"
  by (simp add: last_map)

text \<open>Volumes that add up inside \<open>i128\<close> and a count inside \<open>u32\<close>: nothing wraps.\<close>

definition depth_fits :: "Order list \<Rightarrow> bool" where
  "depth_fits os \<longleftrightarrow> (\<forall>o1 \<in> set os. 0 \<le> o_volume o1) \<and> (\<Sum>o1 \<leftarrow> os. o_volume o1) \<le> i128_max
     \<and> length os < 2 ^ 32"

lemma filter_sum_le:
  "(\<forall>o1 \<in> set os. 0 \<le> o_volume o1) \<Longrightarrow> 0 \<le> (\<Sum>o1 \<leftarrow> filter P os. o_volume o1)
    \<and> (\<Sum>o1 \<leftarrow> filter P os. o_volume o1) \<le> (\<Sum>o1 \<leftarrow> os. o_volume o1)"
  by (induction os) auto

lemma level_of_step:
  assumes "depth_fits (os @ [o1])"
  shows "(level_of os (o_price o1))\<lparr>
      dl_volume := fixed_add (dl_volume (level_of os (o_price o1))) (o_volume o1),
      dl_orders := wrap_u32 (dl_orders (level_of os (o_price o1)) + 1)\<rparr> = level_of (os @ [o1]) (o_price o1)"
proof -
  let ?v = "\<Sum>o2 \<leftarrow> filter (\<lambda>o2. o_price o2 = o_price o1) os. o_volume o2"
  have "0 \<le> ?v" "?v \<le> (\<Sum>o2 \<leftarrow> os. o_volume o2)" using filter_sum_le[of os] assms by (auto simp: depth_fits_def)
  then have "in_i128 (?v + o_volume o1)" using assms by (simp add: depth_fits_def in_i128_def)
  moreover have "length (filter (\<lambda>o2. o_price o2 = o_price o1) os) + 1 < 2 ^ 32"
    using assms order_le_less_trans[OF length_filter_le[of "\<lambda>o2. o_price o2 = o_price o1" os]]
    by (simp add: depth_fits_def)
  ultimately show ?thesis
    by (simp add: level_of_def fixed_add_def wrap_i128_id wrap_u32_def)
qed

lemma depth_walk_levels:
  assumes "pre \<noteq> []" "distinct (prices_of (pre @ os))" "length (prices_of pre) \<le> n" "depth_fits (pre @ os)"
  shows "depth_walk n (map (level_of pre) (prices_of pre)) os =
    take n (map (level_of (pre @ os)) (prices_of (pre @ os)))"
  using assms
proof (induction os arbitrary: pre)
  case Nil
  then show ?case by simp
next
  case (Cons o1 os)
  let ?p = "o_price o1" and ?ps = "prices_of pre"
  have ne: "?ps \<noteq> []" using Cons.prems(1) by simp
  have f: "depth_fits (pre @ [o1])"
  proof -
    have "0 \<le> (\<Sum>o2 \<leftarrow> os. o_volume o2)"
      using Cons.prems(4) by (intro sum_list_nonneg) (auto simp: depth_fits_def)
    then show ?thesis using Cons.prems(4) by (simp add: depth_fits_def)
  qed
  have IH: "length (prices_of (pre @ [o1])) \<le> n \<Longrightarrow>
      depth_walk n (map (level_of (pre @ [o1])) (prices_of (pre @ [o1]))) os =
      take n (map (level_of (pre @ o1 # os)) (prices_of (pre @ o1 # os)))"
    using Cons.IH[of "pre @ [o1]"] Cons.prems by simp
  have dp: "dl_price (last (map (level_of pre) ?ps)) = o_price (last pre)"
    using ne last_prices[OF Cons.prems(1)] by (simp add: last_map level_of_def)
  show ?case
  proof (cases "o_price (last pre) = ?p")
    case True
    then have ps: "prices_of (pre @ [o1]) = ?ps" using prices_of_snoc[OF Cons.prems(1), of o1] by simp
    have split: "?ps = butlast ?ps @ [?p]"
      using ne last_prices[OF Cons.prems(1)] True by (metis append_butlast_last_id)
    have "prices_of (pre @ o1 # os) = ?ps @ tl (prices_of (o1 # os))"
      using remdups_adj_append[of "map o_price pre" ?p "map o_price os"] ps by simp
    then have "distinct ?ps" using Cons.prems(2) by simp
    then have nin: "?p \<notin> set (butlast ?ps)" using split by (metis distinct_append disjoint_iff list.set_intros(1))
    have "butlast (map (level_of pre) ?ps) = map (level_of (pre @ [o1])) (butlast ?ps)"
    proof -
      have "map (level_of pre) (butlast ?ps) = map (level_of (pre @ [o1])) (butlast ?ps)"
        using nin by (intro map_cong refl level_of_append(1)[symmetric]) auto
      then show ?thesis by (simp add: map_butlast)
    qed
    moreover have "last (map (level_of pre) ?ps) = level_of pre ?p"
      using ne last_prices[OF Cons.prems(1)] True by (simp add: last_map)
    ultimately have "butlast (map (level_of pre) ?ps) @
        [(last (map (level_of pre) ?ps))\<lparr>
           dl_volume := fixed_add (dl_volume (last (map (level_of pre) ?ps))) (o_volume o1),
           dl_orders := wrap_u32 (dl_orders (last (map (level_of pre) ?ps)) + 1)\<rparr>]
        = map (level_of (pre @ [o1])) ?ps"
      using level_of_step[OF f] arg_cong[OF split, of "map (level_of (pre @ [o1]))"] by simp
    then show ?thesis using IH True dp ne ps Cons.prems(3) by simp
  next
    case False
    have sp: "prices_of (pre @ o1 # os) = ?ps @ prices_of (o1 # os)"
      using prices_of_split[OF Cons.prems(1) False] .
    then have dis: "set ?ps \<inter> set (prices_of (o1 # os)) = {}" using Cons.prems(2) by (metis distinct_append)
    have fresh: "q \<notin> o_price ` set (o1 # os)" if "q \<in> set ?ps" for q
      using dis that unfolding remdups_adj_set set_map by blast
    show ?thesis
    proof (cases "length ?ps < n")
      case True
      have snoc: "prices_of (pre @ [o1]) = ?ps @ [?p]" using prices_of_snoc[OF Cons.prems(1), of o1] False by simp
      have "?p \<notin> o_price ` set pre" using fresh by auto
      then have "level_of (pre @ [o1]) ?p = \<lparr>dl_price = ?p, dl_volume = o_volume o1, dl_orders = 1\<rparr>"
        by (subst level_of_append(3)) (simp_all add: level_of_def)
      moreover have "map (level_of (pre @ [o1])) ?ps = map (level_of pre) ?ps"
        using fresh by (intro map_cong refl level_of_append(1)) auto
      ultimately have "map (level_of (pre @ [o1])) (prices_of (pre @ [o1])) =
          map (level_of pre) ?ps @ [\<lparr>dl_price = ?p, dl_volume = o_volume o1, dl_orders = 1\<rparr>]"
        unfolding snoc by simp
      from IH[unfolded this] True False dp ne snoc show ?thesis by simp
    next
      case l: False
      then have "n = length ?ps" using Cons.prems(3) by simp
      moreover have "map (level_of (pre @ o1 # os)) ?ps = map (level_of pre) ?ps"
        using fresh by (intro map_cong refl level_of_append(2)) auto
      ultimately show ?thesis using False dp ne unfolding sp by simp
    qed
  qed
qed

context price_time_side
begin

lemma prices_distinct:
  assumes "side_ok mk side m"
  shows "distinct (prices_of (bt_values m))"
  using assms
proof (induction m rule: induct_list012)
  case (3 x y zs)
  have bt: "bt_ok (x # y # zs)" using 3(3) unfolding side_ok_def by blast
  then have "bt_ok (y # zs)" by (simp add: bt_ok_Cons)
  then have tl: "side_ok mk side (y # zs)" using 3(3) unfolding side_ok_def by simp
  have key: "fst e = mk (o_price (snd e)) (o_sequence (snd e))" if "e \<in> set (x # y # zs)" for e
    using 3(3) that unfolding side_ok_def by blast
  show ?case
  proof (cases "o_price (snd x) = o_price (snd y)")
    case True
    then show ?thesis using 3(2)[OF tl] by (simp add: bt_values_def)
  next
    case False
    have lt: "fst x < fst y" "\<And>z. z \<in> set zs \<Longrightarrow> fst y < fst z"
      using bt by (auto simp: bt_ok_Cons)
    have "o_price (snd x) \<noteq> o_price (snd z)" if "z \<in> set (y # zs)" for z
    proof (cases "z = y")
      case z: False
      then have zs: "z \<in> set zs" using that by simp
      then have "fst y < fst z" by (rule lt(2))
      then show ?thesis
        using lt(1) False key[of x] key[of y] key[of z] zs
        by (auto simp: key_less split: OrderSide.splits)
    qed (use False in simp)
    then have "o_price (snd x) \<notin> set (prices_of (bt_values (y # zs)))"
      unfolding remdups_adj_set set_map by (auto simp: bt_values_def)
    then show ?thesis using 3(2)[OF tl] False by (simp add: bt_values_def)
  qed
qed (simp_all add: bt_values_def)

end

definition own_side :: "OrderBook \<Rightarrow> OrderSide \<Rightarrow> Order list" where
  "own_side b side = (case side of Buy \<Rightarrow> bt_values (bids b) | Sell \<Rightarrow> bt_values (asks b))"

lemma depth_levels:
  assumes "book_inv b" "depth_fits (own_side b side)"
  shows "depth b side n = take n (map (level_of (own_side b side)) (prices_of (own_side b side)))
    \<and> distinct (prices_of (own_side b side))"
proof -
  let ?os = "own_side b side"
  have d: "distinct (prices_of ?os)"
    using assms(1) bid.prices_distinct[of "bids b"] ask.prices_distinct[of "asks b"]
    by (cases side) (simp_all add: own_side_def book_inv_def book_core_def)
  have "depth b side n = (if n = 0 then [] else depth_walk n [] ?os)"
    by (simp add: depth_def own_side_def)
  also have "\<dots> = take n (map (level_of ?os) (prices_of ?os))"
  proof (cases ?os)
    case (Cons o1 os)
    have "depth_walk n (map (level_of [o1]) (prices_of [o1])) os =
      take n (map (level_of ([o1] @ os)) (prices_of ([o1] @ os)))" if "n \<noteq> 0"
      using that d assms(2) Cons by (intro depth_walk_levels) simp_all
    then show ?thesis using Cons by (simp add: level_of_def)
  qed simp
  finally show ?thesis using d by blast
qed

text \<open>
  C16: Depth snapshots are the level-by-level aggregation of a side.  When the volumes of a side add up
  inside \<open>i128\<close> and its orders are countable in \<open>u32\<close>, \<open>depth\<close> returns, for the best \<open>n\<close> distinct prices in
  priority order, the exact visible volume and number of orders resting there.
\<close>

theorem depth_aggregates:
  assumes "book_inv b" "depth_fits (own_side b side)"
  shows "depth b side n = take n (map (level_of (own_side b side)) (prices_of (own_side b side)))
    \<and> distinct (prices_of (own_side b side))"
  using assms by (rule depth_levels)

theorem depth_aggregates_witness:
  "depth_fits (own_side sample_book Sell)
   \<and> depth sample_book Sell 1 = [\<lparr>dl_price = 100, dl_volume = 5, dl_orders = 1\<rparr>]"
proof -
  have f: "depth_fits (own_side sample_book Sell)"
    by (simp add: depth_fits_def own_side_def bt_values_def sample_book_def OrderBook_new_def Order_new_def)
  show ?thesis
    using depth_aggregates[OF sample_book_inv f, of 1] f
    by (simp add: own_side_def bt_values_def sample_book_def OrderBook_new_def Order_new_def level_of_def)
qed

end
