(* ===== verification/Value_Properties.thy ===== *)
theory Value_Properties
  imports Book_Maintenance
begin

text \<open>
  Properties of the values: exact products and quotients, the text form of \<open>Fixed\<close>, error sets, and
  the quote amounts that the order book spends.
\<close>

section \<open>Exact arithmetic\<close>

text \<open>
  C19: \<open>checked_mul\<close> is the exact product rounded toward zero.  Given a 256-bit integer type that
  behaves as documented, it returns the truncated product of two fixed-point values whenever that fits in
  \<open>i128\<close>, on the fast path and on the wide path alike, and \<open>None\<close> otherwise.  In particular it returns a
  value where the unscaled product does not fit, which is what the wide path is for, although the
  comment on the function announces \<open>None\<close> there.
\<close>

theorem checked_mul_correct:
  assumes "wide_int I val" "in_i128 a" "in_i128 b"
  shows "checked_mul I a b =
    (if in_i128 (tdiv (a * b) SCALE) then Some (tdiv (a * b) SCALE) else None)"
  using assms by (rule wide_int.checked_mul_exact)

theorem checked_mul_correct_witness:
  "in_i128 (- 3 * SCALE) \<and> checked_mul exact_i256 (- 3 * SCALE) (SCALE div 2) = Some (- 3 * SCALE div 2)
   \<and> checked_mul exact_i256 i128_max i128_max = None
   \<and> \<not> in_i128 (1000 * SCALE * (1000 * SCALE)) \<and> checked_mul exact_i256 (1000 * SCALE) (1000 * SCALE) = Some (1000000 * SCALE)"
proof -
  have r: "in_i128 (- 3 * SCALE)" "in_i128 (SCALE div 2)" "in_i128 i128_max" "in_i128 (1000 * SCALE)"
    by (simp_all add: SCALE_def in_i128_def)
  show ?thesis
    using checked_mul_correct[OF exact.wide_int_axioms r(1,2)] checked_mul_correct[OF exact.wide_int_axioms r(3,3)]
      checked_mul_correct[OF exact.wide_int_axioms r(4,4)] r(1)
    by (simp add: SCALE_def tdiv_def in_i128_def)
qed

text \<open>
  C20: \<open>checked_div\<close> is the exact scaled quotient rounded toward zero.  It returns the truncated
  quotient whenever the divisor is not zero and the quotient fits in \<open>i128\<close>, and \<open>None\<close> otherwise.
\<close>

theorem checked_div_correct:
  assumes "wide_int I val" "in_i128 a" "in_i128 b"
  shows "checked_div I a b =
    (if b \<noteq> 0 \<and> in_i128 (tdiv (a * SCALE) b) then Some (tdiv (a * SCALE) b) else None)"
  using assms by (rule wide_int.checked_div_exact)

theorem checked_div_correct_witness:
  "checked_div exact_i256 SCALE (- 4 * SCALE) = Some (- SCALE div 4) \<and> checked_div exact_i256 SCALE 0 = None
   \<and> checked_div exact_i256 i128_max 1 = None"
proof -
  have r: "in_i128 SCALE" "in_i128 (- 4 * SCALE)" "in_i128 0" "in_i128 i128_max" "in_i128 1"
    by (simp_all add: SCALE_def in_i128_def)
  show ?thesis
    using checked_div_correct[OF exact.wide_int_axioms r(1,2)] checked_div_correct[OF exact.wide_int_axioms r(1,3)]
      checked_div_correct[OF exact.wide_int_axioms r(4,5)]
    by (simp add: SCALE_def tdiv_def in_i128_def)
qed

section \<open>Text\<close>

text \<open>
  C21: Decimal text round trip.  Parsing the \<open>Display\<close> text of a fixed-point value gives the value
  back, for every \<open>i128\<close> except the smallest, whose own text is rejected.
\<close>

theorem fixed_text_roundtrip:
  assumes "in_i128 x"
  shows "fixed_from_str (fixed_display x) = (if x = i128_min then Inl ParseFixedError else Inr x)"
  using assms by (rule from_str_display)

theorem fixed_text_roundtrip_witness:
  "in_i128 (- 1500000000000000000) \<and>
   fixed_from_str (fixed_display (- 1500000000000000000)) = Inr (- 1500000000000000000)"
proof -
  have r: "in_i128 (- 1500000000000000000)" by (simp add: in_i128_def)
  show ?thesis using fixed_text_roundtrip[OF r] r by simp
qed

text \<open>
  A sign inside a number is accepted.  The parser reads the integer and the fraction with the
  signed integer parser, so the text \<open>1.-5\<close> parses as 0.95 and \<open>--5\<close> as 5.
\<close>

theorem signed_fraction_accepted:
  "fixed_from_str ''1.-5'' = Inr 950000000000000000 \<and> fixed_from_str ''--5'' = Inr 5000000000000000000"
  by (simp add: fixed_from_str_def trim_def is_space_def split_once_def parse_i128_def is_digit_def digits_val_def
      digit_val_def DECIMALS_def SCALE_def in_i128_def wrap_i128_def fixed_neg_def Let_def)

section \<open>Error sets\<close>

lemma known_bits_eq: "KNOWN_BITS = 7"
  by (simp add: KNOWN_BITS_def NOTIONAL_OVERFLOW_def TAKER_FEE_OVERFLOW_def MAKER_FEE_OVERFLOW_def)

lemma contains_bit:
  "errors_contains e NotionalOverflow = bit e 0" "errors_contains e TakerFeeOverflow = bit e 1"
  "errors_contains e MakerFeeOverflow = bit e 2"
  using and_exp_eq_0_iff_not_bit[of e 0] and_exp_eq_0_iff_not_bit[of e 1] and_exp_eq_0_iff_not_bit[of e 2]
  by (simp_all add: errors_contains_def)

lemma three_bits:
  fixes e :: "8 word"
  assumes "e AND NOT 7 = 0"
  shows "e = (if bit e 0 then 1 else 0) OR (if bit e 1 then 2 else 0) OR (if bit e 2 then 4 else 0)"
proof (rule bit_eqI)
  fix n
  assume "possible_bit TYPE(8 word) n"
  then have "n < 8" by simp
  then have "n \<in> {0, 1, 2, 3, 4, 5, 6, 7}" by auto
  moreover have "bit e n \<Longrightarrow> bit (7 :: 8 word) n" using arg_cong[OF assms, of "\<lambda>w. bit w n"] \<open>n < 8\<close>
    by (auto simp: bit_simps)
  ultimately show "bit e n = bit ((if bit e 0 then 1 else 0 :: 8 word) OR (if bit e 1 then 2 else 0) OR (if bit e 2 then 4 else 0)) n"
    by (auto simp: bit_simps bit_numeral_rec)
qed

text \<open>
  Error sets survive both encodings.  The bits of a set are accepted exactly when no unknown
  bit is set, and reading back the list of names a set serializes to gives the same set.
\<close>

theorem error_set_roundtrip:
  assumes "errors_from_bits bits = Some e"
  shows "e = bits \<and> errors_visit_seq ERR_NONE (errors_to_names e) = Some e"
proof -
  have e: "e = bits" "e AND NOT 7 = 0"
    using assms by (simp_all add: errors_from_bits_def known_bits_eq split: if_splits)
  have "errors_visit_seq ERR_NONE (errors_to_names e) =
      Some ((if bit e 0 then 1 else 0) OR (if bit e 1 then 2 else 0) OR (if bit e 2 then 4 else 0))"
    by (auto simp: errors_to_names_def error_codes_def ALL_CODES_def contains_bit code_from_name_def
        errors_insert_def ERR_NONE_def)
  then show ?thesis using three_bits[OF e(2)] e(1) by simp
qed

theorem error_set_roundtrip_witness:
  "errors_from_bits 5 = Some 5 \<and> errors_visit_seq ERR_NONE (errors_to_names 5) = Some 5 \<and> errors_from_bits 8 = None"
proof -
  have f: "errors_from_bits 5 = Some 5" by (simp add: errors_from_bits_def known_bits_eq)
  show ?thesis using error_set_roundtrip[OF f] f by (simp add: errors_from_bits_def known_bits_eq)
qed

section \<open>Quote amounts\<close>

lemma tdiv_pos_bounds:
  assumes "0 \<le> a" "0 < b"
  shows "tdiv a b = a div b" "0 \<le> a div b" "a div b * b \<le> a"
proof -
  show "tdiv a b = a div b" "0 \<le> a div b"
    using assms by (simp_all add: tdiv_nonneg pos_imp_zdiv_nonneg_iff)
  show "a div b * b \<le> a" using div_mult_mod_eq[of a b] pos_mod_sign[OF assms(2), of a] by linarith
qed

lemma floor_le:
  assumes "0 \<le> x" "in_i128 x"
  shows "floor_to_multiple x step \<le> x"
  using floor_to_multiple_bounds(2)[of step x] assms by (cases "0 < step") (simp_all add: floor_to_multiple_def)

text \<open>Buying what an amount pays for never costs more than the amount.\<close>

lemma affordable:
  fixes p :: int
  assumes "0 \<le> amount" "0 < p" "q \<le> amount * SCALE div p" "0 \<le> q"
  shows "p * q div SCALE \<le> amount" "0 \<le> p * q div SCALE" "q * p \<le> amount * SCALE"
proof -
  have "q * p \<le> amount * SCALE div p * p" using assms by simp
  also have "\<dots> \<le> amount * SCALE" using tdiv_pos_bounds(3)[of "amount * SCALE" p] assms by (simp add: SCALE_def)
  finally show le: "q * p \<le> amount * SCALE" .
  then have "p * q div SCALE \<le> amount * SCALE div SCALE" by (intro zdiv_mono1) (simp_all add: mult.commute SCALE_def)
  then show "p * q div SCALE \<le> amount" by (simp add: SCALE_def)
  show "0 \<le> p * q div SCALE" using assms by (simp add: SCALE_def pos_imp_zdiv_nonneg_iff)
qed

text \<open>
  C18: A quote-sized limit order is converted without overspending.  When normalisation turns a quote
  amount into a base volume, the base volume is a positive multiple of the lot and costs, at the limit
  price, at most the amount.
\<close>

theorem quote_limit_never_overspends:
  assumes "wide_int I val" "order_typed o1" "0 < o_volume o1" "0 < o_price o1" "0 < base_lot config"
    and "o_volume_unit o1 = VU_Quote" "o_live o1 = Limit"
    and "normalize_order I o1 config = (o2, None)"
  shows "o_volume_unit o2 = VU_Base \<and> 0 < o_volume o2 \<and> base_lot config dvd o_volume o2
    \<and> o_volume o2 * o_price o2 \<le> o_volume o1 * SCALE"
proof -
  let ?q = "o_volume o1 * SCALE div o_price o1"
  have ty: "in_i128 (o_volume o1)" "in_i128 (o_price o1)" using assms(2) by (simp_all add: order_typed_def)
  have t: "tdiv (o_volume o1 * SCALE) (o_price o1) = ?q" "0 \<le> ?q"
    using tdiv_pos_bounds[of "o_volume o1 * SCALE" "o_price o1"] assms(3,4) by (simp_all add: SCALE_def)
  note d = wide_int.checked_div_exact[OF assms(1) ty, unfolded t]
  have f: "0 < floor_to_multiple ?q (base_lot config)" "in_i128 ?q"
    "o_volume o2 = floor_to_multiple ?q (base_lot config)" "o_volume_unit o2 = VU_Base" "o_price o2 = o_price o1"
    using assms(4,6,7,8) d by (auto simp: normalize_order_def Let_def split: if_splits)
  note b = floor_to_multiple_bounds[OF assms(5) f(2) t(2)]
  have "floor_to_multiple ?q (base_lot config) * o_price o1 \<le> o_volume o1 * SCALE"
    using affordable(3)[of "o_volume o1" "o_price o1"] assms(3,4) b(2) f(1) by simp
  then show ?thesis using f b(1) by simp
qed

theorem quote_limit_never_overspends_witness:
  "\<exists>o2. normalize_order exact_i256 ((Order_new Buy 3 10 0)\<lparr>o_volume_unit := VU_Quote\<rparr>) SymbolConfig_default = (o2, None)
     \<and> 0 < o_volume o2 \<and> o_volume o2 * 3 \<le> 10 * SCALE"
proof -
  let ?o = "(Order_new Buy 3 10 0)\<lparr>o_volume_unit := VU_Quote\<rparr>"
  obtain o2 where n: "normalize_order exact_i256 ?o SymbolConfig_default = (o2, None)" and p: "o_price o2 = 3"
    by (simp add: normalize_order_def Order_new_def SymbolConfig_default_def default_symbol_assets_def
        checked_div_def exact_i256_def floor_to_multiple_def has_at_most_decimals_def DECIMALS_def SCALE_def tdiv_def
        wrap_i128_def in_i128_def AssetId_new_def in_i256_def Let_def)
  have "wide_int exact_i256 (\<lambda>x. x)" by (rule exact.wide_int_axioms)
  from quote_limit_never_overspends[OF this _ _ _ _ _ _ n] n p show ?thesis
    by (simp add: Order_new_def order_typed_def in_i128_def SymbolConfig_default_def default_symbol_assets_def)
qed

definition notional_sum :: "MatchResult list \<Rightarrow> int" where
  "notional_sum fills = (\<Sum>r \<leftarrow> fills. mr_notional r)"

lemma buy_quote_fill:
  assumes I: "wide_int I val" and rem: "0 < amount" "amount \<le> i128_max"
    and p: "0 < p" "p \<le> i128_max" and vol: "mv \<le> i128_max" "0 < mv"
    and mv: "fixed_div I amount p = Inr q" "mv \<le> floor_to_multiple q lot"
    and n: "notional I p mv = Some v"
  shows "0 \<le> v \<and> v \<le> amount"
proof -
  let ?q = "amount * SCALE div p"
  have ty: "in_i128 amount" "in_i128 p" "in_i128 mv" using rem p vol by (simp_all add: in_i128_def)
  have t: "tdiv (amount * SCALE) p = ?q" "0 \<le> ?q"
    using tdiv_pos_bounds[of "amount * SCALE" p] rem(1) p(1) by (simp_all add: SCALE_def)
  note d = wide_int.checked_div_exact[OF I ty(1,2), unfolded t]
  have q: "q = ?q" "in_i128 ?q" using mv(1) d by (auto simp: fixed_div_def split: option.splits if_splits)
  have "mv \<le> ?q" using mv(2) floor_le[OF t(2) q(2), of lot] q(1) by simp
  note a = affordable[OF less_imp_le[OF rem(1)] p(1) this less_imp_le[OF vol(2)]]
  have "tdiv (p * mv) SCALE = p * mv div SCALE"
    using tdiv_pos_bounds(1)[of "p * mv" SCALE] p(1) vol(2) by (simp add: SCALE_def)
  then have "v = p * mv div SCALE"
    using n wide_int.checked_mul_exact[OF I ty(2,3)] by (simp add: notional_def split: if_splits)
  then show ?thesis using a by simp
qed

context price_time_side
begin

lemma run_buy_quote:
  assumes "sweep_run I ctx o1 limit s = Inr s'" "side_ok mk side (sw_resting s)" "in_i128 (sw_remaining s)"
    and "wide_int I val" "sweep_mode o1 = BuyQuote" "0 \<le> sw_remaining s" "sw_remaining s \<le> i128_max"
  shows "0 \<le> sw_remaining s'
    \<and> sw_remaining s' + notional_sum (sw_results s') = sw_remaining s + notional_sum (sw_results s)"
  using assms
proof (induction rule: run_induct)
  case (fill s s' k maker others mv r)
  from fill(8,11) obtain v where q: "0 < sw_remaining s"
    "match_volume I (sc_config ctx) BuyQuote (sw_remaining s) maker = Inr mv"
    "notional I (o_price maker) mv = Some v" "r = saturating_sub (sw_remaining s) v" by auto
  from q(2) obtain x where x: "fixed_div I (sw_remaining s) (o_price maker) = Inr x"
    "mv \<le> floor_to_multiple x (base_lot (sc_config ctx))"
    by (auto simp: match_volume_def fixed_min_def split: sum.splits if_splits)
  have "0 \<le> v \<and> v \<le> sw_remaining s"
    using buy_quote_fill[OF fill(10) q(1) fill(13) _ _ _ fill(5) x q(3)] fill(3,6) by (simp add: resting_ok_def)
  moreover from this have r: "r = sw_remaining s - v"
    using q(4) fill(13) by (simp add: saturating_sub_def clamp_i128_def)
  moreover have "notional_sum (sw_results (fill_state I ctx o1 s k maker others mv r)) =
      notional_sum (sw_results s) + v"
    using q(3) by (simp add: notional_sum_def fill_state_def MatchResult_new_with_policy_def Let_def)
  ultimately show ?case using fill(9)[OF fill(10,11)] fill(13) by simp
qed simp

end

text \<open>
  C17: A quote-sized market buy never spends more than its amount.  Given 256-bit integers that behave
  as documented, a sweep of a quote-sized buy leaves a remainder that is not negative, and the notionals of
  its fills add up to exactly the amount minus the remainder.
\<close>

theorem quote_buy_never_overspends:
  assumes "wide_int I val" "book_core b" "0 \<le> o_volume o1" "o_volume o1 \<le> i128_max"
    and "o_side o1 = Buy" "o_volume_unit o1 = VU_Quote"
    and "sweep I b o1 limit config = Inr (b', fills, remainder)"
  shows "0 \<le> remainder \<and> notional_sum fills = o_volume o1 - remainder"
proof -
  have m: "sweep_mode o1 = BuyQuote" "in_i128 (o_volume o1)"
    using assms(3-6) by (simp_all add: sweep_mode_def in_i128_def)
  from assms(7) show ?thesis
  proof (cases rule: sweep_cases)
    case (Buy s)
    then show ?thesis
      using ask.run_buy_quote[OF Buy(2) _ _ assms(1) m(1)] assms(2-4) m(2)
      by (simp add: book_core_def notional_sum_def)
  qed (use assms(5) in simp)
qed

theorem quote_buy_never_overspends_witness:
  "\<exists>b' fills. sweep exact_i256 (OrderBook_new\<lparr>asks := [(AskKey SCALE 0, Order_new Sell SCALE (5 * SCALE) 0)], ob_sequence := 1\<rparr>)
       ((Order_new Buy 0 (3 * SCALE) 0)\<lparr>o_live := Market, o_volume_unit := VU_Quote\<rparr>) None SymbolConfig_default = Inr (b', fills, 0)
     \<and> notional_sum fills = 3 * SCALE"
proof -
  let ?b = "OrderBook_new\<lparr>asks := [(AskKey SCALE 0, Order_new Sell SCALE (5 * SCALE) 0)], ob_sequence := 1\<rparr>"
  let ?o = "(Order_new Buy 0 (3 * SCALE) 0)\<lparr>o_live := Market, o_volume_unit := VU_Quote\<rparr>"
  have c: "book_core ?b"
    by (simp add: book_core_def side_ok_def bt_ok_Cons resting_ok_def uncrossed_def seqs_ok_def side_seqs_def
        book_orders_def gtd_index_ok_def gtd_times_def OrderBook_new_def Order_new_def is_stop_def SCALE_def)
  obtain b' fills where s: "sweep exact_i256 ?b ?o None SymbolConfig_default = Inr (b', fills, 0)"
    by (simp add: book_eval fixed_div_def checked_div_def floor_to_multiple_def saturating_sub_def clamp_i128_def
        in_i256_def)
  from quote_buy_never_overspends[OF exact.wide_int_axioms c _ _ _ _ s] s show ?thesis
    by (simp add: Order_new_def SCALE_def)
qed

lemma fixed_div_fits:
  assumes "wide_int I val" "0 < a" "a \<le> i128_max" "0 < p" "p \<le> i128_max"
  shows "fixed_div I a p = (if a * SCALE div p \<le> i128_max then Inr (a * SCALE div p) else Inl DivOverflow)"
proof -
  have t: "tdiv (a * SCALE) p = a * SCALE div p" "0 \<le> a * SCALE div p"
    using tdiv_pos_bounds[of "a * SCALE" p] assms(2,4) by (simp_all add: SCALE_def)
  have "in_i128 a" "in_i128 p" using assms(2-5) by (simp_all add: in_i128_def)
  from wide_int.checked_div_exact[OF assms(1) this, unfolded t] t(2) assms(4) show ?thesis
    by (simp add: fixed_div_def in_i128_def)
qed

lemma notional_pos:
  assumes "wide_int I val" "0 < p" "p \<le> i128_max" "0 < mv" "mv \<le> i128_max" "notional I p mv = Some v"
  shows "0 \<le> v"
proof -
  have "in_i128 p" "in_i128 mv" using assms(2-5) by (simp_all add: in_i128_def)
  from wide_int.checked_mul_exact[OF assms(1) this] assms(6) have "v = tdiv (p * mv) SCALE"
    by (simp add: notional_def split: if_splits)
  then show ?thesis using assms(2,4) by (simp add: tdiv_def SCALE_def pos_imp_zdiv_nonneg_iff)
qed

lemma sweep_step_panics:
  assumes "sweep_step I ctx o1 limit s = Inl p"
  shows "\<exists>k maker others. sw_resting s = (k, maker) # others \<and> 0 < sw_remaining s
    \<and> match_volume I (sc_config ctx) (sweep_mode o1) (sw_remaining s) maker = Inl p"
proof (cases "sw_resting s")
  case (Cons e others)
  then show ?thesis
    using assms by (cases e; cases "match_volume I (sc_config ctx) (sweep_mode o1) (sw_remaining s) (snd e)")
      (auto simp: sweep_step_def Let_def split: if_splits)
qed (use assms in \<open>simp add: sweep_step_def Let_def split: if_splits\<close>)

context price_time_side
begin

lemma run_quote_returns:
  assumes "wide_int I val" "sweep_mode o1 \<noteq> SM_Base" "side_ok mk side (sw_resting s)" "in_i128 (sw_remaining s)"
    and "sw_remaining s \<le> v" "\<forall>e \<in> set (sw_resting s). v * SCALE div o_price (snd e) \<le> i128_max"
  shows "\<exists>s'. sweep_run I ctx o1 limit s = Inr s'"
  using assms(3-6)
proof (induction s rule: measure_induct_rule[of sweep_measure])
  case (less s)
  have all: "\<forall>e \<in> set (sw_resting s). resting_ok side (snd e)"
    using less.prems(1) by (auto simp: side_ok_def)
  have "\<exists>mv. match_volume I (sc_config ctx) (sweep_mode o1) (sw_remaining s) maker = Inr mv"
    if "sw_resting s = (k, maker) # others" "0 < sw_remaining s" for k maker others
  proof -
    have m: "0 < o_price maker" "o_price maker \<le> i128_max" "sw_remaining s \<le> i128_max" "v * SCALE div o_price maker \<le> i128_max"
      using that all less.prems(2,4) by (simp_all add: resting_ok_def in_i128_def)
    have "sw_remaining s * SCALE div o_price maker \<le> v * SCALE div o_price maker"
      using less.prems(3) m(1) by (intro zdiv_mono1) (simp_all add: SCALE_def)
    then show ?thesis
      using fixed_div_fits[OF assms(1) that(2) m(3,1,2)] m(4) by (simp add: match_volume_def split: SweepMode.split)
  qed
  then obtain f where step: "sweep_step I ctx o1 limit s = Inr f"
    using sweep_step_panics[of I ctx o1 limit s] by (cases "sweep_step I ctx o1 limit s") auto
  show ?case
  proof (cases f)
    case (Break t)
    then show ?thesis using step by (simp add: sweep_run.simps[of I ctx o1 limit s])
  next
    case (Continue t)
    from step all less.prems(2) have "\<exists>s'. sweep_run I ctx o1 limit t = Inr s'"
    proof (cases rule: sweep_step_cases)
      case (fill k maker others mv r)
      have t: "t = fill_state I ctx o1 s k maker others mv r" using fill(8) Continue by simp
      have m: "resting_ok side maker" using all fill(1) by simp
      obtain w where w: "notional I (o_price maker) mv = Some w" "r = saturating_sub (sw_remaining s) w"
        using fill(10)[OF assms(2)] by blast
      have "0 \<le> w" using notional_pos[OF assms(1) _ _ _ _ w(1)] m fill(4,5) by (simp add: resting_ok_def)
      then have "r \<le> sw_remaining s" using w(2) less.prems(2) by (simp add: saturating_sub_def clamp_i128_def in_i128_def)
      moreover have "side_ok mk side (sw_resting t)" using less.prems(1) fill by (simp add: t fill_state_ok)
      moreover have "\<forall>e \<in> set (sw_resting t). v * SCALE div o_price (snd e) \<le> i128_max"
        using less.prems(4) fill(1) by (auto simp: t put_head_def after_fill_def Let_def split: option.splits if_splits)
      ultimately show ?thesis
        using less.IH[OF sweep_step_decreases[OF step[unfolded Continue]]] fill(7) less.prems(3) by (simp add: t)
    qed (use Continue in simp)
    then show ?thesis using step Continue by (simp add: sweep_run.simps[of I ctx o1 limit s])
  qed
qed

end

text \<open>
  C22: When a quote-sized market buy panics.  On a well-formed book, the sweep of a quote-sized buy of a
  positive amount panics exactly when the best offer is within the limit and the quotient of the amount
  by its price, in units of \<open>10 ^ -18\<close>, exceeds the largest \<open>i128\<close>; in every other case it returns.
\<close>

theorem quote_buy_panic_exact:
  assumes "wide_int I val" "book_core b" "o_side o1 = Buy" "o_volume_unit o1 = VU_Quote"
    and "0 < o_volume o1" "o_volume o1 \<le> i128_max"
  shows "(\<exists>p. sweep I b o1 limit config = Inl p) \<longleftrightarrow>
    (case opposing b Buy of [] \<Rightarrow> False
     | best # _ \<Rightarrow> within_limit limit Buy (o_price best) \<and> i128_max < o_volume o1 * SCALE div o_price best)"
proof -
  let ?ctx = "\<lparr>sc_config = config, sc_record = record_depth b, sc_track_gtd = has_gtd_deadlines b\<rparr>"
  let ?s = "\<lparr>sw_resting = asks b, sw_remaining = o_volume o1, sw_results = [], sw_journal = depth_journal b, sw_gtd_dirty = gtd_scan_dirty b\<rparr>"
  have ok: "side_ok AskKey Sell (asks b)" using assms(2) by (simp add: book_core_def)
  have mode: "sweep_mode o1 = BuyQuote" using assms(3,4) by (simp add: sweep_mode_def)
  have sweep: "(\<exists>p. sweep I b o1 limit config = Inl p) \<longleftrightarrow> (\<exists>p. sweep_run I ?ctx o1 limit ?s = Inl p)"
    using assms(3) by (auto simp: sweep_def sweep_side_def Let_def split: sum.splits)
  show ?thesis
  proof (cases "asks b")
    case Nil
    then show ?thesis
      unfolding sweep by (simp add: sweep_run.simps sweep_step_def Let_def opposing_def bt_values_def)
  next
    case (Cons e others)
    obtain k best where e: "e = (k, best)" by (cases e)
    have m: "0 < o_price best" "o_price best \<le> i128_max" using ok Cons e by (simp_all add: side_ok_def resting_ok_def)
    have first: "\<forall>x \<in> set (asks b). o_price best \<le> o_price (snd x)"
      using ok Cons e by (fastforce simp: side_ok_def bt_ok_Cons less_AskKey_iff)
    have o: "opposing b Buy = best # bt_values others" using Cons e by (simp add: opposing_def bt_values_def)
    show ?thesis
    proof (cases "within_limit limit Buy (o_price best)")
      case False
      then show ?thesis
        unfolding sweep o using Cons e assms(3) by (simp add: sweep_run.simps sweep_step_def Let_def)
    next
      case True
      show ?thesis
      proof (cases "o_volume o1 * SCALE div o_price best \<le> i128_max")
        case fits: True
        have "o_volume o1 * SCALE div o_price (snd x) \<le> i128_max" if "x \<in> set (asks b)" for x
        proof -
          have "o_volume o1 * SCALE div o_price (snd x) \<le> o_volume o1 * SCALE div o_price best"
            using first that m(1) assms(5) by (intro zdiv_mono2) (simp_all add: SCALE_def)
          then show ?thesis using fits by simp
        qed
        then have "\<exists>s'. sweep_run I ?ctx o1 limit ?s = Inr s'"
          using ask.run_quote_returns[OF assms(1), of o1 ?s "o_volume o1"] mode ok assms(5,6) by (simp add: in_i128_def)
        then show ?thesis unfolding sweep o using fits by auto
      next
        case over: False
        then show ?thesis
          unfolding sweep o using Cons e assms True mode fixed_div_fits[OF assms(1,5,6) m]
          by (simp add: sweep_run.simps sweep_step_def match_volume_def Let_def)
      qed
    qed
  qed
qed

theorem quote_buy_panic_exact_witness:
  "(\<exists>p. sweep exact_i256 (OrderBook_new\<lparr>asks := [(AskKey 1 0, Order_new Sell 1 5 0)], ob_sequence := 1\<rparr>)
       ((Order_new Buy 0 i128_max 0)\<lparr>o_live := Market, o_volume_unit := VU_Quote\<rparr>) None SymbolConfig_default = Inl p)
   \<and> \<not> (\<exists>p. sweep exact_i256 (OrderBook_new\<lparr>asks := [(AskKey 1 0, Order_new Sell 1 5 0)], ob_sequence := 1\<rparr>)
       ((Order_new Buy 0 SCALE 0)\<lparr>o_live := Market, o_volume_unit := VU_Quote\<rparr>) None SymbolConfig_default = Inl p)"
proof -
  let ?b = "OrderBook_new\<lparr>asks := [(AskKey 1 0, Order_new Sell 1 5 0)], ob_sequence := 1\<rparr>"
  have c: "book_core ?b"
    by (simp add: book_core_def side_ok_def bt_ok_Cons resting_ok_def uncrossed_def seqs_ok_def side_seqs_def
        book_orders_def gtd_index_ok_def gtd_times_def OrderBook_new_def Order_new_def is_stop_def)
  show ?thesis
    using quote_buy_panic_exact[OF exact.wide_int_axioms c, of "(Order_new Buy 0 i128_max 0)\<lparr>o_live := Market, o_volume_unit := VU_Quote\<rparr>"]
      quote_buy_panic_exact[OF exact.wide_int_axioms c, of "(Order_new Buy 0 SCALE 0)\<lparr>o_live := Market, o_volume_unit := VU_Quote\<rparr>"]
    by (simp add: Order_new_def OrderBook_new_def opposing_def bt_values_def within_limit_def SCALE_def)
qed

end
