(* ===== verification/Machine_Properties.thy ===== *)
theory Machine_Properties
  imports Snapshot_Store Value_Properties
begin

text \<open>
  Properties of the replicated state machine: the invariant of every reachable state, the numbering
  of events, idempotent submission, convergence of replicas, crash-safe snapshots, recovery, and the
  paging of the event feed.
\<close>

section \<open>A concrete codec\<close>

text \<open>
  An instance of the codec parameter, on which the laws hold: contents and metadata are numbered by
  two tables and anything outside them is refused; the checksum is the bitwise CRC-32.
\<close>

unbundle bit_operations_syntax

primrec crc_bits :: "nat \<Rightarrow> 32 word \<Rightarrow> 32 word" where
  "crc_bits 0 w = w"
| "crc_bits (Suc k) w =
     crc_bits k (if bit w 0 then drop_bit 1 w XOR 0xEDB88320 else drop_bit 1 w)"

definition crc_step :: "32 word \<Rightarrow> u8 \<Rightarrow> 32 word" where
  "crc_step w x = crc_bits 8 (w XOR of_nat x)"

definition crc32 :: "bytes \<Rightarrow> u32" where
  "crc32 bs = unat (NOT (foldl crc_step (NOT 0) bs))"

definition codebook ::
  "StateMachineData list \<Rightarrow> ('l, 'sm) SnapshotMeta list \<Rightarrow> ('l, 'sm, 32 word) codec" where
  "codebook contents metas =
     \<lparr>postcard_to_allocvec =
        (\<lambda>c. case position (\<lambda>x. x = serde_image c) contents of None \<Rightarrow> Inl ''unknown'' | Some i \<Rightarrow> Inr [i]),
      postcard_content = (\<lambda>bs. case bs of [i] \<Rightarrow> if i < length contents then Inr (contents ! i) else Inl ''bad index''
                            | _ \<Rightarrow> Inl ''bad length''),
      postcard_to_io =
        (\<lambda>(m, data). case position (\<lambda>x. x = m) metas of None \<Rightarrow> ([], Some ''unknown'') | Some i \<Rightarrow> ([[i], data], None)),
      postcard_payload = (\<lambda>bs. case bs of i # data \<Rightarrow> if i < length metas then Inr (metas ! i, data) else Inl ''bad index''
                            | _ \<Rightarrow> Inl ''bad length''),
      crc_hash = crc32,
      hasher_new = NOT 0,
      hasher_update = foldl crc_step,
      hasher_finalize = (\<lambda>w. unat (NOT w))\<rparr>"

lemma foldl_foldl_concat: "foldl (foldl f) a xss = foldl f a (concat xss)"
  by (induction xss arbitrary: a) simp_all

interpretation codebook: snapshot_codec "codebook contents metas"
proof
  fix bs chunks content data p
  show "crc_hash (codebook contents metas) bs < 2 ^ 32"
    using unsigned_less[of "NOT (foldl crc_step (NOT 0) bs)", where ?'a = nat] by (simp add: codebook_def crc32_def)
  show "hasher_finalize (codebook contents metas)
      (foldl (hasher_update (codebook contents metas)) (hasher_new (codebook contents metas)) chunks)
      = crc_hash (codebook contents metas) (concat chunks)"
    by (simp add: codebook_def foldl_foldl_concat crc32_def)
  show "postcard_to_allocvec (codebook contents metas) content = Inr data \<Longrightarrow>
      postcard_content (codebook contents metas) data = Inr (serde_image content)"
    by (auto simp: codebook_def split: option.splits dest!: position_SomeD)
  show "postcard_to_io (codebook contents metas) p = (chunks, None) \<Longrightarrow>
      postcard_payload (codebook contents metas) (concat chunks) = Inr p"
    by (cases p) (auto simp: codebook_def split: option.splits dest!: position_SomeD)
qed

section \<open>Reachable states\<close>

text \<open>
  The states a node goes through: a fresh directory, entries in log order, a restart from a snapshot
  of a reachable state and the installation of a snapshot of a reachable state of another node.  The
  requests of an entry have machine-typed fields, the market sequence does not run out and an entry
  has fewer than \<open>2 ^ 32\<close> events.
\<close>

definition in_order :: "('l, 'm, 'sm) openraft \<Rightarrow> ('l, 'sm) StateMachineStoreInner \<Rightarrow> ('l, 'm) Entry \<Rightarrow> bool" where
  "in_order raft s e \<longleftrightarrow>
     (case last_applied_log s of None \<Rightarrow> True | Some l \<Rightarrow> rf_index raft l < rf_index raft (en_log_id e))"

definition applicable :: "('l, 'sm) StateMachineStoreInner \<Rightarrow> ('l, 'm) Entry \<Rightarrow> bool" where
  "applicable s e \<longleftrightarrow> list_all request_typed (entry_requests e)
     \<and> ob_sequence (orderbook s) + length (entry_requests e) \<le> 2 ^ 64 - 1"

inductive reach ::
  "'w i256 \<Rightarrow> ('l, 'm, 'sm) openraft \<Rightarrow> ('l, 'sm, 'h) codec \<Rightarrow> ('l, 'sm) StateMachineStoreInner \<Rightarrow> bool"
  for I raft C where
  reach_open: "dk_current d = None \<Longrightarrow> dk_fault d = None
     \<Longrightarrow> open_with_sinks_and_retention raft C d market n = Inr st \<Longrightarrow> reach I raft C (inner st)"
| reach_entry: "reach I raft C s \<Longrightarrow> apply_entry I raft env s e = Inr (s', response, out) \<Longrightarrow> in_order raft s e
     \<Longrightarrow> applicable s e \<Longrightarrow> length (out_events out) < 2 ^ 32 \<Longrightarrow> reach I raft C s'"
| reach_restart: "reach I raft C s \<Longrightarrow> holds C d s
     \<Longrightarrow> open_with_sinks_and_retention raft C d market n = Inr st \<Longrightarrow> reach I raft C (inner st)"
| reach_install: "reach I raft C s \<Longrightarrow> reach I raft C (inner st) \<Longrightarrow> decode_content C data = Inr (serde_image (to_content s))
     \<Longrightarrow> install_snapshot C st (image_meta s) data = (st', None) \<Longrightarrow> reach I raft C (inner st')"

definition stamped :: "('l, 'm, 'sm) openraft \<Rightarrow> ('l, 'sm) StateMachineStoreInner \<Rightarrow> bool" where
  "stamped raft s \<longleftrightarrow>
     (case last_applied_log s of None \<Rightarrow> sm_events s = [] | Some l \<Rightarrow> below (EventId (Suc (rf_index raft l)) 0) s)"

lemma stamped_below: "stamped raft s \<Longrightarrow> in_order raft s e \<Longrightarrow> below (EventId (rf_index raft (en_log_id e)) 0) s"
  by (auto simp: stamped_def in_order_def below_def less_EventId_def split: option.splits)

lemma stamped_retain:
  "stamped raft s \<Longrightarrow> last_applied_log t = last_applied_log s \<Longrightarrow> set (sm_events t) \<subseteq> set (sm_events s) \<Longrightarrow> stamped raft t"
  by (auto simp: stamped_def below_def split: option.splits)

definition node_inv :: "('l, 'm, 'sm) openraft \<Rightarrow> ('l, 'sm) StateMachineStoreInner \<Rightarrow> bool" where
  "node_inv raft s \<longleftrightarrow> machine_inv s \<and> stamped raft s \<and> max_submissions s = MAX_SUBMISSIONS"

lemma node_inv_entry:
  assumes inv: "node_inv raft s" and I: "i128_typed I" and ap: "apply_entry I raft env s e = Inr (s', response, out)"
    and ord: "in_order raft s e" and ok: "applicable s e" and fit: "length (out_events out) < 2 ^ 32"
  shows "node_inv raft s'"
proof -
  have b: "below (EventId (rf_index raft (en_log_id e)) 0) s" using inv ord by (simp add: node_inv_def stamped_below)
  have p: "progressed (s\<lparr>last_applied_log := Some (en_log_id e)\<rparr>) s' (rf_index raft (en_log_id e)) 0 (out_events out)
    (length (payload_requests (en_payload e)))"
    by (rule apply_entry_progressed[OF ap _ b I])
      (use inv ok fit in \<open>simp_all add: node_inv_def applicable_def entry_requests_def list_all_iff\<close>)
  have "below (EventId (rf_index raft (en_log_id e)) (length (out_events out))) s'" "last_applied_log s' = Some (en_log_id e)"
    using p by (simp_all add: progressed_def)
  then have "stamped raft s'" by (force simp: stamped_def below_def less_EventId_def)
  then show ?thesis using p inv by (simp add: progressed_def node_inv_def)
qed


lemma fresh_node: "dk_current d = None \<Longrightarrow> dk_fault d = None \<Longrightarrow>
  open_with_sinks_and_retention raft C d market n = Inr st \<Longrightarrow> node_inv raft (inner st)"
  using fresh_inv[where raft = raft and n = n and market = market] by (auto simp: open_fresh node_inv_def stamped_def Inner_default_def)

lemma install_snapshot_window:
  assumes ins: "install_snapshot C st (image_meta s) data = (st', None)"
    and c: "decode_content C data = Inr (serde_image (to_content s))"
    and inv: "machine_inv s" and m: "max_submissions (inner st) = max_submissions s"
  shows "sm_events (inner st') = retain (max_events (inner st)) (sm_events s)"
proof -
  let ?t = "(inner st)\<lparr>last_applied_log := last_applied_log s, last_membership := last_membership s\<rparr>"
  have "max_submissions ?t = max_submissions s" using m by simp
  from install_restores[OF machine_core[OF inv] _ this] inv
  have "sm_events (install_content ?t (serde_image (to_content s))) = retain (max_events (inner st)) (sm_events s)"
    by (auto simp: machine_inv_def)
  then show ?thesis
    using ins c by (auto simp: install_snapshot_def Let_def notify_events_def split: prod.splits option.splits if_splits)
qed

lemma reach_node_inv:
  assumes "reach I raft C s" and I: "i128_typed I"
  shows "node_inv raft s"
  using assms(1)
proof induction
  case (reach_open d market n st)
  then show ?case by (rule fresh_node)
next
  case (reach_entry s env e s' response out)
  then show ?case using node_inv_entry[OF _ I] by blast
next
  case (reach_restart s d market n st)
  note inv = reach_restart.IH[unfolded node_inv_def]
  obtain st' where o1: "open_with_sinks_and_retention raft C d market n = Inr st'" "replica_eq s (inner st')"
      "machine_inv (inner st')" "sm_events (inner st') = retain n (sm_events s)"
    using open_restores[OF reach_restart.hyps(2), of raft market n] inv by blast
  then have e: "st' = st" using reach_restart.hyps(3) by simp
  have "stamped raft (inner st)"
    using stamped_retain[of raft s "inner st"] inv o1 e set_retain[of n "sm_events s"] by (simp add: replica_eq_def)
  then show ?case using inv o1 e by (simp add: node_inv_def replica_eq_def)
next
  case (reach_install s st data st')
  note inv = reach_install.IH[unfolded node_inv_def]
  have m: "max_submissions (inner st) = max_submissions s" using inv by simp
  note i = install_snapshot_replica[OF reach_install.hyps(4,3) _ _ m]
  have r: "replica_eq s (inner st')" "machine_inv (inner st')" using i inv by blast+
  have "set (sm_events (inner st')) \<subseteq> set (sm_events s)"
    using install_snapshot_window[OF reach_install.hyps(4,3) _ m] inv set_retain by metis
  then have "stamped raft (inner st')"
    using stamped_retain[of raft s "inner st'"] inv r by (simp add: replica_eq_def)
  then show ?case using inv r by (simp add: node_inv_def replica_eq_def)
qed

section \<open>A sample node\<close>

definition sample_raft :: "(nat, unit, unit) openraft" where
  "sample_raft = \<lparr>rf_index = id, rf_stored_membership = (\<lambda>_ m. m), rf_default_membership = ()\<rparr>"

definition sample_env :: apply_env where
  "sample_env = \<lparr>env_gate = (\<lambda>_. True), env_control = None, env_now = 0\<rparr>"

definition sample_disk :: disk where
  "sample_disk = \<lparr>dk_path = ''snapshots'', dk_current = None, dk_stable = None, dk_flushed = True, dk_tmp = [],
     dk_tmp_pos = 0, dk_tmp_flushed = True, dk_fault = None\<rparr>"

definition sample_start :: "(nat, unit) StateMachineStoreInner" where
  "sample_start = (Inner_default sample_raft)\<lparr>max_events := 8,
     orderbook := OrderBook_new\<lparr>record_depth := True\<rparr>, market_data := True\<rparr>"

definition sample_entry :: "(nat, unit) Entry" where
  "sample_entry = \<lparr>en_log_id = 1, en_payload = Normal (Place sample_buy (Some ''c1''))\<rparr>"

lemma trim_submissions_id: "length (submission_order s) \<le> max_submissions s \<Longrightarrow> trim_submissions s = s"
  by (subst trim_submissions.simps) simp

lemmas machine_eval = apply_entry_def apply_place_def configured_symbol_for_def place_events_def
  record_events_def trim_events_eq record_submission_def trim_submissions_id
  take_market_frame_def push_publish_def applied_def take_depth_journal_def for_place_at_into_def for_fills_into_def
  Inner_default_def out_events_def ordinal_at_def wrap_u32_def RESPONSE_MAX_EVENTS_def MAX_SUBMISSIONS_def
  sample_raft_def sample_env_def

lemma sample_reach_start: "reach I sample_raft C sample_start"
  using reach_open[OF _ _ open_fresh, of sample_disk I sample_raft C True 8] by (simp add: sample_disk_def sample_start_def)

lemma sample_applied:
  "\<exists>s' response out. apply_entry exact_i256 sample_raft sample_env sample_start sample_entry = Inr (s', response, out)
     \<and> map o_volume (bt_values (bids (orderbook s'))) = [8] \<and> length (out_events out) = 1 \<and> length (sm_events s') = 1
     \<and> rs_sequence response = Some 0"
  by (simp add: machine_eval book_eval sample_start_def sample_entry_def sample_buy_def bt_values_def)

lemma sample_entry_ok: "in_order sample_raft sample_start sample_entry" "applicable sample_start sample_entry"
  using sample_typed(2)
  by (simp_all add: in_order_def applicable_def sample_start_def sample_entry_def Inner_default_def entry_requests_def
      OrderBook_new_def)

section \<open>Properties\<close>

text \<open>
  C23: Every reachable state of a node is well formed.  Whatever entries were applied in log order,
  restarts from the snapshot file and snapshot installations took place, the book satisfies its
  invariant, the retained events have strictly increasing ids and fit the retention limit, the dedupe
  table holds exactly the records of the eviction queue under distinct client ids and within its limit,
  the symbol configuration validates, the depth journal of a publishing node is drained, and no
  retained event is newer than the last applied entry.
\<close>

theorem reachable_invariant:
  assumes "reach I raft C s" "i128_typed I"
  shows "machine_inv s \<and> (\<forall>l. last_applied_log s = Some l \<longrightarrow>
    (\<forall>e \<in> set (sm_events s). ev_log_index (me_event_id e) \<le> rf_index raft l))"
  using reach_node_inv[OF assms]
  by (force simp: node_inv_def stamped_def below_def less_EventId_def)

theorem reachable_invariant_witness:
  "\<exists>s. reach exact_i256 sample_raft (codebook [] []) s \<and> length (sm_events s) = 1
     \<and> map o_volume (bt_values (bids (orderbook s))) = [8] \<and> machine_inv s"
proof -
  obtain s' response out where ap: "apply_entry exact_i256 sample_raft sample_env sample_start sample_entry = Inr (s', response, out)"
    and f: "map o_volume (bt_values (bids (orderbook s'))) = [8]" "length (out_events out) = 1" "length (sm_events s') = 1"
    using sample_applied by metis
  have r: "reach exact_i256 sample_raft (codebook [] []) s'"
    using reach_entry[OF sample_reach_start ap sample_entry_ok] f by simp
  from reachable_invariant[OF r exact_typed] r f show ?thesis by (intro exI[of _ s'] conjI) simp_all
qed

text \<open>
  C27: Each event is published once, in order and with consecutive ids.  Applying the next entry of the
  log to a reachable state hands the sinks events numbered from ordinal 0 under the entry's own log
  index, appends exactly those events to the retained window (which keeps its newest ones), and every
  one of them is newer than every event retained before.
\<close>

theorem entry_events_numbered:
  assumes "reach I raft C s" "i128_typed I" "apply_entry I raft env s e = Inr (s', response, out)"
    and "in_order raft s e" "applicable s e" "length (out_events out) < 2 ^ 32"
  shows "map me_event_id (out_events out) = map (EventId (rf_index raft (en_log_id e))) [0..<length (out_events out)]
    \<and> sm_events s' = drop (length (sm_events s @ out_events out) - max_events s) (sm_events s @ out_events out)
    \<and> (\<forall>old \<in> set (sm_events s). \<forall>new \<in> set (out_events out). me_event_id old < me_event_id new)"
proof -
  have inv: "node_inv raft s" by (rule reach_node_inv[OF assms(1,2)])
  have b: "below (EventId (rf_index raft (en_log_id e)) 0) s" using inv assms(4) by (simp add: node_inv_def stamped_below)
  have p: "progressed (s\<lparr>last_applied_log := Some (en_log_id e)\<rparr>) s' (rf_index raft (en_log_id e)) 0 (out_events out)
    (length (payload_requests (en_payload e)))"
    by (rule apply_entry_progressed[OF assms(3) _ b assms(2)])
      (use inv assms(5,6) in \<open>simp_all add: node_inv_def applicable_def entry_requests_def list_all_iff\<close>)
  then have n: "numbered (rf_index raft (en_log_id e)) 0 (out_events out)" by (simp add: progressed_def)
  have "me_event_id old < me_event_id new" if "old \<in> set (sm_events s)" "new \<in> set (out_events out)" for old new
    using numbered_ids[OF n that(2)] b that(1) by (force simp: below_def less_EventId_def)
  then show ?thesis using p n by (simp add: progressed_def numbered_def retain_def)
qed

theorem entry_events_numbered_witness:
  "\<exists>s' response out. apply_entry exact_i256 sample_raft sample_env sample_start sample_entry = Inr (s', response, out)
     \<and> map me_event_id (out_events out) = [EventId 1 0] \<and> sm_events s' = out_events out"
proof -
  obtain s' response out where ap: "apply_entry exact_i256 sample_raft sample_env sample_start sample_entry = Inr (s', response, out)"
    and f: "length (out_events out) = 1"
    using sample_applied by metis
  have s: "sm_events sample_start = []" "max_events sample_start = 8" by (simp_all add: sample_start_def Inner_default_def)
  from entry_events_numbered[OF sample_reach_start exact_typed ap sample_entry_ok] ap f s show ?thesis
    by (simp add: sample_entry_def sample_raft_def)
qed

text \<open>Reading a submission's events back from a window that still holds them.\<close>

lemma loop_stops:
  assumes "sub_first_ordinal sub = Some f" "\<forall>e \<in> set post. EventId (sub_log_index sub) lim \<le> me_event_id e"
  shows "submission_loop sub lim post acc = acc"
  using assms by (cases post) (auto simp: less_eq_EventId_def)

lemma loop_reads:
  assumes "numbered (sub_log_index sub) g evs" "sub_first_ordinal sub = Some f" "g + length evs = lim"
    and "\<forall>e \<in> set post. EventId (sub_log_index sub) lim \<le> me_event_id e" "snd acc + length evs < 2 ^ 32"
  shows "submission_loop sub lim (evs @ post) acc =
    (fst acc @ take (RESPONSE_MAX_EVENTS - length (fst acc)) evs, snd acc + length evs)"
  using assms
proof (induction evs arbitrary: g acc)
  case Nil
  then show ?case by (simp add: loop_stops)
next
  case (Cons e evs)
  have e: "me_event_id e = EventId (sub_log_index sub) g" and n: "numbered (sub_log_index sub) (Suc g) evs"
    using Cons.prems(1) by (simp_all add: numbered_def upt_conv_Cons del: upt_Suc)
  let ?acc = "(if length (fst acc) < RESPONSE_MAX_EVENTS then fst acc @ [e] else fst acc, sat_add_u32 (snd acc) 1)"
  have s: "sat_add_u32 (snd acc) 1 = snd acc + 1"
    using Cons.prems(5) by (simp add: sat_add_u32_def sat_u32_def)
  have "submission_loop sub lim ((e # evs) @ post) acc = submission_loop sub lim (evs @ post) ?acc"
    using e Cons.prems(3) by simp
  also have "\<dots> = (fst ?acc @ take (RESPONSE_MAX_EVENTS - length (fst ?acc)) evs, snd ?acc + length evs)"
    using Cons.IH[OF n Cons.prems(2) _ Cons.prems(4), of ?acc] Cons.prems(3,5) s by simp
  also have "\<dots> = (fst acc @ take (RESPONSE_MAX_EVENTS - length (fst acc)) (e # evs), snd acc + length (e # evs))"
    using s by (cases "length (fst acc) < RESPONSE_MAX_EVENTS") (simp_all add: take_Cons' Suc_diff_Suc)
  finally show ?case .
qed

lemma submission_events_window:
  assumes w: "sm_events s = pre @ evs @ post" and n: "numbered i f evs" and fit: "f + length evs < 2 ^ 32"
    and pre: "\<forall>e \<in> set pre. me_event_id e < EventId i f"
    and post: "\<forall>e \<in> set post. EventId i (f + length evs) \<le> me_event_id e"
    and sub: "sub_log_index sub = i" "sub_first_ordinal sub = Some f" "sub_event_count sub = length evs"
  shows "submission_events s sub = (take RESPONSE_MAX_EVENTS evs, RESPONSE_MAX_EVENTS < length evs)"
proof -
  have rest: "\<forall>e \<in> set (evs @ post). \<not> me_event_id e < EventId i f"
  proof
    fix e assume "e \<in> set (evs @ post)"
    then consider "e \<in> set evs" | "e \<in> set post" by auto
    then show "\<not> me_event_id e < EventId i f"
    proof cases
      case 1
      then show ?thesis using numbered_ids[OF n 1] by auto
    next
      case 2
      then have "EventId i (f + length evs) \<le> me_event_id e" using post by blast
      then show ?thesis by (auto simp: less_EventId_def less_eq_EventId_def)
    qed
  qed
  have "takeWhile (\<lambda>e. me_event_id e < EventId i f) (pre @ evs @ post) = pre"
    using pre rest by (cases "evs @ post") (simp_all add: takeWhile_append)
  moreover have "sat_add_u32 f (length evs) = f + length evs" using fit by (simp add: sat_add_u32_def sat_u32_def)
  moreover have "submission_loop sub (f + length evs) (evs @ post) ([], 0) = (take RESPONSE_MAX_EVENTS evs, length evs)"
    using loop_reads[of sub f evs f "f + length evs" post "([], 0)"] n sub post fit by simp
  ultimately show ?thesis
    using sub by (simp add: submission_events_def w Let_def wrap_u32_def RESPONSE_MAX_EVENTS_def)
qed

lemma recorded_submission:
  assumes t: "table_ok (submissions s) (submission_order s)" and fresh: "bt_get c (submissions s) = None"
    and m: "0 < max_submissions s"
  shows "bt_get c (submissions (record_submission s c q i f k)) =
    Some \<lparr>sub_client_order_id = c, sub_order_sequence = q, sub_log_index = i, sub_event_count = k, sub_first_ordinal = Some f\<rparr>"
proof -
  let ?r = "\<lparr>sub_client_order_id = c, sub_order_sequence = q, sub_log_index = i, sub_event_count = k, sub_first_ordinal = Some f\<rparr>"
  let ?s = "s\<lparr>submissions := bt_insert c ?r (submissions s), submission_order := submission_order s @ [?r]\<rparr>"
  let ?o = "drop (length (submission_order ?s) - max_submissions ?s) (submission_order ?s)"
  have "table_ok (submissions ?s) (submission_order ?s)"
    using table_ok_snoc[OF t, of ?r] fresh by simp
  then obtain m' where m': "table_ok m' ?o" "submissions (trim_submissions ?s) = m'"
    using trim_submissions_table[of ?s] by force
  have "?r \<in> set ?o" using m by (simp add: drop_Cons')
  from table_okD(3)[OF m'(1) this] show ?thesis
    using m'(2) by (simp add: record_submission_def Let_def)
qed

text \<open>
  The requests a node serves one after another, each at a log index and a first ordinal: the members of
  a batch follow each other under one index, the next entry starts at ordinal 0 under a larger one.
\<close>

inductive onward ::
  "'w i256 \<Rightarrow> ('l, 'm, 'sm) openraft \<Rightarrow> ('l, 'sm) StateMachineStoreInner \<Rightarrow> u64 \<Rightarrow> u32
    \<Rightarrow> ('l, 'sm) StateMachineStoreInner \<Rightarrow> u64 \<Rightarrow> u32 \<Rightarrow> bool"
  for I raft where
  onward_refl: "onward I raft s i f s i f"
| onward_request: "onward I raft s i f t j g \<Longrightarrow> apply_one I raft env pos t r j g out = Inr (t', response, n, out')
     \<Longrightarrow> request_typed r \<Longrightarrow> ob_sequence (orderbook t) < 2 ^ 64 - 1 \<Longrightarrow> g + n < 2 ^ 32
     \<Longrightarrow> onward I raft s i f t' j (g + n)"
| onward_entry: "onward I raft s i f t j g \<Longrightarrow> j < rf_index raft l
     \<Longrightarrow> onward I raft s i f (t\<lparr>last_applied_log := Some l\<rparr>) (rf_index raft l) 0"
| onward_membership: "onward I raft s i f t j g \<Longrightarrow> onward I raft s i f (t\<lparr>last_membership := mem\<rparr>) j g"

definition serving ::
  "'w i256 \<Rightarrow> ('l, 'm, 'sm) openraft \<Rightarrow> ('l, 'sm, 'h) codec \<Rightarrow> ('l, 'sm) StateMachineStoreInner \<Rightarrow> u64 \<Rightarrow> u32 \<Rightarrow> bool" where
  "serving I raft C s i f \<longleftrightarrow> (\<exists>s0 e. reach I raft C s0 \<and> in_order raft s0 e
     \<and> onward I raft (s0\<lparr>last_applied_log := Some (en_log_id e)\<rparr>) (rf_index raft (en_log_id e)) 0 s i f)"

lemma onward_batch:
  assumes "apply_batch I raft env pos t rs j g resps out = Inr (t', resps', out')" "onward I raft s i f t j g"
    and "\<forall>r \<in> set rs. request_typed r" "ob_sequence (orderbook t) + length rs \<le> 2 ^ 64 - 1"
    and "machine_inv t" "below (EventId j g) t" "i128_typed I"
    and "out_events out' = out_events out @ evs" "g + length evs < 2 ^ 32"
  shows "onward I raft s i f t' j (g + length evs)"
  using assms
proof (induction rs arbitrary: pos t g resps out evs)
  case Nil
  then show ?case by simp
next
  case (Cons r rs)
  obtain u resp n out1 where one: "apply_one I raft env pos t r j g out = Inr (u, resp, n, out1)"
    and rest: "apply_batch I raft env (Suc pos) u rs j (sat_add_u32 g (wrap_u32 n)) (resps @ [resp]) out1 = Inr (t', resps', out')"
    using Cons.prems(1) by (auto split: sum.splits)
  obtain e1 where e1: "n = length e1" "out_events out1 = out_events out @ e1" using out_events_mono[OF one] by blast
  obtain e2 where e2: "out_events out' = out_events out1 @ e2" using batch_events_mono[OF rest] by blast
  have evs: "evs = e1 @ e2" using Cons.prems(8) e1(2) e2 by simp
  then have fit: "g + n < 2 ^ 32" using Cons.prems(9) e1(1) by simp
  have seq: "ob_sequence (orderbook t) < 2 ^ 64 - 1" using Cons.prems(4) by simp
  have p: "progressed t u j g e1 1"
    using apply_one_progressed[OF one Cons.prems(5,6) seq Cons.prems(7) _ fit] Cons.prems(3) e1 by auto
  have g': "sat_add_u32 g (wrap_u32 n) = g + n" using fit by (simp add: sat_add_u32_def wrap_u32_id sat_u32_id)
  have "onward I raft s i f t' j (g + n + length e2)"
  proof (rule Cons.IH[OF rest[unfolded g']])
    show "onward I raft s i f u j (g + n)" using onward_request[OF Cons.prems(2) one _ seq fit] Cons.prems(3) by simp
    show "ob_sequence (orderbook u) + length rs \<le> 2 ^ 64 - 1" using p Cons.prems(4) by (simp add: progressed_def)
  qed (use p e1 e2 evs Cons.prems(3,7,9) in \<open>simp_all add: progressed_def\<close>)
  then show ?case using evs e1(1) by (simp add: add.assoc)
qed

text \<open>Every applied entry is a piece of such a run.\<close>

lemma entry_onward:
  assumes ap: "apply_entry I raft env s e = Inr (s', response, out)" and inv: "node_inv raft s" and I: "i128_typed I"
    and ord: "in_order raft s e" "i < rf_index raft (en_log_id e)" and ok: "applicable s e" "length (out_events out) < 2 ^ 32"
  shows "onward I raft s i f s' (rf_index raft (en_log_id e)) (length (out_events out))"
proof -
  let ?s = "s\<lparr>last_applied_log := Some (en_log_id e)\<rparr>" and ?i = "rf_index raft (en_log_id e)"
  let ?o = "\<lparr>out_publishes = [], out_resets = []\<rparr>"
  have st: "onward I raft s i f ?s ?i 0" by (rule onward_entry[OF onward_refl ord(2)])
  have s: "machine_inv ?s" "below (EventId ?i 0) ?s"
    using inv stamped_below[of raft s e] ord(1) by (simp_all add: node_inv_def machine_inv_def below_def)
  have o1: "out_events ?o = []" by (simp add: out_events_def)
  show ?thesis
  proof (cases "en_payload e")
    case Blank
    then show ?thesis using ap st by (auto simp: apply_entry_def out_events_def)
  next
    case (Membership mem)
    then show ?thesis using ap onward_membership[OF st] by (auto simp: apply_entry_def out_events_def)
  next
    case (Normal r)
    show ?thesis
    proof (cases "\<exists>rs. r = Batch rs")
      case True
      then obtain rs where r: "r = Batch rs" by blast
      obtain resps where "apply_batch I raft env 0 ?s rs ?i 0 [] ?o = Inr (s', resps, out)"
        using ap Normal r by (auto simp: apply_entry_def split: sum.splits)
      from onward_batch[OF this st _ _ s I, of "out_events out"] show ?thesis
        using ok Normal r o1 by (simp add: applicable_def entry_requests_def list_all_iff)
    next
      case False
      obtain n where one: "apply_one I raft env 0 ?s r ?i 0 ?o = Inr (s', response, n, out)"
        using ap by (auto simp: apply_entry_single[OF Normal False] split: sum.splits prod.splits)
      have "n = length (out_events out)" using out_events_mono[OF one] o1 by simp
      with onward_request[OF st one] ok Normal False show ?thesis
        by (cases r) (simp_all add: applicable_def entry_requests_def)
    qed
  qed
qed

lemma drop_retain_drop: "\<exists>k'. drop k (retain n xs @ post) = drop k' (xs @ post)"
proof -
  have "retain n xs @ post = drop (length xs - n) (xs @ post)" by (simp add: retain_def)
  then show ?thesis by (metis drop_drop)
qed

lemma onward_window:
  assumes "onward I raft s i f t j g" "machine_inv s" "below (EventId i f) s" and I: "i128_typed I"
  shows "machine_inv t \<and> below (EventId j g) t \<and> EventId i f \<le> EventId j g \<and> max_submissions t = max_submissions s
    \<and> (\<exists>k post. sm_events t = drop k (sm_events s @ post) \<and> (\<forall>e \<in> set post. EventId i f \<le> me_event_id e))"
  using assms(1,2,3)
proof induction
  case (onward_refl s i f)
  then show ?case by (auto intro: exI[of _ 0] exI[of _ "[]"])
next
  case (onward_request s i f t j g env pos r out t' response n out')
  note IH = onward_request.IH[OF onward_request.prems]
  obtain k post where w: "sm_events t = drop k (sm_events s @ post)" "\<forall>e \<in> set post. EventId i f \<le> me_event_id e" using IH by blast
  obtain evs where evs: "n = length evs" "progressed t t' j g evs 1"
    using apply_one_progressed[OF onward_request.hyps(2) _ _ onward_request.hyps(4) I onward_request.hyps(3,5)] IH by blast
  then have n: "numbered j g evs" and e: "sm_events t' = retain (max_events t) (sm_events t @ evs)" by (simp_all add: progressed_def)
  have new: "\<forall>e \<in> set evs. EventId i f \<le> me_event_id e"
    using numbered_ids[OF n] IH by (force simp: less_eq_EventId_def)
  have "\<exists>k'. sm_events t' = drop k' (sm_events s @ post @ evs)"
  proof (cases "k \<le> length (sm_events s @ post)")
    case True
    then have "sm_events t @ evs = drop k (sm_events s @ post @ evs)" using w(1) by simp
    then show ?thesis using e unfolding retain_def by (metis drop_drop)
  next
    case False
    then have "sm_events t @ evs = drop (length (sm_events s @ post)) (sm_events s @ post @ evs)" using w(1) by simp
    then show ?thesis using e unfolding retain_def by (metis drop_drop)
  qed
  moreover have "EventId i f \<le> EventId j (g + n)" using IH by (auto simp: less_eq_EventId_def)
  moreover have "\<forall>e \<in> set (post @ evs). EventId i f \<le> me_event_id e" using w(2) new by auto
  ultimately have "\<exists>k post. sm_events t' = drop k (sm_events s @ post) \<and> (\<forall>e \<in> set post. EventId i f \<le> me_event_id e)"
      "EventId i f \<le> EventId j (g + n)" by blast+
  then show ?case using evs IH by (simp add: progressed_def)
next
  case (onward_entry s i f t j g l)
  note IH = onward_entry.IH[OF onward_entry.prems]
  have "EventId j g < EventId (rf_index raft l) 0" using onward_entry.hyps(2) by (simp add: less_EventId_def)
  with IH show ?case by (auto simp: machine_inv_def below_def less_EventId_def less_eq_EventId_def)
next
  case (onward_membership s i f t j g mem)
  then show ?case by (simp add: machine_inv_def below_def)
qed

lemma serving_inv:
  assumes "serving I raft C s i f" "i128_typed I"
  shows "machine_inv s" "below (EventId i f) s" "max_submissions s = MAX_SUBMISSIONS"
proof -
  obtain s0 e where r: "reach I raft C s0" "in_order raft s0 e"
    and o: "onward I raft (s0\<lparr>last_applied_log := Some (en_log_id e)\<rparr>) (rf_index raft (en_log_id e)) 0 s i f"
    using assms(1) unfolding serving_def by blast
  have n: "node_inv raft s0" by (rule reach_node_inv[OF r(1) assms(2)])
  show "machine_inv s" "below (EventId i f) s" "max_submissions s = MAX_SUBMISSIONS"
    using onward_window[OF o _ _ assms(2)] n stamped_below[of raft s0 e] r(2)
    by (auto simp: node_inv_def machine_inv_def below_def)
qed

lemma submission_still_read:
  assumes w: "sm_events t = drop k ((pre @ evs) @ post)" and n: "numbered i f evs" and fit: "f + length evs < 2 ^ 32"
    and pre: "\<forall>e \<in> set pre. me_event_id e < EventId i f"
    and post: "\<forall>e \<in> set post. EventId i (f + length evs) \<le> me_event_id e"
    and kept: "\<forall>m < length evs. EventId i (f + m) \<in> me_event_id ` set (sm_events t)"
    and sub: "sub_log_index sub = i" "sub_first_ordinal sub = Some f" "sub_event_count sub = length evs"
  shows "submission_events t sub = (take RESPONSE_MAX_EVENTS evs, RESPONSE_MAX_EVENTS < length evs)"
proof (cases "evs = [] \<or> k \<le> length pre")
  case True
  then have "sm_events t = drop k pre @ evs @ drop (k - length (pre @ evs)) post" using w by auto
  from submission_events_window[OF this n fit _ _ sub] pre post show ?thesis
    by (auto dest: in_set_dropD)
next
  case False
  then have f: "0 < length evs" "length pre < k" by auto
  then obtain e where e: "e \<in> set (sm_events t)" "me_event_id e = EventId i f" using kept by fastforce
  have "sm_events t = drop (k - length pre) evs @ drop (k - length (pre @ evs)) post" using w f by simp
  then consider "e \<in> set (drop (k - length pre) evs)" | "e \<in> set post" using e(1) by (auto dest: in_set_dropD)
  then show ?thesis
  proof cases
    case 1
    then obtain m where m: "m < length evs - (k - length pre)" "e = evs ! (k - length pre + m)"
      by (auto simp: in_set_conv_nth)
    have "map me_event_id evs ! (k - length pre + m) = EventId i (f + (k - length pre + m))"
      using n m(1) by (simp add: numbered_def)
    then show ?thesis using e(2) m f by simp
  next
    case 2
    then have "EventId i (f + length evs) \<le> EventId i f" using post e(2) by metis
    then show ?thesis using f(1) by (simp add: less_eq_EventId_def less_EventId_def)
  qed
qed

text \<open>
  C26: Submission is idempotent by client order id.  Once a placement with a fresh client id has been
  served, at any position of the log and also inside a batch, any resubmission under that id, whatever
  order it carries and however many requests were served in between, changes nothing, publishes nothing
  and returns the very response of the original placement (same sequence, same events, same truncation
  flag), as long as the dedupe table still holds the record and the event window still holds the events
  of the placement.
\<close>

theorem place_idempotent:
  assumes at: "serving I raft C s i f" and I: "i128_typed I" and fresh: "bt_get c (submissions s) = None"
    and ap: "apply_place I gate s o1 (Some c) i f out = Inr (s1, response, n, out1)"
    and ok: "order_typed o1" "ob_sequence (orderbook s) < 2 ^ 64 - 1" "f + n < 2 ^ 32"
    and later: "onward I raft s1 i (f + n) s2 i2 f2"
    and held: "bt_get c (submissions s2) = bt_get c (submissions s1)"
      "\<forall>m < n. EventId i (f + m) \<in> me_event_id ` set (sm_events s2)"
  shows "apply_place I gate' s2 o2 (Some c) i2 f2 out' = Inr (s2, response, 0, out')"
proof -
  note inv = serving_inv[OF at I]
  have m0: "0 < max_submissions s" using inv(3) by (simp add: MAX_SUBMISSIONS_def)
  obtain b1 o3 oc where ex: "(case configured_symbol_for s o1 of
       Inr config \<Rightarrow> execute_order_with_symbol I (orderbook s) o1 config
     | Inl reason \<Rightarrow> Inr (reject_order (orderbook s) o1 reason)) = Inr (b1, o3, oc)"
    using ap fresh by (auto simp: apply_place_def split: sum.splits prod.splits)
  have nn: "(case Some c of None \<Rightarrow> None | Some c \<Rightarrow> bt_get c (submissions s)) = None" using fresh by simp
  let ?evs = "place_events i f o3 oc"
  have r: "s1 = drained (placed s b1 o3 oc (Some c) i f)" "response = applied (o_sequence o3) ?evs" "n = length ?evs"
    using ap apply_place_new[OF nn ex, of gate i f out] by auto
  let ?s = "s\<lparr>orderbook := b1, symbol_locked := symbol_locked s \<or> oc_rejected oc = None\<rparr>"
  have ne: "numbered i f ?evs" using place_events_numbered[of f i o3 oc] ok(3) r(3) by simp
  let ?r = "\<lparr>sub_client_order_id = c, sub_order_sequence = o_sequence o3, sub_log_index = i,
     sub_event_count = wrap_u32 n, sub_first_ordinal = Some f\<rparr>"
  have get: "bt_get c (submissions s1) = Some ?r"
    using recorded_submission[of "record_events ?s ?evs" c "o_sequence o3" i f "wrap_u32 n"] inv m0 fresh
    by (simp add: r placed_def Let_def machine_inv_def)
  have one: "apply_one I raft \<lparr>env_gate = (\<lambda>_. gate), env_control = None, env_now = 0\<rparr> 0 s (Place o1 (Some c)) i f out
      = Inr (s1, response, n, out1)" using ap by simp
  obtain evs where "n = length evs" "progressed s s1 i f evs 1"
    using apply_one_progressed[OF one inv(1,2) ok(2) I _ ok(3)] ok(1) by auto
  then have p: "machine_inv s1" "below (EventId i (f + n)) s1" by (simp_all add: progressed_def)
  have w1: "sm_events s1 = retain (max_events s) (sm_events s @ ?evs)"
    by (simp add: r(1) placed_def Let_def record_events_def trim_events_eq retain_def)
  obtain k post where w2: "sm_events s2 = drop k (sm_events s1 @ post)" "\<forall>e \<in> set post. EventId i (f + n) \<le> me_event_id e"
    using onward_window[OF later p I] by blast
  obtain k' where "sm_events s2 = drop k' ((sm_events s @ ?evs) @ post)"
    using drop_retain_drop w1 w2(1) by metis
  from submission_still_read[OF this ne, of ?r] w2(2) held(2) inv(2) r(3) ok(3)
  have "submission_events s2 ?r = (take RESPONSE_MAX_EVENTS ?evs, RESPONSE_MAX_EVENTS < length ?evs)"
    by (simp add: below_def wrap_u32_id)
  then show ?thesis using held(1) get r(2) by (simp add: apply_place_def duplicate_response_def duplicate_def applied_def)
qed

definition idem_start :: "(nat, unit) StateMachineStoreInner" where
  "idem_start = sample_start\<lparr>last_applied_log := Some 1\<rparr>"

lemma idem_serving: "serving I sample_raft C idem_start 1 0"
proof -
  have i: "rf_index sample_raft (en_log_id sample_entry) = 1" "idem_start = sample_start\<lparr>last_applied_log := Some (en_log_id sample_entry)\<rparr>"
    by (simp_all add: sample_raft_def sample_entry_def idem_start_def)
  show ?thesis
    unfolding serving_def
    by (intro exI[of _ sample_start] exI[of _ sample_entry] conjI sample_reach_start sample_entry_ok(1))
      (simp only: i onward_refl)
qed

lemma idem_run:
  "\<exists>s1 response out1 s2 resp2 out2. apply_place exact_i256 True idem_start sample_buy (Some ''c1'') 1 0 \<lparr>out_publishes = [], out_resets = []\<rparr>
       = Inr (s1, response, 1, out1)
     \<and> apply_one exact_i256 sample_raft sample_env 0 (s1\<lparr>last_applied_log := Some 2\<rparr>) (Place (Order_new Sell 200 5 0) None) 2 0
         \<lparr>out_publishes = [], out_resets = []\<rparr> = Inr (s2, resp2, 1, out2)
     \<and> rs_sequence response = Some 0 \<and> map me_order_sequence (rs_events response) = [0]
     \<and> map me_event_id (sm_events s2) = [EventId 1 0, EventId 2 0] \<and> ob_sequence (orderbook s1) = 1
     \<and> bt_get ''c1'' (submissions s2) = bt_get ''c1'' (submissions s1)"
  by (simp add: machine_eval book_eval idem_start_def sample_start_def sample_buy_def less_BidKey_iff)

theorem place_idempotent_witness:
  "\<exists>s1 response out1 s2 resp2 out2. apply_place exact_i256 True idem_start sample_buy (Some ''c1'') 1 0 \<lparr>out_publishes = [], out_resets = []\<rparr>
       = Inr (s1, response, 1, out1)
     \<and> apply_one exact_i256 sample_raft sample_env 0 (s1\<lparr>last_applied_log := Some 2\<rparr>) (Place (Order_new Sell 200 5 0) None) 2 0
         \<lparr>out_publishes = [], out_resets = []\<rparr> = Inr (s2, resp2, 1, out2)
     \<and> map me_event_id (sm_events s2) = [EventId 1 0, EventId 2 0] \<and> map me_order_sequence (rs_events response) = [0]
     \<and> apply_place exact_i256 False s2 (sample_buy\<lparr>o_price := 7\<rparr>) (Some ''c1'') 2 1 \<lparr>out_publishes = [], out_resets = []\<rparr>
       = Inr (s2, response, 0, \<lparr>out_publishes = [], out_resets = []\<rparr>)"
proof -
  obtain s1 response out1 s2 resp2 out2 where
      ap: "apply_place exact_i256 True idem_start sample_buy (Some ''c1'') 1 0 \<lparr>out_publishes = [], out_resets = []\<rparr>
        = Inr (s1, response, 1, out1)"
    and one: "apply_one exact_i256 sample_raft sample_env 0 (s1\<lparr>last_applied_log := Some 2\<rparr>) (Place (Order_new Sell 200 5 0) None) 2 0
        \<lparr>out_publishes = [], out_resets = []\<rparr> = Inr (s2, resp2, 1, out2)"
    and q: "map me_order_sequence (rs_events response) = [0]"
    and ev: "map me_event_id (sm_events s2) = [EventId 1 0, EventId 2 0]" and sq: "ob_sequence (orderbook s1) = 1"
    and held: "bt_get ''c1'' (submissions s2) = bt_get ''c1'' (submissions s1)"
    using idem_run by (elim exE conjE) (rule that)
  have s: "bt_get ''c1'' (submissions idem_start) = None" "ob_sequence (orderbook idem_start) < 2 ^ 64 - 1"
    by (simp_all add: idem_start_def sample_start_def Inner_default_def OrderBook_new_def)
  have "onward exact_i256 sample_raft s1 1 1 (s1\<lparr>last_applied_log := Some 2\<rparr>) 2 0"
    using onward_entry[OF onward_refl, of 1 sample_raft 2 exact_i256 s1 1] by (simp add: sample_raft_def)
  from onward_request[OF this one] sq have run: "onward exact_i256 sample_raft s1 1 (0 + 1) s2 2 1"
    by (simp add: order_typed_def Order_new_def in_i128_def)
  have kept: "\<forall>m < 1. EventId 1 (0 + m) \<in> me_event_id ` set (sm_events s2)"
    using ev by (metis add_0 less_one list.set_intros(1) set_map)
  show ?thesis
    using place_idempotent[OF idem_serving exact_typed s(1) ap sample_typed(2) s(2) _ run held kept] ap one ev q by auto
qed

text \<open>
  C25: Replicas converge.  Two well-formed nodes that agree on the replicated state (book, symbol,
  dedupe records, last applied entry, membership) and apply the same entries agree afterwards, although
  their event retention, market-data switch, feed gates and clocks may differ: either both panic in
  the same way, or both finish with agreeing states, the same answers up to the echoed event lists, and
  the same events published for each entry.
\<close>

theorem replicas_converge:
  assumes "machine_inv s" "machine_inv t" "replica_eq s t" "i128_typed I" "map snd es = map snd es'"
    and "\<forall>e \<in> set es. list_all request_typed (entry_requests (snd e))"
    and "ob_sequence (orderbook s) + (\<Sum>e\<leftarrow>es. length (entry_requests (snd e))) \<le> 2 ^ 64 - 1"
  shows "(\<exists>p. apply_entries I raft s es = Inl p \<and> apply_entries I raft t es' = Inl p)
    \<or> (\<exists>s' t' outs outs'. apply_entries I raft s es = Inr (s', outs) \<and> apply_entries I raft t es' = Inr (t', outs')
        \<and> replica_eq s' t'
        \<and> map (strip_response \<circ> fst) outs = map (strip_response \<circ> fst) outs'
        \<and> map (out_events \<circ> snd) outs = map (out_events \<circ> snd) outs')"
  using apply_entries_agree[OF machine_core[OF assms(1)] machine_core[OF assms(2)] assms(3-5) _ assms(7), of raft] assms(6)
  by (auto simp: list_all_iff)

definition sample_other :: "(nat, unit) StateMachineStoreInner" where
  "sample_other = (Inner_default sample_raft)\<lparr>max_events := 2\<rparr>"

theorem replicas_converge_witness:
  "\<exists>s' t' outs outs'. apply_entries exact_i256 sample_raft sample_start [(sample_env, sample_entry)] = Inr (s', outs)
     \<and> apply_entries exact_i256 sample_raft sample_other [(sample_env\<lparr>env_now := 5\<rparr>, sample_entry)] = Inr (t', outs')
     \<and> replica_eq s' t' \<and> map (out_events \<circ> snd) outs = map (out_events \<circ> snd) outs'"
proof -
  have inv: "machine_inv sample_start" "machine_inv sample_other"
    using fresh_inv[where raft = sample_raft and n = 8 and market = True]
      fresh_inv[where raft = sample_raft and n = 2 and market = False]
    by (simp_all add: sample_start_def sample_other_def Inner_default_def OrderBook_new_def)
  have e: "replica_eq sample_start sample_other"
    by (simp add: sample_start_def sample_other_def replica_eq_def Inner_default_def)
  have ty: "\<forall>x \<in> set [(sample_env, sample_entry)]. list_all request_typed (entry_requests (snd x))"
      "ob_sequence (orderbook sample_start) + (\<Sum>x\<leftarrow>[(sample_env, sample_entry)]. length (entry_requests (snd x))) \<le> 2 ^ 64 - 1"
    using sample_entry_ok(2) by (simp_all add: applicable_def)
  have m: "map snd [(sample_env, sample_entry)] = map snd [(sample_env\<lparr>env_now := 5\<rparr>, sample_entry)]" by simp
  have ne: "\<nexists>p. apply_entries exact_i256 sample_raft sample_start [(sample_env, sample_entry)] = Inl p"
    using sample_applied by auto
  from replicas_converge[OF inv e exact_typed m ty, of sample_raft] ne show ?thesis by blast
qed

text \<open>
  C28: A crash at any moment of writing a snapshot loses nothing.  Let the directory be settled and
  stop \<open>write_snapshot_file\<close> after any number of its file system operations, then crash: the directory is
  settled again and the next read returns exactly what a read returned before the write began, or the
  complete new snapshot.
\<close>

theorem snapshot_write_atomic:
  assumes "snapshot_codec C" "disk_settled d" "crash (foldl fs_step d (take n (fst (write_ops C meta data)))) d'"
  shows "disk_settled d' \<and> (read_snapshot_file C d' = read_snapshot_file C d
    \<or> read_snapshot_file C d' = Inr (Some (meta, data)))"
  using assms by (rule snapshot_codec.write_crash_safe)

definition sample_meta :: "(nat, unit) SnapshotMeta" where
  "sample_meta = \<lparr>meta_last_log_id = Some 1, meta_last_membership = ()\<rparr>"

theorem snapshot_write_atomic_witness:
  "\<exists>d'. crash (foldl fs_step sample_disk (fst (write_ops (codebook [] [sample_meta]) sample_meta [5]))) d'
     \<and> read_snapshot_file (codebook [] [sample_meta]) sample_disk = Inr None
     \<and> read_snapshot_file (codebook [] [sample_meta]) d' = Inr (Some (sample_meta, [5]))"
proof -
  let ?C = "codebook [] [sample_meta]"
  let ?ops = "fst (write_ops ?C sample_meta [5])"
  have io: "postcard_to_io ?C (sample_meta, [5]) = ([[0], [5]], None)" by (simp add: codebook_def)
  have f: "foldl fs_step sample_disk ?ops = fst (write_snapshot_file ?C sample_disk sample_meta [5])"
    by (simp add: write_snapshot_file_def split_beta)
  let ?d = "fst (write_snapshot_file ?C sample_disk sample_meta [5])"
  have d: "dk_current ?d \<noteq> None" "dk_flushed ?d" "dk_fault ?d = None" "dk_stable ?d = dk_current ?d"
    unfolding codebook.file_written[OF io] by (simp_all add: sample_disk_def)
  have c: "crash (foldl fs_step sample_disk (take (length ?ops) ?ops)) ?d"
    unfolding take_all[OF order_refl] f using d by (intro crash_stable) simp_all
  have s: "disk_settled sample_disk" by (simp add: disk_settled_def sample_disk_def)
  have n: "read_snapshot_file ?C sample_disk = Inr None" by (simp add: read_snapshot_file_def fs_read_def sample_disk_def)
  have "read_snapshot_file ?C ?d \<noteq> Inr None"
    using d by (auto simp: read_snapshot_file_def fs_read_def split: option.splits sum.splits)
  then show ?thesis
    using snapshot_write_atomic[OF codebook.snapshot_codec_axioms s c] n c by auto
qed

text \<open>
  C32: A snapshot is accepted exactly when it is intact.  \<open>decode_snapshot_bytes\<close> returns a payload for a
  byte string exactly when the string is the magic, the current version, the CRC of the rest and a body
  that decodes to that payload; every other string, short or torn ones included, is an \<open>InvalidData\<close> error.
\<close>

theorem snapshot_decode_exact:
  assumes "snapshot_codec C" "bytes_ok bs"
  shows "(decode_snapshot_bytes C bs source = Inr p
      \<longleftrightarrow> (\<exists>body. bs = snapshot_bytes C body \<and> postcard_payload C body = Inr p))
    \<and> (\<forall>e. decode_snapshot_bytes C bs source = Inl e \<longrightarrow> io_kind e = InvalidData)"
proof -
  have crc: "from_le_bytes (to_le_bytes 4 (crc_hash C body)) = crc_hash C body" for body
    using snapshot_codec.crc_u32[OF assms(1), of body] by (intro from_to_le_bytes) simp
  have ver: "from_le_bytes (to_le_bytes 4 SNAPSHOT_VERSION) = SNAPSHOT_VERSION"
    by (intro from_to_le_bytes) (simp add: SNAPSHOT_VERSION_def)
  have "decode_snapshot_bytes C bs source = Inr p" if "bs = snapshot_bytes C body" "postcard_payload C body = Inr p" for body
    using that crc ver by (simp add: decode_snapshot_bytes_def snapshot_bytes_def SNAPSHOT_HEADER_LEN_def Let_def)
  moreover have "\<exists>body. bs = snapshot_bytes C body \<and> postcard_payload C body = Inr p"
    if d: "decode_snapshot_bytes C bs source = Inr p"
  proof -
    let ?v = "take 4 (drop 7 bs)" and ?c = "take 4 (drop 11 bs)" and ?body = "drop 15 bs"
    have l: "15 \<le> length bs" "take 7 bs = SNAPSHOT_MAGIC" "from_le_bytes ?v = SNAPSHOT_VERSION"
      "crc_hash C ?body = from_le_bytes ?c" "postcard_payload C ?body = Inr p"
      using d by (auto simp: decode_snapshot_bytes_def SNAPSHOT_HEADER_LEN_def Let_def split: if_splits sum.splits)
    have "to_le_bytes (length ?v) (from_le_bytes ?v) = ?v" "to_le_bytes (length ?c) (from_le_bytes ?c) = ?c"
      using assms(2) by (intro to_from_le_bytes bytes_ok_sub; assumption)+
    then have vc: "?v = to_le_bytes 4 SNAPSHOT_VERSION" "?c = to_le_bytes 4 (crc_hash C ?body)" using l by simp_all
    have "bs = take 7 bs @ take 4 (drop 7 bs) @ take 4 (drop 4 (drop 7 bs)) @ drop 4 (drop 4 (drop 7 bs))"
      by (simp only: append_take_drop_id)
    then have "bs = take 7 bs @ ?v @ ?c @ ?body" by simp
    then show ?thesis using l vc by (metis snapshot_bytes_def)
  qed
  moreover have "io_kind e = InvalidData" if "decode_snapshot_bytes C bs source = Inl e" for e
    using that by (auto simp: decode_snapshot_bytes_def Let_def split: if_splits sum.splits)
  ultimately show ?thesis by blast
qed

theorem snapshot_decode_exact_witness:
  "decode_snapshot_bytes (codebook [] [sample_meta]) [77, 82, 70, 83, 78, 65, 80, 10, 0] ''f''
     \<noteq> Inr (sample_meta, [])
   \<and> (\<exists>bs. decode_snapshot_bytes (codebook [] [sample_meta]) bs ''f'' = Inr (sample_meta, [5]))"
proof
  let ?C = "codebook [] [sample_meta]" and ?short = "[77, 82, 70, 83, 78, 65, 80, 10, 0]"
  have "bytes_ok ?short" by simp
  from snapshot_decode_exact[OF codebook.snapshot_codec_axioms this, of "[]" "[sample_meta]" "''f''" "(sample_meta, [])"]
  show "decode_snapshot_bytes ?C ?short ''f'' \<noteq> Inr (sample_meta, [])"
    by (auto simp: snapshot_bytes_def SNAPSHOT_MAGIC_def dest!: arg_cong[of _ _ length])
  have ok: "bytes_ok (snapshot_bytes ?C [0, 5])" by (simp add: snapshot_bytes_def SNAPSHOT_MAGIC_def)
  have "postcard_payload ?C [0, 5] = Inr (sample_meta, [5])" by (simp add: codebook_def)
  with snapshot_decode_exact[OF codebook.snapshot_codec_axioms ok, of "[]" "[sample_meta]" "''f''" "(sample_meta, [5])"]
  show "\<exists>bs. decode_snapshot_bytes ?C bs ''f'' = Inr (sample_meta, [5])" by blast
qed

end
