(* ===== verification/Recovery_Properties.thy ===== *)
theory Recovery_Properties
  imports Machine_Properties
begin

text \<open>
  Recovery of a node from its snapshot directory and the readers of the event window.
\<close>

text \<open>
  C24: A node recovers its state after a crash.  A node persisted the state \<open>s0\<close>, applied the entries
  \<open>es\<close> to reach \<open>s\<close>, and crashed at any moment of persisting \<open>s\<close>.  Opening the directory succeeds and
  yields a well-formed node that either already agrees with \<open>s\<close>, or agrees with \<open>s0\<close> and, replaying the
  entries after the one its applied state names, arrives at a state that agrees with \<open>s\<close> and publishes
  the same events again, whatever the retention limit and market-data switch of the new process.
\<close>

theorem crash_recovery:
  assumes C: "snapshot_codec C" and I: "i128_typed I" and r: "reach I raft C s0" "reach I raft C s"
    and d: "holds C d s0" "disk_settled d"
    and run: "apply_entries I raft s0 es = Inr (s, outs)" "map snd es = map snd es'"
    and ty: "\<forall>e \<in> set es. list_all request_typed (entry_requests (snd e))"
    and seq: "ob_sequence (orderbook s0) + (\<Sum>e\<leftarrow>es. length (entry_requests (snd e))) \<le> 2 ^ 64 - 1"
    and enc: "encode_content C (to_content s) = Inr data"
    and cr: "crash (foldl fs_step d (take n (fst (write_ops C (image_meta s) data)))) d'"
  shows "\<exists>st. open_with_sinks_and_retention raft C d' market k = Inr st \<and> machine_inv (inner st)
    \<and> (replica_eq s (inner st)
       \<or> applied_state st = (last_applied_log s0, last_membership s0)
         \<and> (\<exists>t outs'. apply_entries I raft (inner st) es' = Inr (t, outs') \<and> replica_eq s t
              \<and> map (out_events \<circ> snd) outs = map (out_events \<circ> snd) outs'))"
proof -
  have inv: "machine_inv s0" "machine_inv s" "max_submissions s0 = MAX_SUBMISSIONS" "max_submissions s = MAX_SUBMISSIONS"
    using reach_node_inv[OF r(1) I] reach_node_inv[OF r(2) I] by (simp_all add: node_inv_def)
  from snapshot_codec.persist_crash[OF C d enc cr] show ?thesis
  proof
    assume "holds C d' s"
    from open_restores[OF this inv(2,4)] show ?thesis by blast
  next
    assume "holds C d' s0"
    from open_restores[OF this inv(1,3), of raft market k] obtain st where
      st: "open_with_sinks_and_retention raft C d' market k = Inr st" "replica_eq s0 (inner st)" "machine_inv (inner st)" by blast
    obtain t outs' where t: "apply_entries I raft (inner st) es' = Inr (t, outs')" "replica_eq s t"
        "map (out_events \<circ> snd) outs = map (out_events \<circ> snd) outs'"
      using apply_entries_agree[OF machine_core[OF inv(1)] machine_core[OF st(3)] st(2) I run(2) _ seq, of raft] ty run(1)
      by (auto simp: list_all_iff)
    have "applied_state st = (last_applied_log s0, last_membership s0)"
      using st(2) by (simp add: applied_state_def replica_eq_def)
    then show ?thesis using st t by blast
  qed
qed

definition sample_after :: "(nat, unit) StateMachineStoreInner" where
  "sample_after = (case apply_entries exact_i256 sample_raft sample_start [(sample_env, sample_entry)] of
     Inr (s, _) \<Rightarrow> s | Inl _ \<Rightarrow> sample_start)"

definition sample_codec :: "(nat, unit, 32 word) codec" where
  "sample_codec = codebook [serde_image (to_content sample_start), serde_image (to_content sample_after)]
     [image_meta sample_start, image_meta sample_after]"

theorem crash_recovery_witness:
  "\<exists>d d' st data. holds sample_codec d sample_start
     \<and> encode_content sample_codec (to_content sample_after) = Inr data
     \<and> crash (foldl fs_step d (take 4 (fst (write_ops sample_codec (image_meta sample_after) data)))) d'
     \<and> open_with_sinks_and_retention sample_raft sample_codec d' False 3 = Inr st \<and> machine_inv (inner st)"
proof -
  obtain s' response out where ap: "apply_entry exact_i256 sample_raft sample_env sample_start sample_entry = Inr (s', response, out)"
    and f: "length (out_events out) = 1" using sample_applied by metis
  have run: "apply_entries exact_i256 sample_raft sample_start [(sample_env, sample_entry)] = Inr (s', [(response, out)])"
    by (simp add: ap)
  have a: "sample_after = s'" unfolding sample_after_def run by simp
  have r2: "reach exact_i256 sample_raft sample_codec s'"
    using reach_entry[OF sample_reach_start ap sample_entry_ok] f by simp
  have C: "snapshot_codec sample_codec" unfolding sample_codec_def by (rule codebook.snapshot_codec_axioms)
  obtain data0 where e0: "encode_content sample_codec (to_content sample_start) = Inr data0"
    by (simp add: encode_content_def sample_codec_def codebook_def)
  obtain data where e1: "encode_content sample_codec (to_content sample_after) = Inr data"
    by (cases "serde_image (to_content sample_start) = serde_image (to_content sample_after)")
      (simp_all add: encode_content_def sample_codec_def codebook_def)
  obtain chunks where io: "postcard_to_io sample_codec (image_meta sample_start, data0) = (chunks, None)"
    by (simp add: sample_codec_def codebook_def)
  let ?d = "fst (write_snapshot_file sample_codec sample_disk (image_meta sample_start) data0)"
  have w: "write_snapshot_file sample_codec sample_disk (image_meta sample_start) data0 = (?d, None)"
    using snapshot_codec.file_written[OF C io, of sample_disk] by simp
  have "dk_fault sample_disk = None" by (simp add: sample_disk_def)
  note h = snapshot_codec.write_holds[OF C e0 w this]
  let ?ops = "take 4 (fst (write_ops sample_codec (image_meta sample_after) data))"
  have t: "list_all on_tmp ?ops" by (simp add: write_ops_eq body_ops_def split: prod.split option.split)
  have cr: "crash (foldl fs_step ?d ?ops) ?d"
    using tmp_ops_same_entry[OF t, of ?d] h(2) by (intro crash_stable) (simp_all add: same_entry_def disk_settled_def)
  have ty: "\<forall>x \<in> set [(sample_env, sample_entry)]. list_all request_typed (entry_requests (snd x))"
      "ob_sequence (orderbook sample_start) + (\<Sum>x\<leftarrow>[(sample_env, sample_entry)]. length (entry_requests (snd x))) \<le> 2 ^ 64 - 1"
    using sample_entry_ok(2) by (simp_all add: applicable_def)
  from crash_recovery[OF C exact_typed sample_reach_start r2 h(1,2) run refl ty e1[unfolded a] cr[unfolded a], of False 3]
  show ?thesis using h(1) e1 cr by blast
qed

section \<open>Paging through the event window\<close>

definition after_cursor :: "EventId option \<Rightarrow> MatchEvent \<Rightarrow> bool" where
  "after_cursor after e \<longleftrightarrow> (case after of None \<Rightarrow> True | Some cursor \<Rightarrow> cursor < me_event_id e)"

lemma since_loop_eq:
  "length acc \<le> limit \<Longrightarrow> since_loop after limit w acc =
     (acc @ take (limit - length acc) (filter (after_cursor after) w),
      limit - length acc < length (filter (after_cursor after) w))"
proof (induction w arbitrary: acc)
  case Nil
  then show ?case by simp
next
  case (Cons e w)
  have c: "(case after of None \<Rightarrow> False | Some cursor \<Rightarrow> me_event_id e \<le> cursor) = (\<not> after_cursor after e)"
    by (simp add: after_cursor_def not_less split: option.split)
  show ?case
  proof (cases "after_cursor after e \<and> length acc \<noteq> limit")
    case True
    then have "limit - length acc = Suc (limit - length (acc @ [e]))" using Cons.prems by auto
    then show ?thesis using True Cons.IH[of "acc @ [e]"] Cons.prems by (simp add: c)
  next
    case False
    then show ?thesis using Cons by (auto simp: c)
  qed
qed

lemma events_since_eq:
  "events_since s after limit =
     (let later = filter (after_cursor after) (sm_events s)
      in (take limit later,
          (case vec_last (take limit later) of None \<Rightarrow> after | Some e \<Rightarrow> Some (me_event_id e)),
          limit < length later))"
  by (simp add: events_since_def since_loop_eq Let_def)

text \<open>A reader that follows \<open>next_after\<close> while \<open>has_more\<close> is set, for at most \<open>k\<close> requests.\<close>

primrec follow_pages ::
  "nat \<Rightarrow> ('l, 'sm) StateMachineStoreInner \<Rightarrow> EventId option \<Rightarrow> nat \<Rightarrow> MatchEvent list option" where
  "follow_pages 0 s after limit = None"
| "follow_pages (Suc k) s after limit =
     (let (evs, next_after, has_more) = events_since s after limit
      in if has_more then map_option ((@) evs) (follow_pages k s next_after limit) else Some evs)"

lemma filter_later:
  assumes "sorted_wrt (<) (map me_event_id (xs @ e # ys))"
  shows "filter (after_cursor (Some (me_event_id e))) (xs @ e # ys) = ys"
  using assms by (auto simp: after_cursor_def sorted_wrt_append filter_empty_conv filter_id_conv dest!: less_imp_not_less)

lemma filter_cursor_drop:
  assumes s: "sorted_wrt (<) (map me_event_id w)" and f: "filter (after_cursor after) w = xs @ e # ys"
  shows "filter (after_cursor (Some (me_event_id e))) w = ys"
proof -
  have "e \<in> set (filter (after_cursor after) w)" unfolding f by simp
  then have "after_cursor after e" by simp
  then have "filter (after_cursor (Some (me_event_id e))) w =
      filter (after_cursor (Some (me_event_id e))) (filter (after_cursor after) w)"
    unfolding filter_filter by (intro filter_cong) (auto simp: after_cursor_def split: option.splits)
  moreover have "sorted_wrt (<) (map me_event_id (filter (after_cursor after) w))"
    using s by (induction w) auto
  ultimately show ?thesis using filter_later f by metis
qed

lemma follow_pages_eq:
  assumes s: "sorted_wrt (<) (map me_event_id (sm_events s))" and l: "0 < limit"
    and k: "length (filter (after_cursor after) (sm_events s)) < k"
  shows "follow_pages k s after limit = Some (filter (after_cursor after) (sm_events s))"
  using k
proof (induction k arbitrary: after)
  case 0
  then show ?case by simp
next
  case (Suc k)
  let ?f = "filter (after_cursor after) (sm_events s)"
  show ?case
  proof (cases "limit < length ?f")
    case False
    then show ?thesis by (simp add: events_since_eq Let_def)
  next
    case True
    let ?e = "?f ! (limit - 1)"
    have f: "?f = take (limit - 1) ?f @ ?e # drop limit ?f"
      using True l id_take_nth_drop[of "limit - 1" ?f] by simp
    have t: "take limit ?f = take (limit - 1) ?f @ [?e]"
      using True l take_Suc_conv_app_nth[of "limit - 1" ?f] by simp
    have next1: "filter (after_cursor (Some (me_event_id ?e))) (sm_events s) = drop limit ?f"
      by (rule filter_cursor_drop[OF s f])
    have v: "vec_last (take limit ?f) = Some ?e" unfolding t by (simp add: vec_last_def)
    have "follow_pages k s (Some (me_event_id ?e)) limit = Some (drop limit ?f)"
      using Suc.IH[of "Some (me_event_id ?e)"] Suc.prems True l unfolding next1 by simp
    then show ?thesis using True v by (simp add: events_since_eq Let_def)
  qed
qed

text \<open>
  C33: Paging through the event feed delivers everything and terminates.  A reader that starts at any
  cursor of a reachable node and keeps asking with the returned cursor while the answer says there is
  more receives, after at most one request per retained event plus one, every retained event after its
  cursor exactly once and in order, for every positive page size.
\<close>

theorem event_paging_complete:
  assumes "reach I raft C s" "i128_typed I" "0 < limit"
  shows "follow_pages (Suc (length (sm_events s))) s after limit =
    Some (filter (\<lambda>e. case after of None \<Rightarrow> True | Some cursor \<Rightarrow> cursor < me_event_id e) (sm_events s))"
proof -
  have "sorted_wrt (<) (map me_event_id (sm_events s))"
    using reach_node_inv[OF assms(1,2)] by (simp add: node_inv_def machine_inv_def)
  moreover have "length (filter (after_cursor after) (sm_events s)) < Suc (length (sm_events s))" by (simp add: le_imp_less_Suc)
  ultimately show ?thesis
    using follow_pages_eq[OF _ assms(3)] unfolding after_cursor_def by blast
qed

theorem event_paging_complete_witness:
  "\<exists>s. reach exact_i256 sample_raft (codebook [] []) s \<and> length (sm_events s) = 1
     \<and> follow_pages 2 s None 1 = Some (sm_events s)"
proof -
  obtain s' response out where ap: "apply_entry exact_i256 sample_raft sample_env sample_start sample_entry = Inr (s', response, out)"
    and f: "length (out_events out) = 1" "length (sm_events s') = 1"
    using sample_applied by metis
  have r: "reach exact_i256 sample_raft (codebook [] []) s'"
    using reach_entry[OF sample_reach_start ap sample_entry_ok] f by simp
  have "(0::nat) < 1" by simp
  from event_paging_complete[OF r exact_typed this, of None] r f show ?thesis
    by (intro exI[of _ s'] conjI) (simp_all add: numeral_2_eq_2)
qed

section \<open>Expiry on a rejected placement\<close>

lemma purged_orders:
  assumes "book_core b"
  shows "book_orders (fst (purged b o1)) = {m \<in> book_orders b. \<not> is_expired (o_tif m) (o_timestamp o1) None}"
proof -
  have ok: "bt_ok (bids b)" "bt_ok (asks b)" using core_bt_ok[OF assms] by auto
  have none: "{m \<in> book_orders b. \<not> is_expired (o_tif m) (o_timestamp o1) None} = book_orders b"
    if "expired_orders b (o_timestamp o1) None = []"
    using that by (auto simp: expired_orders_def filter_empty_conv book_orders_def bt_values_def)
  show ?thesis
  proof (cases "has_gtd_deadlines b")
    case False
    have "expired_orders b (o_timestamp o1) None = []"
      using purged_core(8)[OF assms, of o1] False by (simp add: purged_def)
    then show ?thesis using none False by (simp add: purged_def)
  next
    case True
    have "purge_due_gtd b (o_timestamp o1) = purge_expired (refresh_earliest_gtd b) (o_timestamp o1) None
      \<or> (purge_due_gtd b (o_timestamp o1) = (refresh_earliest_gtd b, []) \<and> expired_orders b (o_timestamp o1) None = [])"
      by (rule purge_due_cases[OF assms])
    then show ?thesis
    proof
      assume p: "purge_due_gtd b (o_timestamp o1) = purge_expired (refresh_earliest_gtd b) (o_timestamp o1) None"
      show ?thesis using True ok by (auto simp: purged_def p purge_expired_eq book_orders_def)
    next
      assume p: "purge_due_gtd b (o_timestamp o1) = (refresh_earliest_gtd b, []) \<and> expired_orders b (o_timestamp o1) None = []"
      then show ?thesis using True none by (simp add: purged_def book_orders_def)
    qed
  qed
qed

text \<open>
  A refused placement swallows expirations.  Its only event is its rejection; but when the order was
  refused by the book (an unfillable fill-or-kill, a crossing post-only or a stop that would trigger), the
  purge of overdue good-till-date orders has already run, so exactly the orders that are overdue at
  the timestamp of the refused order leave the book and no event tells of them.
\<close>

lemma rejected_place_swallows_expiry:
  assumes inv: "machine_inv s" and ok: "ob_sequence (orderbook s) < 2 ^ 64 - 1" "i128_typed I" "order_typed o1"
    and config: "configured_symbol_for s o1 = Inr config"
    and ex: "execute_order_with_symbol I (orderbook s) o1 config = Inr (b', o2, oc)" "oc_rejected oc = Some r"
    and ap: "apply_place I gate s o1 None i f out = Inr (s', response, n, out')"
  shows "out_events out' = out_events out @ [for_rejected i f o2 r]
    \<and> book_orders (orderbook s') = (if r \<in> {StopWouldTrigger, PostOnlyWouldCross, FokUnfillable}
        then {m \<in> book_orders (orderbook s). \<not> is_expired (o_tif m) (o_timestamp o2) None} else book_orders (orderbook s))"
proof -
  have b: "book_inv (orderbook s)" using inv by (simp add: machine_inv_def)
  have core: "book_core ((orderbook s)\<lparr>ob_sequence := ob_sequence (orderbook s) + 1\<rparr>)"
    using next_sequence_inv(1)[OF b ok(1)] by (simp add: book_inv_def)
  have e: "place_events i f o2 oc = [for_rejected i f o2 r]" using ex(2) by (simp add: place_events_def)
  obtain m where "apply_place I gate s o1 None i f out = Inr (drained (placed s b' o2 oc None i f), applied (o_sequence o2) (place_events i f o2 oc),
      length (place_events i f o2 oc), push_publish out (place_events i f o2 oc) m)"
    using apply_place_new[where cid = None and s = s and ?o1.0 = o1 and I = I and ?b1.0 = b' and ?o2.0 = o2 and oc = oc and gate = gate and i = i and f = f and out = out] config ex(1) by auto
  with ap have s': "s' = drained (placed s b' o2 oc None i f)" "out_events out' = out_events out @ [for_rejected i f o2 r]"
    by (auto simp: e)
  have "book_orders b' = (if r \<in> {StopWouldTrigger, PostOnlyWouldCross, FokUnfillable}
        then {m \<in> book_orders (orderbook s). \<not> is_expired (o_tif m) (o_timestamp o2) None} else book_orders (orderbook s))"
    using ex(1) ok
  proof (cases rule: submit_cases)
    case (refused q)
    then show ?thesis using ex(2) by (auto simp: book_orders_def)
  next
    case admitted
    from admitted(4) show ?thesis
    proof (cases rule: execute_admitted_cases)
      case taken
      from taken(4) have "oc_rejected oc = None"
        by (cases rule: execute_taker_outcome) (simp add: settle_remainder_def Outcome_default_def)
      then show ?thesis using ex(2) by simp
    qed (use ex(2) purged_orders[OF core, of o2] in \<open>auto simp: Outcome_default_def book_orders_def\<close>)
  qed
  moreover have "book_orders (orderbook s') = book_orders b'"
    by (simp add: s'(1) drained_def placed_def Let_def record_events_def trim_events_eq book_orders_def)
  ultimately show ?thesis using s'(2) by simp
qed

section \<open>A retry on a restored replica\<close>

definition batch_entry :: "(nat, unit) Entry" where
  "batch_entry = \<lparr>en_log_id = 1, en_payload = Normal (Batch
     [Place (Order_new Buy 90 1 0) (Some ''a''), Place (Order_new Buy 80 1 0) (Some ''b'')])\<rparr>"

definition echoed :: "panic + ('l, 'sm) StateMachineStoreInner \<times> MatchEngineResponse \<times> nat \<times> apply_out \<Rightarrow> u64 list" where
  "echoed r = (case r of Inl _ \<Rightarrow> [] | Inr (_, response, _, _) \<Rightarrow> map me_order_sequence (rs_events response))"

text \<open>
  The first ordinal of a submission is not part of the snapshot, so a replica restored from one answers
  the retry of a batched submission with the events of the whole batch, the original node with the
  events of that submission alone.
\<close>

lemma restored_retry_differs:
  "\<exists>s outs. apply_entries exact_i256 sample_raft sample_start [(sample_env, batch_entry)] = Inr (s, outs)
     \<and> echoed (apply_place exact_i256 True s (Order_new Buy 80 1 0) (Some ''b'') 2 0 \<lparr>out_publishes = [], out_resets = []\<rparr>) = [1]
     \<and> echoed (apply_place exact_i256 True (restored sample_start s) (Order_new Buy 80 1 0) (Some ''b'') 2 0
         \<lparr>out_publishes = [], out_resets = []\<rparr>) = [0, 1]"
  by (simp add: machine_eval book_eval sample_start_def batch_entry_def echoed_def duplicate_response_def duplicate_def
      submission_events_def sat_add_u32_def sat_u32_def restored_def install_content_def serde_image_def to_content_def
      strip_submission_def bt_values_def insert_order_def rebuild_derived_indexes_def event_of_stored_def stored_of_event_def
      less_BidKey_iff note_expiry_def)

end
