(* ===== verification/Wire_Format.thy ===== *)
theory Wire_Format
  imports Market_Types Byte_Strings
begin

text \<open>
  The binary market-data format of \<open>src/market_data/wire.rs\<close>: the encoder, the strict decoder over a
  byte cursor and its errors.  A function that appends to the output buffer is modelled by the bytes it
  appends; a decoder function takes the cursor and returns an error or a value and the moved cursor.
\<close>

section \<open>Codes and constants\<close>

definition WIRE_MAGIC :: bytes where
  "WIRE_MAGIC = [65, 77, 75, 84]"

definition WIRE_VERSION :: u8 where
  "WIRE_VERSION = 6"

definition WIRE_HEADER_LEN :: nat where
  "WIRE_HEADER_LEN = 64"

datatype MessageType = MT_Trade | MT_Bbo | MT_DepthSnapshot | MT_DepthDelta | MT_Lifecycle | MT_Status | MT_Gap | MT_Bar

primrec type_code :: "MessageType \<Rightarrow> u8" where
  "type_code MT_Trade = 1"
| "type_code MT_Bbo = 2"
| "type_code MT_DepthSnapshot = 3"
| "type_code MT_DepthDelta = 4"
| "type_code MT_Lifecycle = 5"
| "type_code MT_Status = 6"
| "type_code MT_Gap = 7"
| "type_code MT_Bar = 8"

primrec message_type :: "MessageBody \<Rightarrow> MessageType" where
  "message_type (MB_Trade _) = MT_Trade"
| "message_type (MB_Bbo _) = MT_Bbo"
| "message_type (MB_DepthSnapshot _) = MT_DepthSnapshot"
| "message_type (MB_DepthDelta _) = MT_DepthDelta"
| "message_type (MB_Lifecycle _) = MT_Lifecycle"
| "message_type (MB_Status _) = MT_Status"
| "message_type (MB_Gap _) = MT_Gap"
| "message_type (MB_Bar _) = MT_Bar"

primrec type_stream :: "MessageType \<Rightarrow> u16" where
  "type_stream MT_Trade = STREAM_TRADE"
| "type_stream MT_Bbo = STREAM_BBO"
| "type_stream MT_DepthSnapshot = STREAM_DEPTH_SNAPSHOT"
| "type_stream MT_DepthDelta = STREAM_DEPTH_DELTA"
| "type_stream MT_Lifecycle = STREAM_LIFECYCLE"
| "type_stream MT_Status = STREAM_STATUS"
| "type_stream MT_Gap = STREAM_STATUS"
| "type_stream MT_Bar = STREAM_BAR"

definition fee_asset_code :: "FeeAsset option \<Rightarrow> u8" where
  "fee_asset_code asset = (case asset of None \<Rightarrow> 0 | Some FA_Base \<Rightarrow> 1 | Some FA_Quote \<Rightarrow> 2)"

definition volume_unit_code :: "VolumeUnit \<Rightarrow> u8" where
  "volume_unit_code u = (case u of VU_Base \<Rightarrow> 0 | VU_Quote \<Rightarrow> 1)"

definition side_code :: "OrderSide \<Rightarrow> u8" where
  "side_code side = (case side of Buy \<Rightarrow> 0 | Sell \<Rightarrow> 1)"

definition kind_code :: "MatchEventKind \<Rightarrow> u8" where
  "kind_code kind = (case kind of Rested \<Rightarrow> 1 | Fill \<Rightarrow> 2 | Cancelled \<Rightarrow> 3 | Triggered \<Rightarrow> 4 | Expired \<Rightarrow> 5
     | Rejected \<Rightarrow> 6 | Amended \<Rightarrow> 7)"

definition reason_code :: "RejectReason option \<Rightarrow> u8" where
  "reason_code reason =
     (case reason of
        None \<Rightarrow> 0
      | Some FokUnfillable \<Rightarrow> 1
      | Some PostOnlyWouldCross \<Rightarrow> 2
      | Some StopWouldTrigger \<Rightarrow> 3
      | Some GtdAlreadyExpired \<Rightarrow> 4
      | Some OrderNotFound \<Rightarrow> 5
      | Some UnsupportedOrder \<Rightarrow> 6
      | Some AmendWouldCross \<Rightarrow> 7
      | Some InvalidOrder \<Rightarrow> 8)"

section \<open>The encoder\<close>

definition put_fixed :: "fixed \<Rightarrow> bytes" where
  "put_fixed x = i128_to_le_bytes x"

definition put_option_fixed :: "fixed option \<Rightarrow> bytes" where
  "put_option_fixed x = (case x of Some x \<Rightarrow> [1] @ put_fixed x | None \<Rightarrow> [0] @ put_fixed 0)"

definition encode_trade :: "TradeRecord \<Rightarrow> bytes" where
  "encode_trade r =
     to_le_bytes 8 (tr_log_index r) @ to_le_bytes 4 (tr_ordinal r) @ to_le_bytes 8 (tr_ts_ms r)
     @ put_fixed (tr_price r) @ put_fixed (tr_volume r) @ put_fixed (tr_quote_volume r)
     @ put_fixed (tr_taker_fee r) @ [fee_asset_code (tr_taker_fee_asset r)]
     @ put_fixed (tr_maker_fee r) @ [fee_asset_code (tr_maker_fee_asset r)]
     @ [unat (tr_error r)] @ [side_code (tr_taker_side r)]
     @ to_le_bytes 8 (tr_taker_sequence r) @ to_le_bytes 8 (tr_maker_sequence r)"

definition encode_level :: "OrderSide \<Rightarrow> fixed \<Rightarrow> fixed \<Rightarrow> u32 \<Rightarrow> bytes" where
  "encode_level side price volume n =
     [side_code side] @ put_fixed price @ put_fixed volume @ to_le_bytes 4 n"

definition encode_side_level :: "OrderSide \<Rightarrow> DepthLevel \<Rightarrow> bytes" where
  "encode_side_level side level = encode_level side (dl_price level) (dl_volume level) (dl_orders level)"

definition encode_depth_snapshot :: "DepthSnapshotRecord \<Rightarrow> bytes" where
  "encode_depth_snapshot s =
     to_le_bytes 4 (wrap_u32 (length (ds_bids s))) @ to_le_bytes 4 (wrap_u32 (length (ds_asks s)))
     @ concat (map (encode_side_level Buy) (ds_bids s)) @ concat (map (encode_side_level Sell) (ds_asks s))"

definition encode_update :: "LevelUpdate \<Rightarrow> bytes" where
  "encode_update u = encode_side_level (lu_side u) (lu_level u)"

definition encode_lifecycle :: "LifecycleRecord \<Rightarrow> bytes" where
  "encode_lifecycle r =
     to_le_bytes 8 (lr_log_index r) @ to_le_bytes 4 (lr_ordinal r) @ to_le_bytes 8 (lr_ts_ms r)
     @ [kind_code (lr_kind r)] @ to_le_bytes 8 (lr_order_sequence r) @ [side_code (lr_side r)]
     @ to_le_bytes 8 (case lr_counterparty_sequence r of None \<Rightarrow> 0 | Some c \<Rightarrow> c)
     @ put_fixed (lr_price r) @ put_fixed (lr_volume r) @ put_fixed (lr_quote_volume r)
     @ [volume_unit_code (lr_volume_unit r)]
     @ put_fixed (lr_taker_fee r) @ [fee_asset_code (lr_taker_fee_asset r)]
     @ put_fixed (lr_maker_fee r) @ [fee_asset_code (lr_maker_fee_asset r)]
     @ [unat (lr_error r)] @ [reason_code (lr_reason r)]"

definition encode_status :: "StatusRecord \<Rightarrow> bytes" where
  "encode_status s =
     to_le_bytes 8 (sr_last_market_seq s) @ to_le_bytes 2 (sr_last_sub_seq s) @ to_le_bytes 8 (sr_last_log_index s)
     @ to_le_bytes 4 (sr_last_ordinal s) @ to_le_bytes 8 (sr_applied_index s) @ to_le_bytes 8 (sr_book_sequence s)
     @ to_le_bytes 4 (sr_pending_stops s)"

definition encode_bar :: "BarRecord \<Rightarrow> bytes" where
  "encode_bar b =
     to_le_bytes 4 (wrap_u32 (br_interval_ms b)) @ to_le_bytes 8 (br_window_start_ms b) @ to_le_bytes 8 (br_last_ts_ms b)
     @ put_fixed (br_open b) @ put_fixed (br_high b) @ put_fixed (br_low b) @ put_fixed (br_close b)
     @ put_fixed (br_volume b) @ to_le_bytes 4 (br_trade_count b) @ to_le_bytes 8 (br_bar_seq b)"

definition encode_bbo :: "BboRecord \<Rightarrow> bytes" where
  "encode_bbo b =
     put_option_fixed (bb_last_trade b) @ put_fixed (bb_bid b) @ put_fixed (bb_bid_volume b) @ put_fixed (bb_ask b)
     @ put_fixed (bb_ask_volume b) @ put_option_fixed (bb_mid b) @ put_option_fixed (bb_spread b)"

definition encode_gap :: "GapRecord \<Rightarrow> bytes" where
  "encode_gap g = to_le_bytes 8 (gr_last_good_log_index g) @ to_le_bytes 4 (gr_last_good_ordinal g)
     @ to_le_bytes 4 (gr_dropped g)"

definition encode_list :: "('a \<Rightarrow> bytes) \<Rightarrow> 'a list \<Rightarrow> bytes" where
  "encode_list enc xs = to_le_bytes 4 (wrap_u32 (length xs)) @ concat (map enc xs)"

primrec encode_body :: "MessageBody \<Rightarrow> bytes" where
  "encode_body (MB_Trade records) = encode_list encode_trade records"
| "encode_body (MB_Bbo bbo) = encode_bbo bbo"
| "encode_body (MB_DepthSnapshot snapshot) = encode_depth_snapshot snapshot"
| "encode_body (MB_DepthDelta updates) = encode_list encode_update updates"
| "encode_body (MB_Lifecycle records) = encode_list encode_lifecycle records"
| "encode_body (MB_Status status) = encode_status status"
| "encode_body (MB_Gap gap) = encode_gap gap"
| "encode_body (MB_Bar bar) = encode_bar bar"

definition encode :: "MarketMessage \<Rightarrow> bytes" where
  "encode m =
     (let body = encode_body (mm_body m)
      in WIRE_MAGIC @ [WIRE_VERSION] @ [type_code (message_type (mm_body m))]
         @ to_le_bytes 2 (mm_flags m) @ to_le_bytes 8 (mm_market_seq m) @ to_le_bytes 8 (mm_log_index m)
         @ to_le_bytes 4 (mm_ordinal m) @ to_le_bytes 4 (wrap_u32 (length body)) @ to_le_bytes 8 (mm_epoch m)
         @ to_le_bytes 8 (mm_leader_id m) @ to_le_bytes 8 (mm_ts_ms m) @ to_le_bytes 4 (mm_symbol_id m)
         @ to_le_bytes 2 (mm_sub_seq m) @ to_le_bytes 2 0 @ body)"

section \<open>The decoder\<close>

datatype WireError =
    TooShort nat nat
  | BadMagic bytes
  | UnsupportedVersion u8
  | UnknownMessageType u8
  | BodyLengthMismatch u32 nat
  | TrailingBytes nat
  | Truncated string
  | InvalidCode string u8
  | CountTooLarge string nat nat

definition TRADE_RECORD_LEN :: nat where "TRADE_RECORD_LEN = 120"
definition LIFECYCLE_RECORD_LEN :: nat where "LIFECYCLE_RECORD_LEN = 123"
definition DEPTH_LEVEL_LEN :: nat where "DEPTH_LEVEL_LEN = 37"

record Decoder =
  dc_bytes :: bytes
  dc_offset :: nat

type_synonym 'a reader = "Decoder \<Rightarrow> WireError + 'a \<times> Decoder"

text \<open>The \<open>?\<close> operator: sequencing of fallible reads.\<close>

definition rbind :: "'a reader \<Rightarrow> ('a \<Rightarrow> 'b reader) \<Rightarrow> 'b reader" where
  "rbind r f d = (case r d of Inl e \<Rightarrow> Inl e | Inr (x, d) \<Rightarrow> f x d)"

definition rreturn :: "'a \<Rightarrow> 'a reader" where
  "rreturn x d = Inr (x, d)"

definition rlift :: "WireError + 'a \<Rightarrow> 'a reader" where
  "rlift r d = (case r of Inl e \<Rightarrow> Inl e | Inr x \<Rightarrow> Inr (x, d))"

definition Decoder_new :: "bytes \<Rightarrow> Decoder" where
  "Decoder_new bs = \<lparr>dc_bytes = bs, dc_offset = 0\<rparr>"

definition remaining :: "Decoder \<Rightarrow> nat" where
  "remaining d = length (dc_bytes d) - dc_offset d"

definition take_bytes :: "nat \<Rightarrow> string \<Rightarrow> bytes reader" where
  "take_bytes n field d =
     (if 2 ^ 64 \<le> dc_offset d + n then Inl (Truncated field)
      else if length (dc_bytes d) < dc_offset d + n then Inl (Truncated field)
      else Inr (take n (drop (dc_offset d) (dc_bytes d)), d\<lparr>dc_offset := dc_offset d + n\<rparr>))"

definition read_u8 :: "string \<Rightarrow> u8 reader" where
  "read_u8 field = rbind (take_bytes 1 field) (\<lambda>bs. rreturn (hd bs))"

definition read_u16 :: "string \<Rightarrow> u16 reader" where
  "read_u16 field = rbind (take_bytes 2 field) (\<lambda>bs. rreturn (from_le_bytes bs))"

definition read_u32 :: "string \<Rightarrow> u32 reader" where
  "read_u32 field = rbind (take_bytes 4 field) (\<lambda>bs. rreturn (from_le_bytes bs))"

definition read_u64 :: "string \<Rightarrow> u64 reader" where
  "read_u64 field = rbind (take_bytes 8 field) (\<lambda>bs. rreturn (from_le_bytes bs))"

definition read_i128 :: "string \<Rightarrow> int reader" where
  "read_i128 field = rbind (take_bytes 16 field) (\<lambda>bs. rreturn (i128_from_le_bytes bs))"

definition read_fixed :: "string \<Rightarrow> fixed reader" where
  "read_fixed field = rbind (read_i128 field) (\<lambda>raw. rreturn (from_raw raw))"

definition read_count :: "string \<Rightarrow> nat \<Rightarrow> nat reader" where
  "read_count field record_len =
     rbind (read_u32 field) (\<lambda>count d.
       if remaining d div record_len < count
       then Inl (CountTooLarge field count (remaining d))
       else Inr (count, d))"

definition decode_type :: "u8 \<Rightarrow> WireError + MessageType" where
  "decode_type code =
     (if code = 1 then Inr MT_Trade else if code = 2 then Inr MT_Bbo else if code = 3 then Inr MT_DepthSnapshot
      else if code = 4 then Inr MT_DepthDelta else if code = 5 then Inr MT_Lifecycle else if code = 6 then Inr MT_Status
      else if code = 7 then Inr MT_Gap else if code = 8 then Inr MT_Bar else Inl (UnknownMessageType code))"

definition decode_fee_asset :: "string \<Rightarrow> u8 \<Rightarrow> WireError + FeeAsset option" where
  "decode_fee_asset field code =
     (if code = 0 then Inr None else if code = 1 then Inr (Some FA_Base) else if code = 2 then Inr (Some FA_Quote)
      else Inl (InvalidCode field code))"

definition decode_volume_unit :: "string \<Rightarrow> u8 \<Rightarrow> WireError + VolumeUnit" where
  "decode_volume_unit field code =
     (if code = 0 then Inr VU_Base else if code = 1 then Inr VU_Quote else Inl (InvalidCode field code))"

definition decode_side :: "string \<Rightarrow> u8 \<Rightarrow> WireError + OrderSide" where
  "decode_side field code =
     (if code = 0 then Inr Buy else if code = 1 then Inr Sell else Inl (InvalidCode field code))"

definition decode_kind :: "u8 \<Rightarrow> WireError + MatchEventKind" where
  "decode_kind code =
     (if code = 1 then Inr Rested else if code = 2 then Inr Fill else if code = 3 then Inr Cancelled
      else if code = 4 then Inr Triggered else if code = 5 then Inr Expired else if code = 6 then Inr Rejected
      else if code = 7 then Inr Amended else Inl (InvalidCode ''lifecycle.kind'' code))"

definition decode_reason :: "u8 \<Rightarrow> WireError + RejectReason option" where
  "decode_reason code =
     (if code = 0 then Inr None else if code = 1 then Inr (Some FokUnfillable)
      else if code = 2 then Inr (Some PostOnlyWouldCross) else if code = 3 then Inr (Some StopWouldTrigger)
      else if code = 4 then Inr (Some GtdAlreadyExpired) else if code = 5 then Inr (Some OrderNotFound)
      else if code = 6 then Inr (Some UnsupportedOrder) else if code = 7 then Inr (Some AmendWouldCross)
      else if code = 8 then Inr (Some InvalidOrder) else Inl (InvalidCode ''lifecycle.reason'' code))"

definition decode_errors :: "string \<Rightarrow> u8 \<Rightarrow> WireError + MatchErrors" where
  "decode_errors field code =
     (case errors_from_bits (of_nat code) of None \<Rightarrow> Inl (InvalidCode field code) | Some e \<Rightarrow> Inr e)"

definition decode_option_fixed :: "string \<Rightarrow> fixed option reader" where
  "decode_option_fixed field =
     rbind (read_u8 field) (\<lambda>code.
       if code = 0 then rbind (take_bytes 16 field) (\<lambda>_. rreturn None)
       else if code = 1 then rbind (read_fixed field) (\<lambda>x. rreturn (Some x))
       else rlift (Inl (InvalidCode field code)))"

definition decode_trade :: "TradeRecord reader" where
  "decode_trade =
     rbind (read_u64 ''trade.log_index'') (\<lambda>log_index.
     rbind (read_u32 ''trade.ordinal'') (\<lambda>ordinal.
     rbind (read_u64 ''trade.ts_ms'') (\<lambda>ts_ms.
     rbind (read_fixed ''trade.price'') (\<lambda>price.
     rbind (read_fixed ''trade.volume'') (\<lambda>volume.
     rbind (read_fixed ''trade.quote_volume'') (\<lambda>quote_volume.
     rbind (read_fixed ''trade.taker_fee'') (\<lambda>taker_fee.
     rbind (rbind (read_u8 ''trade.taker_fee_asset'') (\<lambda>c. rlift (decode_fee_asset ''trade.taker_fee_asset'' c))) (\<lambda>taker_fee_asset.
     rbind (read_fixed ''trade.maker_fee'') (\<lambda>maker_fee.
     rbind (rbind (read_u8 ''trade.maker_fee_asset'') (\<lambda>c. rlift (decode_fee_asset ''trade.maker_fee_asset'' c))) (\<lambda>maker_fee_asset.
     rbind (rbind (read_u8 ''trade.error'') (\<lambda>c. rlift (decode_errors ''trade.error'' c))) (\<lambda>err.
     rbind (rbind (read_u8 ''trade.taker_side'') (\<lambda>c. rlift (decode_side ''trade.taker_side'' c))) (\<lambda>taker_side.
     rbind (read_u64 ''trade.taker_sequence'') (\<lambda>taker_sequence.
     rbind (read_u64 ''trade.maker_sequence'') (\<lambda>maker_sequence.
     rreturn \<lparr>tr_log_index = log_index, tr_ordinal = ordinal, tr_ts_ms = ts_ms, tr_price = price, tr_volume = volume,
       tr_quote_volume = quote_volume, tr_taker_fee = taker_fee, tr_taker_fee_asset = taker_fee_asset,
       tr_maker_fee = maker_fee, tr_maker_fee_asset = maker_fee_asset, tr_error = err, tr_taker_side = taker_side,
       tr_taker_sequence = taker_sequence, tr_maker_sequence = maker_sequence\<rparr>))))))))))))))"

definition decode_level :: "string \<Rightarrow> (OrderSide \<times> DepthLevel) reader" where
  "decode_level field =
     rbind (rbind (read_u8 field) (\<lambda>c. rlift (decode_side field c))) (\<lambda>side.
     rbind (read_fixed field) (\<lambda>price.
     rbind (read_fixed field) (\<lambda>volume.
     rbind (read_u32 field) (\<lambda>n.
     rreturn (side, \<lparr>dl_price = price, dl_volume = volume, dl_orders = n\<rparr>)))))"

definition decode_update :: "LevelUpdate reader" where
  "decode_update = rbind (decode_level ''depth delta'') (\<lambda>(side, level). rreturn \<lparr>lu_side = side, lu_level = level\<rparr>)"

definition decode_bid :: "DepthLevel reader" where
  "decode_bid = rbind (decode_level ''depth.bid'') (\<lambda>(_, level). rreturn level)"

definition decode_ask :: "DepthLevel reader" where
  "decode_ask = rbind (decode_level ''depth.ask'') (\<lambda>(_, level). rreturn level)"

definition decode_lifecycle :: "LifecycleRecord reader" where
  "decode_lifecycle =
     rbind (read_u64 ''lifecycle.log_index'') (\<lambda>log_index.
     rbind (read_u32 ''lifecycle.ordinal'') (\<lambda>ordinal.
     rbind (read_u64 ''lifecycle.ts_ms'') (\<lambda>ts_ms.
     rbind (rbind (read_u8 ''lifecycle.kind'') (\<lambda>c. rlift (decode_kind c))) (\<lambda>kind.
     rbind (read_u64 ''lifecycle.order_sequence'') (\<lambda>order_sequence.
     rbind (rbind (read_u8 ''lifecycle.side'') (\<lambda>c. rlift (decode_side ''lifecycle.side'' c))) (\<lambda>side.
     rbind (read_u64 ''lifecycle.counterparty_sequence'') (\<lambda>counterparty.
     rbind (read_fixed ''lifecycle.price'') (\<lambda>price.
     rbind (read_fixed ''lifecycle.volume'') (\<lambda>volume.
     rbind (read_fixed ''lifecycle.quote_volume'') (\<lambda>quote_volume.
     rbind (rbind (read_u8 ''lifecycle.volume_unit'') (\<lambda>c. rlift (decode_volume_unit ''lifecycle.volume_unit'' c))) (\<lambda>volume_unit.
     rbind (read_fixed ''lifecycle.taker_fee'') (\<lambda>taker_fee.
     rbind (rbind (read_u8 ''lifecycle.taker_fee_asset'') (\<lambda>c. rlift (decode_fee_asset ''lifecycle.taker_fee_asset'' c))) (\<lambda>taker_fee_asset.
     rbind (read_fixed ''lifecycle.maker_fee'') (\<lambda>maker_fee.
     rbind (rbind (read_u8 ''lifecycle.maker_fee_asset'') (\<lambda>c. rlift (decode_fee_asset ''lifecycle.maker_fee_asset'' c))) (\<lambda>maker_fee_asset.
     rbind (rbind (read_u8 ''lifecycle.error'') (\<lambda>c. rlift (decode_errors ''lifecycle.error'' c))) (\<lambda>err.
     rbind (rbind (read_u8 ''lifecycle.reason'') (\<lambda>c. rlift (decode_reason c))) (\<lambda>reason.
     rreturn \<lparr>lr_log_index = log_index, lr_ordinal = ordinal, lr_ts_ms = ts_ms, lr_kind = kind,
       lr_order_sequence = order_sequence, lr_side = side,
       lr_counterparty_sequence = (if counterparty \<noteq> 0 then Some counterparty else None),
       lr_price = price, lr_volume = volume, lr_quote_volume = quote_volume, lr_volume_unit = volume_unit,
       lr_taker_fee = taker_fee, lr_taker_fee_asset = taker_fee_asset,
       lr_maker_fee = maker_fee, lr_maker_fee_asset = maker_fee_asset, lr_error = err, lr_reason = reason\<rparr>)))))))))))))))))"

definition decode_status :: "StatusRecord reader" where
  "decode_status =
     rbind (read_u64 ''status.last_market_seq'') (\<lambda>last_market_seq.
     rbind (read_u16 ''status.last_sub_seq'') (\<lambda>last_sub_seq.
     rbind (read_u64 ''status.last_log_index'') (\<lambda>last_log_index.
     rbind (read_u32 ''status.last_ordinal'') (\<lambda>last_ordinal.
     rbind (read_u64 ''status.applied_index'') (\<lambda>applied_index.
     rbind (read_u64 ''status.book_sequence'') (\<lambda>book_sequence.
     rbind (read_u32 ''status.pending_stops'') (\<lambda>pending_stops.
     rreturn \<lparr>sr_last_log_index = last_log_index, sr_last_ordinal = last_ordinal, sr_last_market_seq = last_market_seq,
       sr_last_sub_seq = last_sub_seq, sr_applied_index = applied_index, sr_book_sequence = book_sequence,
       sr_pending_stops = pending_stops\<rparr>)))))))"

definition decode_gap :: "GapRecord reader" where
  "decode_gap =
     rbind (read_u64 ''gap.last_good_log_index'') (\<lambda>last_good_log_index.
     rbind (read_u32 ''gap.last_good_ordinal'') (\<lambda>last_good_ordinal.
     rbind (read_u32 ''gap.dropped'') (\<lambda>dropped.
     rreturn \<lparr>gr_last_good_log_index = last_good_log_index, gr_last_good_ordinal = last_good_ordinal,
       gr_dropped = dropped\<rparr>)))"

definition decode_bar :: "BarRecord reader" where
  "decode_bar =
     rbind (read_u32 ''bar.interval_ms'') (\<lambda>interval_ms.
     rbind (read_u64 ''bar.window_start_ms'') (\<lambda>window_start_ms.
     rbind (read_u64 ''bar.last_ts_ms'') (\<lambda>last_ts_ms.
     rbind (read_fixed ''bar.open'') (\<lambda>bar_open.
     rbind (read_fixed ''bar.high'') (\<lambda>high.
     rbind (read_fixed ''bar.low'') (\<lambda>low.
     rbind (read_fixed ''bar.close'') (\<lambda>bar_close.
     rbind (read_fixed ''bar.volume'') (\<lambda>volume.
     rbind (read_u32 ''bar.trade_count'') (\<lambda>trade_count.
     rbind (read_u64 ''bar.bar_seq'') (\<lambda>bar_seq.
     rreturn \<lparr>br_interval_ms = interval_ms, br_window_start_ms = window_start_ms, br_last_ts_ms = last_ts_ms,
       br_open = bar_open, br_high = high, br_low = low, br_close = bar_close, br_volume = volume,
       br_trade_count = trade_count, br_bar_seq = bar_seq\<rparr>))))))))))"

definition decode_bbo :: "BboRecord reader" where
  "decode_bbo =
     rbind (decode_option_fixed ''bbo.last_trade'') (\<lambda>last_trade.
     rbind (read_fixed ''bbo.bid'') (\<lambda>bid.
     rbind (read_fixed ''bbo.bid_volume'') (\<lambda>bid_volume.
     rbind (read_fixed ''bbo.ask'') (\<lambda>ask.
     rbind (read_fixed ''bbo.ask_volume'') (\<lambda>ask_volume.
     rbind (decode_option_fixed ''bbo.mid'') (\<lambda>mid.
     rbind (decode_option_fixed ''bbo.spread'') (\<lambda>spr.
     rreturn \<lparr>bb_last_trade = last_trade, bb_bid = bid, bb_bid_volume = bid_volume, bb_ask = ask,
       bb_ask_volume = ask_volume, bb_mid = mid, bb_spread = spr\<rparr>)))))))"

primrec read_times :: "nat \<Rightarrow> 'a reader \<Rightarrow> 'a list reader" where
  "read_times 0 r = rreturn []"
| "read_times (Suc n) r = rbind r (\<lambda>x. rbind (read_times n r) (\<lambda>xs. rreturn (x # xs)))"

definition decode_list :: "string \<Rightarrow> nat \<Rightarrow> 'a reader \<Rightarrow> 'a list reader" where
  "decode_list field record_len r = rbind (read_count field record_len) (\<lambda>count. read_times count r)"

definition decode_depth_snapshot :: "DepthSnapshotRecord reader" where
  "decode_depth_snapshot =
     rbind (read_u32 ''depth.bids'') (\<lambda>bid_count.
     rbind (read_u32 ''depth.asks'') (\<lambda>ask_count d.
       if 2 ^ 64 \<le> bid_count + ask_count
       then Inl (CountTooLarge ''depth levels'' (2 ^ 64 - 1) (remaining d))
       else if remaining d div DEPTH_LEVEL_LEN < bid_count + ask_count
       then Inl (CountTooLarge ''depth levels'' (bid_count + ask_count) (remaining d))
       else rbind (read_times bid_count decode_bid) (\<lambda>bid_levels.
            rbind (read_times ask_count decode_ask) (\<lambda>ask_levels.
            rreturn \<lparr>ds_bids = bid_levels, ds_asks = ask_levels\<rparr>)) d))"

primrec decode_body :: "MessageType \<Rightarrow> MessageBody reader" where
  "decode_body MT_Trade = rbind (decode_list ''trade count'' TRADE_RECORD_LEN decode_trade) (\<lambda>x. rreturn (MB_Trade x))"
| "decode_body MT_Bbo = rbind decode_bbo (\<lambda>x. rreturn (MB_Bbo x))"
| "decode_body MT_DepthSnapshot = rbind decode_depth_snapshot (\<lambda>x. rreturn (MB_DepthSnapshot x))"
| "decode_body MT_DepthDelta = rbind (decode_list ''depth delta count'' DEPTH_LEVEL_LEN decode_update) (\<lambda>x. rreturn (MB_DepthDelta x))"
| "decode_body MT_Lifecycle = rbind (decode_list ''lifecycle count'' LIFECYCLE_RECORD_LEN decode_lifecycle) (\<lambda>x. rreturn (MB_Lifecycle x))"
| "decode_body MT_Status = rbind decode_status (\<lambda>x. rreturn (MB_Status x))"
| "decode_body MT_Gap = rbind decode_gap (\<lambda>x. rreturn (MB_Gap x))"
| "decode_body MT_Bar = rbind decode_bar (\<lambda>x. rreturn (MB_Bar x))"

definition decode_frame :: "nat \<Rightarrow> MarketMessage reader" where
  "decode_frame len =
     rbind (take_bytes 4 ''magic'') (\<lambda>magic.
     if magic \<noteq> WIRE_MAGIC then rlift (Inl (BadMagic magic)) else
     rbind (read_u8 ''version'') (\<lambda>version.
     if version \<noteq> WIRE_VERSION then rlift (Inl (UnsupportedVersion version)) else
     rbind (rbind (read_u8 ''message type'') (\<lambda>c. rlift (decode_type c))) (\<lambda>kind.
     rbind (read_u16 ''flags'') (\<lambda>flags.
     rbind (read_u64 ''market_seq'') (\<lambda>market_seq.
     rbind (read_u64 ''log_index'') (\<lambda>log_index.
     rbind (read_u32 ''ordinal'') (\<lambda>ordinal.
     rbind (read_u32 ''body length'') (\<lambda>body_len.
     rbind (read_u64 ''epoch'') (\<lambda>epoch.
     rbind (read_u64 ''leader_id'') (\<lambda>leader_id.
     rbind (read_u64 ''ts_ms'') (\<lambda>ts_ms.
     rbind (read_u32 ''symbol_id'') (\<lambda>symbol_id.
     rbind (read_u16 ''sub_seq'') (\<lambda>sub_seq.
     rbind (read_u16 ''reserved'') (\<lambda>reserved.
     if body_len \<noteq> len - WIRE_HEADER_LEN then rlift (Inl (BodyLengthMismatch body_len (len - WIRE_HEADER_LEN))) else
     rbind (decode_body kind) (\<lambda>body d.
       if remaining d \<noteq> 0 then Inl (TrailingBytes (remaining d))
       else Inr (\<lparr>mm_stream = type_stream kind, mm_flags = flags, mm_market_seq = market_seq, mm_sub_seq = sub_seq,
              mm_log_index = log_index, mm_ordinal = ordinal, mm_epoch = epoch, mm_leader_id = leader_id,
              mm_ts_ms = ts_ms, mm_symbol_id = symbol_id, mm_body = body\<rparr>, d))))))))))))))))"

definition decode :: "bytes \<Rightarrow> WireError + MarketMessage" where
  "decode bs =
     (if length bs < WIRE_HEADER_LEN then Inl (TooShort (length bs) WIRE_HEADER_LEN)
      else (case decode_frame (length bs) (Decoder_new bs) of Inl e \<Rightarrow> Inl e | Inr (m, _) \<Rightarrow> Inr m))"

end
