(* ===== verification/Wire_Library.thy ===== *)
theory Wire_Library
  imports Wire_Format
begin

text \<open>
  Library of the wire format: what a reader gives on the bytes of an encoder, what a reader can give at
  all, and the contract of a fixed-size record, from which the two facts follow for lists of records.
\<close>

section \<open>Reading what was written\<close>

definition reads :: "'a reader \<Rightarrow> bytes \<Rightarrow> 'a \<Rightarrow> bool" where
  "reads r bs x \<longleftrightarrow> (\<forall>pre post. length (pre @ bs @ post) < 2 ^ 64 \<longrightarrow>
     r \<lparr>dc_bytes = pre @ bs @ post, dc_offset = length pre\<rparr>
     = Inr (x, \<lparr>dc_bytes = pre @ bs @ post, dc_offset = length (pre @ bs)\<rparr>))"

lemma readsI:
  assumes "\<And>pre post. length (pre @ bs @ post) < 2 ^ 64 \<Longrightarrow> r \<lparr>dc_bytes = pre @ bs @ post, dc_offset = length pre\<rparr>
     = Inr (x, \<lparr>dc_bytes = pre @ bs @ post, dc_offset = length (pre @ bs)\<rparr>)"
  shows "reads r bs x"
  using assms by (simp add: reads_def)

lemma readsD:
  assumes "reads r bs x" "length (pre @ bs @ post) < 2 ^ 64"
  shows "r \<lparr>dc_bytes = pre @ bs @ post, dc_offset = length pre\<rparr>
     = Inr (x, \<lparr>dc_bytes = pre @ bs @ post, dc_offset = length (pre @ bs)\<rparr>)"
  using assms by (simp add: reads_def)

lemma reads_bind:
  assumes "reads r bs x" "reads (f x) cs y"
  shows "reads (rbind r f) (bs @ cs) y"
proof (rule readsI)
  fix pre post :: bytes
  assume l: "length (pre @ (bs @ cs) @ post) < 2 ^ 64"
  have "r \<lparr>dc_bytes = pre @ bs @ (cs @ post), dc_offset = length pre\<rparr>
      = Inr (x, \<lparr>dc_bytes = pre @ bs @ (cs @ post), dc_offset = length (pre @ bs)\<rparr>)"
    by (rule readsD[OF assms(1)]) (use l in simp)
  moreover have "f x \<lparr>dc_bytes = (pre @ bs) @ cs @ post, dc_offset = length (pre @ bs)\<rparr>
      = Inr (y, \<lparr>dc_bytes = (pre @ bs) @ cs @ post, dc_offset = length ((pre @ bs) @ cs)\<rparr>)"
    by (rule readsD[OF assms(2)]) (use l in simp)
  ultimately show "rbind r f \<lparr>dc_bytes = pre @ (bs @ cs) @ post, dc_offset = length pre\<rparr>
      = Inr (y, \<lparr>dc_bytes = pre @ (bs @ cs) @ post, dc_offset = length (pre @ bs @ cs)\<rparr>)"
    by (simp add: rbind_def)
qed

lemma reads_return: "x = y \<Longrightarrow> reads (rreturn x) [] y"
  by (rule readsI) (simp add: rreturn_def)

lemma reads_bind1: "reads r bs x \<Longrightarrow> reads (f x) [] y \<Longrightarrow> reads (rbind r f) bs y"
  using reads_bind[of r bs x f "[]" y] by simp

lemma reads_take: "length bs = n \<Longrightarrow> reads (take_bytes n field) bs bs"
  by (rule readsI) (auto simp: take_bytes_def)

lemma reads_u8: "reads (read_u8 field) [x] x"
  unfolding read_u8_def by (rule reads_bind1[OF reads_take]) (simp_all add: reads_return)

lemma reads_le:
  assumes "n < 256 ^ k"
  shows "reads (rbind (take_bytes k field) (\<lambda>bs. rreturn (from_le_bytes bs))) (to_le_bytes k n) n"
  by (rule reads_bind1[OF reads_take]) (simp_all add: reads_return from_to_le_bytes[OF assms])

lemma reads_u16: "n < 2 ^ 16 \<Longrightarrow> reads (read_u16 field) (to_le_bytes 2 n) n"
  unfolding read_u16_def by (rule reads_le) simp

lemma reads_u32: "n < 2 ^ 32 \<Longrightarrow> reads (read_u32 field) (to_le_bytes 4 n) n"
  unfolding read_u32_def by (rule reads_le) simp

lemma reads_u64: "n < 2 ^ 64 \<Longrightarrow> reads (read_u64 field) (to_le_bytes 8 n) n"
  unfolding read_u64_def by (rule reads_le) simp

lemma reads_fixed:
  assumes "in_i128 x"
  shows "reads (read_fixed field) (put_fixed x) x"
  unfolding read_fixed_def read_i128_def put_fixed_def
  by (rule reads_bind1[OF reads_bind1[OF reads_take reads_return[OF refl]]])
    (simp_all add: reads_return i128_from_to[OF assms] from_raw_def)

lemma reads_lift: "dec c = Inr x \<Longrightarrow> reads (rbind (read_u8 field) (\<lambda>c. rlift (dec c))) [c] x"
  by (rule reads_bind1[OF reads_u8]) (rule readsI, simp add: rlift_def)

lemma reads_option_fixed:
  assumes "\<And>y. x = Some y \<Longrightarrow> in_i128 y"
  shows "reads (decode_option_fixed field) (put_option_fixed x) x"
proof (cases x)
  case None
  have "reads (decode_option_fixed field) ([0] @ put_fixed 0) None"
    unfolding decode_option_fixed_def
    by (rule reads_bind[OF reads_u8]) (simp add: reads_bind1[OF reads_take] reads_return put_fixed_def)
  then show ?thesis using None by (simp add: put_option_fixed_def)
next
  case (Some y)
  have "reads (decode_option_fixed field) ([1] @ put_fixed y) (Some y)"
    unfolding decode_option_fixed_def
    by (rule reads_bind[OF reads_u8]) (simp add: reads_bind1[OF reads_fixed[OF assms[OF Some]]] reads_return)
  then show ?thesis using Some by (simp add: put_option_fixed_def)
qed

lemma fee_asset_inverse: "decode_fee_asset field (fee_asset_code a) = Inr a"
  by (cases a) (simp_all add: decode_fee_asset_def fee_asset_code_def split: FeeAsset.split)

lemma side_inverse: "decode_side field (side_code s) = Inr s"
  by (cases s) (simp_all add: decode_side_def side_code_def)

lemma volume_unit_inverse: "decode_volume_unit field (volume_unit_code u) = Inr u"
  by (cases u) (simp_all add: decode_volume_unit_def volume_unit_code_def)

lemma kind_inverse: "decode_kind (kind_code k) = Inr k"
  by (cases k) (simp_all add: decode_kind_def kind_code_def)

lemma reason_inverse: "decode_reason (reason_code r) = Inr r"
  by (cases r) (simp_all add: decode_reason_def reason_code_def split: RejectReason.split)

lemma type_inverse: "decode_type (type_code t) = Inr t"
  by (cases t) (simp_all add: decode_type_def)

lemmas codes_inverse = fee_asset_inverse side_inverse volume_unit_inverse kind_inverse reason_inverse type_inverse

lemma errors_inverse: "errors_from_bits e = Some e \<Longrightarrow> decode_errors field (unat e) = Inr e"
  by (simp add: decode_errors_def)

lemmas reads_intros = reads_bind reads_return reads_u16 reads_u32 reads_u64 reads_fixed reads_lift reads_option_fixed
  reads_take reads_u8

section \<open>What a reader can give\<close>

text \<open>\<open>yields r P\<close>: whatever \<open>r\<close> returns on proper bytes satisfies \<open>P\<close> together with the number of bytes consumed.\<close>

definition yields :: "'a reader \<Rightarrow> ('a \<Rightarrow> nat \<Rightarrow> bool) \<Rightarrow> bool" where
  "yields r P \<longleftrightarrow> (\<forall>d x d'. bytes_ok (dc_bytes d) \<longrightarrow> dc_offset d \<le> length (dc_bytes d) \<longrightarrow> r d = Inr (x, d') \<longrightarrow>
     dc_bytes d' = dc_bytes d \<and> dc_offset d \<le> dc_offset d' \<and> dc_offset d' \<le> length (dc_bytes d)
     \<and> P x (dc_offset d' - dc_offset d))"

lemma yieldsI:
  assumes "\<And>d x d'. bytes_ok (dc_bytes d) \<Longrightarrow> dc_offset d \<le> length (dc_bytes d) \<Longrightarrow> r d = Inr (x, d') \<Longrightarrow>
     dc_bytes d' = dc_bytes d \<and> dc_offset d \<le> dc_offset d' \<and> dc_offset d' \<le> length (dc_bytes d)
     \<and> P x (dc_offset d' - dc_offset d)"
  shows "yields r P"
  unfolding yields_def using assms by blast

lemma yieldsD:
  assumes "yields r P" "r d = Inr (x, d')" "bytes_ok (dc_bytes d)" "dc_offset d \<le> length (dc_bytes d)"
  shows "dc_bytes d' = dc_bytes d" "dc_offset d \<le> dc_offset d'" "dc_offset d' \<le> length (dc_bytes d)"
    "P x (dc_offset d' - dc_offset d)"
  using assms unfolding yields_def by blast+

lemma yields_bind:
  assumes r: "yields r P" and f: "\<And>x k. P x k \<Longrightarrow> yields (f x) (\<lambda>y l. Q y (k + l))"
  shows "yields (rbind r f) Q"
proof (rule yieldsI)
  fix d y d2
  assume d: "bytes_ok (dc_bytes d)" "dc_offset d \<le> length (dc_bytes d)" and run: "rbind r f d = Inr (y, d2)"
  then obtain x d1 where 1: "r d = Inr (x, d1)" and 2: "f x d1 = Inr (y, d2)"
    by (auto simp: rbind_def split: sum.splits)
  note a = yieldsD[OF r 1 d]
  have "bytes_ok (dc_bytes d1)" "dc_offset d1 \<le> length (dc_bytes d1)" using a(1,3) d by simp_all
  note b = yieldsD[OF f[OF a(4)] 2 this]
  have "dc_offset d1 - dc_offset d + (dc_offset d2 - dc_offset d1) = dc_offset d2 - dc_offset d" using a(2) b(2) by simp
  with b(4) have q: "Q y (dc_offset d2 - dc_offset d)" by simp
  show "dc_bytes d2 = dc_bytes d \<and> dc_offset d \<le> dc_offset d2 \<and> dc_offset d2 \<le> length (dc_bytes d)
      \<and> Q y (dc_offset d2 - dc_offset d)"
    using a b q by simp
qed

lemma yields_mono: "yields r P \<Longrightarrow> (\<And>x k. P x k \<Longrightarrow> Q x k) \<Longrightarrow> yields r Q"
  unfolding yields_def by blast

lemma yields_return: "Q x 0 \<Longrightarrow> yields (rreturn x) Q"
  by (rule yieldsI) (auto simp: rreturn_def)

lemma yields_fail: "yields (rlift (Inl e)) Q"
  by (rule yieldsI) (simp add: rlift_def)

lemma yields_take: "yields (take_bytes n field) (\<lambda>bs k. length bs = n \<and> bytes_ok bs \<and> k = n)"
  by (rule yieldsI) (auto simp: take_bytes_def bytes_ok_sub split: if_splits)

lemma yields_u8: "yields (read_u8 field) (\<lambda>x k. x < 256 \<and> k = 1)"
  unfolding read_u8_def
proof (rule yields_bind[OF yields_take yields_return])
  fix bs k assume "length bs = 1 \<and> bytes_ok bs \<and> k = (1::nat)"
  then show "hd bs < 256 \<and> k + 0 = 1" by (cases bs) simp_all
qed

lemma yields_le:
  "yields (rbind (take_bytes n field) (\<lambda>bs. rreturn (from_le_bytes bs))) (\<lambda>x k. x < 256 ^ n \<and> k = n)"
proof (rule yields_bind[OF yields_take yields_return])
  fix bs k assume b: "length bs = n \<and> bytes_ok bs \<and> k = n"
  then show "from_le_bytes bs < 256 ^ n \<and> k + 0 = n" using from_le_bytes_less[of bs] by simp
qed

lemma yields_u16: "yields (read_u16 field) (\<lambda>x k. x < 2 ^ 16 \<and> k = 2)"
  unfolding read_u16_def by (rule yields_mono[OF yields_le]) simp

lemma yields_u32: "yields (read_u32 field) (\<lambda>x k. x < 2 ^ 32 \<and> k = 4)"
  unfolding read_u32_def by (rule yields_mono[OF yields_le]) simp

lemma yields_u64: "yields (read_u64 field) (\<lambda>x k. x < 2 ^ 64 \<and> k = 8)"
  unfolding read_u64_def by (rule yields_mono[OF yields_le]) simp

lemma yields_i128: "yields (read_i128 field) (\<lambda>x k. in_i128 x \<and> k = 16)"
  unfolding read_i128_def by (rule yields_bind[OF yields_take yields_return]) simp

lemma yields_fixed: "yields (read_fixed field) (\<lambda>x k. in_i128 x \<and> k = 16)"
  unfolding read_fixed_def by (rule yields_bind[OF yields_i128 yields_return]) (simp add: from_raw_def)

lemma yields_lift: "yields (rbind (read_u8 field) (\<lambda>c. rlift (dec c))) (\<lambda>x k. (\<exists>c < 256. dec c = Inr x) \<and> k = 1)"
proof (rule yields_bind[OF yields_u8], rule yieldsI)
  fix c k d x d' assume c: "c < 256 \<and> k = (1::nat)" "dc_offset d \<le> length (dc_bytes d)" and r: "rlift (dec c) d = Inr (x, d')"
  have "dec c = Inr x \<and> d' = d" using r by (cases "dec c") (simp_all add: rlift_def)
  then show "dc_bytes d' = dc_bytes d \<and> dc_offset d \<le> dc_offset d' \<and> dc_offset d' \<le> length (dc_bytes d)
      \<and> (\<exists>c < 256. dec c = Inr x) \<and> k + (dc_offset d' - dc_offset d) = 1" using c by auto
qed

lemma yields_option_fixed: "yields (decode_option_fixed field) (\<lambda>x k. (\<forall>y. x = Some y \<longrightarrow> in_i128 y) \<and> k = 17)"
  unfolding decode_option_fixed_def
proof (rule yields_bind[OF yields_u8])
  fix c k :: nat assume c: "c < 256 \<and> k = 1"
  show "yields (if c = 0 then rbind (take_bytes 16 field) (\<lambda>_. rreturn None)
      else if c = 1 then rbind (read_fixed field) (\<lambda>x. rreturn (Some x)) else rlift (Inl (InvalidCode field c)))
      (\<lambda>x l. (\<forall>y. x = Some y \<longrightarrow> in_i128 y) \<and> k + l = 17)"
    using c by (auto intro!: yields_fail yields_bind[OF yields_take yields_return] yields_bind[OF yields_fixed yields_return])
qed

lemma decoded_errors: "\<exists>c < 256. decode_errors field c = Inr e \<Longrightarrow> errors_from_bits e = Some e"
  by (auto simp: decode_errors_def errors_from_bits_def split: option.splits if_splits)

lemmas yields_intros = yields_u16 yields_u32 yields_u64 yields_fixed yields_lift yields_option_fixed yields_return

section \<open>Records of a fixed size\<close>

text \<open>The contract between the encoder and the decoder of a record, and what it gives for lists.\<close>

locale wire_record =
  fixes enc :: "'a \<Rightarrow> bytes" and dec :: "'a reader" and ok :: "'a \<Rightarrow> bool" and len :: nat
  assumes len_pos: "0 < len"
    and enc_length: "length (enc x) = len"
    and dec_enc: "ok x \<Longrightarrow> reads dec (enc x) x"
    and dec_ok: "yields dec (\<lambda>x k. ok x \<and> k = len)"
begin

lemma concat_length: "length (concat (map enc xs)) = length xs * len"
  by (induction xs) (simp_all add: enc_length)

lemma times_reads: "list_all ok xs \<Longrightarrow> reads (read_times (length xs) dec) (concat (map enc xs)) xs"
  by (induction xs) (simp_all add: reads_return reads_bind[OF dec_enc] reads_bind1)

lemma times_yields: "yields (read_times n dec) (\<lambda>xs k. list_all ok xs \<and> length xs = n \<and> k = n * len)"
proof (induction n)
  case 0
  then show ?case by (simp add: yields_return)
next
  case (Suc n)
  show ?case
    unfolding read_times.simps
    by (rule yields_bind[OF dec_ok], rule yields_bind[OF Suc.IH], rule yields_return) simp
qed

lemma list_reads:
  assumes "list_all ok xs" "length xs < 2 ^ 32"
  shows "reads (decode_list field len dec) (encode_list enc xs) xs"
proof (rule readsI)
  fix pre post :: bytes
  assume l: "length (pre @ encode_list enc xs @ post) < 2 ^ 64"
  let ?n = "to_le_bytes 4 (length xs)" and ?b = "concat (map enc xs)"
  have e: "encode_list enc xs = ?n @ ?b" using assms(2) by (simp add: encode_list_def wrap_u32_id)
  have "read_u32 field \<lparr>dc_bytes = pre @ ?n @ (?b @ post), dc_offset = length pre\<rparr>
      = Inr (length xs, \<lparr>dc_bytes = pre @ ?n @ (?b @ post), dc_offset = length (pre @ ?n)\<rparr>)"
    by (rule readsD[OF reads_u32[OF assms(2)]]) (use l e in simp)
  moreover have "\<not> remaining \<lparr>dc_bytes = pre @ ?n @ ?b @ post, dc_offset = length (pre @ ?n)\<rparr> div len < length xs"
    using len_pos by (simp add: remaining_def concat_length not_less less_eq_div_iff_mult_less_eq)
  moreover have "read_times (length xs) dec \<lparr>dc_bytes = (pre @ ?n) @ ?b @ post, dc_offset = length (pre @ ?n)\<rparr>
      = Inr (xs, \<lparr>dc_bytes = (pre @ ?n) @ ?b @ post, dc_offset = length ((pre @ ?n) @ ?b)\<rparr>)"
    by (rule readsD[OF times_reads[OF assms(1)]]) (use l e in simp)
  ultimately show "decode_list field len dec \<lparr>dc_bytes = pre @ encode_list enc xs @ post, dc_offset = length pre\<rparr>
      = Inr (xs, \<lparr>dc_bytes = pre @ encode_list enc xs @ post, dc_offset = length (pre @ encode_list enc xs)\<rparr>)"
    unfolding e by (simp add: decode_list_def read_count_def rbind_def)
qed

lemma list_yields:
  "yields (decode_list field len dec) (\<lambda>xs k. list_all ok xs \<and> length xs < 2 ^ 32 \<and> k = length (encode_list enc xs))"
proof -
  have "yields (read_count field len) (\<lambda>n k. n < 2 ^ 32 \<and> k = 4)"
    unfolding read_count_def
    by (rule yields_bind[OF yields_u32], rule yieldsI) (auto split: if_splits)
  then show ?thesis
    unfolding decode_list_def
    by (rule yields_bind, intro yields_mono[OF times_yields]) (auto simp: encode_list_def concat_length)
qed

end

section \<open>Well-typed messages\<close>

definition trade_ok :: "TradeRecord \<Rightarrow> bool" where
  "trade_ok r \<longleftrightarrow> tr_log_index r < 2 ^ 64 \<and> tr_ordinal r < 2 ^ 32 \<and> tr_ts_ms r < 2 ^ 64 \<and> in_i128 (tr_price r)
     \<and> in_i128 (tr_volume r) \<and> in_i128 (tr_quote_volume r) \<and> in_i128 (tr_taker_fee r) \<and> in_i128 (tr_maker_fee r)
     \<and> errors_from_bits (tr_error r) = Some (tr_error r) \<and> tr_taker_sequence r < 2 ^ 64 \<and> tr_maker_sequence r < 2 ^ 64"

definition level_ok :: "DepthLevel \<Rightarrow> bool" where
  "level_ok l \<longleftrightarrow> in_i128 (dl_price l) \<and> in_i128 (dl_volume l) \<and> dl_orders l < 2 ^ 32"

definition update_ok :: "LevelUpdate \<Rightarrow> bool" where
  "update_ok u \<longleftrightarrow> level_ok (lu_level u)"

definition lifecycle_ok :: "LifecycleRecord \<Rightarrow> bool" where
  "lifecycle_ok r \<longleftrightarrow> lr_log_index r < 2 ^ 64 \<and> lr_ordinal r < 2 ^ 32 \<and> lr_ts_ms r < 2 ^ 64 \<and> lr_order_sequence r < 2 ^ 64
     \<and> (\<forall>c. lr_counterparty_sequence r = Some c \<longrightarrow> c < 2 ^ 64 \<and> c \<noteq> 0)
     \<and> in_i128 (lr_price r) \<and> in_i128 (lr_volume r) \<and> in_i128 (lr_quote_volume r) \<and> in_i128 (lr_taker_fee r)
     \<and> in_i128 (lr_maker_fee r) \<and> errors_from_bits (lr_error r) = Some (lr_error r)"

definition status_ok :: "StatusRecord \<Rightarrow> bool" where
  "status_ok s \<longleftrightarrow> sr_last_market_seq s < 2 ^ 64 \<and> sr_last_sub_seq s < 2 ^ 16 \<and> sr_last_log_index s < 2 ^ 64
     \<and> sr_last_ordinal s < 2 ^ 32 \<and> sr_applied_index s < 2 ^ 64 \<and> sr_book_sequence s < 2 ^ 64 \<and> sr_pending_stops s < 2 ^ 32"

definition gap_ok :: "GapRecord \<Rightarrow> bool" where
  "gap_ok g \<longleftrightarrow> gr_last_good_log_index g < 2 ^ 64 \<and> gr_last_good_ordinal g < 2 ^ 32 \<and> gr_dropped g < 2 ^ 32"

definition bar_ok :: "BarRecord \<Rightarrow> bool" where
  "bar_ok b \<longleftrightarrow> br_interval_ms b < 2 ^ 32 \<and> br_window_start_ms b < 2 ^ 64 \<and> br_last_ts_ms b < 2 ^ 64 \<and> in_i128 (br_open b)
     \<and> in_i128 (br_high b) \<and> in_i128 (br_low b) \<and> in_i128 (br_close b) \<and> in_i128 (br_volume b)
     \<and> br_trade_count b < 2 ^ 32 \<and> br_bar_seq b < 2 ^ 64"

definition bbo_ok :: "BboRecord \<Rightarrow> bool" where
  "bbo_ok b \<longleftrightarrow> (\<forall>x. bb_last_trade b = Some x \<longrightarrow> in_i128 x) \<and> in_i128 (bb_bid b) \<and> in_i128 (bb_bid_volume b)
     \<and> in_i128 (bb_ask b) \<and> in_i128 (bb_ask_volume b) \<and> (\<forall>x. bb_mid b = Some x \<longrightarrow> in_i128 x)
     \<and> (\<forall>x. bb_spread b = Some x \<longrightarrow> in_i128 x)"

primrec body_ok :: "MessageBody \<Rightarrow> bool" where
  "body_ok (MB_Trade rs) \<longleftrightarrow> list_all trade_ok rs \<and> length rs < 2 ^ 32"
| "body_ok (MB_Bbo b) \<longleftrightarrow> bbo_ok b"
| "body_ok (MB_DepthSnapshot s) \<longleftrightarrow> list_all level_ok (ds_bids s) \<and> list_all level_ok (ds_asks s)
     \<and> length (ds_bids s) < 2 ^ 32 \<and> length (ds_asks s) < 2 ^ 32"
| "body_ok (MB_DepthDelta us) \<longleftrightarrow> list_all update_ok us \<and> length us < 2 ^ 32"
| "body_ok (MB_Lifecycle rs) \<longleftrightarrow> list_all lifecycle_ok rs \<and> length rs < 2 ^ 32"
| "body_ok (MB_Status s) \<longleftrightarrow> status_ok s"
| "body_ok (MB_Gap g) \<longleftrightarrow> gap_ok g"
| "body_ok (MB_Bar b) \<longleftrightarrow> bar_ok b"

definition message_ok :: "MarketMessage \<Rightarrow> bool" where
  "message_ok m \<longleftrightarrow> mm_stream m = type_stream (message_type (mm_body m)) \<and> mm_flags m < 2 ^ 16 \<and> mm_market_seq m < 2 ^ 64
     \<and> mm_sub_seq m < 2 ^ 16 \<and> mm_log_index m < 2 ^ 64 \<and> mm_ordinal m < 2 ^ 32 \<and> mm_epoch m < 2 ^ 64
     \<and> mm_leader_id m < 2 ^ 64 \<and> mm_ts_ms m < 2 ^ 64 \<and> mm_symbol_id m < 2 ^ 32
     \<and> body_ok (mm_body m) \<and> length (encode_body (mm_body m)) < 2 ^ 32"

section \<open>The three record formats\<close>

lemma length_put_fixed [simp]: "length (put_fixed x) = 16"
  by (simp add: put_fixed_def)

lemma length_put_option [simp]: "length (put_option_fixed x) = 17"
  by (simp add: put_option_fixed_def split: option.split)

lemmas reads_seq = reads_return reads_bind[OF reads_u16] reads_bind[OF reads_u32] reads_bind[OF reads_u64]
  reads_bind[OF reads_fixed] reads_bind[OF reads_option_fixed]
  reads_bind[OF reads_lift[where dec = "decode_fee_asset fld", OF fee_asset_inverse]] reads_bind[OF reads_lift[where dec = "decode_side fld", OF side_inverse]]
  reads_bind[OF reads_lift[where dec = "decode_volume_unit fld", OF volume_unit_inverse]] reads_bind[OF reads_lift[where dec = "decode_kind", OF kind_inverse]]
  reads_bind[OF reads_lift[where dec = "decode_reason", OF reason_inverse]] reads_bind[OF reads_lift[where dec = "decode_errors fld", OF errors_inverse]]
  for fld

lemmas yields_seq = yields_return yields_bind[OF yields_u16] yields_bind[OF yields_u32] yields_bind[OF yields_u64]
  yields_bind[OF yields_fixed] yields_bind[OF yields_option_fixed] yields_bind[OF yields_lift]

lemma trade_reads: "trade_ok r \<Longrightarrow> reads decode_trade (encode_trade r @ []) r"
  unfolding decode_trade_def encode_trade_def append_assoc
  by (intro reads_seq) (simp_all add: trade_ok_def)

lemma level_reads: "level_ok l \<Longrightarrow> reads (decode_level field) (encode_side_level side l @ []) (side, l)"
  unfolding decode_level_def encode_side_level_def encode_level_def append_assoc
  by (intro reads_seq) (simp_all add: level_ok_def)

lemma lifecycle_reads: "lifecycle_ok r \<Longrightarrow> reads decode_lifecycle (encode_lifecycle r @ []) r"
  unfolding decode_lifecycle_def encode_lifecycle_def append_assoc
  by (intro reads_seq) (auto simp: lifecycle_ok_def split: option.splits intro!: LifecycleRecord.equality)

lemma trade_yields: "yields decode_trade (\<lambda>r k. trade_ok r \<and> k = 120)"
  unfolding decode_trade_def
  by (intro yields_seq) (simp_all add: trade_ok_def decoded_errors)

lemma level_yields: "yields (decode_level field) (\<lambda>x k. level_ok (snd x) \<and> k = 37)"
  unfolding decode_level_def
  by (intro yields_seq) (simp_all add: level_ok_def)

lemma lifecycle_yields: "yields decode_lifecycle (\<lambda>r k. lifecycle_ok r \<and> k = 123)"
  unfolding decode_lifecycle_def
  by (intro yields_seq) (simp_all add: lifecycle_ok_def decoded_errors)

interpretation trade: wire_record encode_trade decode_trade trade_ok TRADE_RECORD_LEN
proof
  show "length (encode_trade x) = TRADE_RECORD_LEN" for x by (simp add: encode_trade_def TRADE_RECORD_LEN_def)
  show "trade_ok x \<Longrightarrow> reads decode_trade (encode_trade x) x" for x using trade_reads[of x] by simp
  show "yields decode_trade (\<lambda>x k. trade_ok x \<and> k = TRADE_RECORD_LEN)" using trade_yields by (simp add: TRADE_RECORD_LEN_def)
qed (simp add: TRADE_RECORD_LEN_def)

interpretation lifecycle: wire_record encode_lifecycle decode_lifecycle lifecycle_ok LIFECYCLE_RECORD_LEN
proof
  show "length (encode_lifecycle x) = LIFECYCLE_RECORD_LEN" for x by (simp add: encode_lifecycle_def LIFECYCLE_RECORD_LEN_def)
  show "lifecycle_ok x \<Longrightarrow> reads decode_lifecycle (encode_lifecycle x) x" for x using lifecycle_reads[of x] by simp
  show "yields decode_lifecycle (\<lambda>x k. lifecycle_ok x \<and> k = LIFECYCLE_RECORD_LEN)"
    using lifecycle_yields by (simp add: LIFECYCLE_RECORD_LEN_def)
qed (simp add: LIFECYCLE_RECORD_LEN_def)

lemma length_side_level: "length (encode_side_level side l) = DEPTH_LEVEL_LEN"
  by (simp add: encode_side_level_def encode_level_def DEPTH_LEVEL_LEN_def)

lemma level_reads_part:
  assumes "level_ok l"
  shows "reads (rbind (decode_level field) (\<lambda>(s, x). rreturn (f s x))) (encode_side_level side l) (f side l)"
  using reads_bind1[OF level_reads[OF assms, of field side, unfolded append_Nil2], of "\<lambda>(s, x). rreturn (f s x)" "f side l"]
  by (simp add: reads_return)

lemma level_yields_part:
  assumes "\<And>s x. level_ok x \<Longrightarrow> P (f s x)"
  shows "yields (rbind (decode_level field) (\<lambda>(s, x). rreturn (f s x))) (\<lambda>y k. P y \<and> k = DEPTH_LEVEL_LEN)"
  by (rule yields_bind[OF level_yields]) (auto simp: DEPTH_LEVEL_LEN_def assms split: prod.split intro!: yields_return)

interpretation update: wire_record encode_update decode_update update_ok DEPTH_LEVEL_LEN
proof
  show "update_ok x \<Longrightarrow> reads decode_update (encode_update x) x" for x
    using level_reads_part[of "lu_level x" "''depth delta''" "\<lambda>s l. \<lparr>lu_side = s, lu_level = l\<rparr>" "lu_side x"]
    by (cases x) (simp add: update_ok_def encode_update_def decode_update_def)
  show "yields decode_update (\<lambda>x k. update_ok x \<and> k = DEPTH_LEVEL_LEN)"
    unfolding decode_update_def by (rule level_yields_part) (simp add: update_ok_def)
qed (simp_all add: encode_update_def length_side_level DEPTH_LEVEL_LEN_def)

interpretation bid_level: wire_record "encode_side_level Buy" decode_bid level_ok DEPTH_LEVEL_LEN
proof
  show "level_ok x \<Longrightarrow> reads decode_bid (encode_side_level Buy x) x" for x
    using level_reads_part[of x "''depth.bid''" "\<lambda>s l. l" Buy] by (simp add: decode_bid_def)
  show "yields decode_bid (\<lambda>x k. level_ok x \<and> k = DEPTH_LEVEL_LEN)"
    unfolding decode_bid_def by (rule level_yields_part)
qed (simp_all add: length_side_level DEPTH_LEVEL_LEN_def)

interpretation ask_level: wire_record "encode_side_level Sell" decode_ask level_ok DEPTH_LEVEL_LEN
proof
  show "level_ok x \<Longrightarrow> reads decode_ask (encode_side_level Sell x) x" for x
    using level_reads_part[of x "''depth.ask''" "\<lambda>s l. l" Sell] by (simp add: decode_ask_def)
  show "yields decode_ask (\<lambda>x k. level_ok x \<and> k = DEPTH_LEVEL_LEN)"
    unfolding decode_ask_def by (rule level_yields_part)
qed (simp_all add: length_side_level DEPTH_LEVEL_LEN_def)

section \<open>Bodies\<close>

lemma snapshot_reads:
  assumes ok: "list_all level_ok (ds_bids s)" "list_all level_ok (ds_asks s)"
    and len: "length (ds_bids s) < 2 ^ 32" "length (ds_asks s) < 2 ^ 32"
  shows "reads decode_depth_snapshot (encode_depth_snapshot s) s"
proof (rule readsI)
  fix pre post :: bytes
  assume l: "length (pre @ encode_depth_snapshot s @ post) < 2 ^ 64"
  let ?m = "to_le_bytes 4 (length (ds_bids s))" and ?n = "to_le_bytes 4 (length (ds_asks s))"
  let ?b = "concat (map (encode_side_level Buy) (ds_bids s))" and ?a = "concat (map (encode_side_level Sell) (ds_asks s))"
  let ?levels = "rbind (read_times (length (ds_bids s)) decode_bid) (\<lambda>bid_levels.
      rbind (read_times (length (ds_asks s)) decode_ask) (\<lambda>ask_levels.
      rreturn \<lparr>ds_bids = bid_levels, ds_asks = ask_levels\<rparr>))"
  have e: "encode_depth_snapshot s = ?m @ ?n @ ?b @ ?a" using len by (simp add: encode_depth_snapshot_def wrap_u32_id)
  have "read_u32 ''depth.bids'' \<lparr>dc_bytes = pre @ ?m @ (?n @ ?b @ ?a @ post), dc_offset = length pre\<rparr>
      = Inr (length (ds_bids s), \<lparr>dc_bytes = pre @ ?m @ (?n @ ?b @ ?a @ post), dc_offset = length (pre @ ?m)\<rparr>)"
    by (rule readsD[OF reads_u32[OF len(1)]]) (use l e in simp)
  moreover have "read_u32 ''depth.asks'' \<lparr>dc_bytes = (pre @ ?m) @ ?n @ (?b @ ?a @ post), dc_offset = length (pre @ ?m)\<rparr>
      = Inr (length (ds_asks s), \<lparr>dc_bytes = (pre @ ?m) @ ?n @ (?b @ ?a @ post), dc_offset = length ((pre @ ?m) @ ?n)\<rparr>)"
    by (rule readsD[OF reads_u32[OF len(2)]]) (use l e in simp)
  moreover have "reads ?levels (?b @ ?a) s"
    by (rule reads_bind[OF bid_level.times_reads[OF ok(1)]], rule reads_bind1[OF ask_level.times_reads[OF ok(2)]])
      (simp add: reads_return)
  then have "?levels \<lparr>dc_bytes = (pre @ ?m @ ?n) @ (?b @ ?a) @ post, dc_offset = length (pre @ ?m @ ?n)\<rparr>
      = Inr (s, \<lparr>dc_bytes = (pre @ ?m @ ?n) @ (?b @ ?a) @ post, dc_offset = length ((pre @ ?m @ ?n) @ ?b @ ?a)\<rparr>)"
    by (rule readsD) (use l e in simp)
  moreover have "\<not> remaining \<lparr>dc_bytes = pre @ ?m @ ?n @ ?b @ ?a @ post, dc_offset = length (pre @ ?m @ ?n)\<rparr> div DEPTH_LEVEL_LEN
      < length (ds_bids s) + length (ds_asks s)"
    by (simp add: remaining_def bid_level.concat_length ask_level.concat_length not_less DEPTH_LEVEL_LEN_def
        less_eq_div_iff_mult_less_eq)
  ultimately show "decode_depth_snapshot \<lparr>dc_bytes = pre @ encode_depth_snapshot s @ post, dc_offset = length pre\<rparr>
      = Inr (s, \<lparr>dc_bytes = pre @ encode_depth_snapshot s @ post, dc_offset = length (pre @ encode_depth_snapshot s)\<rparr>)"
    unfolding e decode_depth_snapshot_def using len by (simp add: rbind_def[of "read_u32 f" for f])
qed

lemma snapshot_yields:
  "yields decode_depth_snapshot (\<lambda>s k. list_all level_ok (ds_bids s) \<and> list_all level_ok (ds_asks s)
     \<and> length (ds_bids s) < 2 ^ 32 \<and> length (ds_asks s) < 2 ^ 32 \<and> k = length (encode_depth_snapshot s))"
proof -
  let ?levels = "\<lambda>m n. rbind (read_times m decode_bid) (\<lambda>bid_levels.
      rbind (read_times n decode_ask) (\<lambda>ask_levels. rreturn \<lparr>ds_bids = bid_levels, ds_asks = ask_levels\<rparr>))"
  have lv: "yields (?levels m n) (\<lambda>s k. list_all level_ok (ds_bids s) \<and> list_all level_ok (ds_asks s)
      \<and> length (ds_bids s) = m \<and> length (ds_asks s) = n \<and> k = (m + n) * DEPTH_LEVEL_LEN)" for m n
    by (rule yields_bind[OF bid_level.times_yields], rule yields_bind[OF ask_level.times_yields], rule yields_return)
      (simp add: algebra_simps)
  show ?thesis
    unfolding decode_depth_snapshot_def
  proof (rule yields_bind[OF yields_u32], rule yields_bind[OF yields_u32], rule yieldsI)
    fix m k n k' :: nat and d s d'
    assume m: "m < 2 ^ 32 \<and> k = 4" "n < 2 ^ 32 \<and> k' = 4"
      and d: "bytes_ok (dc_bytes d)" "dc_offset d \<le> length (dc_bytes d)"
      and run: "(if 2 ^ 64 \<le> m + n then Inl (CountTooLarge ''depth levels'' (2 ^ 64 - 1) (remaining d))
        else if remaining d div DEPTH_LEVEL_LEN < m + n then Inl (CountTooLarge ''depth levels'' (m + n) (remaining d))
        else ?levels m n d) = Inr (s, d')"
    have "?levels m n d = Inr (s, d')" using run by (simp split: if_splits)
    from yieldsD[OF lv this d] m
    show "dc_bytes d' = dc_bytes d \<and> dc_offset d \<le> dc_offset d' \<and> dc_offset d' \<le> length (dc_bytes d)
      \<and> list_all level_ok (ds_bids s) \<and> list_all level_ok (ds_asks s) \<and> length (ds_bids s) < 2 ^ 32 \<and> length (ds_asks s) < 2 ^ 32
      \<and> k + (k' + (dc_offset d' - dc_offset d)) = length (encode_depth_snapshot s)"
      by (simp add: encode_depth_snapshot_def bid_level.concat_length ask_level.concat_length algebra_simps)
  qed
qed

lemma bbo_reads: "bbo_ok b \<Longrightarrow> reads decode_bbo (encode_bbo b @ []) b"
  unfolding decode_bbo_def encode_bbo_def append_assoc by (intro reads_seq) (simp_all add: bbo_ok_def)

lemma status_reads: "status_ok s \<Longrightarrow> reads decode_status (encode_status s @ []) s"
  unfolding decode_status_def encode_status_def append_assoc by (intro reads_seq) (simp_all add: status_ok_def)

lemma gap_reads: "gap_ok g \<Longrightarrow> reads decode_gap (encode_gap g @ []) g"
  unfolding decode_gap_def encode_gap_def append_assoc by (intro reads_seq) (simp_all add: gap_ok_def)

lemma bar_reads:
  assumes ok: "bar_ok b"
  shows "reads decode_bar (encode_bar b @ []) b"
proof -
  have "wrap_u32 (br_interval_ms b) = br_interval_ms b" using ok by (simp add: bar_ok_def wrap_u32_id)
  then show ?thesis
    using ok unfolding decode_bar_def encode_bar_def append_assoc by (simp only:) (intro reads_seq, simp_all add: bar_ok_def)
qed

lemma bbo_yields: "yields decode_bbo (\<lambda>b k. bbo_ok b \<and> k = length (encode_bbo b))"
  unfolding decode_bbo_def by (intro yields_seq) (simp_all add: bbo_ok_def encode_bbo_def)

lemma status_yields: "yields decode_status (\<lambda>s k. status_ok s \<and> k = length (encode_status s))"
  unfolding decode_status_def by (intro yields_seq) (simp_all add: status_ok_def encode_status_def)

lemma gap_yields: "yields decode_gap (\<lambda>g k. gap_ok g \<and> k = length (encode_gap g))"
  unfolding decode_gap_def by (intro yields_seq) (simp_all add: gap_ok_def encode_gap_def)

lemma bar_yields: "yields decode_bar (\<lambda>b k. bar_ok b \<and> k = length (encode_bar b))"
  unfolding decode_bar_def by (intro yields_seq) (simp_all add: bar_ok_def encode_bar_def)

lemma body_reads:
  assumes "body_ok body"
  shows "reads (decode_body (message_type body)) (encode_body body) body"
proof -
  have wrap: "reads (rbind r (\<lambda>x. rreturn (con x))) bs (con x)" if "reads r bs x" for r bs x and con :: "'a \<Rightarrow> MessageBody"
    by (rule reads_bind1[OF that]) (simp add: reads_return)
  show ?thesis
    using assms bbo_reads status_reads gap_reads bar_reads
    by (cases body) (simp_all add: wrap trade.list_reads update.list_reads lifecycle.list_reads snapshot_reads)
qed

lemma body_yields: "yields (decode_body kind) (\<lambda>b k. message_type b = kind \<and> body_ok b \<and> k = length (encode_body b))"
proof -
  have wrap: "yields (rbind r (\<lambda>x. rreturn (con x))) Q"
    if "yields r P" "\<And>x k. P x k \<Longrightarrow> Q (con x) k" for r :: "'a reader" and con :: "'a \<Rightarrow> MessageBody" and P Q
    by (rule yields_bind[OF that(1)], rule yields_return) (simp add: that(2))
  show ?thesis
    by (cases kind) (simp, (rule wrap[OF trade.list_yields] wrap[OF bbo_yields] wrap[OF snapshot_yields] wrap[OF update.list_yields]
        wrap[OF lifecycle.list_yields] wrap[OF status_yields] wrap[OF gap_yields] wrap[OF bar_yields]), simp)+
qed

section \<open>Frames\<close>

definition reads_end :: "'a reader \<Rightarrow> bytes \<Rightarrow> 'a \<Rightarrow> bool" where
  "reads_end r bs x \<longleftrightarrow> (\<forall>pre. length (pre @ bs) < 2 ^ 64 \<longrightarrow>
     r \<lparr>dc_bytes = pre @ bs, dc_offset = length pre\<rparr> = Inr (x, \<lparr>dc_bytes = pre @ bs, dc_offset = length (pre @ bs)\<rparr>))"

lemma reads_end_bind:
  assumes "reads r bs x" "reads_end (f x) cs y"
  shows "reads_end (rbind r f) (bs @ cs) y"
  unfolding reads_end_def
proof (intro allI impI)
  fix pre :: bytes assume l: "length (pre @ bs @ cs) < 2 ^ 64"
  have "f x \<lparr>dc_bytes = (pre @ bs) @ cs, dc_offset = length (pre @ bs)\<rparr>
      = Inr (y, \<lparr>dc_bytes = (pre @ bs) @ cs, dc_offset = length ((pre @ bs) @ cs)\<rparr>)"
    using assms(2) l unfolding reads_end_def by (metis append_assoc)
  then show "rbind r f \<lparr>dc_bytes = pre @ bs @ cs, dc_offset = length pre\<rparr>
      = Inr (y, \<lparr>dc_bytes = pre @ bs @ cs, dc_offset = length (pre @ bs @ cs)\<rparr>)"
    using readsD[OF assms(1) l] by (simp add: rbind_def)
qed

lemma reads_end_bind1: "reads r bs x \<Longrightarrow> reads_end (f x) [] y \<Longrightarrow> reads_end (rbind r f) bs y"
  using reads_end_bind[of r bs x f "[]" y] by simp

lemma reads_end_last: "x = y \<Longrightarrow> reads_end (\<lambda>d. if remaining d \<noteq> 0 then Inl (e d) else Inr (x, d)) [] y"
  by (simp add: reads_end_def remaining_def)

lemmas reads_end_seq = reads_end_bind[OF reads_u16] reads_end_bind[OF reads_u32] reads_end_bind[OF reads_u64]

lemma frame_reads:
  assumes ok: "message_ok m"
  shows "reads_end (decode_frame (length (encode m))) (encode m) m"
proof -
  let ?body = "encode_body (mm_body m)"
  have w: "wrap_u32 (length ?body) = length ?body" using ok by (simp add: message_ok_def wrap_u32_id)
  have len: "length (encode m) - WIRE_HEADER_LEN = length ?body"
    by (simp add: encode_def Let_def WIRE_MAGIC_def WIRE_HEADER_LEN_def)
  have k: "length WIRE_MAGIC = 4" by (simp add: WIRE_MAGIC_def)
  have z: "(0::nat) < 2 ^ 16" by simp
  have tail: "reads_end (rbind (decode_body (message_type (mm_body m))) (\<lambda>body d.
      if remaining d \<noteq> 0 then Inl (TrailingBytes (remaining d))
      else Inr (\<lparr>mm_stream = type_stream (message_type (mm_body m)), mm_flags = mm_flags m, mm_market_seq = mm_market_seq m,
        mm_sub_seq = mm_sub_seq m, mm_log_index = mm_log_index m, mm_ordinal = mm_ordinal m, mm_epoch = mm_epoch m,
        mm_leader_id = mm_leader_id m, mm_ts_ms = mm_ts_ms m, mm_symbol_id = mm_symbol_id m, mm_body = body\<rparr>, d))) ?body m"
    by (rule reads_end_bind1[OF body_reads reads_end_last]) (use ok in \<open>simp_all add: message_ok_def\<close>)
  show ?thesis
    unfolding decode_frame_def len unfolding encode_def Let_def w
    apply (rule reads_end_bind[OF reads_take[OF k]])
    apply (simp only: simp_thms if_False not_not refl)
    apply (rule reads_end_bind[OF reads_u8])
    apply (simp only: simp_thms if_False not_not refl)
    apply (rule reads_end_bind[OF reads_lift[where dec = decode_type, OF type_inverse]])
    apply (intro reads_end_seq)
    using ok by (simp_all only: simp_thms if_False not_not refl message_ok_def z tail)
qed

definition ends :: "'a reader \<Rightarrow> bool" where
  "ends r \<longleftrightarrow> (\<forall>d x d'. r d = Inr (x, d') \<longrightarrow> remaining d' = 0)"

lemma ends_bind: "(\<And>x. ends (f x)) \<Longrightarrow> ends (rbind r f)"
  by (auto simp: ends_def rbind_def split: sum.splits)

lemma ends_if: "ends a \<Longrightarrow> ends b \<Longrightarrow> ends (if c then a else b)"
  by simp

lemma ends_fail: "ends (rlift (Inl e))"
  by (simp add: ends_def rlift_def)

lemma ends_last: "ends (\<lambda>d. if remaining d \<noteq> 0 then Inl (e d) else Inr (x, d))"
  by (auto simp: ends_def split: if_splits)

lemma frame_ends: "ends (decode_frame len)"
  unfolding decode_frame_def by (intro ends_bind ends_if ends_fail ends_last)

lemma yields_if: "(c \<Longrightarrow> yields a Q) \<Longrightarrow> (\<not> c \<Longrightarrow> yields b Q) \<Longrightarrow> yields (if c then a else b) Q"
  by simp

lemma yields_last: "Q x 0 \<Longrightarrow> yields (\<lambda>d. if remaining d \<noteq> 0 then Inl (e d) else Inr (x, d)) Q"
  by (rule yieldsI) (auto split: if_splits)

lemma frame_yields:
  "yields (decode_frame len) (\<lambda>m k. k = 64 + length (encode_body (mm_body m)) \<and> len - WIRE_HEADER_LEN < 2 ^ 32
     \<and> (length (encode_body (mm_body m)) < 2 ^ 32 \<longrightarrow> message_ok m))"
  unfolding decode_frame_def
  by (intro yields_bind[OF yields_take] yields_bind[OF yields_u8] yields_bind[OF yields_lift] yields_bind[OF yields_u16]
      yields_bind[OF yields_u32] yields_bind[OF yields_u64] yields_bind[OF body_yields] yields_if yields_fail yields_last)
    (auto simp: message_ok_def)

end
