(* ===== verification/Wire_Properties.thy ===== *)
theory Wire_Properties
  imports Wire_Library
begin

text \<open>
  Properties of the wire format: the round trip, and the typing of everything the decoder accepts.
\<close>

lemma wire_ok_roundtrip:
  assumes "message_ok m"
  shows "decode (encode m) = Inr m"
proof -
  have l: "length (encode m) = 64 + length (encode_body (mm_body m))"
    by (simp add: encode_def Let_def WIRE_MAGIC_def)
  then have "length (encode m) < 2 ^ 64" using assms by (simp add: message_ok_def)
  then have "decode_frame (length (encode m)) \<lparr>dc_bytes = [] @ encode m, dc_offset = length ([] :: bytes)\<rparr>
      = Inr (m, \<lparr>dc_bytes = [] @ encode m, dc_offset = length ([] @ encode m)\<rparr>)"
    using frame_reads[OF assms] unfolding reads_end_def by (metis append_Nil)
  then show ?thesis using l by (simp add: decode_def Decoder_new_def WIRE_HEADER_LEN_def)
qed

section \<open>Properties\<close>

text \<open>
  C34: The wire format loses nothing.  Decoding the frame of a message gives the message back, for every
  body, every list length that fits the count field and every extreme field value: the message is
  within the machine types, its stream is the one of its body, a counterparty sequence is not 0, a bar
  interval fits 32 bits and the body fits the length field.
\<close>

theorem wire_roundtrip:
  assumes "message_ok m"
  shows "decode (encode m) = Inr m"
  using assms by (rule wire_ok_roundtrip)

definition sample_message :: MarketMessage where
  "sample_message = \<lparr>mm_stream = STREAM_BBO, mm_flags = FLAG_END_OF_BATCH, mm_market_seq = 2 ^ 64 - 1, mm_sub_seq = 65535,
     mm_log_index = 7, mm_ordinal = 3, mm_epoch = 1, mm_leader_id = 2, mm_ts_ms = 99, mm_symbol_id = 5,
     mm_body = MB_Bbo \<lparr>bb_last_trade = None, bb_bid = - (2 ^ 127), bb_bid_volume = 5, bb_ask = 2 ^ 127 - 1, bb_ask_volume = 0,
       bb_mid = Some (- 1), bb_spread = Some 1\<rparr>\<rparr>"

lemma sample_message_ok: "message_ok sample_message"
  by (simp add: sample_message_def message_ok_def bbo_ok_def in_i128_def encode_bbo_def STREAM_BBO_def FLAG_END_OF_BATCH_def)

theorem wire_roundtrip_witness: "message_ok sample_message \<and> decode (encode sample_message) = Inr sample_message"
  using wire_roundtrip[OF sample_message_ok] sample_message_ok by simp

text \<open>
  C35: Every decoded message is well typed.  Whatever bytes arrive, if the decoder accepts them the
  message is within the machine types (integer widths, \<open>i128\<close> values, known error bits, a non-zero
  counterparty), carries the stream of its body, accounts for every byte of the frame, and encoding it
  again gives a frame of the same length that decodes to the same message.
\<close>

theorem decoded_well_typed:
  assumes "bytes_ok bs" "decode bs = Inr m"
  shows "message_ok m \<and> length (encode m) = length bs \<and> decode (encode m) = Inr m"
proof -
  obtain d where run: "decode_frame (length bs) (Decoder_new bs) = Inr (m, d)" and l: "64 \<le> length bs"
    using assms(2) by (auto simp: decode_def WIRE_HEADER_LEN_def split: if_splits sum.splits)
  have b: "bytes_ok (dc_bytes (Decoder_new bs))" "dc_offset (Decoder_new bs) \<le> length (dc_bytes (Decoder_new bs))"
    using assms(1) by (simp_all add: Decoder_new_def)
  note y = yieldsD[OF frame_yields run b, unfolded Decoder_new_def, simplified]
  have "remaining d = 0" using frame_ends run unfolding ends_def by blast
  then have k: "length bs = 64 + length (encode_body (mm_body m))" using y by (simp add: remaining_def)
  then have ok: "message_ok m" using y(4) by (simp add: WIRE_HEADER_LEN_def)
  moreover have "length (encode m) = length bs" using k by (simp add: encode_def Let_def WIRE_MAGIC_def)
  ultimately show ?thesis using wire_ok_roundtrip[OF ok] by simp
qed

theorem decoded_well_typed_witness:
  "\<exists>bs m. bytes_ok bs \<and> decode bs = Inr m \<and> message_ok m \<and> length (encode m) = 179"
proof -
  have b: "bytes_ok (encode sample_message)"
    by (simp add: sample_message_def encode_def encode_bbo_def Let_def WIRE_MAGIC_def WIRE_VERSION_def put_option_fixed_def put_fixed_def)
  have d: "decode (encode sample_message) = Inr sample_message" by (rule wire_ok_roundtrip[OF sample_message_ok])
  have "length (encode sample_message) = 179" by (simp add: sample_message_def encode_def encode_bbo_def Let_def WIRE_MAGIC_def)
  then show ?thesis using decoded_well_typed[OF b d] b d by blast
qed

text \<open>The interval of a bar travels in 32 bits: longer intervals arrive reduced.\<close>

lemma bar_interval_truncated: "encode_bar b = encode_bar (b\<lparr>br_interval_ms := br_interval_ms b mod 2 ^ 32\<rparr>)"
  by (simp add: encode_bar_def wrap_u32_def)

end
