(* ===== verification/Market_Feed.thy ===== *)
theory Market_Feed
  imports Market_Types "HOL-Library.Product_Lexorder"
begin

text \<open>
  The market-data task of \<open>src/market_data/mod.rs\<close>: the bounded tap queue, the control handle of the
  leader watcher, the shadow book fed by the depth journal, the bar aggregation and the processor that
  turns frames and reset snapshots into messages.  The handles the tap, the control and the processor
  share (atomics, the pending snapshot, the queue) and the processor's own fields are one record; the
  messages handed to the sink are collected in order.
\<close>

unbundle bit_operations_syntax

section \<open>Shadow book\<close>

record LevelState =
  ls_price :: fixed
  ls_volume :: fixed
  ls_orders :: u32

record ShadowBook =
  sb_bids :: "(fixed, LevelState) btree"
  sb_asks :: "(fixed, LevelState) btree"
  sb_last_trade :: "fixed option"

definition ShadowBook_default :: ShadowBook where
  "ShadowBook_default = \<lparr>sb_bids = [], sb_asks = [], sb_last_trade = None\<rparr>"

definition apply_level :: "(fixed, LevelState) btree \<Rightarrow> DepthChange \<Rightarrow> (fixed, LevelState) btree" where
  "apply_level m change =
     (let key = dc_price change;
          level = (case bt_get key m of
                     Some level \<Rightarrow> level
                   | None \<Rightarrow> \<lparr>ls_price = dc_price change, ls_volume = 0, ls_orders = 0\<rparr>);
          level = level\<lparr>ls_volume := fixed_add (ls_volume level) (dc_delta_volume change)\<rparr>;
          n = int (ls_orders level) + dc_delta_orders change;
          level = level\<lparr>ls_orders := wrap_u32 (nat (max n 0))\<rparr>
      in if ls_volume level \<le> 0 \<and> ls_orders level = 0 then bt_remove key m
         else bt_insert key level m)"

definition shadow_apply :: "ShadowBook \<Rightarrow> DepthChange \<Rightarrow> ShadowBook" where
  "shadow_apply book change =
     (case dc_side change of
        Buy \<Rightarrow> book\<lparr>sb_bids := apply_level (sb_bids book) change\<rparr>
      | Sell \<Rightarrow> book\<lparr>sb_asks := apply_level (sb_asks book) change\<rparr>)"

definition collect_levels :: "DepthLevel list \<Rightarrow> (fixed, LevelState) btree" where
  "collect_levels levels =
     foldl (\<lambda>m level. bt_insert (dl_price level)
       \<lparr>ls_price = dl_price level, ls_volume = dl_volume level, ls_orders = dl_orders level\<rparr> m) [] levels"

definition shadow_reset :: "DepthLevel list \<Rightarrow> DepthLevel list \<Rightarrow> fixed option \<Rightarrow> ShadowBook" where
  "shadow_reset bid_levels ask_levels last_trade =
     \<lparr>sb_bids = collect_levels bid_levels, sb_asks = collect_levels ask_levels, sb_last_trade = last_trade\<rparr>"

definition shadow_best_bid :: "ShadowBook \<Rightarrow> LevelState option" where
  "shadow_best_bid book = vec_last (bt_values (sb_bids book))"

definition shadow_best_ask :: "ShadowBook \<Rightarrow> LevelState option" where
  "shadow_best_ask book = bt_first (sb_asks book)"

definition shadow_level :: "ShadowBook \<Rightarrow> OrderSide \<Rightarrow> fixed \<Rightarrow> LevelState option" where
  "shadow_level book side price =
     (case side of Buy \<Rightarrow> bt_get price (sb_bids book) | Sell \<Rightarrow> bt_get price (sb_asks book))"

definition depth_of_level :: "LevelState \<Rightarrow> DepthLevel" where
  "depth_of_level level = \<lparr>dl_price = ls_price level, dl_volume = ls_volume level, dl_orders = ls_orders level\<rparr>"

definition shadow_depth :: "ShadowBook \<Rightarrow> OrderSide \<Rightarrow> nat \<Rightarrow> DepthLevel list" where
  "shadow_depth book side levels =
     map depth_of_level (take levels
       (case side of Buy \<Rightarrow> rev (bt_values (sb_bids book)) | Sell \<Rightarrow> bt_values (sb_asks book)))"

section \<open>Bars\<close>

record BarAgg =
  ba_interval_ms :: u64
  ba_window_start_ms :: u64
  ba_last_ts_ms :: u64
  ba_open :: fixed
  ba_high :: fixed
  ba_low :: fixed
  ba_close :: fixed
  ba_volume :: fixed
  ba_trade_count :: u32
  ba_last_live_ms :: u64

definition BarAgg_new :: "u64 \<Rightarrow> u64 \<Rightarrow> u64 \<Rightarrow> fixed \<Rightarrow> BarAgg" where
  "BarAgg_new interval_ms window_start_ms ts_ms first_price =
     \<lparr>ba_interval_ms = interval_ms, ba_window_start_ms = window_start_ms, ba_last_ts_ms = ts_ms,
      ba_open = first_price, ba_high = first_price, ba_low = first_price, ba_close = first_price,
      ba_volume = 0, ba_trade_count = 0, ba_last_live_ms = ts_ms\<rparr>"

definition BarAgg_update :: "u64 \<Rightarrow> BarAgg \<Rightarrow> fixed \<times> fixed \<Rightarrow> BarAgg" where
  "BarAgg_update ts_ms bar fill =
     bar\<lparr>ba_high := fixed_max (ba_high bar) (fst fill),
         ba_low := fixed_min (ba_low bar) (fst fill),
         ba_close := fst fill,
         ba_volume := fixed_add (ba_volume bar) (snd fill),
         ba_trade_count := wrap_u32 (ba_trade_count bar + 1),
         ba_last_ts_ms := ts_ms\<rparr>"

definition BarAgg_record :: "BarAgg \<Rightarrow> u64 \<Rightarrow> BarRecord" where
  "BarAgg_record bar bar_seq =
     \<lparr>br_interval_ms = ba_interval_ms bar, br_window_start_ms = ba_window_start_ms bar,
      br_last_ts_ms = ba_last_ts_ms bar, br_open = ba_open bar, br_high = ba_high bar, br_low = ba_low bar,
      br_close = ba_close bar, br_volume = ba_volume bar, br_trade_count = ba_trade_count bar,
      br_bar_seq = bar_seq\<rparr>"

section \<open>The shared handles and the processor\<close>

type_synonym bar_key = "u32 \<times> u64"

record MarketDataProcessor =
  mp_config :: MarketDataConfig
  mp_sink :: "MarketMessage list"
  mp_stats :: MarketDataStats
  mp_leader :: bool
  mp_epoch :: u64
  mp_leader_id :: u64
  mp_resetting :: bool
  mp_pending :: "SnapshotFrame option"
  mp_queue :: "TapFrame list"
  mp_shadow :: "(u32, ShadowBook) btree"
  mp_bars :: "(bar_key, BarAgg) btree"
  mp_bar_seq :: "(bar_key, u64) btree"
  mp_active_market_seq :: "u64 option"
  mp_book_sequence :: u64
  mp_pending_stops :: u32
  mp_dropped :: u64
  mp_dropped_seen :: u64
  mp_gap_pending :: bool
  mp_last_position :: "u64 \<times> u32"
  mp_pre_snapshot :: "TapFrame list"

text \<open>\<open>fetch_add\<close> on a counter.\<close>

definition fetch_add :: "u64 \<Rightarrow> u64 \<Rightarrow> u64" where
  "fetch_add n counter = wrap_u64 (counter + n)"

text \<open>\<open>MarketDataHandle::start_with_sink\<close>: a leader-only feed starts closed, and every feed waits for a snapshot.\<close>

definition start_with_sink :: "MarketDataConfig \<Rightarrow> string \<Rightarrow> MarketDataProcessor" where
  "start_with_sink config sink_name =
     \<lparr>mp_config = config, mp_sink = [],
      mp_stats = set_sink (MarketDataStats_default\<lparr>st_queue_capacity := wrap_u64 (max (mc_queue_capacity config) 1)\<rparr>) sink_name,
      mp_leader = (\<not> mc_leader_only config), mp_epoch = 0, mp_leader_id = 0, mp_resetting = True, mp_pending = None,
      mp_queue = [], mp_shadow = [], mp_bars = [], mp_bar_seq = [], mp_active_market_seq = None,
      mp_book_sequence = 0, mp_pending_stops = 0, mp_dropped = 0, mp_dropped_seen = 0, mp_gap_pending = False,
      mp_last_position = (0, 0), mp_pre_snapshot = []\<rparr>"

section \<open>The tap\<close>

definition tap_is_enabled :: "MarketDataProcessor \<Rightarrow> bool" where
  "tap_is_enabled p = mp_leader p"

definition drop_frame :: "MarketDataProcessor \<Rightarrow> MarketDataProcessor" where
  "drop_frame p =
     p\<lparr>mp_dropped := fetch_add 1 (mp_dropped p), mp_gap_pending := True,
       mp_stats := st_dropped_frames_update (fetch_add 1) (mp_stats p)\<rparr>"

definition tap_publish :: "MarketDataProcessor \<Rightarrow> TapFrame \<Rightarrow> MarketDataProcessor" where
  "tap_publish p frame =
     (if \<not> mp_leader p then p
      else
        let p = p\<lparr>mp_stats := st_frames_update (fetch_add 1) (mp_stats p)\<rparr>
        in if length (mp_queue p) < max (mc_queue_capacity (mp_config p)) 1
           then let queued = wrap_u64 (st_queued_frames (mp_stats p) + 1)
                in p\<lparr>mp_queue := mp_queue p @ [frame],
                     mp_stats := (mp_stats p)\<lparr>st_queued_frames := queued,
                       st_queued_peak := max (st_queued_peak (mp_stats p)) queued\<rparr>\<rparr>
           else drop_frame p)"

section \<open>The control handle\<close>

definition begin_reset :: "MarketDataProcessor \<Rightarrow> MarketDataProcessor" where
  "begin_reset p = p\<lparr>mp_resetting := True\<rparr>"

definition is_publishing :: "MarketDataProcessor \<Rightarrow> bool" where
  "is_publishing p \<longleftrightarrow> \<not> mc_leader_only (mp_config p) \<or> mp_leader p"

definition set_epoch :: "MarketDataProcessor \<Rightarrow> u64 \<Rightarrow> u64 \<Rightarrow> MarketDataProcessor" where
  "set_epoch p epoch leader_id = p\<lparr>mp_epoch := epoch, mp_leader_id := leader_id\<rparr>"

definition set_leader :: "MarketDataProcessor \<Rightarrow> bool \<Rightarrow> MarketDataProcessor" where
  "set_leader p leader =
     (if mc_leader_only (mp_config p)
      then let p = p\<lparr>mp_leader := leader\<rparr> in if \<not> leader then p\<lparr>mp_resetting := True\<rparr> else p
      else p\<lparr>mp_leader := True\<rparr>)"

definition push_snapshot :: "MarketDataProcessor \<Rightarrow> SnapshotFrame \<Rightarrow> MarketDataProcessor" where
  "push_snapshot p snapshot = p\<lparr>mp_pending := Some snapshot, mp_resetting := True\<rparr>"

section \<open>Emission\<close>

definition emit ::
  "u16 \<Rightarrow> u16 \<Rightarrow> u64 \<Rightarrow> u16 \<Rightarrow> u64 \<Rightarrow> u32 \<Rightarrow> u64 \<Rightarrow> u32 \<Rightarrow> MessageBody \<Rightarrow> MarketDataProcessor \<Rightarrow> MarketDataProcessor" where
  "emit stream message_flags market_seq sub_seq log_index ordinal ts_ms symbol_id body p =
     p\<lparr>mp_sink := mp_sink p @
         [\<lparr>mm_stream = stream, mm_flags = message_flags, mm_market_seq = market_seq, mm_sub_seq = sub_seq,
           mm_log_index = log_index, mm_ordinal = ordinal, mm_epoch = mp_epoch p, mm_leader_id = mp_leader_id p,
           mm_ts_ms = ts_ms, mm_symbol_id = symbol_id, mm_body = body\<rparr>],
       mp_last_position := (log_index, ordinal)\<rparr>"

definition count_stat :: "(MarketDataStats \<Rightarrow> MarketDataStats) \<Rightarrow> MarketDataProcessor \<Rightarrow> MarketDataProcessor" where
  "count_stat f p = p\<lparr>mp_stats := f (mp_stats p)\<rparr>"

definition publishing :: "MarketDataProcessor \<Rightarrow> bool" where
  "publishing p \<longleftrightarrow> (\<not> mc_leader_only (mp_config p) \<or> mp_leader p) \<and> \<not> mp_resetting p"

definition emit_bbo ::
  "u32 \<Rightarrow> u64 \<Rightarrow> u64 \<Rightarrow> u32 \<Rightarrow> u64 \<Rightarrow> u16 \<Rightarrow> MarketDataProcessor \<Rightarrow> MarketDataProcessor" where
  "emit_bbo symbol market_seq log_index ordinal ts_ms sub_seq p =
     (case bt_get symbol (mp_shadow p) of
        None \<Rightarrow> p
      | Some book \<Rightarrow>
          let bid = shadow_best_bid book; ask = shadow_best_ask book
          in if bid = None \<and> ask = None \<and> sb_last_trade book = None then p
             else
               let (bid_price, bid_volume) = (case bid of None \<Rightarrow> (0, 0) | Some l \<Rightarrow> (ls_price l, ls_volume l));
                   (ask_price, ask_volume) = (case ask of None \<Rightarrow> (0, 0) | Some l \<Rightarrow> (ls_price l, ls_volume l));
                   mid = (if bid \<noteq> None \<and> ask \<noteq> None then midpoint bid_price ask_price else None);
                   spr = (if bid \<noteq> None \<and> ask \<noteq> None then Some (fixed_sub ask_price bid_price) else None)
               in count_stat (st_bbo_update (fetch_add 1))
                    (emit STREAM_BBO FLAG_END_OF_BATCH market_seq sub_seq log_index ordinal ts_ms symbol
                      (MB_Bbo \<lparr>bb_last_trade = sb_last_trade book, bb_bid = bid_price, bb_bid_volume = bid_volume,
                               bb_ask = ask_price, bb_ask_volume = ask_volume, bb_mid = mid, bb_spread = spr\<rparr>) p))"

section \<open>Bars of a frame\<close>

datatype feed_panic = RemainderByZero

text \<open>The first loop over the intervals: every interval's bar takes the fills, a finished window goes out.\<close>

definition roll_bar ::
  "u32 \<Rightarrow> u64 \<Rightarrow> (fixed \<times> fixed) list \<Rightarrow> u64 \<Rightarrow> (bar_key, BarAgg) btree \<times> (BarAgg \<times> bool) list
    \<Rightarrow> feed_panic + (bar_key, BarAgg) btree \<times> (BarAgg \<times> bool) list" where
  "roll_bar symbol ts_ms fills interval st =
     (if interval = 0 then Inl RemainderByZero
      else
        let (bars, outgoing) = st;
            key = (symbol, interval);
            window = ts_ms - ts_ms mod interval;
            fresh = foldl (BarAgg_update ts_ms) (BarAgg_new interval window ts_ms (fst (hd fills))) fills
        in case bt_get key bars of
             Some bar \<Rightarrow>
               if ba_window_start_ms bar = window
               then Inr (bt_insert key (foldl (BarAgg_update ts_ms) bar fills) bars, outgoing)
               else Inr (bt_insert key fresh bars,
                         if 0 < ba_trade_count bar then outgoing @ [(bar, True)] else outgoing)
           | None \<Rightarrow> Inr (bt_insert key fresh bars, outgoing))"

primrec roll_bars ::
  "u32 \<Rightarrow> u64 \<Rightarrow> (fixed \<times> fixed) list \<Rightarrow> u64 list \<Rightarrow> (bar_key, BarAgg) btree \<times> (BarAgg \<times> bool) list
    \<Rightarrow> feed_panic + (bar_key, BarAgg) btree \<times> (BarAgg \<times> bool) list" where
  "roll_bars symbol ts_ms fills [] st = Inr st"
| "roll_bars symbol ts_ms fills (interval # intervals) st =
     (case roll_bar symbol ts_ms fills interval st of
        Inl e \<Rightarrow> Inl e
      | Inr st \<Rightarrow> roll_bars symbol ts_ms fills intervals st)"

text \<open>The second loop: a bar goes out live when a second has passed since it last did.\<close>

definition live_bar ::
  "u32 \<Rightarrow> (bar_key, BarAgg) btree \<times> (BarAgg \<times> bool) list \<Rightarrow> u64
    \<Rightarrow> (bar_key, BarAgg) btree \<times> (BarAgg \<times> bool) list" where
  "live_bar symbol st interval =
     (let (bars, outgoing) = st; key = (symbol, interval)
      in case bt_get key bars of
           None \<Rightarrow> st
         | Some bar \<Rightarrow>
             if ba_last_live_ms bar < ba_last_ts_ms bar \<and> 1000 \<le> ba_last_ts_ms bar - ba_last_live_ms bar
             then let bar = bar\<lparr>ba_last_live_ms := ba_last_ts_ms bar\<rparr>
                  in (bt_insert key bar bars, outgoing @ [(bar, False)])
             else st)"

definition emit_bar ::
  "u32 \<Rightarrow> u64 \<Rightarrow> u64 \<Rightarrow> u32 \<Rightarrow> MarketDataProcessor \<Rightarrow> nat \<times> BarAgg \<times> bool \<Rightarrow> MarketDataProcessor" where
  "emit_bar symbol market_seq log_index ordinal p out =
     (let (sub_seq, bar, closed) = out;
          key = (symbol, ba_interval_ms bar);
          seq = wrap_u64 ((case bt_get key (mp_bar_seq p) of None \<Rightarrow> 0 | Some n \<Rightarrow> n) + 1);
          p = p\<lparr>mp_bar_seq := bt_insert key seq (mp_bar_seq p)\<rparr>;
          ts = (if closed then wrap_u64 (ba_window_start_ms bar + ba_interval_ms bar) else ba_last_ts_ms bar)
      in count_stat (st_bars_update (fetch_add 1))
           (emit STREAM_BAR (if closed then FLAG_BAR_CLOSE else FLAG_PARTIAL_BAR) market_seq (min sub_seq 65535)
              log_index ordinal ts symbol (MB_Bar (BarAgg_record bar seq)) p))"

definition update_bars ::
  "u32 \<Rightarrow> u64 \<Rightarrow> u64 \<Rightarrow> u32 \<Rightarrow> u64 \<Rightarrow> MatchEvent list \<Rightarrow> MarketDataProcessor \<Rightarrow> feed_panic + MarketDataProcessor" where
  "update_bars symbol market_seq log_index ordinal ts_ms events p =
     (let fills = map (\<lambda>event. (me_price event, me_volume event)) (filter (\<lambda>event. me_kind event = Fill) events)
      in if fills = [] then Inr p
         else
           let intervals = mc_bar_intervals_ms (mp_config p)
           in case roll_bars symbol ts_ms fills intervals (mp_bars p, []) of
                Inl e \<Rightarrow> Inl e
              | Inr st \<Rightarrow>
                  let (bars, outgoing) = foldl (live_bar symbol) st intervals;
                      p = p\<lparr>mp_bars := bars\<rparr>
                  in Inr (foldl (emit_bar symbol market_seq log_index ordinal) p (enumerate 0 outgoing)))"

section \<open>Ingesting a frame\<close>

definition emit_gap :: "TapFrame \<Rightarrow> MarketDataProcessor \<Rightarrow> MarketDataProcessor" where
  "emit_gap frame p =
     (if mp_gap_pending p
      then
        let p = p\<lparr>mp_gap_pending := False\<rparr>;
            delta = mp_dropped p - mp_dropped_seen p;
            gap = \<lparr>gr_last_good_log_index = fst (mp_last_position p), gr_last_good_ordinal = snd (mp_last_position p),
                   gr_dropped = min delta (2 ^ 32 - 1)\<rparr>;
            p = p\<lparr>mp_dropped_seen := mp_dropped p\<rparr>
        in count_stat (st_gaps_update (fetch_add 1))
             (emit STREAM_STATUS FLAG_GAP (tf_market_seq frame) GAP_SUB_SEQ (tf_log_index frame) 0 (tf_ts_ms frame)
               (tf_symbol_id frame) (MB_Gap gap) p)
      else p)"

definition shadow_of :: "MarketDataProcessor \<Rightarrow> u32 \<Rightarrow> ShadowBook" where
  "shadow_of p symbol = (case bt_get symbol (mp_shadow p) of None \<Rightarrow> ShadowBook_default | Some book \<Rightarrow> book)"

definition set_shadow :: "u32 \<Rightarrow> ShadowBook \<Rightarrow> MarketDataProcessor \<Rightarrow> MarketDataProcessor" where
  "set_shadow symbol book p = p\<lparr>mp_shadow := bt_insert symbol book (mp_shadow p)\<rparr>"

text \<open>The \<open>BTreeSet\<close> of touched levels is an ordered map to nothing.\<close>

definition touch ::
  "u32 \<Rightarrow> MarketDataProcessor \<times> (nat \<times> fixed, unit) btree \<Rightarrow> DepthChange
    \<Rightarrow> MarketDataProcessor \<times> (nat \<times> fixed, unit) btree" where
  "touch symbol st change =
     (let (p, touched) = st;
          side = (case dc_side change of Buy \<Rightarrow> 0 | Sell \<Rightarrow> 1)
      in (set_shadow symbol (shadow_apply (shadow_of p symbol) change) p,
          bt_insert (side, dc_price change) () touched))"

definition trade_of_event :: "u64 \<Rightarrow> MatchEvent \<Rightarrow> u64 \<Rightarrow> TradeRecord" where
  "trade_of_event ts_ms event maker_sequence =
     \<lparr>tr_log_index = ev_log_index (me_event_id event), tr_ordinal = ev_ordinal (me_event_id event), tr_ts_ms = ts_ms,
      tr_price = me_price event, tr_volume = me_volume event, tr_quote_volume = me_quote_volume event,
      tr_taker_fee = me_taker_fee event, tr_taker_fee_asset = me_taker_fee_asset event,
      tr_maker_fee = me_maker_fee event, tr_maker_fee_asset = me_maker_fee_asset event, tr_error = me_error event,
      tr_taker_side = me_side event, tr_taker_sequence = me_order_sequence event, tr_maker_sequence = maker_sequence\<rparr>"

definition collect_trade ::
  "u32 \<Rightarrow> u64 \<Rightarrow> MarketDataProcessor \<times> TradeRecord list \<Rightarrow> MatchEvent \<Rightarrow> MarketDataProcessor \<times> TradeRecord list" where
  "collect_trade symbol ts_ms st event =
     (let (p, trades) = st
      in if me_kind event \<noteq> Fill then st
         else (case me_counterparty_sequence event of
                 None \<Rightarrow> st
               | Some maker_sequence \<Rightarrow>
                   (set_shadow symbol ((shadow_of p symbol)\<lparr>sb_last_trade := Some (me_price event)\<rparr>) p,
                    trades @ [trade_of_event ts_ms event maker_sequence])))"

definition touched_updates :: "ShadowBook \<Rightarrow> (nat \<times> fixed, unit) btree \<Rightarrow> LevelUpdate list" where
  "touched_updates book touched =
     List.map_filter (\<lambda>(side, price).
       let side = (if side = 0 then Buy else Sell)
       in map_option (\<lambda>level. \<lparr>lu_side = side, lu_level = depth_of_level level\<rparr>) (shadow_level book side price))
       (map fst touched)"

definition lifecycle_of_event :: "u64 \<Rightarrow> MatchEvent \<Rightarrow> LifecycleRecord" where
  "lifecycle_of_event ts_ms event =
     \<lparr>lr_log_index = ev_log_index (me_event_id event), lr_ordinal = ev_ordinal (me_event_id event), lr_ts_ms = ts_ms,
      lr_kind = me_kind event, lr_order_sequence = me_order_sequence event, lr_side = me_side event,
      lr_counterparty_sequence = me_counterparty_sequence event, lr_price = me_price event, lr_volume = me_volume event,
      lr_quote_volume = me_quote_volume event, lr_volume_unit = me_volume_unit event,
      lr_taker_fee = me_taker_fee event, lr_taker_fee_asset = me_taker_fee_asset event,
      lr_maker_fee = me_maker_fee event, lr_maker_fee_asset = me_maker_fee_asset event, lr_error = me_error event,
      lr_reason = me_reason event\<rparr>"

text \<open>\<open>retain\<close> with the counter \<open>shed\<close>: the first \<open>overflow\<close> rested records go.\<close>

fun shed_rested :: "nat \<Rightarrow> LifecycleRecord list \<Rightarrow> LifecycleRecord list \<times> nat" where
  "shed_rested overflow [] = ([], 0)"
| "shed_rested overflow (r # rs) =
     (if 0 < overflow \<and> lr_kind r = Rested
      then let (kept, shed) = shed_rested (overflow - 1) rs in (kept, Suc shed)
      else let (kept, shed) = shed_rested overflow rs in (r # kept, shed))"

definition emit_lifecycle :: "TapFrame \<Rightarrow> u32 \<Rightarrow> MarketDataProcessor \<Rightarrow> MarketDataProcessor" where
  "emit_lifecycle frame ordinal p =
     (if tf_events frame = [] then p
      else
        let records = map (lifecycle_of_event (tf_ts_ms frame)) (tf_events frame);
            cap = max (mc_lifecycle_batch_max (mp_config p)) 1;
            (records, p) =
              (if cap < length records
               then let (kept, shed) = shed_rested (length records - cap) records
                    in (kept, count_stat (st_lifecycle_shed_update (fetch_add (wrap_u64 shed))) p)
               else (records, p))
        in count_stat (st_lifecycle_messages_update (fetch_add 1))
             (emit STREAM_LIFECYCLE FLAG_END_OF_BATCH (tf_market_seq frame) 0 (tf_log_index frame) ordinal (tf_ts_ms frame)
               (tf_symbol_id frame) (MB_Lifecycle records) p))"

definition emit_status :: "TapFrame \<Rightarrow> u32 \<Rightarrow> MarketDataProcessor \<Rightarrow> MarketDataProcessor" where
  "emit_status frame ordinal p =
     (if 0 < mc_status_every (mp_config p) \<and> tf_market_seq frame mod mc_status_every (mp_config p) = 0
      then count_stat (st_status_update (fetch_add 1))
             (emit STREAM_STATUS 0 (tf_market_seq frame) 0 (tf_log_index frame) ordinal (tf_ts_ms frame) (tf_symbol_id frame)
               (MB_Status \<lparr>sr_last_log_index = tf_log_index frame, sr_last_ordinal = ordinal,
                 sr_last_market_seq = tf_market_seq frame, sr_last_sub_seq = 0,
                 sr_applied_index = st_last_log_index (mp_stats p), sr_book_sequence = mp_book_sequence p,
                 sr_pending_stops = mp_pending_stops p\<rparr>) p)
      else p)"

definition emit_depth :: "TapFrame \<Rightarrow> u32 \<Rightarrow> (nat \<times> fixed, unit) btree \<Rightarrow> MarketDataProcessor \<Rightarrow> MarketDataProcessor" where
  "emit_depth frame ordinal touched p =
     (if touched = [] then p
      else
        let updates = (case bt_get (tf_symbol_id frame) (mp_shadow p) of
                         None \<Rightarrow> [] | Some book \<Rightarrow> touched_updates book touched)
        in if updates = [] then p
           else count_stat (st_depth_deltas_update (fetch_add 1))
                  (emit STREAM_DEPTH_DELTA FLAG_END_OF_BATCH (tf_market_seq frame) 0 (tf_log_index frame) ordinal
                    (tf_ts_ms frame) (tf_symbol_id frame) (MB_DepthDelta updates) p))"

definition emit_trades :: "TapFrame \<Rightarrow> u32 \<Rightarrow> TradeRecord list \<Rightarrow> MarketDataProcessor \<Rightarrow> MarketDataProcessor" where
  "emit_trades frame ordinal trades p =
     (if trades = [] then p
      else
        let p = count_stat (st_trades_update (fetch_add (wrap_u64 (length trades)))) p
        in count_stat (st_trade_messages_update (fetch_add 1))
             (emit STREAM_TRADE FLAG_END_OF_BATCH (tf_market_seq frame) 0 (tf_log_index frame) ordinal (tf_ts_ms frame)
               (tf_symbol_id frame) (MB_Trade trades) p))"

definition ingest_active :: "TapFrame \<Rightarrow> MarketDataProcessor \<Rightarrow> feed_panic + MarketDataProcessor" where
  "ingest_active frame p =
     (let p = emit_gap frame p;
          symbol = tf_symbol_id frame;
          ordinal = (case vec_last (tf_events frame) of None \<Rightarrow> 0 | Some event \<Rightarrow> ev_ordinal (me_event_id event));
          (p, touched) = foldl (touch symbol) (p, []) (tf_depth frame);
          (p, trades) = foldl (collect_trade symbol (tf_ts_ms frame)) (p, []) (tf_events frame);
          p = emit_depth frame ordinal touched p;
          p = (if touched \<noteq> [] \<or> trades \<noteq> []
               then emit_bbo symbol (tf_market_seq frame) (tf_log_index frame) ordinal (tf_ts_ms frame) 0 p else p);
          p = emit_trades frame ordinal trades p;
          p = emit_lifecycle frame ordinal p
      in case update_bars symbol (tf_market_seq frame) (tf_log_index frame) ordinal (tf_ts_ms frame) (tf_events frame) p of
           Inl e \<Rightarrow> Inl e
         | Inr p \<Rightarrow> Inr (emit_status frame ordinal p))"

definition ingest :: "TapFrame \<Rightarrow> MarketDataProcessor \<Rightarrow> feed_panic + MarketDataProcessor" where
  "ingest frame p =
     (if mp_resetting p
      then Inr (if length (mp_pre_snapshot p) < 4096
                then p\<lparr>mp_pre_snapshot := mp_pre_snapshot p @ [frame]\<rparr> else drop_frame p)
      else
        let p = p\<lparr>mp_stats := (st_frames_update (fetch_add 1) (mp_stats p))
                   \<lparr>st_last_market_seq := tf_market_seq frame, st_last_log_index := tf_log_index frame,
                    st_last_ts_ms := tf_ts_ms frame, st_publishing := publishing p\<rparr>\<rparr>
        in if \<not> publishing p then Inr p
           else if (case mp_active_market_seq p of None \<Rightarrow> False | Some active \<Rightarrow> tf_market_seq frame < active) then Inr p
           else ingest_active frame p)"

primrec ingest_all :: "TapFrame list \<Rightarrow> MarketDataProcessor \<Rightarrow> feed_panic + MarketDataProcessor" where
  "ingest_all [] p = Inr p"
| "ingest_all (frame # frames) p = (case ingest frame p of Inl e \<Rightarrow> Inl e | Inr p \<Rightarrow> ingest_all frames p)"

section \<open>Reset snapshots and the processor loop\<close>

definition install_reset :: "SnapshotFrame \<Rightarrow> MarketDataProcessor \<Rightarrow> MarketDataProcessor" where
  "install_reset snapshot p =
     (let p = count_stat (st_snapshots_update (fetch_add 1)) p;
          symbol = sf_symbol_id snapshot;
          p = set_shadow symbol (shadow_reset (sf_bids snapshot) (sf_asks snapshot) (sf_last_trade snapshot)) p;
          p = p\<lparr>mp_bars := [], mp_bar_seq := [], mp_active_market_seq := Some (sf_market_seq snapshot),
                mp_book_sequence := sf_book_sequence snapshot, mp_pending_stops := sf_pending_stops snapshot,
                mp_dropped_seen := mp_dropped p, mp_last_position := (sf_log_index snapshot, 0),
                mp_resetting := False\<rparr>
      in count_stat (st_publishing_update (\<lambda>_. publishing p)) p)"

definition apply_snapshot :: "SnapshotFrame \<Rightarrow> MarketDataProcessor \<Rightarrow> feed_panic + MarketDataProcessor" where
  "apply_snapshot snapshot p =
     (let p = install_reset snapshot p;
          symbol = sf_symbol_id snapshot;
          levels = (\<lambda>side. case bt_get symbol (mp_shadow p) of
             None \<Rightarrow> [] | Some book \<Rightarrow> shadow_depth book side (mc_depth_levels (mp_config p)));
          p = count_stat (st_depth_snapshots_update (fetch_add 1))
                (emit STREAM_DEPTH_SNAPSHOT (FLAG_SNAPSHOT OR FLAG_RESET) (sf_market_seq snapshot) 0 (sf_log_index snapshot) 0
                  (sf_ts_ms snapshot) symbol (MB_DepthSnapshot \<lparr>ds_bids = levels Buy, ds_asks = levels Sell\<rparr>) p);
          p = emit_bbo symbol (sf_market_seq snapshot) (sf_log_index snapshot) 0 (sf_ts_ms snapshot) SNAPSHOT_BBO_SUB_SEQ p;
          buffered = mp_pre_snapshot p
      in ingest_all buffered (p\<lparr>mp_pre_snapshot := []\<rparr>))"

text \<open>One turn of \<open>run\<close>: a pending snapshot first, then at most one queued frame.\<close>

definition run_turn :: "MarketDataProcessor \<Rightarrow> feed_panic + MarketDataProcessor" where
  "run_turn p =
     (case (case mp_pending p of
              None \<Rightarrow> Inr p
            | Some snapshot \<Rightarrow> apply_snapshot snapshot (p\<lparr>mp_pending := None\<rparr>)) of
        Inl e \<Rightarrow> Inl e
      | Inr p \<Rightarrow>
          (case mp_queue p of
             [] \<Rightarrow> Inr p
           | frame # queued \<Rightarrow>
               ingest frame (p\<lparr>mp_queue := queued,
                 mp_stats := st_queued_frames_update (\<lambda>n. if n = 0 then 2 ^ 64 - 1 else n - 1) (mp_stats p)\<rparr>)))"

end
