(* ===== verification/Shadow_Feed.thy ===== *)
theory Shadow_Feed
  imports Recovery_Properties Book_Maintenance Market_Feed
begin

text \<open>
  The book the market-data task keeps follows the book of the state machine.  The shadow book of
  \<open>src/market_data/mod.rs\<close> starts from the depth of a reset snapshot and is changed only by the depth
  journals that arrive in frames; here a reset with all levels is shown to install the level totals of
  the book, and the frames of a log entry to lead from the totals before the entry to the totals after.
\<close>

section \<open>The shadow book follows the book\<close>

text \<open>
  What the shadow book holds of given level totals: a level for exactly the prices with orders, its
  volume modulo the \<open>i128\<close> wrap-around of the sum.
\<close>

definition shadow_tracks :: "ShadowBook \<Rightarrow> (OrderSide \<Rightarrow> fixed \<Rightarrow> int \<times> int) \<Rightarrow> bool" where
  "shadow_tracks book t \<longleftrightarrow>
     bt_ok (sb_bids book) \<and> bt_ok (sb_asks book) \<and>
     (\<forall>side p. shadow_level book side p =
        (if snd (t side p) = 0 then None
         else Some \<lparr>ls_price = p, ls_volume = wrap_i128 (fst (t side p)), ls_orders = nat (snd (t side p))\<rparr>))"

lemma wrap_i128_add: "wrap_i128 (wrap_i128 a + c) = wrap_i128 (a + c)"
  by (simp add: wrap_i128_def) (metis (no_types, lifting) add.assoc add.commute mod_add_left_eq)

definition side_map :: "ShadowBook \<Rightarrow> OrderSide \<Rightarrow> (fixed, LevelState) btree" where
  "side_map book side = (case side of Buy \<Rightarrow> sb_bids book | Sell \<Rightarrow> sb_asks book)"

lemma shadow_level_map: "shadow_level book side p = bt_get p (side_map book side)"
  by (simp add: shadow_level_def side_map_def split: OrderSide.split)

lemma side_map_apply:
  "side_map (shadow_apply book c) side = (if dc_side c = side then apply_level (side_map book side) c else side_map book side)"
  by (cases side; cases "dc_side c") (simp_all add: side_map_def shadow_apply_def)

lemma apply_level_get:
  assumes ok: "bt_ok m"
    and get: "bt_get (dc_price c) m = (if n = 0 then None
      else Some \<lparr>ls_price = dc_price c, ls_volume = wrap_i128 v, ls_orders = nat n\<rparr>)"
    and good: "0 \<le> n" "n = 0 \<longrightarrow> v = 0" "0 \<le> n + dc_delta_orders c" "n + dc_delta_orders c < 2 ^ 32"
      "n + dc_delta_orders c = 0 \<longrightarrow> v + dc_delta_volume c = 0"
  shows "bt_ok (apply_level m c)"
    "bt_get q (apply_level m c) =
      (if q \<noteq> dc_price c then bt_get q m
       else if n + dc_delta_orders c = 0 then None
       else Some \<lparr>ls_price = q, ls_volume = wrap_i128 (v + dc_delta_volume c), ls_orders = nat (n + dc_delta_orders c)\<rparr>)"
proof -
  have w0: "wrap_i128 0 = 0" by (simp add: wrap_i128_def)
  define level where "level = (case bt_get (dc_price c) m of Some level \<Rightarrow> level
    | None \<Rightarrow> \<lparr>ls_price = dc_price c, ls_volume = 0, ls_orders = 0\<rparr>)"
  have l: "ls_price level = dc_price c" "ls_volume level = wrap_i128 v" "int (ls_orders level) = n"
    using get good w0 by (auto simp: level_def)
  have w: "wrap_u32 (nat (max (n + dc_delta_orders c) 0)) = nat (n + dc_delta_orders c)"
    using good by (simp add: wrap_u32_def)
  have eq: "apply_level m c =
    (if n + dc_delta_orders c = 0 then bt_remove (dc_price c) m
     else bt_insert (dc_price c) (level\<lparr>ls_volume := wrap_i128 (v + dc_delta_volume c), ls_orders := nat (n + dc_delta_orders c)\<rparr>) m)"
  proof (cases "n + dc_delta_orders c = 0")
    case True
    then have "v + dc_delta_volume c = 0" using good by simp
    then show ?thesis
      using True l w0 by (simp add: apply_level_def Let_def level_def[symmetric] fixed_add_def wrap_i128_add wrap_u32_def)
  next
    case False
    then have "0 < nat (n + dc_delta_orders c)" using good by simp
    then show ?thesis
      using False l w by (simp add: apply_level_def Let_def level_def[symmetric] fixed_add_def wrap_i128_add)
  qed
  have "level\<lparr>ls_volume := a, ls_orders := k\<rparr> = \<lparr>ls_price = dc_price c, ls_volume = a, ls_orders = k\<rparr>" for a k
    using l(1) by (cases level) simp
  then show "bt_ok (apply_level m c)"
    "bt_get q (apply_level m c) =
      (if q \<noteq> dc_price c then bt_get q m
       else if n + dc_delta_orders c = 0 then None
       else Some \<lparr>ls_price = q, ls_volume = wrap_i128 (v + dc_delta_volume c), ls_orders = nat (n + dc_delta_orders c)\<rparr>)"
    using ok by (simp_all add: eq bt_ok_insert bt_ok_remove bt_get_insert bt_get_remove)
qed

lemma shadow_tracks_iff:
  "shadow_tracks book t \<longleftrightarrow>
     (\<forall>side. bt_ok (side_map book side) \<and> (\<forall>p. bt_get p (side_map book side) =
        (if snd (t side p) = 0 then None
         else Some \<lparr>ls_price = p, ls_volume = wrap_i128 (fst (t side p)), ls_orders = nat (snd (t side p))\<rparr>)))"
proof -
  have "(\<forall>side. P side) \<longleftrightarrow> P Buy \<and> P Sell" for P by (metis OrderSide.exhaust)
  then show ?thesis by (simp add: shadow_tracks_def shadow_level_map side_map_def) blast
qed

lemma shadow_replay:
  assumes "shadow_tracks book t" "\<And>side. replay_ok (t side) side j" "\<forall>c \<in> set j. dc_delta_orders c \<le> 1"
    and "\<And>side p. snd (t side p) + int (length j) < 2 ^ 32"
  shows "shadow_tracks (foldl shadow_apply book j)
    (\<lambda>side p. (fst (t side p) + journal_volume j side p, snd (t side p) + journal_orders j side p))"
  using assms
proof (induction j arbitrary: book t)
  case Nil
  then show ?case by simp
next
  case (Cons c j)
  let ?t = "\<lambda>side p. (fst (t side p) + journal_volume [c] side p, snd (t side p) + journal_orders [c] side p)"
  have r: "0 \<le> snd (t side p) + journal_orders (take k (c # j)) side p"
    "snd (t side p) + journal_orders (take k (c # j)) side p = 0 \<longrightarrow> fst (t side p) + journal_volume (take k (c # j)) side p = 0"
    if "k \<le> Suc (length j)" for k side p
    using Cons.prems(2)[of side, unfolded replay_ok_def, rule_format, of k p] that by auto
  have "replay_ok (?t side) side j" for side
    unfolding replay_ok_def
  proof (intro allI impI)
    fix k p
    assume "k \<le> length j"
    then show "0 \<le> snd (?t side p) + journal_orders (take k j) side p
        \<and> (snd (?t side p) + journal_orders (take k j) side p = 0 \<longrightarrow> fst (?t side p) + journal_volume (take k j) side p = 0)"
      using r[of "Suc k" side p] by (simp add: journal_Cons add.assoc)
  qed
  moreover have "shadow_tracks (shadow_apply book c) ?t"
    unfolding shadow_tracks_iff
  proof (intro allI)
    fix side
    have tr: "bt_ok (side_map book side)" "\<And>p. bt_get p (side_map book side) =
        (if snd (t side p) = 0 then None
         else Some \<lparr>ls_price = p, ls_volume = wrap_i128 (fst (t side p)), ls_orders = nat (snd (t side p))\<rparr>)"
      using Cons.prems(1) by (simp_all add: shadow_tracks_iff)
    show "bt_ok (side_map (shadow_apply book c) side) \<and> (\<forall>p. bt_get p (side_map (shadow_apply book c) side) =
        (if snd (?t side p) = 0 then None
         else Some \<lparr>ls_price = p, ls_volume = wrap_i128 (fst (?t side p)), ls_orders = nat (snd (?t side p))\<rparr>))"
    proof (cases "dc_side c = side")
      case True
      have "dc_delta_orders c \<le> 1" "snd (t side (dc_price c)) + 1 + int (length j) < 2 ^ 32"
        using Cons.prems(3) Cons.prems(4)[of side "dc_price c"] by simp_all
      note g = apply_level_get[where c = c, OF tr(1) tr(2)]
      have "bt_ok (apply_level (side_map book side) c)"
        "\<And>q. bt_get q (apply_level (side_map book side) c) =
          (if q \<noteq> dc_price c then bt_get q (side_map book side)
           else if snd (t side (dc_price c)) + dc_delta_orders c = 0 then None
           else Some \<lparr>ls_price = q, ls_volume = wrap_i128 (fst (t side (dc_price c)) + dc_delta_volume c),
             ls_orders = nat (snd (t side (dc_price c)) + dc_delta_orders c)\<rparr>)"
        using g r[of 0 side "dc_price c"] r[of 1 side "dc_price c"] True Cons.prems(3) Cons.prems(4)[of side "dc_price c"]
        by (simp_all add: journal_Cons)
      then show ?thesis using tr(2) True by (simp add: side_map_apply journal_Cons)
    next
      case False
      then show ?thesis using tr by (simp add: side_map_apply journal_Cons)
    qed
  qed
  moreover have "snd (?t side p) + int (length j) < 2 ^ 32" for side p
    using Cons.prems(4)[of side p] Cons.prems(3) by (auto simp: journal_Cons)
  ultimately have "shadow_tracks (foldl shadow_apply (shadow_apply book c) j)
      (\<lambda>side p. (fst (?t side p) + journal_volume j side p, snd (?t side p) + journal_orders j side p))"
    using Cons.IH[of "shadow_apply book c" ?t] Cons.prems(3) by simp
  then show ?case by (simp add: journal_Cons add.assoc)
qed

section \<open>The journals of an entry\<close>

definition replays :: "OrderBook \<Rightarrow> DepthChange list \<Rightarrow> OrderBook \<Rightarrow> bool" where
  "replays b j b' \<longleftrightarrow> (\<forall>c \<in> set j. dc_delta_orders c \<le> 1) \<and> (\<forall>side. replay_ok (totals b side) side j)
     \<and> (\<forall>side p. totals b' side p =
          (fst (totals b side p) + journal_volume j side p, snd (totals b side p) + journal_orders j side p))"

lemma totals_cong: "bids b' = bids b \<Longrightarrow> asks b' = asks b \<Longrightarrow> totals b' = totals b"
  by (simp add: totals_def fun_eq_iff split: OrderSide.split)

lemma replays_refl: "totals b' = totals b \<Longrightarrow> replays b [] b'"
  by (simp add: replays_def replay_ok_Nil)

lemma replays_cong: "totals a = totals b \<Longrightarrow> totals a' = totals b' \<Longrightarrow> replays a j a' = replays b j b'"
  by (simp add: replays_def)

lemma replays_trans:
  assumes "replays b j c" "replays c k d"
  shows "replays b (j @ k) d"
proof -
  have "replay_ok (totals b side) side (j @ k)" for side
  proof (rule replay_ok_append)
    have "totals c side = (\<lambda>p. (fst (totals b side p) + journal_volume j side p, snd (totals b side p) + journal_orders j side p))"
      using assms(1) by (auto simp: replays_def)
    then show "replay_ok (\<lambda>p. (fst (totals b side p) + journal_volume j side p, snd (totals b side p) + journal_orders j side p)) side k"
      using assms(2) unfolding replays_def by metis
  qed (use assms(1) in \<open>simp add: replays_def\<close>)
  then show ?thesis using assms by (auto simp: replays_def journal_append add.assoc)
qed

lemma journals_replays:
  assumes "journals b b'" "depth_journal b = []"
  shows "replays b (depth_journal b') b'"
  using assms totals_balance[of b'] balance_totals[of b] by (auto simp: journals_def replays_def)

lemma shadow_follows:
  assumes "shadow_tracks book (totals b)" "replays b j b'"
    and "\<And>side p. snd (totals b side p) + int (length j) < 2 ^ 32"
  shows "shadow_tracks (foldl shadow_apply book j) (totals b')"
proof -
  have "totals b' = (\<lambda>side p. (fst (totals b side p) + journal_volume j side p, snd (totals b side p) + journal_orders j side p))"
    using assms(2) by (auto simp: replays_def fun_eq_iff)
  then show ?thesis using shadow_replay[OF assms(1) _ _ assms(3)] assms(2) by (simp add: replays_def)
qed

definition tapped :: "('l, 'sm) StateMachineStoreInner \<Rightarrow> bool" where
  "tapped s \<longleftrightarrow> market_data s \<and> record_depth (orderbook s) \<and> depth_journal (orderbook s) = []"

lemma apply_one_replays:
  assumes ap: "apply_one I raft env pos s r i f out = Inr (s', resp, n, out')"
    and inv: "core_inv s" and tap: "tapped s" and gate: "env_gate env pos"
    and seq: "ob_sequence (orderbook s) < 2 ^ 64 - 1" and I: "i128_typed I" and ty: "request_typed r"
  shows "\<exists>j. out_depth out' = out_depth out @ j \<and> replays (orderbook s) j (orderbook s') \<and> tapped s'"
  using ap inv[unfolded core_inv_def, THEN conjunct1] seq I ty
proof (cases rule: apply_one_cases)
  case quiet
  then show ?thesis using tap by (intro exI[of _ "[]"]) (simp add: out_depth_def replays_refl)
next
  case (configured config)
  then have "orderbook s' = (orderbook s)\<lparr>last_trade_price := None\<rparr>" "market_data s' = market_data s"
    using configure_symbol_core(2)[OF _ configured(1)] inv by (simp_all add: core_inv_def)
  moreover have "out_depth out' = out_depth out" using configured by (simp add: out_depth_def)
  moreover have "totals ((orderbook s)\<lparr>last_trade_price := None\<rparr>) = totals (orderbook s)"
    by (rule totals_cong) simp_all
  ultimately show ?thesis
    using tap replays_refl by (intro exI[of _ "[]"]) (simp add: tapped_def)
next
  case mutated
  then obtain b1 evs s1 where k: "keeps (next_book (orderbook s)) b1" and e: "emits (env_gate env pos) s b1 evs out out'"
    and sr: "settled_request s b1 evs i f s1" and s': "s' = drained s1" by blast
  note w = settled_request_window[OF sr]
  have b: "orderbook s' = b1\<lparr>depth_journal := []\<rparr>" "market_data s'"
    using tap w by (simp_all add: s' drained_def tapped_def)
  have j: "journals (next_book (orderbook s)) b1" "record_depth b1" using k tap by (simp_all add: keeps_def tapped_def)
  have "replays (next_book (orderbook s)) (depth_journal b1) b1"
    using journals_replays[OF j(1)] tap by (simp add: tapped_def)
  then have "replays (orderbook s) (depth_journal b1) (orderbook s')"
    unfolding b(1) using replays_cong[OF totals_cong totals_cong, of "next_book (orderbook s)" "orderbook s" b1 "b1\<lparr>depth_journal := []\<rparr>"]
    by simp
  then show ?thesis using e gate tap b j(2) by (auto simp: emits_def tapped_def)
qed

lemma apply_batch_replays:
  assumes "apply_batch I raft env pos s rs i f resps out = Inr (s', resps', out')"
    and "core_inv s" "tapped s" "\<And>pos. env_gate env pos" "i128_typed I" "\<forall>r \<in> set rs. request_typed r"
    and "ob_sequence (orderbook s) + length rs \<le> 2 ^ 64 - 1"
  shows "\<exists>j. out_depth out' = out_depth out @ j \<and> replays (orderbook s) j (orderbook s') \<and> tapped s'"
  using assms
proof (induction rs arbitrary: pos s f resps out)
  case Nil
  then show ?case by (auto simp: replays_refl)
next
  case (Cons r rs)
  obtain t resp n out1 where one: "apply_one I raft env pos s r i f out = Inr (t, resp, n, out1)"
    and rest: "apply_batch I raft env (Suc pos) t rs i (sat_add_u32 f (wrap_u32 n)) (resps @ [resp]) out1
      = Inr (s', resps', out')"
    using Cons.prems(1) by (auto split: sum.splits)
  have q: "ob_sequence (orderbook s) < 2 ^ 64 - 1" "request_typed r" using Cons.prems(6,7) by simp_all
  have c: "core_inv t" "ob_sequence (orderbook t) + length rs \<le> 2 ^ 64 - 1"
    using apply_one_core[OF one Cons.prems(2) q(1) Cons.prems(5) q(2)] Cons.prems(7) by simp_all
  obtain j where j: "out_depth out1 = out_depth out @ j" "replays (orderbook s) j (orderbook t)" "tapped t"
    using apply_one_replays[OF one Cons.prems(2,3,4) q(1) Cons.prems(5) q(2)] by blast
  obtain k where "out_depth out' = out_depth out1 @ k" "replays (orderbook t) k (orderbook s')" "tapped s'"
    using Cons.IH[OF rest c(1) j(3) Cons.prems(4,5) _ c(2)] Cons.prems(6) by auto
  then show ?case using j replays_trans[OF j(2)] by auto
qed

lemma apply_entry_replays:
  assumes ap: "apply_entry I raft env s e = Inr (s', resp, out)"
    and inv: "core_inv s" and tap: "tapped s" and gate: "\<And>pos. env_gate env pos" and I: "i128_typed I"
    and ok: "applicable s e"
  shows "replays (orderbook s) (out_depth out) (orderbook s') \<and> tapped s'"
proof -
  let ?s = "s\<lparr>last_applied_log := Some (en_log_id e)\<rparr>" and ?i = "rf_index raft (en_log_id e)"
  let ?o = "\<lparr>out_publishes = [], out_resets = []\<rparr>"
  have s: "core_inv ?s" "tapped ?s" using inv tap by (simp_all add: core_inv_def tapped_def)
  have o1: "out_depth ?o = []" by (simp add: out_depth_def)
  show ?thesis
  proof (cases "en_payload e")
    case Blank
    with ap tap show ?thesis by (auto simp: apply_entry_def out_depth_def replays_refl tapped_def)
  next
    case (Membership mem)
    with ap tap show ?thesis by (auto simp: apply_entry_def out_depth_def replays_refl tapped_def)
  next
    case (Normal r)
    show ?thesis
    proof (cases "\<exists>rs. r = Batch rs")
      case True
      then obtain rs where r: "r = Batch rs" by blast
      obtain resps where "apply_batch I raft env 0 ?s rs ?i 0 [] ?o = Inr (s', resps, out)"
        using ap Normal r by (auto simp: apply_entry_def split: sum.splits)
      from apply_batch_replays[OF this s gate I] obtain j where
          "out_depth out = out_depth ?o @ j" "replays (orderbook ?s) j (orderbook s')" "tapped s'"
        using Normal r ok by (auto simp: applicable_def entry_requests_def list_all_iff)
      then show ?thesis using o1 by simp
    next
      case False
      then have pr: "payload_requests (en_payload e) = [r]" using Normal by (cases r) auto
      obtain n where one: "apply_one I raft env 0 ?s r ?i 0 ?o = Inr (s', resp, n, out)"
        using ap by (auto simp: apply_entry_single[OF Normal False] split: sum.splits prod.splits)
      from apply_one_replays[OF one s gate _ I] obtain j where
          "out_depth out = out_depth ?o @ j" "replays (orderbook ?s) j (orderbook s')" "tapped s'"
        using ok pr by (auto simp: applicable_def entry_requests_def)
      then show ?thesis using o1 by simp
    qed
  qed
qed

section \<open>Ingesting the frames\<close>

text \<open>What emission leaves alone: everything the next frame's admission and the shadow books depend on.\<close>

definition feed_state ::
  "MarketDataProcessor \<Rightarrow> MarketDataConfig \<times> bool \<times> bool \<times> u64 option \<times> (u32, ShadowBook) btree" where
  "feed_state p = (mp_config p, mp_leader p, mp_resetting p, mp_active_market_seq p, mp_shadow p)"

lemma feed_state_emit [simp]:
  "feed_state (emit stream fl ms sub li ord ts sid body p) = feed_state p"
  "feed_state (count_stat f p) = feed_state p"
  by (simp_all add: feed_state_def emit_def count_stat_def)

lemma feed_state_emits [simp]:
  "feed_state (emit_gap frame p) = feed_state p"
  "feed_state (emit_bbo sid ms li ord ts sub p) = feed_state p"
  "feed_state (emit_depth frame ord touched p) = feed_state p"
  "feed_state (emit_trades frame ord trades p) = feed_state p"
  "feed_state (emit_lifecycle frame ord p) = feed_state p"
  "feed_state (emit_status frame ord p) = feed_state p"
  "feed_state (emit_bar sid ms li ord p out) = feed_state p"
proof -
  show "feed_state (emit_gap frame p) = feed_state p"
    by (simp add: emit_gap_def Let_def) (simp add: feed_state_def)
  show "feed_state (emit_bbo sid ms li ord ts sub p) = feed_state p"
    by (simp add: emit_bbo_def Let_def split: option.split)
  show "feed_state (emit_depth frame ord touched p) = feed_state p"
    by (simp add: emit_depth_def Let_def)
  show "feed_state (emit_trades frame ord trades p) = feed_state p"
    by (simp add: emit_trades_def Let_def)
  show "feed_state (emit_lifecycle frame ord p) = feed_state p"
    by (simp add: emit_lifecycle_def Let_def split_beta)
  show "feed_state (emit_status frame ord p) = feed_state p"
    by (simp add: emit_status_def)
  show "feed_state (emit_bar sid ms li ord p out) = feed_state p"
    by (simp add: emit_bar_def Let_def split_beta) (simp add: feed_state_def)
qed

lemma roll_bars_total: "0 \<notin> set intervals \<Longrightarrow> \<exists>st'. roll_bars sid ts fills intervals st = Inr st'"
  by (induction intervals arbitrary: st) (auto simp: roll_bar_def Let_def split_beta split: sum.splits option.splits if_splits)

lemma update_bars_state:
  assumes "0 \<notin> set (mc_bar_intervals_ms (mp_config p))"
  shows "\<exists>p'. update_bars sid ms li ord ts evs p = Inr p' \<and> feed_state p' = feed_state p"
proof -
  have f: "feed_state (foldl (emit_bar sid ms li ord) p outs) = feed_state p" for outs p
    by (induction outs arbitrary: p) simp_all
  have b: "feed_state (q\<lparr>mp_bars := bars\<rparr>) = feed_state q" for q bars by (simp add: feed_state_def)
  let ?fills = "map (\<lambda>event. (me_price event, me_volume event)) (filter (\<lambda>event. me_kind event = Fill) evs)"
  obtain st where "roll_bars sid ts ?fills (mc_bar_intervals_ms (mp_config p)) (mp_bars p, []) = Inr st"
    using roll_bars_total[OF assms] by blast
  then show ?thesis by (simp add: update_bars_def Let_def split_beta f b)
qed

text \<open>The trades of a frame change only the last price of the shadow book.\<close>

definition same_levels :: "ShadowBook \<Rightarrow> ShadowBook \<Rightarrow> bool" where
  "same_levels a b \<longleftrightarrow> sb_bids a = sb_bids b \<and> sb_asks a = sb_asks b"

lemma same_levels_refl [simp]: "same_levels a a" by (simp add: same_levels_def)

lemma same_levels_trans: "same_levels a b \<Longrightarrow> same_levels b c \<Longrightarrow> same_levels a c" by (simp add: same_levels_def)

lemma same_levels_foldl: "same_levels a b \<Longrightarrow> same_levels (foldl shadow_apply a j) (foldl shadow_apply b j)"
proof (induction j arbitrary: a b)
  case (Cons c j)
  have "same_levels (shadow_apply a c) (shadow_apply b c)"
    using Cons.prems by (simp add: same_levels_def shadow_apply_def split: OrderSide.split)
  then show ?case using Cons.IH by simp
qed simp

lemma same_levels_tracks: "same_levels a b \<Longrightarrow> shadow_tracks a t = shadow_tracks b t"
proof -
  assume "same_levels a b"
  then have "side_map a = side_map b" by (auto simp: same_levels_def side_map_def fun_eq_iff split: OrderSide.split)
  then show ?thesis by (simp add: shadow_tracks_iff)
qed

lemma shadow_of_set [simp]: "shadow_of (set_shadow sid book p) sid = book"
  by (simp add: shadow_of_def set_shadow_def bt_get_insert)

definition gate_state :: "MarketDataProcessor \<Rightarrow> MarketDataConfig \<times> bool \<times> bool \<times> u64 option" where
  "gate_state p = (mp_config p, mp_leader p, mp_resetting p, mp_active_market_seq p)"

lemma gate_state_set [simp]: "gate_state (set_shadow sid book p) = gate_state p"
  by (simp add: gate_state_def set_shadow_def)

lemma touch_all:
  "gate_state (fst (foldl (touch sid) st j)) = gate_state (fst st)
   \<and> shadow_of (fst (foldl (touch sid) st j)) sid = foldl shadow_apply (shadow_of (fst st) sid) j"
  by (induction j arbitrary: st) (simp_all add: touch_def Let_def split_beta)

lemma collect_all:
  "gate_state (fst (foldl (collect_trade sid ts) st evs)) = gate_state (fst st)
   \<and> same_levels (shadow_of (fst (foldl (collect_trade sid ts) st evs)) sid) (shadow_of (fst st) sid)"
proof (induction evs arbitrary: st)
  case (Cons e evs)
  have "gate_state (fst (collect_trade sid ts st e)) = gate_state (fst st)
    \<and> same_levels (shadow_of (fst (collect_trade sid ts st e)) sid) (shadow_of (fst st) sid)"
    by (auto simp: collect_trade_def split_beta same_levels_def split: option.split)
  then show ?case
    using Cons.IH[of "collect_trade sid ts st e"] same_levels_trans[of _ "shadow_of (fst (collect_trade sid ts st e)) sid"] by simp
qed simp

lemma feed_state_iff: "feed_state p = feed_state q \<longleftrightarrow> gate_state p = gate_state q \<and> mp_shadow p = mp_shadow q"
  by (auto simp: feed_state_def gate_state_def)

lemma feed_state_shadow: "feed_state p = feed_state q \<Longrightarrow> gate_state p = gate_state q \<and> shadow_of p = shadow_of q"
  by (auto simp: feed_state_iff shadow_of_def fun_eq_iff)

lemma ingest_active_shadow:
  assumes "0 \<notin> set (mc_bar_intervals_ms (mp_config p))"
  shows "\<exists>p'. ingest_active frame p = Inr p' \<and> gate_state p' = gate_state p
    \<and> same_levels (shadow_of p' (tf_symbol_id frame)) (foldl shadow_apply (shadow_of p (tf_symbol_id frame)) (tf_depth frame))"
proof -
  let ?sid = "tf_symbol_id frame"
  define ordinal where "ordinal = (case vec_last (tf_events frame) of None \<Rightarrow> 0 | Some event \<Rightarrow> ev_ordinal (me_event_id event))"
  define p1 where "p1 = emit_gap frame p"
  define st2 where "st2 = foldl (touch ?sid) (p1, []) (tf_depth frame)"
  define st3 where "st3 = foldl (collect_trade ?sid (tf_ts_ms frame)) (fst st2, []) (tf_events frame)"
  define p4 where "p4 = emit_depth frame ordinal (snd st2) (fst st3)"
  define p5 where "p5 = (if snd st2 \<noteq> [] \<or> snd st3 \<noteq> []
    then emit_bbo ?sid (tf_market_seq frame) (tf_log_index frame) ordinal (tf_ts_ms frame) 0 p4 else p4)"
  define p6 where "p6 = emit_lifecycle frame ordinal (emit_trades frame ordinal (snd st3) p5)"
  have f1: "feed_state p1 = feed_state p" by (simp add: p1_def)
  have f6: "feed_state p6 = feed_state (fst st3)" by (simp add: p6_def p5_def p4_def)
  have g: "gate_state (fst st3) = gate_state p"
    using touch_all[of ?sid "(p1, [])" "tf_depth frame"] collect_all[of ?sid "tf_ts_ms frame" "(fst st2, [])" "tf_events frame"]
      feed_state_shadow[OF f1] by (simp add: st2_def st3_def)
  have l: "same_levels (shadow_of (fst st3) ?sid) (foldl shadow_apply (shadow_of p ?sid) (tf_depth frame))"
    using touch_all[of ?sid "(p1, [])" "tf_depth frame"] collect_all[of ?sid "tf_ts_ms frame" "(fst st2, [])" "tf_events frame"]
      feed_state_shadow[OF f1] by (simp add: st2_def st3_def)
  have "gate_state p6 = gate_state p" using feed_state_shadow[OF f6] g by simp
  then have "0 \<notin> set (mc_bar_intervals_ms (mp_config p6))" using assms by (simp add: gate_state_def)
  then obtain p7 where p7: "update_bars ?sid (tf_market_seq frame) (tf_log_index frame) ordinal (tf_ts_ms frame) (tf_events frame) p6
      = Inr p7" "feed_state p7 = feed_state p6"
    using update_bars_state by blast
  have "ingest_active frame p = Inr (emit_status frame ordinal p7)"
    using p7(1) unfolding ingest_active_def Let_def split_beta
    by (simp only: ordinal_def[symmetric] p1_def[symmetric] st2_def[symmetric] st3_def[symmetric] p4_def[symmetric]
        p5_def[symmetric] p6_def[symmetric] sum.case)
  moreover have "feed_state (emit_status frame ordinal p7) = feed_state (fst st3)" using f6 p7(2) by simp
  ultimately show ?thesis using feed_state_shadow[of "emit_status frame ordinal p7" "fst st3"] g l by simp
qed

text \<open>The frames the processor takes in: it is publishing, and none is older than the last snapshot.\<close>

definition admits :: "MarketDataProcessor \<Rightarrow> u32 \<Rightarrow> TapFrame list \<Rightarrow> bool" where
  "admits p sid frames \<longleftrightarrow> publishing p \<and> 0 \<notin> set (mc_bar_intervals_ms (mp_config p))
     \<and> (\<forall>frame \<in> set frames. tf_symbol_id frame = sid
          \<and> (case mp_active_market_seq p of None \<Rightarrow> True | Some active \<Rightarrow> active \<le> tf_market_seq frame))"

lemma admits_gate: "gate_state p = gate_state q \<Longrightarrow> admits p sid frames = admits q sid frames"
  by (simp add: gate_state_def admits_def publishing_def)

lemma ingest_all_shadow:
  assumes "admits p sid frames"
  shows "\<exists>p'. ingest_all frames p = Inr p' \<and> gate_state p' = gate_state p
    \<and> same_levels (shadow_of p' sid) (foldl shadow_apply (shadow_of p sid) (concat (map tf_depth frames)))"
  using assms
proof (induction frames arbitrary: p)
  case (Cons frame frames)
  define q where "q = p\<lparr>mp_stats := (st_frames_update (fetch_add 1) (mp_stats p))
                   \<lparr>st_last_market_seq := tf_market_seq frame, st_last_log_index := tf_log_index frame,
                    st_last_ts_ms := tf_ts_ms frame, st_publishing := publishing p\<rparr>\<rparr>"
  have q: "gate_state q = gate_state p" "shadow_of q = shadow_of p"
    by (simp_all add: q_def gate_state_def shadow_of_def fun_eq_iff)
  have a: "admits q sid (frame # frames)" using Cons.prems admits_gate[OF q(1)] by simp
  then have sid: "tf_symbol_id frame = sid" "0 \<notin> set (mc_bar_intervals_ms (mp_config q))" by (simp_all add: admits_def)
  have c: "\<not> mp_resetting p" "publishing q"
      "\<not> (case mp_active_market_seq q of None \<Rightarrow> False | Some active \<Rightarrow> tf_market_seq frame < active)"
    using Cons.prems a by (auto simp: admits_def publishing_def split: option.splits)
  have "ingest frame p = ingest_active frame q"
    unfolding ingest_def Let_def q_def[symmetric] using c by simp
  then obtain r where r: "ingest frame p = Inr r" "gate_state r = gate_state p"
      "same_levels (shadow_of r sid) (foldl shadow_apply (shadow_of p sid) (tf_depth frame))"
    using ingest_active_shadow[OF sid(2), of frame] q sid(1) by auto
  have "admits p sid frames" using Cons.prems by (simp add: admits_def)
  then have "admits r sid frames" using admits_gate[OF r(2)] by simp
  from Cons.IH[OF this] obtain p' where p': "ingest_all frames r = Inr p'" "gate_state p' = gate_state r"
      "same_levels (shadow_of p' sid) (foldl shadow_apply (shadow_of r sid) (concat (map tf_depth frames)))" by blast
  have "same_levels (shadow_of p' sid) (foldl shadow_apply (shadow_of p sid) (concat (map tf_depth (frame # frames))))"
    using same_levels_trans[OF p'(3) same_levels_foldl[OF r(3)]] by simp
  then show ?case using p' r by simp
qed simp

definition out_frames :: "apply_out \<Rightarrow> TapFrame list" where
  "out_frames out = List.map_filter pp_market (out_publishes out)"

lemma out_frames_depth: "concat (map tf_depth (out_frames out)) = out_depth out"
proof -
  have "concat (map tf_depth (List.map_filter pp_market ps)) =
      concat (map (\<lambda>pp. case pp_market pp of None \<Rightarrow> [] | Some frame \<Rightarrow> tf_depth frame) ps)" for ps
    by (induction ps) (simp_all split: option.split)
  then show ?thesis by (simp add: out_frames_def out_depth_def)
qed

section \<open>Best prices and reset snapshots\<close>

context price_time_side
begin

lemma first_price:
  assumes "side_ok mk side (e # m)" "x \<in> set (e # m)"
  shows "case side of Buy \<Rightarrow> o_price (snd x) \<le> o_price (snd e) | Sell \<Rightarrow> o_price (snd e) \<le> o_price (snd x)"
proof (cases "x = e")
  case False
  then have "mk (o_price (snd e)) (o_sequence (snd e)) < mk (o_price (snd x)) (o_sequence (snd x))"
    using assms by (auto simp: side_ok_def bt_ok_Cons)
  then show ?thesis by (auto simp: key_less split: OrderSide.splits)
qed (simp split: OrderSide.split)

end

lemma level_keys:
  assumes "\<And>p. bt_get p m = (if level_orders os p = 0 then None else Some (f p))"
  shows "fst ` set m = (\<lambda>e. o_price (snd e)) ` set os"
proof -
  have "p \<in> fst ` set m \<longleftrightarrow> level_orders os p \<noteq> 0" for p using bt_get_None_iff[of p m] assms[of p] by auto
  moreover have "level_orders os p \<noteq> 0 \<longleftrightarrow> p \<in> (\<lambda>e. o_price (snd e)) ` set os" for p
    by (auto simp: level_orders_filter filter_empty_conv)
  ultimately show ?thesis by blast
qed

lemma bt_ok_extremes:
  "bt_ok m \<Longrightarrow> x \<in> set m \<Longrightarrow> fst (hd m) \<le> fst x \<and> fst x \<le> fst (last m)"
proof (induction m)
  case (Cons e m)
  have "fst e \<le> fst (last (e # m))" using Cons.prems(1) by (auto simp: bt_ok_Cons intro: less_imp_le)
  then show ?case using Cons by (cases "x = e") (auto simp: bt_ok_Cons intro: less_imp_le)
qed simp

lemma shadow_best:
  assumes t: "shadow_tracks book (totals b)" and inv: "book_inv b"
  shows "map_option ls_price (shadow_best_bid book) = map_option o_price (best_bid b)"
    "map_option ls_price (shadow_best_ask book) = map_option o_price (best_ask b)"
proof -
  have ok: "bt_ok (sb_bids book)" "bt_ok (sb_asks book)" using t by (simp_all add: shadow_tracks_def)
  have g: "bt_get p (sb_bids book) = (if level_orders (bids b) p = 0 then None
        else Some \<lparr>ls_price = p, ls_volume = wrap_i128 (level_volume (bids b) p), ls_orders = nat (level_orders (bids b) p)\<rparr>)"
      "bt_get p (sb_asks book) = (if level_orders (asks b) p = 0 then None
        else Some \<lparr>ls_price = p, ls_volume = wrap_i128 (level_volume (asks b) p), ls_orders = nat (level_orders (asks b) p)\<rparr>)" for p
    using t by (auto simp: shadow_tracks_iff side_map_def totals_def split: OrderSide.splits)
  note k = level_keys[OF g(1)] level_keys[OF g(2)]
  have s: "side_ok BidKey Buy (bids b)" "side_ok AskKey Sell (asks b)" using inv by (simp_all add: book_inv_def book_core_def)
  have price: "ls_price (snd e) = fst e" if "e \<in> set (sb_bids book) \<or> e \<in> set (sb_asks book)" for e
  proof -
    have "bt_get (fst e) (sb_bids book) = Some (snd e) \<or> bt_get (fst e) (sb_asks book) = Some (snd e)"
      using that ok bt_get_iff[of _ "fst e" "snd e"] by auto
    then show ?thesis using g by (metis LevelState.select_convs(1) option.distinct(1) option.inject)
  qed
  show "map_option ls_price (shadow_best_bid book) = map_option o_price (best_bid b)"
  proof (cases "bids b")
    case Nil
    then show ?thesis using k(1) by (simp add: shadow_best_bid_def best_bid_def bt_values_def vec_last_def bt_first_def)
  next
    case (Cons e rest)
    then have ne: "sb_bids book \<noteq> []" using k(1) by auto
    have "fst (last (sb_bids book)) \<in> fst ` set (sb_bids book)" using ne by simp
    then obtain x where x: "x \<in> set (bids b)" "o_price (snd x) = fst (last (sb_bids book))" using k(1) by auto
    have "o_price (snd e) \<in> fst ` set (sb_bids book)" using Cons k(1) by auto
    then have "o_price (snd e) \<le> fst (last (sb_bids book))" using bt_ok_extremes[OF ok(1)] by auto
    then have "fst (last (sb_bids book)) = o_price (snd e)"
      using x bid.first_price[of e rest x] s(1) Cons by auto
    then show ?thesis
      using Cons ne price[of "last (sb_bids book)"]
      by (simp add: shadow_best_bid_def best_bid_def bt_values_def vec_last_def bt_first_def last_map)
  qed
  show "map_option ls_price (shadow_best_ask book) = map_option o_price (best_ask b)"
  proof (cases "asks b")
    case Nil
    then show ?thesis using k(2) by (simp add: shadow_best_ask_def best_ask_def bt_first_def)
  next
    case (Cons e rest)
    then obtain f r where m: "sb_asks book = f # r" using k(2) by (cases "sb_asks book") auto
    have "fst f \<in> fst ` set (sb_asks book)" using m by simp
    then obtain x where x: "x \<in> set (asks b)" "o_price (snd x) = fst f" using k(2) by auto
    have "o_price (snd e) \<in> fst ` set (sb_asks book)" using Cons k(2) by auto
    then have "fst f \<le> o_price (snd e)" using bt_ok_extremes[OF ok(2)] m by force
    then have "fst f = o_price (snd e)" using x ask.first_price[of e rest x] s(2) Cons by auto
    then show ?thesis using Cons m price[of f] by (simp add: shadow_best_ask_def best_ask_def bt_first_def)
  qed
qed

lemma collect_levels_get:
  "bt_ok (collect_levels (map (level_of os) ps)) \<and>
   bt_get p (collect_levels (map (level_of os) ps)) =
     (if p \<in> set ps then Some \<lparr>ls_price = p, ls_volume = dl_volume (level_of os p), ls_orders = dl_orders (level_of os p)\<rparr>
      else None)"
proof (induction ps rule: rev_induct)
  case (snoc q ps)
  have "dl_price (level_of os q) = q" by (simp add: level_of_def)
  then show ?case using snoc by (auto simp: collect_levels_def bt_ok_insert bt_get_insert)
qed (simp add: collect_levels_def)

lemma level_of_values:
  "dl_volume (level_of (bt_values m) p) = level_volume m p" "int (dl_orders (level_of (bt_values m) p)) = level_orders m p"
proof -
  have f: "filter (\<lambda>o1. o_price o1 = p) (map snd m) = map snd (filter (\<lambda>e. o_price (snd e) = p) m)"
    by (induction m) simp_all
  show "dl_volume (level_of (bt_values m) p) = level_volume m p"
    by (induction m) (simp_all add: level_of_def level_volume_def bt_values_def)
  show "int (dl_orders (level_of (bt_values m) p)) = level_orders m p"
    by (simp add: level_of_def level_orders_filter bt_values_def f)
qed

text \<open>A capture deep enough for the whole book, and nothing wraps while its levels are added up.\<close>

definition captures :: "OrderBook \<Rightarrow> nat \<Rightarrow> bool" where
  "captures b n \<longleftrightarrow> (\<forall>side. depth_fits (own_side b side) \<and> length (prices_of (own_side b side)) \<le> n)"

lemma side_reset:
  assumes "depth_fits (bt_values m)"
  shows "bt_get p (collect_levels (map (level_of (bt_values m)) (prices_of (bt_values m)))) =
    (if level_orders m p = 0 then None
     else Some \<lparr>ls_price = p, ls_volume = wrap_i128 (level_volume m p), ls_orders = nat (level_orders m p)\<rparr>)"
proof -
  let ?os = "bt_values m"
  have "p \<in> set (prices_of ?os) \<longleftrightarrow> level_orders m p \<noteq> 0"
    by (auto simp: level_orders_filter filter_empty_conv bt_values_def)
  moreover have "in_i128 (level_volume m p)"
    using assms filter_sum_le[of ?os "\<lambda>o1. o_price o1 = p"] level_of_values(1)[of m p]
    by (auto simp: depth_fits_def level_of_def in_i128_def)
  moreover have "dl_orders (level_of ?os p) = nat (level_orders m p)" using level_of_values(2)[of m p] by simp
  ultimately show ?thesis
    using collect_levels_get[where os = ?os and ps = "prices_of ?os" and p = p]
    by (simp add: level_of_values(1) wrap_i128_id)
qed

lemma reset_tracks:
  assumes inv: "book_inv b" and all: "captures b n"
  shows "shadow_tracks (shadow_reset (depth b Buy n) (depth b Sell n) last_trade) (totals b)"
proof -
  have d: "depth b side n = map (level_of (own_side b side)) (prices_of (own_side b side))" for side
    using depth_levels[OF inv, of side n] all by (simp add: captures_def)
  have f: "depth_fits (bt_values (bids b))" "depth_fits (bt_values (asks b))"
    using all[unfolded captures_def, rule_format, of Buy] all[unfolded captures_def, rule_format, of Sell]
    by (simp_all add: own_side_def)
  show ?thesis
    unfolding shadow_tracks_iff
  proof (intro allI conjI)
    fix side p
    show "bt_ok (side_map (shadow_reset (depth b Buy n) (depth b Sell n) last_trade) side)"
      by (cases side) (simp_all add: d side_map_def shadow_reset_def collect_levels_get)
    show "bt_get p (side_map (shadow_reset (depth b Buy n) (depth b Sell n) last_trade) side) =
        (if snd (totals b side p) = 0 then None
         else Some \<lparr>ls_price = p, ls_volume = wrap_i128 (fst (totals b side p)), ls_orders = nat (snd (totals b side p))\<rparr>)"
      using side_reset[OF f(1), of p] side_reset[OF f(2), of p]
      by (cases side) (simp_all add: d side_map_def shadow_reset_def totals_def own_side_def)
  qed
qed

text \<open>Frames buffered while the reset was pending and already covered by the snapshot are skipped.\<close>

lemma ingest_stale:
  assumes "\<not> mp_resetting p" "mp_active_market_seq p = Some active" "\<forall>frame \<in> set frames. tf_market_seq frame < active"
  shows "\<exists>p'. ingest_all frames p = Inr p' \<and> feed_state p' = feed_state p"
  using assms
proof (induction frames arbitrary: p)
  case (Cons frame frames)
  define q where "q = p\<lparr>mp_stats := (st_frames_update (fetch_add 1) (mp_stats p))
                   \<lparr>st_last_market_seq := tf_market_seq frame, st_last_log_index := tf_log_index frame,
                    st_last_ts_ms := tf_ts_ms frame, st_publishing := publishing p\<rparr>\<rparr>"
  have q: "\<not> mp_resetting q" "mp_active_market_seq q = Some active" "feed_state q = feed_state p"
    using Cons.prems by (simp_all add: q_def feed_state_def)
  have "ingest frame p = Inr q"
    unfolding ingest_def Let_def q_def[symmetric] using Cons.prems q by simp
  then show ?case using Cons.IH[OF q(1,2)] Cons.prems(3) q(3) by auto
qed simp

lemma pre_snapshot_emits [simp]:
  "mp_pre_snapshot (emit stream fl ms sub li ord ts sid body p) = mp_pre_snapshot p"
  "mp_pre_snapshot (count_stat f p) = mp_pre_snapshot p"
  "mp_pre_snapshot (emit_bbo sid ms li ord ts sub p) = mp_pre_snapshot p"
  by (simp_all add: emit_def count_stat_def emit_bbo_def Let_def split: option.split)

lemma apply_snapshot_resets:
  assumes "\<forall>frame \<in> set (mp_pre_snapshot p). tf_market_seq frame < sf_market_seq snapshot"
  shows "\<exists>p'. apply_snapshot snapshot p = Inr p'
    \<and> gate_state p' = (mp_config p, mp_leader p, False, Some (sf_market_seq snapshot))
    \<and> shadow_of p' (sf_symbol_id snapshot) = shadow_reset (sf_bids snapshot) (sf_asks snapshot) (sf_last_trade snapshot)"
proof -
  define q where "q = install_reset snapshot p"
  have q: "feed_state q = (mp_config p, mp_leader p, False, Some (sf_market_seq snapshot),
      bt_insert (sf_symbol_id snapshot) (shadow_reset (sf_bids snapshot) (sf_asks snapshot) (sf_last_trade snapshot)) (mp_shadow p))"
      "mp_pre_snapshot q = mp_pre_snapshot p"
    by (simp_all add: q_def install_reset_def Let_def set_shadow_def) (simp add: feed_state_def count_stat_def)
  define levels where "levels = (\<lambda>side. case bt_get (sf_symbol_id snapshot) (mp_shadow q) of
    None \<Rightarrow> [] | Some book \<Rightarrow> shadow_depth book side (mc_depth_levels (mp_config q)))"
  define r where "r = emit_bbo (sf_symbol_id snapshot) (sf_market_seq snapshot) (sf_log_index snapshot) 0 (sf_ts_ms snapshot)
    SNAPSHOT_BBO_SUB_SEQ (count_stat (st_depth_snapshots_update (fetch_add 1))
      (emit STREAM_DEPTH_SNAPSHOT (FLAG_SNAPSHOT OR FLAG_RESET) (sf_market_seq snapshot) 0 (sf_log_index snapshot) 0
        (sf_ts_ms snapshot) (sf_symbol_id snapshot) (MB_DepthSnapshot \<lparr>ds_bids = levels Buy, ds_asks = levels Sell\<rparr>) q))"
  have r: "apply_snapshot snapshot p = ingest_all (mp_pre_snapshot r) (r\<lparr>mp_pre_snapshot := []\<rparr>)"
      "feed_state r = feed_state q" "mp_pre_snapshot r = mp_pre_snapshot q"
    by (simp_all only: apply_snapshot_def Let_def r_def levels_def q_def feed_state_emit feed_state_emits pre_snapshot_emits)
  have f: "feed_state (r\<lparr>mp_pre_snapshot := []\<rparr>) = feed_state q" using r(2) by (simp add: feed_state_def)
  have "\<not> mp_resetting (r\<lparr>mp_pre_snapshot := []\<rparr>)" "mp_active_market_seq (r\<lparr>mp_pre_snapshot := []\<rparr>) = Some (sf_market_seq snapshot)"
    using f q(1) by (simp_all add: feed_state_def)
  from ingest_stale[OF this, of "mp_pre_snapshot p"] assms obtain p' where
    "ingest_all (mp_pre_snapshot p) (r\<lparr>mp_pre_snapshot := []\<rparr>) = Inr p'" "feed_state p' = feed_state q"
    using f by auto
  then show ?thesis
    using r q by (auto simp: feed_state_def gate_state_def shadow_of_def bt_get_insert)
qed

section \<open>A feed beside a node\<close>

text \<open>
  A processor fed by a reachable node: it installs a snapshot of the node's book that has all its
  levels, and from then on takes in the frames of every entry the node applies, with the tap open.
\<close>

inductive fed ::
  "'w i256 \<Rightarrow> ('l, 'm, 'sm) openraft \<Rightarrow> ('l, 'sm, 'h) codec \<Rightarrow> u32 \<Rightarrow> ('l, 'sm) StateMachineStoreInner
    \<Rightarrow> MarketDataProcessor \<Rightarrow> bool"
  for I raft C sid where
  fed_reset: "reach I raft C s \<Longrightarrow> market_data s \<Longrightarrow> cfg_symbol_id (symbol_config s) = sid
     \<Longrightarrow> captures (orderbook s) n
     \<Longrightarrow> \<forall>frame \<in> set (mp_pre_snapshot p). tf_market_seq frame < ob_sequence (orderbook s)
     \<Longrightarrow> apply_snapshot (snapshot_from_inner raft now s n) p = Inr p' \<Longrightarrow> fed I raft C sid s p'"
| fed_entry: "fed I raft C sid s p \<Longrightarrow> apply_entry I raft env s e = Inr (s', response, out) \<Longrightarrow> in_order raft s e
     \<Longrightarrow> applicable s e \<Longrightarrow> length (out_events out) < 2 ^ 32 \<Longrightarrow> \<forall>pos. env_gate env pos
     \<Longrightarrow> \<forall>side q. snd (totals (orderbook s) side q) + int (length (out_depth out)) < 2 ^ 32
     \<Longrightarrow> admits p sid (out_frames out) \<Longrightarrow> ingest_all (out_frames out) p = Inr p' \<Longrightarrow> fed I raft C sid s' p'"

lemma reach_tapped: "reach I raft C s \<Longrightarrow> i128_typed I \<Longrightarrow> market_data s \<Longrightarrow> tapped s \<and> machine_inv s"
  using reach_node_inv[of I raft C s] by (auto simp: node_inv_def machine_inv_def tapped_def)

lemma fed_tracks:
  assumes "fed I raft C sid s p" and I: "i128_typed I"
  shows "reach I raft C s \<and> tapped s \<and> shadow_tracks (shadow_of p sid) (totals (orderbook s))"
  using assms(1)
proof induction
  case (fed_reset s n p now p')
  note t = reach_tapped[OF fed_reset(1) I fed_reset(2)]
  have b: "book_inv (orderbook s)" using t by (simp add: machine_inv_def)
  obtain q where "apply_snapshot (snapshot_from_inner raft now s n) p = Inr q"
      "shadow_of q sid = shadow_reset (depth (orderbook s) Buy n) (depth (orderbook s) Sell n) (last_trade_price (orderbook s))"
    using apply_snapshot_resets[of p "snapshot_from_inner raft now s n"] fed_reset(3,5) by (auto simp: snapshot_from_inner_def)
  then show ?case using reset_tracks[OF b fed_reset(4)] fed_reset(1,6) t by simp
next
  case (fed_entry s p env e s' response out p')
  have r: "reach I raft C s'" using fed_entry.IH fed_entry.hyps by (blast intro: reach_entry)
  have inv: "core_inv s" using fed_entry.IH reach_node_inv[of I raft C s, OF _ I] machine_core by (auto simp: node_inv_def)
  have rp: "replays (orderbook s) (out_depth out) (orderbook s') \<and> tapped s'"
    by (rule apply_entry_replays[OF fed_entry.hyps(2) inv _ _ I fed_entry.hyps(4)])
      (use fed_entry.IH fed_entry.hyps(6) in simp_all)
  have "same_levels (shadow_of p' sid) (foldl shadow_apply (shadow_of p sid) (out_depth out))"
    using ingest_all_shadow[OF fed_entry.hyps(8)] fed_entry.hyps(9) by (simp add: out_frames_depth)
  then show ?case
    using r rp shadow_follows[of "shadow_of p sid" "orderbook s" "out_depth out" "orderbook s'"] fed_entry.IH fed_entry.hyps(7)
    by (simp add: same_levels_tracks)
qed

text \<open>
  C36: The market-data task's book is the book.  A processor that installs a reset snapshot holding every
  level and then takes in the frames of the entries the node applies, as long as these carry its symbol
  and a market sequence not below its boundary, always has a level for exactly
  the prices with resting orders, with their number of orders and their total volume (modulo the
  \<open>i128\<close> wrap-around), its best bid and ask are those of the node's order book, and it never stops at a
  panic while every bar interval is positive.
\<close>

theorem feed_follows_book:
  assumes "fed I raft C sid s p" "i128_typed I"
  shows "(\<forall>side q. shadow_level (shadow_of p sid) side q =
        (if snd (totals (orderbook s) side q) = 0 then None
         else Some \<lparr>ls_price = q, ls_volume = wrap_i128 (fst (totals (orderbook s) side q)),
                    ls_orders = nat (snd (totals (orderbook s) side q))\<rparr>))
    \<and> map_option ls_price (shadow_best_bid (shadow_of p sid)) = map_option o_price (best_bid (orderbook s))
    \<and> map_option ls_price (shadow_best_ask (shadow_of p sid)) = map_option o_price (best_ask (orderbook s))
    \<and> (\<forall>frames. admits p sid frames \<longrightarrow> (\<exists>p'. ingest_all frames p = Inr p'))"
proof -
  have t: "reach I raft C s" "tapped s" "shadow_tracks (shadow_of p sid) (totals (orderbook s))"
    using fed_tracks[OF assms] by simp_all
  have b: "book_inv (orderbook s)" using reach_node_inv[OF t(1) assms(2)] by (simp add: node_inv_def machine_inv_def)
  have "\<forall>frames. admits p sid frames \<longrightarrow> (\<exists>p'. ingest_all frames p = Inr p')" using ingest_all_shadow by blast
  then show ?thesis using t(3) shadow_best[OF t(3) b] by (simp add: shadow_tracks_def)
qed

definition open_feed :: MarketDataProcessor where
  "open_feed = start_with_sink (MarketDataConfig_default\<lparr>mc_leader_only := False\<rparr>) ''memory''"

lemma sample_frames:
  "\<exists>s' response out. apply_entry exact_i256 sample_raft sample_env sample_start sample_entry = Inr (s', response, out)
     \<and> map (\<lambda>f. (tf_symbol_id f, tf_market_seq f)) (out_frames out) = [(0, 0)] \<and> length (out_depth out) = 1 \<and> length (out_events out) = 1
     \<and> map_option o_price (best_bid (orderbook s')) = Some (o_price sample_buy)"
  by (simp add: machine_eval book_eval sample_start_def sample_entry_def sample_buy_def bt_values_def
      out_frames_def out_depth_def out_events_def best_bid_def bt_first_def)

theorem feed_follows_book_witness:
  "\<exists>s p. fed exact_i256 sample_raft (codebook [] []) 0 s p
     \<and> map_option ls_price (shadow_best_bid (shadow_of p 0)) = Some (o_price sample_buy)"
proof -
  let ?sn = "snapshot_from_inner sample_raft 0 sample_start 10"
  have f: "mp_pre_snapshot open_feed = []" "ob_sequence (orderbook sample_start) = 0" "market_data sample_start"
      "cfg_symbol_id (symbol_config sample_start) = 0" "captures (orderbook sample_start) 10"
    by (simp_all add: open_feed_def start_with_sink_def sample_start_def Inner_default_def OrderBook_new_def captures_def
        own_side_def depth_fits_def bt_values_def SymbolConfig_default_def split_beta split: OrderSide.split)
  obtain p1 where p1: "apply_snapshot ?sn open_feed = Inr p1"
      "gate_state p1 = (mp_config open_feed, mp_leader open_feed, False, Some 0)"
    using apply_snapshot_resets[of open_feed ?sn] f by (auto simp: snapshot_from_inner_def)
  have f1: "fed exact_i256 sample_raft (codebook [] []) 0 sample_start p1"
    using fed_reset[OF sample_reach_start f(3,4,5) _ p1(1)] f(1) by simp
  obtain s' response out where o1: "apply_entry exact_i256 sample_raft sample_env sample_start sample_entry = Inr (s', response, out)"
      "map (\<lambda>f. (tf_symbol_id f, tf_market_seq f)) (out_frames out) = [(0, 0)]" "length (out_depth out) = 1"
      "length (out_events out) = 1" "map_option o_price (best_bid (orderbook s')) = Some (o_price sample_buy)"
    using sample_frames by (elim exE conjE) (rule that)
  obtain frame where fr: "out_frames out = [frame]" "tf_symbol_id frame = 0" "tf_market_seq frame = 0"
    using o1(2) by (cases "out_frames out") simp_all
  have a: "admits p1 0 (out_frames out)"
    using p1(2) unfolding fr(1) admits_def
    by (simp add: fr gate_state_def publishing_def open_feed_def start_with_sink_def MarketDataConfig_default_def)
  obtain p2 where p2: "ingest_all (out_frames out) p1 = Inr p2" using ingest_all_shadow[OF a] by blast
  have f2: "fed exact_i256 sample_raft (codebook [] []) 0 s' p2"
  proof (rule fed_entry[OF f1 o1(1) sample_entry_ok _ _ _ a p2])
    show "length (out_events out) < 2 ^ 32" by (simp add: o1(4))
    show "\<forall>pos. env_gate sample_env pos" by (simp add: sample_env_def)
    have "snd (totals (orderbook sample_start) side q) = 0" for side q
      by (cases side) (simp_all add: sample_start_def OrderBook_new_def totals_def level_orders_def)
    then show "\<forall>side q. snd (totals (orderbook sample_start) side q) + int (length (out_depth out)) < 2 ^ 32"
      by (simp add: o1(3))
  qed
  have "map_option ls_price (shadow_best_bid (shadow_of p2 0)) = map_option o_price (best_bid (orderbook s'))"
    using feed_follows_book[OF f2 exact_typed] by (elim conjE)
  then show ?thesis using f2 o1(5) by metis
qed

section \<open>Where the shadow book goes astray\<close>

text \<open>
  A snapshot of only the best level: once that level is cancelled the shadow book has no bid at all,
  although the book still has one.
\<close>

definition two_level_book :: OrderBook where
  "two_level_book = OrderBook_new\<lparr>record_depth := True, ob_sequence := 2,
     bids := [(BidKey 100 0, (Order_new Buy 100 5 0)\<lparr>o_sequence := 0\<rparr>), (BidKey 90 1, (Order_new Buy 90 5 0)\<lparr>o_sequence := 1\<rparr>)]\<rparr>"

lemma truncated_reset_loses_bid:
  "let (b, cancelled) = cancel two_level_book ((Order_new Buy 100 5 0)\<lparr>o_sequence := 0\<rparr>);
       book = shadow_reset (depth two_level_book Buy 1) (depth two_level_book Sell 1) None
   in map_option o_price cancelled = Some 100 \<and> map_option o_price (best_bid b) = Some 90
      \<and> map_option ls_price (shadow_best_bid book) = Some 100
      \<and> shadow_best_bid (foldl shadow_apply book (depth_journal b)) = None"
  by (simp add: two_level_book_def book_eval cancel_def depth_def shadow_reset_def collect_levels_def shadow_best_bid_def
      best_bid_def bt_values_def vec_last_def bt_first_def shadow_apply_def apply_level_def fixed_add_def wrap_i128_def wrap_u32_def)

text \<open>
  A cancel for a symbol the engine does not have is refused, but only after the overdue orders of the
  engine's own symbol were purged, and the frame with their depth changes carries the foreign symbol.
\<close>

definition gtd_sell_entry :: "(nat, unit) Entry" where
  "gtd_sell_entry = \<lparr>en_log_id = 1, en_payload = Normal (Place ((Order_new Sell 100 5 0)\<lparr>o_tif := Gtd 10\<rparr>) None)\<rparr>"

definition foreign_cancel_entry :: "(nat, unit) Entry" where
  "foreign_cancel_entry = \<lparr>en_log_id = 2, en_payload = Normal (Cancel ((Order_new Buy 100 8 0)\<lparr>o_symbol_id := 7, o_timestamp := 20\<rparr>))\<rparr>"

lemma foreign_symbol_frame:
  "\<exists>s outs. apply_entries exact_i256 sample_raft sample_start [(sample_env, gtd_sell_entry), (sample_env, foreign_cancel_entry)] = Inr (s, outs)
     \<and> asks (orderbook s) = []
     \<and> map (\<lambda>f. (tf_symbol_id f, map (\<lambda>c. (dc_side c, dc_delta_orders c)) (tf_depth f))) (concat (map (out_frames \<circ> snd) outs))
       = [(0, [(Sell, 1)]), (7, [(Sell, -1)])]"
  by (simp add: machine_eval book_eval sample_start_def gtd_sell_entry_def foreign_cancel_entry_def min_expiry_def
     purge_expired_def bt_values_def note_expiry_def for_rejected_def push_expired_def apply_cancel_def begin_mutation_def
     finish_mutation_def out_frames_def)

end
