(* ===== verification/Depth_Feed.thy ===== *)
theory Depth_Feed
  imports Market_Feed "HOL-Library.AList"
begin

text \<open>
  The feed task of the market-data service, \<open>demos/market_data_system/src/feed.rs\<close>: the consumer of the
  engine's messages.  It keeps the depth book, the top of book and the bars for the WebSocket sessions,
  conflates depth deltas in a fast and a slow window and broadcasts payloads to the streams.  The locked
  \<open>SharedState\<close> and \<open>Registry\<close> and the atomic counters are fields of the feed record, since one task owns all
  writes.  A payload is kept as its parts: the JSON text \<open>protocol.rs\<close> makes of it is not modelled.
\<close>

unbundle bit_operations_syntax

section \<open>Depth book\<close>

record Level =
  lv_volume :: fixed
  lv_orders :: u32

record DepthBook =
  db_bids :: "(fixed, Level) btree"
  db_asks :: "(fixed, Level) btree"

definition DepthBook_default :: DepthBook where
  "DepthBook_default = \<lparr>db_bids = [], db_asks = []\<rparr>"

definition depth_clear :: "DepthBook \<Rightarrow> DepthBook" where
  "depth_clear book = book\<lparr>db_bids := [], db_asks := []\<rparr>"

definition set_level :: "fixed \<Rightarrow> fixed \<Rightarrow> u32 \<Rightarrow> (fixed, Level) btree \<Rightarrow> (fixed, Level) btree" where
  "set_level price volume n levels =
     (if volume \<le> 0 then bt_remove price levels
      else bt_insert price \<lparr>lv_volume = volume, lv_orders = n\<rparr> levels)"

definition depth_apply :: "OrderSide \<Rightarrow> fixed \<Rightarrow> fixed \<Rightarrow> u32 \<Rightarrow> DepthBook \<Rightarrow> DepthBook" where
  "depth_apply side price volume n book =
     (case side of
        Buy \<Rightarrow> book\<lparr>db_bids := set_level price volume n (db_bids book)\<rparr>
      | Sell \<Rightarrow> book\<lparr>db_asks := set_level price volume n (db_asks book)\<rparr>)"

definition depth_side :: "OrderSide \<Rightarrow> DepthBook \<Rightarrow> (fixed, Level) btree" where
  "depth_side side book = (case side of Buy \<Rightarrow> db_bids book | Sell \<Rightarrow> db_asks book)"

definition depth_total :: "DepthBook \<Rightarrow> OrderSide \<Rightarrow> fixed \<Rightarrow> fixed" where
  "depth_total book side price =
     (case bt_get price (depth_side side book) of None \<Rightarrow> 0 | Some level \<Rightarrow> lv_volume level)"

definition depth_top :: "DepthBook \<Rightarrow> OrderSide \<Rightarrow> nat \<Rightarrow> (fixed \<times> fixed \<times> u32) list" where
  "depth_top book side limit =
     map (\<lambda>(price, level). (price, lv_volume level, lv_orders level))
       (take limit (case side of Buy \<Rightarrow> rev (db_bids book) | Sell \<Rightarrow> db_asks book))"

text \<open>\<open>sort_by_key\<close> with \<open>Reverse\<close> sorts by the negated price.\<close>

definition depth_touched :: "DepthBook \<Rightarrow> OrderSide \<Rightarrow> (fixed, unit) btree \<Rightarrow> (fixed \<times> fixed) list" where
  "depth_touched book side prices =
     (let levels = map (\<lambda>price. (price, depth_total book side price)) (map fst prices)
      in case side of Buy \<Rightarrow> sort_key (\<lambda>level. - fst level) levels | Sell \<Rightarrow> sort_key fst levels)"

section \<open>State of the service\<close>

record SharedState =
  ss_depth :: DepthBook
  ss_bbo :: "BboRecord option"
  ss_bbo_update_id :: u64
  ss_bars :: "(u64, BarRecord) btree"
  ss_bar_quote :: "(u64 \<times> u64, fixed) btree"
  ss_status :: "StatusRecord option"
  ss_last_update_id :: u64
  ss_last_ts_ms :: u64
  ss_snapshot_seen :: bool
  ss_depth_stale :: bool
  ss_epoch :: u64
  ss_leader_id :: u64

definition SharedState_default :: SharedState where
  "SharedState_default =
     \<lparr>ss_depth = DepthBook_default, ss_bbo = None, ss_bbo_update_id = 0, ss_bars = [], ss_bar_quote = [],
      ss_status = None, ss_last_update_id = 0, ss_last_ts_ms = 0, ss_snapshot_seen = False,
      ss_depth_stale = False, ss_epoch = 0, ss_leader_id = 0\<rparr>"

definition ready :: "SharedState \<Rightarrow> bool" where
  "ready s \<longleftrightarrow> ss_snapshot_seen s \<and> \<not> ss_depth_stale s"

datatype Speed = Ms100 | Ms1000

primrec speed_label :: "Speed \<Rightarrow> string" where
  "speed_label Ms100 = ''100ms''"
| "speed_label Ms1000 = ''1000ms''"

datatype payload =
    BookTickerPayload BboRecord u64 u64
  | TradePayload TradeRecord
  | SweepPayload MarketMessage
  | LifecyclePayload "LifecycleRecord list" u64
  | KlinePayload BarRecord fixed u64 bool
  | StatusPayload StatusRecord u64 u64 u64 bool u64
  | DepthUpdatePayload u64 u64 "(fixed \<times> fixed) list" "(fixed \<times> fixed) list" u64
  | DepthSnapshotPayload u64 "(fixed \<times> fixed \<times> u32) list" "(fixed \<times> fixed \<times> u32) list" u64
  | DepthPartialPayload u64 "(fixed \<times> fixed \<times> u32) list" "(fixed \<times> fixed \<times> u32) list"
  | ResyncPayload string u32

text \<open>A broadcast channel: the live receivers and what was sent to them.\<close>

record Channel =
  ch_receivers :: nat
  ch_sent :: "payload list"

type_synonym Registry = "(string \<times> Channel) list"

definition registry_subscribe :: "string \<Rightarrow> Registry \<Rightarrow> Registry" where
  "registry_subscribe key reg =
     (let channel = (case map_of reg key of Some channel \<Rightarrow> channel | None \<Rightarrow> \<lparr>ch_receivers = 0, ch_sent = []\<rparr>)
      in AList.update key (channel\<lparr>ch_receivers := ch_receivers channel + 1\<rparr>) reg)"

definition registry_publish :: "string \<Rightarrow> payload \<Rightarrow> Registry \<Rightarrow> bool \<times> Registry" where
  "registry_publish key p reg =
     (case map_of reg key of
        None \<Rightarrow> (False, reg)
      | Some channel \<Rightarrow>
          if 0 < ch_receivers channel
          then (True, AList.update key (channel\<lparr>ch_sent := ch_sent channel @ [p]\<rparr>) reg)
          else (False, reg))"

definition has_subscribers :: "string \<Rightarrow> Registry \<Rightarrow> bool" where
  "has_subscribers key reg =
     (case map_of reg key of None \<Rightarrow> False | Some channel \<Rightarrow> 0 < ch_receivers channel)"

definition remove_if_unused :: "string \<Rightarrow> Registry \<Rightarrow> Registry" where
  "remove_if_unused key reg =
     (case map_of reg key of
        None \<Rightarrow> reg
      | Some channel \<Rightarrow> if ch_receivers channel = 0 then AList.delete key reg else reg)"

definition starts_with :: "string \<Rightarrow> string \<Rightarrow> bool" where
  "starts_with p s \<longleftrightarrow> take (length p) s = p"

primrec str_contains :: "string \<Rightarrow> string \<Rightarrow> bool" where
  "str_contains p [] \<longleftrightarrow> p = []"
| "str_contains p (c # s) \<longleftrightarrow> starts_with p (c # s) \<or> str_contains p s"

definition depth_keys :: "Registry \<Rightarrow> string list" where
  "depth_keys reg = filter (str_contains ''@depth'') (map fst reg)"

record Stats =
  fs_connections :: u64
  fs_messages :: u64
  fs_published :: u64
  fs_resyncs :: u64
  fs_gaps :: u64
  fs_slow_closes :: u64
  fs_last_ts_ms :: u64

definition Stats_default :: Stats where
  "Stats_default =
     \<lparr>fs_connections = 0, fs_messages = 0, fs_published = 0, fs_resyncs = 0, fs_gaps = 0, fs_slow_closes = 0,
      fs_last_ts_ms = 0\<rparr>"

record DepthWindow =
  dw_bids :: "(fixed, unit) btree"
  dw_asks :: "(fixed, unit) btree"
  dw_first_seq :: "u64 option"
  dw_last_seq :: "u64 option"
  dw_ts_ms :: u64
  dw_changed :: bool

definition DepthWindow_default :: DepthWindow where
  "DepthWindow_default =
     \<lparr>dw_bids = [], dw_asks = [], dw_first_seq = None, dw_last_seq = None, dw_ts_ms = 0, dw_changed = False\<rparr>"

definition window_touch :: "DepthWindow \<Rightarrow> LevelUpdate \<Rightarrow> DepthWindow" where
  "window_touch w u =
     (case lu_side u of
        Buy \<Rightarrow> w\<lparr>dw_bids := bt_insert (dl_price (lu_level u)) () (dw_bids w)\<rparr>
      | Sell \<Rightarrow> w\<lparr>dw_asks := bt_insert (dl_price (lu_level u)) () (dw_asks w)\<rparr>)"

definition window_add :: "MarketMessage \<Rightarrow> LevelUpdate list \<Rightarrow> DepthWindow \<Rightarrow> DepthWindow" where
  "window_add msg updates w =
     (let w = foldl window_touch w updates
      in w\<lparr>dw_first_seq := Some (case dw_first_seq w of None \<Rightarrow> mm_market_seq msg | Some s \<Rightarrow> min s (mm_market_seq msg)),
           dw_last_seq := Some (case dw_last_seq w of None \<Rightarrow> mm_market_seq msg | Some s \<Rightarrow> max s (mm_market_seq msg)),
           dw_ts_ms := mm_ts_ms msg, dw_changed := True\<rparr>)"

definition window_reset :: "DepthWindow \<Rightarrow> DepthWindow" where
  "window_reset w = w\<lparr>dw_bids := [], dw_asks := [], dw_first_seq := None, dw_last_seq := None, dw_changed := False\<rparr>"

record SymbolSpec =
  sy_symbol :: string
  sy_symbol_id :: u32
  sy_base_asset :: string
  sy_quote_asset :: string

record Feed =
  fd_symbol :: SymbolSpec
  fd_bar_intervals_ms :: "u64 list"
  fd_lifecycle :: bool
  fd_snapshot_levels :: nat
  fd_shared :: SharedState
  fd_registry :: Registry
  fd_stats :: Stats
  fd_seen :: "(u16, u64 \<times> u16) btree"
  fd_fast :: DepthWindow
  fd_slow :: DepthWindow
  fd_last_depth_u :: "u64 option"

definition Feed_new ::
  "SymbolSpec \<Rightarrow> u64 list \<Rightarrow> bool \<Rightarrow> nat \<Rightarrow> SharedState \<Rightarrow> Registry \<Rightarrow> Stats \<Rightarrow> Feed" where
  "Feed_new spec bar_intervals_ms lifecycle snapshot_levels shared registry stats =
     \<lparr>fd_symbol = spec, fd_bar_intervals_ms = bar_intervals_ms, fd_lifecycle = lifecycle,
      fd_snapshot_levels = snapshot_levels, fd_shared = shared, fd_registry = registry, fd_stats = stats,
      fd_seen = [], fd_fast = DepthWindow_default, fd_slow = DepthWindow_default, fd_last_depth_u = None\<rparr>"

section \<open>Publishing\<close>

definition publish_key :: "string \<Rightarrow> payload \<Rightarrow> Feed \<Rightarrow> Feed" where
  "publish_key key p f =
     (let (published, reg) = registry_publish key p (fd_registry f);
          f = f\<lparr>fd_registry := reg\<rparr>
      in if published then f\<lparr>fd_stats := fs_published_update (fetch_add 1) (fd_stats f)\<rparr> else f)"

definition feed_publish :: "string \<Rightarrow> payload \<Rightarrow> Feed \<Rightarrow> Feed" where
  "feed_publish suffix p f = publish_key (sy_symbol (fd_symbol f) @ ''@'' @ suffix) p f"

definition broadcast_resync :: "string \<Rightarrow> u32 \<Rightarrow> Feed \<Rightarrow> Feed" where
  "broadcast_resync reason dropped f =
     (let f = f\<lparr>fd_stats := fs_resyncs_update (fetch_add 1) (fd_stats f)\<rparr>;
          stem = sy_symbol (fd_symbol f) @ ''@'';
          keys = filter (starts_with stem) (depth_keys (fd_registry f))
      in foldl (\<lambda>f key. publish_key key (ResyncPayload reason dropped) f) f keys)"

section \<open>Applying messages\<close>

definition with_shared :: "(SharedState \<Rightarrow> SharedState) \<Rightarrow> Feed \<Rightarrow> Feed" where
  "with_shared g f = f\<lparr>fd_shared := g (fd_shared f)\<rparr>"

definition apply_depth_level :: "OrderSide \<Rightarrow> DepthBook \<Rightarrow> DepthLevel \<Rightarrow> DepthBook" where
  "apply_depth_level side book level = depth_apply side (dl_price level) (dl_volume level) (dl_orders level) book"

definition install_depth :: "MarketMessage \<Rightarrow> DepthSnapshotRecord \<Rightarrow> SharedState \<Rightarrow> SharedState" where
  "install_depth message snapshot s =
     (let book = depth_clear (ss_depth s);
          book = foldl (apply_depth_level Buy) book (ds_bids snapshot);
          book = foldl (apply_depth_level Sell) book (ds_asks snapshot)
      in s\<lparr>ss_depth := book, ss_last_update_id := mm_market_seq message, ss_snapshot_seen := True,
           ss_depth_stale := False\<rparr>)"

definition send_snapshot :: "Feed \<Rightarrow> Feed" where
  "send_snapshot f =
     (let s = fd_shared f;
          p = DepthSnapshotPayload (ss_last_update_id s) (depth_top (ss_depth s) Buy (fd_snapshot_levels f))
                (depth_top (ss_depth s) Sell (fd_snapshot_levels f)) (ss_last_ts_ms s);
          stem = sy_symbol (fd_symbol f) @ ''@'';
          keys = filter (\<lambda>key. starts_with stem key \<and> str_contains ''@depth@'' key) (depth_keys (fd_registry f))
      in foldl (\<lambda>f key. publish_key key p f) f keys)"

definition feed_apply_snapshot :: "MarketMessage \<Rightarrow> DepthSnapshotRecord \<Rightarrow> Feed \<Rightarrow> Feed" where
  "feed_apply_snapshot message snapshot f =
     (if ss_snapshot_seen (fd_shared f) \<and> \<not> ss_depth_stale (fd_shared f) then f
      else
        let f = with_shared (install_depth message snapshot) f;
            f = f\<lparr>fd_last_depth_u := Some (mm_market_seq message), fd_fast := window_reset (fd_fast f),
                  fd_slow := window_reset (fd_slow f)\<rparr>
        in if mm_flags message AND FLAG_RESET \<noteq> 0 then send_snapshot (broadcast_resync ''reset'' 0 f) else f)"

definition feed_apply_delta :: "MarketMessage \<Rightarrow> LevelUpdate list \<Rightarrow> Feed \<Rightarrow> Feed" where
  "feed_apply_delta message updates f =
     (if \<not> ss_snapshot_seen (fd_shared f) \<or> ss_depth_stale (fd_shared f) then f
      else
        let f = with_shared (\<lambda>s. s\<lparr>ss_depth :=
                  foldl (\<lambda>book u. apply_depth_level (lu_side u) book (lu_level u)) (ss_depth s) updates\<rparr>) f
        in f\<lparr>fd_fast := window_add message updates (fd_fast f), fd_slow := window_add message updates (fd_slow f)\<rparr>)"

text \<open>A zero interval divides by zero; \<open>expect\<close> panics on a changed window without a sequence.\<close>

datatype view_panic = DivideByZero | MissingSequence

primrec add_quote :: "TradeRecord \<Rightarrow> u64 list \<Rightarrow> (u64 \<times> u64, fixed) btree \<Rightarrow> view_panic + (u64 \<times> u64, fixed) btree" where
  "add_quote fill [] quotes = Inr quotes"
| "add_quote fill (interval # intervals) quotes =
     (if interval = 0 then Inl DivideByZero
      else
        let window = tr_ts_ms fill div interval * interval;
            entry = (case bt_get (interval, window) quotes of None \<Rightarrow> 0 | Some x \<Rightarrow> x)
        in add_quote fill intervals (bt_insert (interval, window) (saturating_add entry (tr_quote_volume fill)) quotes))"

primrec add_quotes :: "u64 list \<Rightarrow> TradeRecord list \<Rightarrow> (u64 \<times> u64, fixed) btree \<Rightarrow> view_panic + (u64 \<times> u64, fixed) btree" where
  "add_quotes intervals [] quotes = Inr quotes"
| "add_quotes intervals (fill # fills) quotes =
     (case add_quote fill intervals quotes of Inl e \<Rightarrow> Inl e | Inr quotes \<Rightarrow> add_quotes intervals fills quotes)"

definition accumulate_quotes :: "TradeRecord list \<Rightarrow> Feed \<Rightarrow> view_panic + Feed" where
  "accumulate_quotes fills f =
     (case add_quotes (fd_bar_intervals_ms f) fills (ss_bar_quote (fd_shared f)) of
        Inl e \<Rightarrow> Inl e
      | Inr quotes \<Rightarrow>
          let newest = ss_last_ts_ms (fd_shared f)
          in Inr (with_shared (\<lambda>s. s\<lparr>ss_bar_quote :=
               filter (\<lambda>(key, _). newest \<le> min (snd key + wrap_u64 (fst key * 2)) (2 ^ 64 - 1)) quotes\<rparr>) f))"

definition feed_quote_volume :: "Feed \<Rightarrow> BarRecord \<Rightarrow> fixed" where
  "feed_quote_volume f bar =
     (case bt_get (br_interval_ms bar, br_window_start_ms bar) (ss_bar_quote (fd_shared f)) of
        None \<Rightarrow> 0 | Some x \<Rightarrow> x)"

definition kline_label :: "u64 \<Rightarrow> string" where
  "kline_label interval_ms =
     (if interval_ms = 1000 then ''1s'' else if interval_ms = 60000 then ''1m''
      else if interval_ms = 180000 then ''3m'' else if interval_ms = 300000 then ''5m''
      else if interval_ms = 900000 then ''15m'' else if interval_ms = 1800000 then ''30m''
      else if interval_ms = 3600000 then ''1h'' else if interval_ms = 7200000 then ''2h''
      else if interval_ms = 14400000 then ''4h'' else if interval_ms = 21600000 then ''6h''
      else if interval_ms = 28800000 then ''8h'' else if interval_ms = 43200000 then ''12h''
      else if interval_ms = 86400000 then ''1d'' else if interval_ms = 259200000 then ''3d''
      else if interval_ms = 604800000 then ''1w'' else if interval_ms = 2592000000 then ''1M''
      else show_nat interval_ms @ ''ms'')"

text \<open>The match on the body, after the position has been accepted.\<close>

definition apply_trades :: "MarketMessage \<Rightarrow> TradeRecord list \<Rightarrow> Feed \<Rightarrow> view_panic + Feed" where
  "apply_trades message fills f =
     (case accumulate_quotes fills f of
        Inl e \<Rightarrow> Inl e
      | Inr f \<Rightarrow>
          let f = foldl (\<lambda>f fill. feed_publish ''trade'' (TradePayload fill) f) f fills
          in Inr (if fills = [] then f else feed_publish ''sweep'' (SweepPayload message) f))"

definition apply_bbo :: "MarketMessage \<Rightarrow> BboRecord \<Rightarrow> Feed \<Rightarrow> Feed" where
  "apply_bbo message bbo f =
     (let update_id = wrap_u64 (mm_market_seq message + 1);
          f = with_shared (\<lambda>s. s\<lparr>ss_bbo := Some bbo, ss_bbo_update_id := update_id\<rparr>) f
      in feed_publish ''bookTicker'' (BookTickerPayload bbo update_id (mm_ts_ms message)) f)"

definition apply_bar :: "MarketMessage \<Rightarrow> BarRecord \<Rightarrow> Feed \<Rightarrow> Feed" where
  "apply_bar message bar f =
     (let quote = feed_quote_volume f bar;
          f = with_shared (\<lambda>s. s\<lparr>ss_bars := bt_insert (br_interval_ms bar) bar (ss_bars s)\<rparr>) f;
          closed = (mm_flags message AND FLAG_BAR_CLOSE \<noteq> 0)
      in feed_publish (''kline_'' @ kline_label (br_interval_ms bar)) (KlinePayload bar quote (mm_ts_ms message) closed) f)"

definition apply_status :: "MarketMessage \<Rightarrow> StatusRecord \<Rightarrow> Feed \<Rightarrow> Feed" where
  "apply_status message status f =
     (let f = with_shared (\<lambda>s. s\<lparr>ss_status := Some status\<rparr>) f
      in feed_publish ''status''
           (StatusPayload status (ss_last_update_id (fd_shared f)) (mm_epoch message) (mm_leader_id message)
             (ready (fd_shared f)) (mm_ts_ms message)) f)"

definition apply_gap :: "GapRecord \<Rightarrow> Feed \<Rightarrow> Feed" where
  "apply_gap gap f =
     (let f = f\<lparr>fd_stats := fs_gaps_update (fetch_add 1) (fd_stats f)\<rparr>;
          f = with_shared (\<lambda>s. s\<lparr>ss_depth_stale := True\<rparr>) f
      in broadcast_resync ''gap'' (gr_dropped gap) f)"

definition apply_message_body :: "MarketMessage \<Rightarrow> Feed \<Rightarrow> view_panic + Feed" where
  "apply_message_body message f =
     (case mm_body message of
        MB_DepthSnapshot snapshot \<Rightarrow> Inr (feed_apply_snapshot message snapshot f)
      | MB_DepthDelta updates \<Rightarrow> Inr (feed_apply_delta message updates f)
      | MB_Bbo bbo \<Rightarrow> Inr (apply_bbo message bbo f)
      | MB_Trade fills \<Rightarrow> apply_trades message fills f
      | MB_Lifecycle records \<Rightarrow>
          Inr (if fd_lifecycle f then feed_publish ''lifecycle'' (LifecyclePayload records (mm_ts_ms message)) f else f)
      | MB_Bar bar \<Rightarrow> Inr (apply_bar message bar f)
      | MB_Status status \<Rightarrow> Inr (apply_status message status f)
      | MB_Gap gap \<Rightarrow> Inr (apply_gap gap f))"

definition feed_apply :: "MarketMessage \<Rightarrow> Feed \<Rightarrow> view_panic + Feed" where
  "feed_apply message f =
     (let position = (mm_market_seq message, mm_sub_seq message)
      in if (case bt_get (mm_stream message) (fd_seen f) of None \<Rightarrow> False | Some previous \<Rightarrow> position \<le> previous)
         then Inr f
         else
           let f = f\<lparr>fd_seen := bt_insert (mm_stream message) position (fd_seen f),
                     fd_stats := (fs_messages_update (fetch_add 1) (fd_stats f))\<lparr>fs_last_ts_ms := mm_ts_ms message\<rparr>\<rparr>;
               f = with_shared (\<lambda>s. s\<lparr>ss_last_ts_ms := mm_ts_ms message, ss_epoch := mm_epoch message,
                     ss_leader_id := mm_leader_id message\<rparr>) f
           in apply_message_body message f)"

section \<open>Flushing a window\<close>

definition window_of :: "Speed \<Rightarrow> Feed \<Rightarrow> DepthWindow" where
  "window_of speed f = (case speed of Ms100 \<Rightarrow> fd_fast f | Ms1000 \<Rightarrow> fd_slow f)"

definition first_update_id :: "u64 option \<Rightarrow> u64 \<Rightarrow> u64 \<Rightarrow> u64" where
  "first_update_id last_u first_seq last_update_id =
     min (case last_u of
            Some previous \<Rightarrow> if previous < last_update_id then wrap_u64 (previous + 1) else wrap_u64 (first_seq + 1)
          | None \<Rightarrow> wrap_u64 (first_seq + 1)) last_update_id"

definition flush_partial :: "Speed \<Rightarrow> u64 \<Rightarrow> Feed \<Rightarrow> nat \<Rightarrow> Feed" where
  "flush_partial speed last_update_id f levels =
     (let key = sy_symbol (fd_symbol f) @ ''@depth'' @ show_nat levels @ ''@'' @ speed_label speed
      in if \<not> has_subscribers key (fd_registry f) then f
         else publish_key key (DepthPartialPayload last_update_id (depth_top (ss_depth (fd_shared f)) Buy levels)
                (depth_top (ss_depth (fd_shared f)) Sell levels)) f)"

definition flush :: "Speed \<Rightarrow> Feed \<Rightarrow> view_panic + Feed" where
  "flush speed f =
     (let w = window_of speed f
      in if \<not> dw_changed w then Inr f
         else (case (dw_first_seq w, dw_last_seq w) of
             (Some first_seq, Some last_seq) \<Rightarrow>
               let last_update_id = wrap_u64 (last_seq + 1);
                   first_id = first_update_id (fd_last_depth_u f) first_seq last_update_id;
                   f = f\<lparr>fd_last_depth_u := Some last_update_id\<rparr>;
                   bid_levels = depth_touched (ss_depth (fd_shared f)) Buy (dw_bids w);
                   ask_levels = depth_touched (ss_depth (fd_shared f)) Sell (dw_asks w);
                   f = feed_publish (''depth@'' @ speed_label speed)
                         (DepthUpdatePayload first_id last_update_id bid_levels ask_levels (dw_ts_ms w)) f;
                   f = foldl (flush_partial speed last_update_id) f [5, 10, 20];
                   f = with_shared (\<lambda>s. s\<lparr>ss_last_update_id := last_update_id\<rparr>) f
               in Inr (case speed of Ms100 \<Rightarrow> f\<lparr>fd_fast := window_reset (fd_fast f)\<rparr>
                                   | Ms1000 \<Rightarrow> f\<lparr>fd_slow := window_reset (fd_slow f)\<rparr>)
           | _ \<Rightarrow> Inl MissingSequence))"

end
