(* ===== verification/Feed_Properties.thy ===== *)
theory Feed_Properties
  imports Shadow_Feed Depth_Feed
begin

text \<open>
  The consumer of the market-data messages (\<open>demos/market_data_system/src/feed.rs\<close>): it applies a message
  at most once however often it is delivered, its windows can always be flushed, and its depth book
  takes over exactly the levels a depth message names.  The last section has the runs in which the
  messages of the engine do not bring the consumer's book to the engine's.
\<close>

section \<open>What a message and a flush leave alone\<close>

lemma registry_fields [simp]:
  "fd_seen (publish_key key p f) = fd_seen f" "fd_shared (publish_key key p f) = fd_shared f"
  "fd_fast (publish_key key p f) = fd_fast f" "fd_slow (publish_key key p f) = fd_slow f"
  by (simp_all add: publish_key_def Let_def split_beta)

lemma publish_fields [simp]:
  "fd_seen (feed_publish suffix p f) = fd_seen f" "fd_shared (feed_publish suffix p f) = fd_shared f"
  "fd_fast (feed_publish suffix p f) = fd_fast f" "fd_slow (feed_publish suffix p f) = fd_slow f"
  by (simp_all add: feed_publish_def)

lemma foldl_field: "(\<And>f x. g (h f x) = g f) \<Longrightarrow> g (foldl h f xs) = g f"
  by (induction xs arbitrary: f) simp_all

lemma resync_fields [simp]:
  "fd_seen (broadcast_resync reason n f) = fd_seen f" "fd_shared (broadcast_resync reason n f) = fd_shared f"
  "fd_fast (broadcast_resync reason n f) = fd_fast f" "fd_slow (broadcast_resync reason n f) = fd_slow f"
  by (simp_all add: broadcast_resync_def Let_def foldl_field[of fd_seen] foldl_field[of fd_shared]
      foldl_field[of fd_fast] foldl_field[of fd_slow])

lemma send_snapshot_fields [simp]:
  "fd_seen (send_snapshot f) = fd_seen f" "fd_shared (send_snapshot f) = fd_shared f"
  "fd_fast (send_snapshot f) = fd_fast f" "fd_slow (send_snapshot f) = fd_slow f"
  by (simp_all add: send_snapshot_def Let_def foldl_field[of fd_seen] foldl_field[of fd_shared]
      foldl_field[of fd_fast] foldl_field[of fd_slow])

lemma with_shared_fields [simp]:
  "fd_seen (with_shared g f) = fd_seen f" "fd_shared (with_shared g f) = g (fd_shared f)"
  "fd_fast (with_shared g f) = fd_fast f" "fd_slow (with_shared g f) = fd_slow f"
  by (simp_all add: with_shared_def)

lemma apply_trades_fields:
  assumes "apply_trades message fills f = Inr f'"
  shows "fd_seen f' = fd_seen f" "fd_fast f' = fd_fast f" "fd_slow f' = fd_slow f"
    "ss_depth (fd_shared f') = ss_depth (fd_shared f)"
  using assms
  by (auto simp: apply_trades_def accumulate_quotes_def Let_def foldl_field[of fd_seen] foldl_field[of fd_fast]
      foldl_field[of fd_slow] foldl_field[of fd_shared] split: sum.splits if_splits)

lemma apply_body_seen:
  assumes "apply_message_body message f = Inr f'"
  shows "fd_seen f' = fd_seen f"
  using assms apply_trades_fields(1)[of message _ f f']
  by (auto simp: apply_message_body_def feed_apply_snapshot_def feed_apply_delta_def apply_bbo_def apply_bar_def
      apply_status_def apply_gap_def Let_def split: MessageBody.splits if_splits)

section \<open>At-least-once delivery\<close>

primrec feed_applies :: "MarketMessage list \<Rightarrow> Feed \<Rightarrow> view_panic + Feed" where
  "feed_applies [] f = Inr f"
| "feed_applies (m # ms) f = (case feed_apply m f of Inl e \<Rightarrow> Inl e | Inr f \<Rightarrow> feed_applies ms f)"

definition handled :: "Feed \<Rightarrow> MarketMessage \<Rightarrow> bool" where
  "handled f m \<longleftrightarrow> (\<exists>last_pos. bt_get (mm_stream m) (fd_seen f) = Some last_pos \<and> (mm_market_seq m, mm_sub_seq m) \<le> last_pos)"

lemma handled_skip: "handled f m \<Longrightarrow> feed_apply m f = Inr f"
  by (auto simp: handled_def feed_apply_def Let_def)

lemma feed_apply_seen:
  assumes "feed_apply m f = Inr f'"
  shows "fd_seen f' = fd_seen f \<and> handled f m
    \<or> fd_seen f' = bt_insert (mm_stream m) (mm_market_seq m, mm_sub_seq m) (fd_seen f) \<and> \<not> handled f m"
proof (cases "handled f m")
  case True
  then show ?thesis using assms handled_skip[OF True] by simp
next
  case False
  then have "fd_seen f' = bt_insert (mm_stream m) (mm_market_seq m, mm_sub_seq m) (fd_seen f)"
    using assms apply_body_seen
    by (auto simp: handled_def feed_apply_def Let_def split: option.splits dest!: apply_body_seen)
  then show ?thesis using False by simp
qed

lemma feed_apply_handles:
  assumes "feed_apply m f = Inr f'"
  shows "handled f' m" "handled f n \<Longrightarrow> handled f' n"
proof -
  show "handled f' m" using feed_apply_seen[OF assms] by (auto simp: handled_def bt_get_insert)
  assume n: "handled f n"
  then show "handled f' n"
    using feed_apply_seen[OF assms] by (fastforce simp: handled_def bt_get_insert)
qed

lemma feed_applies_handles:
  assumes "feed_applies ms f = Inr f'"
  shows "handled f n \<or> n \<in> set ms \<Longrightarrow> handled f' n"
  using assms
proof (induction ms arbitrary: f)
  case (Cons m ms)
  then obtain g where g: "feed_apply m f = Inr g" "feed_applies ms g = Inr f'" by (auto split: sum.splits)
  then show ?case using Cons.IH[OF _ g(2)] Cons.prems(1) feed_apply_handles[OF g(1)] by auto
qed simp

lemma feed_applies_append:
  "feed_applies (ms @ ns) f = (case feed_applies ms f of Inl e \<Rightarrow> Inl e | Inr f \<Rightarrow> feed_applies ns f)"
  by (induction ms arbitrary: f) (simp_all split: sum.split)

lemma feed_applies_skip: "\<forall>n \<in> set ns. handled f n \<Longrightarrow> feed_applies ns f = Inr f"
  by (induction ns) (simp_all add: handled_skip)

definition sample_view :: Feed where
  "sample_view = (Feed_new \<lparr>sy_symbol = ''btcusdt'', sy_symbol_id = 0, sy_base_asset = ''btc'', sy_quote_asset = ''usdt''\<rparr>
     [1000] True 10 (SharedState_default\<lparr>ss_snapshot_seen := True\<rparr>) [] Stats_default)"

definition sample_delta :: MarketMessage where
  "sample_delta = \<lparr>mm_stream = STREAM_DEPTH_DELTA, mm_flags = FLAG_END_OF_BATCH, mm_market_seq = 3, mm_sub_seq = 0,
     mm_log_index = 4, mm_ordinal = 0, mm_epoch = 1, mm_leader_id = 1, mm_ts_ms = 0, mm_symbol_id = 0,
     mm_body = MB_DepthDelta [\<lparr>lu_side = Buy, lu_level = \<lparr>dl_price = 100, dl_volume = 5, dl_orders = 1\<rparr>\<rparr>]\<rparr>"

lemmas view_eval = Feed_new_def SharedState_default_def feed_apply_def Let_def apply_message_body_def feed_apply_delta_def
  with_shared_def apply_depth_level_def depth_apply_def set_level_def DepthBook_default_def depth_total_def depth_side_def

text \<open>
  C38: Redelivery is harmless.  Whatever messages a consumer has taken in, any later delivery of some of
  them again, in any order and any number, leaves the whole feed (book, bars, windows, counters and what
  the streams were sent) unchanged.
\<close>

theorem redelivery_ignored:
  assumes "feed_applies ms f = Inr f'" "set ns \<subseteq> set ms"
  shows "feed_applies (ms @ ns) f = Inr f'"
proof -
  have "\<forall>n \<in> set ns. handled f' n" using feed_applies_handles[OF assms(1)] assms(2) by blast
  then show ?thesis using assms(1) by (simp add: feed_applies_append feed_applies_skip)
qed

theorem redelivery_ignored_witness:
  "\<exists>f'. feed_applies [sample_delta, sample_delta] sample_view = Inr f'
     \<and> depth_total (ss_depth (fd_shared f')) Buy 100 = 5"
proof -
  have one: "\<exists>f'. feed_applies [sample_delta] sample_view = Inr f' \<and> depth_total (ss_depth (fd_shared f')) Buy 100 = 5"
    by (simp add: sample_view_def sample_delta_def view_eval)
  then obtain f' where f': "feed_applies [sample_delta] sample_view = Inr f'" "depth_total (ss_depth (fd_shared f')) Buy 100 = 5"
    by (elim exE conjE)
  have "feed_applies ([sample_delta] @ [sample_delta]) sample_view = Inr f'"
    by (rule redelivery_ignored[OF f'(1)]) simp
  then show ?thesis using f'(2) by simp
qed

section \<open>The depth book after a delta\<close>

definition view_level :: "Feed \<Rightarrow> OrderSide \<Rightarrow> fixed \<Rightarrow> Level option" where
  "view_level f side p = bt_get p (depth_side side (ss_depth (fd_shared f)))"

definition depth_ok :: "DepthBook \<Rightarrow> bool" where
  "depth_ok book \<longleftrightarrow> bt_ok (db_bids book) \<and> bt_ok (db_asks book)"

lemma set_level_get:
  assumes "bt_ok m"
  shows "bt_ok (set_level p v n m)"
    "bt_get q (set_level p v n m) =
      (if q \<noteq> p then bt_get q m else if v \<le> 0 then None else Some \<lparr>lv_volume = v, lv_orders = n\<rparr>)"
  using assms by (simp_all add: set_level_def bt_ok_insert bt_ok_remove bt_get_insert bt_get_remove)

lemma depth_apply_get:
  assumes "depth_ok book"
  shows "depth_ok (depth_apply side p v n book)"
    "bt_get q (depth_side s (depth_apply side p v n book)) =
      (if s \<noteq> side \<or> q \<noteq> p then bt_get q (depth_side s book)
       else if v \<le> 0 then None else Some \<lparr>lv_volume = v, lv_orders = n\<rparr>)"
  using assms by (cases side; cases s; simp add: depth_ok_def depth_apply_def depth_side_def set_level_get)+

text \<open>Updates that agree on a level: whichever comes last, the level takes their value.\<close>

lemma updates_get:
  assumes "depth_ok book"
    and "\<And>u. u \<in> set us \<Longrightarrow> lu_side u = s \<Longrightarrow> dl_price (lu_level u) = q \<Longrightarrow> lu_level u = level"
  shows "depth_ok (foldl (\<lambda>book u. apply_depth_level (lu_side u) book (lu_level u)) book us)"
    "bt_get q (depth_side s (foldl (\<lambda>book u. apply_depth_level (lu_side u) book (lu_level u)) book us)) =
      (if \<exists>u \<in> set us. lu_side u = s \<and> dl_price (lu_level u) = q
       then (if dl_volume level \<le> 0 then None else Some \<lparr>lv_volume = dl_volume level, lv_orders = dl_orders level\<rparr>)
       else bt_get q (depth_side s book))"
proof -
  show "depth_ok (foldl (\<lambda>book u. apply_depth_level (lu_side u) book (lu_level u)) book us)"
    using assms(1) by (induction us arbitrary: book) (simp_all add: apply_depth_level_def depth_apply_get)
  show "bt_get q (depth_side s (foldl (\<lambda>book u. apply_depth_level (lu_side u) book (lu_level u)) book us)) =
      (if \<exists>u \<in> set us. lu_side u = s \<and> dl_price (lu_level u) = q
       then (if dl_volume level \<le> 0 then None else Some \<lparr>lv_volume = dl_volume level, lv_orders = dl_orders level\<rparr>)
       else bt_get q (depth_side s book))"
    using assms
  proof (induction us arbitrary: book)
    case (Cons u us)
    have a: "lu_level u = level" if "lu_side u = s" "dl_price (lu_level u) = q" using Cons.prems(2)[of u] that by simp
    have ok: "depth_ok (apply_depth_level (lu_side u) book (lu_level u))"
      using Cons.prems(1) by (simp add: apply_depth_level_def depth_apply_get)
    have one: "bt_get q (depth_side s (apply_depth_level (lu_side u) book (lu_level u))) =
      (if lu_side u = s \<and> dl_price (lu_level u) = q
       then (if dl_volume level \<le> 0 then None else Some \<lparr>lv_volume = dl_volume level, lv_orders = dl_orders level\<rparr>)
       else bt_get q (depth_side s book))"
      using depth_apply_get(2)[OF Cons.prems(1), of q s "lu_side u" "dl_price (lu_level u)"] a
      by (auto simp: apply_depth_level_def)
    have "bt_get q (depth_side s (foldl (\<lambda>book u. apply_depth_level (lu_side u) book (lu_level u))
        (apply_depth_level (lu_side u) book (lu_level u)) us)) =
      (if \<exists>u \<in> set us. lu_side u = s \<and> dl_price (lu_level u) = q
       then (if dl_volume level \<le> 0 then None else Some \<lparr>lv_volume = dl_volume level, lv_orders = dl_orders level\<rparr>)
       else bt_get q (depth_side s (apply_depth_level (lu_side u) book (lu_level u))))"
      by (rule Cons.IH[OF ok]) (use Cons.prems(2) in simp)
    then show ?case using one by auto
  qed simp
qed

definition side_no :: "OrderSide \<Rightarrow> nat" where
  "side_no side = (case side of Buy \<Rightarrow> 0 | Sell \<Rightarrow> 1)"

definition touched_level :: "(nat \<times> fixed, unit) btree \<Rightarrow> OrderSide \<Rightarrow> fixed \<Rightarrow> bool" where
  "touched_level touched side p \<longleftrightarrow> (side_no side, p) \<in> fst ` set touched"

lemma set_map_filter: "set (List.map_filter g xs) = {y. \<exists>x \<in> set xs. g x = Some y}"
  by (induction xs) (auto split: option.splits)

lemma touched_updates_set:
  assumes "\<forall>side p l. shadow_level book side p = Some l \<longrightarrow> ls_price l = p" "\<forall>k \<in> fst ` set touched. fst k \<le> 1"
  shows "u \<in> set (touched_updates book touched) \<longleftrightarrow>
    (\<exists>l. touched_level touched (lu_side u) (dl_price (lu_level u))
       \<and> shadow_level book (lu_side u) (dl_price (lu_level u)) = Some l \<and> u = \<lparr>lu_side = lu_side u, lu_level = depth_of_level l\<rparr>)"
    (is "?L \<longleftrightarrow> ?R")
proof
  assume ?L
  then obtain x where x: "x \<in> fst ` set touched" "map_option (\<lambda>level. \<lparr>lu_side = (if fst x = 0 then Buy else Sell),
      lu_level = depth_of_level level\<rparr>) (shadow_level book (if fst x = 0 then Buy else Sell) (snd x)) = Some u"
    unfolding touched_updates_def set_map_filter Let_def split_beta set_map by blast
  define side where "side = (if fst x = 0 then Buy else Sell)"
  obtain l where l: "shadow_level book side (snd x) = Some l" "u = \<lparr>lu_side = side, lu_level = depth_of_level l\<rparr>"
    using x(2) unfolding side_def[symmetric] by (cases "shadow_level book side (snd x)") auto
  have "ls_price l = snd x" using assms(1) l(1) by blast
  moreover have "x = (side_no side, snd x)"
    using assms(2) x(1) by (cases x) (force simp: side_no_def side_def)
  ultimately show ?R using l x(1) by (auto simp: touched_level_def depth_of_level_def)
next
  assume ?R
  then obtain l where l: "touched_level touched (lu_side u) (dl_price (lu_level u))"
    "shadow_level book (lu_side u) (dl_price (lu_level u)) = Some l" "u = \<lparr>lu_side = lu_side u, lu_level = depth_of_level l\<rparr>"
    by blast
  have s: "(if side_no (lu_side u) = 0 then Buy else Sell) = lu_side u" by (simp add: side_no_def split: OrderSide.split)
  have "\<exists>x \<in> fst ` set touched. (let side = (if fst x = 0 then Buy else Sell)
       in map_option (\<lambda>level. \<lparr>lu_side = side, lu_level = depth_of_level level\<rparr>) (shadow_level book side (snd x))) = Some u"
    by (rule bexI[of _ "(side_no (lu_side u), dl_price (lu_level u))"]) (use l s in \<open>simp_all add: touched_level_def\<close>)
  then show ?L unfolding touched_updates_def set_map_filter split_beta set_map by blast
qed

lemma touch_keys:
  "fst ` set (snd (foldl (touch sid) st j)) \<subseteq> fst ` set (snd st) \<union> {(side_no (dc_side c), dc_price c) |c. c \<in> set j}
   \<and> (bt_ok (snd st) \<longrightarrow> bt_ok (snd (foldl (touch sid) st j))
       \<and> fst ` set (snd (foldl (touch sid) st j)) = fst ` set (snd st) \<union> {(side_no (dc_side c), dc_price c) |c. c \<in> set j})"
proof (induction j arbitrary: st rule: rev_induct)
  case (snoc c j)
  let ?t = "snd (foldl (touch sid) st j)"
  have t: "snd (foldl (touch sid) st (j @ [c])) = bt_insert (side_no (dc_side c), dc_price c) () ?t"
    by (simp add: touch_def Let_def split_beta side_no_def)
  have k: "fst ` set (bt_insert k () m) = insert k (fst ` set m)" for k :: "nat \<times> fixed" and m
    by (induction m) auto
  show ?case using snoc[of st] unfolding t k by (auto simp: bt_ok_insert)
qed simp

lemma side_no_le: "side_no side \<le> 1"
  by (simp add: side_no_def split: OrderSide.split)

lemma touched_by_journal:
  "touched_level (snd (foldl (touch sid) (p, []) j)) side q \<longleftrightarrow> (\<exists>c \<in> set j. dc_side c = side \<and> dc_price c = q)"
  "\<forall>k \<in> fst ` set (snd (foldl (touch sid) (p, []) j)). fst k \<le> 1"
proof -
  have k: "fst ` set (snd (foldl (touch sid) (p, []) j)) = {(side_no (dc_side c), dc_price c) |c. c \<in> set j}"
    using touch_keys[of sid "(p, [])" j] by simp
  have "side_no a = side_no b \<longleftrightarrow> a = b" for a b by (cases a; cases b) (simp_all add: side_no_def)
  then show "touched_level (snd (foldl (touch sid) (p, []) j)) side q \<longleftrightarrow> (\<exists>c \<in> set j. dc_side c = side \<and> dc_price c = q)"
    unfolding touched_level_def k by auto
  show "\<forall>k \<in> fst ` set (snd (foldl (touch sid) (p, []) j)). fst k \<le> 1"
    unfolding k using side_no_le by auto
qed

definition accepted :: "MarketMessage \<Rightarrow> Feed \<Rightarrow> Feed" where
  "accepted m f = with_shared (\<lambda>s. s\<lparr>ss_last_ts_ms := mm_ts_ms m, ss_epoch := mm_epoch m, ss_leader_id := mm_leader_id m\<rparr>)
     (f\<lparr>fd_seen := bt_insert (mm_stream m) (mm_market_seq m, mm_sub_seq m) (fd_seen f),
        fd_stats := (fs_messages_update (fetch_add 1) (fd_stats f))\<lparr>fs_last_ts_ms := mm_ts_ms m\<rparr>\<rparr>)"

lemma feed_apply_fresh:
  assumes "\<not> handled f m"
  shows "feed_apply m f = apply_message_body m (accepted m f)"
proof -
  have "\<not> (case bt_get (mm_stream m) (fd_seen f) of None \<Rightarrow> False | Some previous \<Rightarrow> (mm_market_seq m, mm_sub_seq m) \<le> previous)"
    using assms by (simp add: handled_def split: option.splits)
  then show ?thesis unfolding feed_apply_def Let_def accepted_def by (simp only: if_False)
qed

lemma tracked_price: "shadow_tracks book t \<Longrightarrow> shadow_level book side p = Some l \<Longrightarrow> ls_price l = p"
  by (auto simp: shadow_tracks_def split: if_splits)

text \<open>
  C37: What a depth delta does to the consumer's book.  The delta of a frame brings every level the
  frame's journal touched and that is still in the engine's shadow book to its volume and order count
  there (and drops it when the volume is not positive); every other level keeps its value.  In
  particular a touched level that vanished from the shadow book stays in the consumer's book.
\<close>

theorem delta_transfers_levels:
  assumes "depth_ok (ss_depth (fd_shared f))" "ready (fd_shared f)" "\<not> handled f m" "shadow_tracks book t"
    and "mm_body m = MB_DepthDelta (touched_updates book (snd (foldl (touch sid) (p, []) j)))"
  shows "\<exists>f'. feed_apply m f = Inr f' \<and> (\<forall>side q. view_level f' side q =
    (case if \<exists>c \<in> set j. dc_side c = side \<and> dc_price c = q then shadow_level book side q else None of
       None \<Rightarrow> view_level f side q
     | Some l \<Rightarrow> if ls_volume l \<le> 0 then None else Some \<lparr>lv_volume = ls_volume l, lv_orders = ls_orders l\<rparr>))"
proof -
  define us where "us = touched_updates book (snd (foldl (touch sid) (p, []) j))"
  have u: "u \<in> set us \<longleftrightarrow> (\<exists>l. (\<exists>c \<in> set j. dc_side c = lu_side u \<and> dc_price c = dl_price (lu_level u))
      \<and> shadow_level book (lu_side u) (dl_price (lu_level u)) = Some l \<and> u = \<lparr>lu_side = lu_side u, lu_level = depth_of_level l\<rparr>)" for u
    using touched_updates_set[of book "snd (foldl (touch sid) (p, []) j)" u, OF _ touched_by_journal(2)] tracked_price[OF assms(4)]
    unfolding us_def touched_by_journal(1) by blast
  define f' where "f' = feed_apply_delta m us (accepted m f)"
  have f': "feed_apply m f = Inr f'"
      "ss_depth (fd_shared f') = foldl (\<lambda>book u. apply_depth_level (lu_side u) book (lu_level u)) (ss_depth (fd_shared f)) us"
    using assms(2,5) feed_apply_fresh[OF assms(3)]
    by (simp_all add: f'_def apply_message_body_def feed_apply_delta_def ready_def accepted_def us_def Let_def)
  have "view_level f' side q =
    (case if \<exists>c \<in> set j. dc_side c = side \<and> dc_price c = q then shadow_level book side q else None of
       None \<Rightarrow> view_level f side q
     | Some l \<Rightarrow> if ls_volume l \<le> 0 then None else Some \<lparr>lv_volume = ls_volume l, lv_orders = ls_orders l\<rparr>)" for side q
  proof -
    define l where "l = the (shadow_level book side q)"
    have same: "lu_level v = depth_of_level l" if "v \<in> set us" "lu_side v = side" "dl_price (lu_level v) = q" for v
      using u[of v] that by (auto simp: l_def) (metis LevelUpdate.select_convs(2))
    have ex: "(\<exists>v \<in> set us. lu_side v = side \<and> dl_price (lu_level v) = q) \<longleftrightarrow>
        (\<exists>c \<in> set j. dc_side c = side \<and> dc_price c = q) \<and> shadow_level book side q \<noteq> None"
    proof
      assume "(\<exists>c \<in> set j. dc_side c = side \<and> dc_price c = q) \<and> shadow_level book side q \<noteq> None"
      then have "\<lparr>lu_side = side, lu_level = depth_of_level l\<rparr> \<in> set us" "dl_price (depth_of_level l) = q"
        using tracked_price[OF assms(4), of side q] by (auto simp: u l_def depth_of_level_def)
      then show "\<exists>v \<in> set us. lu_side v = side \<and> dl_price (lu_level v) = q" by force
    qed (use u in auto)
    have "view_level f' side q =
      (if (\<exists>c \<in> set j. dc_side c = side \<and> dc_price c = q) \<and> shadow_level book side q \<noteq> None
       then (if dl_volume (depth_of_level l) \<le> 0 then None
             else Some \<lparr>lv_volume = dl_volume (depth_of_level l), lv_orders = dl_orders (depth_of_level l)\<rparr>)
       else view_level f side q)"
      unfolding view_level_def f'(2) ex[symmetric] by (rule updates_get(2)[OF assms(1) same])
    then show ?thesis
      by (cases "shadow_level book side q"; cases "\<exists>c \<in> set j. dc_side c = side \<and> dc_price c = q")
        (auto simp: l_def depth_of_level_def)
  qed
  then show ?thesis using f'(1) by blast
qed

theorem delta_transfers_levels_witness:
  "\<exists>f'. feed_apply sample_delta sample_view = Inr f' \<and> view_level f' Buy 100 = Some \<lparr>lv_volume = 5, lv_orders = 1\<rparr>"
proof -
  let ?c = "\<lparr>dc_side = Buy, dc_price = 100, dc_delta_volume = 5, dc_delta_orders = 1\<rparr>"
  let ?book = "shadow_apply ShadowBook_default ?c" and ?t = "\<lambda>side p. if side = Buy \<and> p = (100 :: int) then (5 :: int, 1 :: int) else (0, 0)"
  have b: "?book = \<lparr>sb_bids = [(100, \<lparr>ls_price = 100, ls_volume = 5, ls_orders = 1\<rparr>)], sb_asks = [], sb_last_trade = None\<rparr>"
    by (simp add: shadow_apply_def ShadowBook_default_def apply_level_def fixed_add_def wrap_i128_def wrap_u32_def)
  have t: "shadow_tracks ?book ?t"
    unfolding b by (auto simp: shadow_tracks_def shadow_level_def bt_ok_Cons wrap_i128_def split: OrderSide.splits)
  have body: "mm_body sample_delta = MB_DepthDelta (touched_updates ?book (snd (foldl (touch 0) (open_feed, []) [?c])))"
    unfolding b by (simp add: sample_delta_def touched_updates_def touch_def shadow_level_def depth_of_level_def List.map_filter_def)
  have v: "depth_ok (ss_depth (fd_shared sample_view))" "ready (fd_shared sample_view)" "\<not> handled sample_view sample_delta"
    by (simp_all add: sample_view_def Feed_new_def SharedState_default_def depth_ok_def DepthBook_default_def ready_def handled_def)
  have l: "shadow_level ?book Buy 100 = Some \<lparr>ls_price = 100, ls_volume = 5, ls_orders = 1\<rparr>"
    unfolding b by (simp add: shadow_level_def)
  from delta_transfers_levels[OF v t body] obtain f' where f': "feed_apply sample_delta sample_view = Inr f'"
    "view_level f' Buy 100 = (case shadow_level ?book Buy 100 of None \<Rightarrow> view_level sample_view Buy 100
     | Some l \<Rightarrow> if ls_volume l \<le> 0 then None else Some \<lparr>lv_volume = ls_volume l, lv_orders = ls_orders l\<rparr>)"
    by auto
  then show ?thesis by (simp add: l)
qed

section \<open>Flushing\<close>

inductive view_reach :: "Feed \<Rightarrow> bool" where
  view_new: "view_reach (Feed_new spec intervals lifecycle levels SharedState_default reg stats)"
| view_message: "view_reach f \<Longrightarrow> feed_apply m f = Inr f' \<Longrightarrow> view_reach f'"
| view_flush: "view_reach f \<Longrightarrow> flush speed f = Inr f' \<Longrightarrow> view_reach f'"

definition window_ok :: "DepthWindow \<Rightarrow> bool" where
  "window_ok w \<longleftrightarrow> (dw_changed w \<longrightarrow> dw_first_seq w \<noteq> None \<and> dw_last_seq w \<noteq> None)"

lemma window_ok_ops [simp]: "window_ok (window_reset w)" "window_ok (window_add m us w)" "window_ok DepthWindow_default"
  by (simp_all add: window_ok_def window_reset_def window_add_def DepthWindow_default_def Let_def)

lemma flush_partial_fields [simp]:
  "fd_fast (flush_partial speed n f k) = fd_fast f" "fd_slow (flush_partial speed n f k) = fd_slow f"
  "fd_shared (flush_partial speed n f k) = fd_shared f"
  by (simp_all add: flush_partial_def Let_def)

lemma flush_windows:
  assumes "flush speed f = Inr f'" "window_ok (fd_fast f)" "window_ok (fd_slow f)"
  shows "window_ok (fd_fast f')" "window_ok (fd_slow f')"
  using assms
  by (auto simp: flush_def Let_def window_of_def split: if_splits option.splits Speed.splits)

lemma apply_windows:
  assumes "apply_message_body m f = Inr f'" "window_ok (fd_fast f)" "window_ok (fd_slow f)"
  shows "window_ok (fd_fast f')" "window_ok (fd_slow f')"
  using assms apply_trades_fields(2,3)[of m _ f f']
  by (auto simp: apply_message_body_def feed_apply_snapshot_def feed_apply_delta_def apply_bbo_def apply_bar_def
      apply_status_def apply_gap_def Let_def split: MessageBody.splits if_splits)

lemma view_windows: "view_reach f \<Longrightarrow> window_ok (fd_fast f) \<and> window_ok (fd_slow f)"
proof (induction rule: view_reach.induct)
  case (view_message f m f')
  then show ?case
    using apply_windows[of m "accepted m f" f'] handled_skip[of f m] feed_apply_fresh[of f m]
    by (cases "handled f m") (auto simp: accepted_def)
next
  case (view_flush f speed f')
  then show ?case using flush_windows by blast
qed (simp add: Feed_new_def)

text \<open>The \<open>expect\<close> of a flush never fires.\<close>

lemma flush_total: "view_reach f \<Longrightarrow> \<exists>f'. flush speed f = Inr f'"
  using view_windows[of f]
  by (auto simp: flush_def Let_def window_of_def window_ok_def split: Speed.split option.split)

section \<open>Runs in which the consumer goes astray\<close>

definition fresh_view :: Feed where
  "fresh_view = (Feed_new \<lparr>sy_symbol = ''b'', sy_symbol_id = 0, sy_base_asset = ''b'', sy_quote_asset = ''u''\<rparr>
     [1000] True 10 SharedState_default [] Stats_default)"

text \<open>The engine's side of a run: a reset and the frames after it; the consumer sees everything the sink got.\<close>

definition feed_run :: "SnapshotFrame \<Rightarrow> TapFrame list \<Rightarrow> feed_panic + MarketDataProcessor" where
  "feed_run snapshot frames =
     (case apply_snapshot snapshot open_feed of Inl e \<Rightarrow> Inl e | Inr p \<Rightarrow> ingest_all frames p)"

definition reset_at :: "u64 \<Rightarrow> DepthLevel list \<Rightarrow> SnapshotFrame" where
  "reset_at seq bid_levels = \<lparr>sf_log_index = 0, sf_market_seq = seq, sf_ts_ms = 0, sf_symbol_id = 0, sf_bids = bid_levels, sf_asks = [],
     sf_last_trade = None, sf_book_sequence = seq, sf_pending_stops = 0\<rparr>"

definition bid_frame :: "u64 \<Rightarrow> fixed \<Rightarrow> fixed \<Rightarrow> int \<Rightarrow> TapFrame" where
  "bid_frame seq price volume n = \<lparr>tf_log_index = Suc seq, tf_market_seq = seq, tf_ts_ms = 0, tf_symbol_id = 0, tf_events = [],
     tf_depth = [\<lparr>dc_side = Buy, dc_price = price, dc_delta_volume = volume, dc_delta_orders = n\<rparr>]\<rparr>"

lemmas run_eval = feed_run_def reset_at_def bid_frame_def apply_snapshot_def install_reset_def Let_def count_stat_def
  set_shadow_def shadow_reset_def collect_levels_def open_feed_def start_with_sink_def MarketDataConfig_default_def
  emit_def emit_bbo_def shadow_best_bid_def shadow_best_ask_def vec_last_def bt_values_def bt_first_def shadow_depth_def
  ingest_def ingest_active_def emit_gap_def publishing_def touch_def shadow_of_def shadow_apply_def apply_level_def
  fixed_add_def wrap_i128_def wrap_u32_def emit_depth_def touched_updates_def shadow_level_def depth_of_level_def
  emit_trades_def emit_lifecycle_def update_bars_def emit_status_def ShadowBook_default_def

lemmas consume_eval = fresh_view_def Feed_new_def SharedState_default_def feed_apply_def Let_def apply_message_body_def
  feed_apply_delta_def feed_apply_snapshot_def install_depth_def apply_bbo_def apply_status_def with_shared_def
  apply_depth_level_def depth_apply_def set_level_def depth_clear_def DepthBook_default_def depth_total_def depth_side_def
  view_level_def broadcast_resync_def send_snapshot_def depth_keys_def feed_publish_def publish_key_def registry_publish_def

text \<open>
  An order rests and is cancelled.  Its level is gone from the engine's shadow book, but the delta of the
  cancelling frame has no entry for it, so the consumer shows the level for good.
\<close>

lemma vanished_level_stays:
  "\<exists>p f. feed_run (reset_at 0 []) [bid_frame 0 100 5 1, bid_frame 1 100 (- 5) (- 1)] = Inr p
     \<and> shadow_level (shadow_of p 0) Buy 100 = None
     \<and> feed_applies (mp_sink p) fresh_view = Inr f
     \<and> view_level f Buy 100 = Some \<lparr>lv_volume = 5, lv_orders = 1\<rparr>"
  by (simp add: run_eval List.map_filter_def consume_eval STREAM_BBO_def STREAM_DEPTH_DELTA_def STREAM_DEPTH_SNAPSHOT_def)

text \<open>
  The snapshot's top of book has sub-sequence 1 at the snapshot's market sequence, the first frame's has
  sub-sequence 0 at the same one: the consumer takes the new top of book for a replay.
\<close>

lemma first_bbo_after_reset_dropped:
  "\<exists>p f. feed_run (reset_at 4 [\<lparr>dl_price = 100, dl_volume = 5, dl_orders = 1\<rparr>]) [bid_frame 4 101 2 1] = Inr p
     \<and> map_option ls_price (shadow_best_bid (shadow_of p 0)) = Some 101
     \<and> feed_applies (mp_sink p) fresh_view = Inr f
     \<and> map_option bb_bid (ss_bbo (fd_shared f)) = Some 100"
  by (simp add: run_eval List.map_filter_def consume_eval STREAM_BBO_def STREAM_DEPTH_DELTA_def STREAM_DEPTH_SNAPSHOT_def
      SNAPSHOT_BBO_SUB_SEQ_def)

text \<open>
  Both depth streams share one last update id: after a slow flush the next fast event does not start
  right after the last fast one.
\<close>

definition update_ids :: "string \<Rightarrow> Feed \<Rightarrow> (u64 \<times> u64) list" where
  "update_ids key f = (case map_of (fd_registry f) key of None \<Rightarrow> []
     | Some channel \<Rightarrow> List.map_filter (\<lambda>p. case p of DepthUpdatePayload U u _ _ _ \<Rightarrow> Some (U, u) | _ \<Rightarrow> None) (ch_sent channel))"

definition watched_view :: Feed where
  "watched_view = sample_view\<lparr>fd_symbol := (fd_symbol sample_view)\<lparr>sy_symbol := ''b''\<rparr>,
     fd_registry := registry_subscribe ''b@depth@100ms'' [], fd_last_depth_u := Some 3\<rparr>"

lemma update_ids_not_contiguous:
  "\<exists>f1 f2 f3 f4 f5. feed_apply sample_delta watched_view = Inr f1 \<and> flush Ms100 f1 = Inr f2
     \<and> feed_apply (sample_delta\<lparr>mm_market_seq := 5\<rparr>) f2 = Inr f3 \<and> flush Ms1000 f3 = Inr f4 \<and> flush Ms100 f4 = Inr f5
     \<and> update_ids ''b@depth@100ms'' f5 = [(4, 4), (6, 6)]"
  by (simp add: sample_view_def watched_view_def sample_delta_def view_eval flush_def window_of_def window_add_def window_touch_def
      DepthWindow_default_def first_update_id_def wrap_u64_def feed_publish_def publish_key_def registry_publish_def
      registry_subscribe_def flush_partial_def has_subscribers_def show_nat.simps window_reset_def update_ids_def List.map_filter_def)

end
