(* ===== verification/Log_Store.thy ===== *)
theory Log_Store
  imports Snapshot_Store
begin

text \<open>
  The write-ahead log of \<open>store/log_store.rs\<close>: segment files of framed records, the in-memory index,
  append with rotation, commit markers, votes, purge, truncation, grouped reads and recovery.  The
  store is one record; its locks protect single operations, which are functions here.  postcard and
  crc32fast are the record \<open>wal_codec\<close>.  A file of the directory is identified by its segment number; which
  system calls of an operation fail is the argument \<open>io\<close>.  The cache of read handles is not modelled: a
  handle is dropped whenever its file is removed or cut, so a cached read sees the file.
\<close>

section \<open>Constants and records\<close>

definition DEFAULT_SEGMENT_SIZE :: u64 where
  "DEFAULT_SEGMENT_SIZE = 64 * 1024 * 1024"

definition SEGMENT_MAGIC :: bytes where
  "SEGMENT_MAGIC = [77, 82, 70, 84]"

definition SEGMENT_VERSION :: u32 where
  "SEGMENT_VERSION = 1"

definition SEGMENT_HEADER_LEN :: u64 where
  "SEGMENT_HEADER_LEN = 8"

definition RECORD_HEADER_LEN :: u64 where
  "RECORD_HEADER_LEN = 8"

definition MAX_RECORD_LEN :: u32 where
  "MAX_RECORD_LEN = 256 * 1024 * 1024"

datatype ('l, 'm) WalRecord = WalEntry "('l, 'm) Entry" | Committed "'l option"

record ('l, 'v) PersistedState =
  ps_vote :: "'v option"
  ps_last_purged :: "'l option"

record RecordLoc =
  rl_seq :: u32
  rl_offset :: u64
  rl_len :: u32

text \<open>The path of a segment is a function of its number.\<close>

record SegmentMeta =
  sg_seq :: u32
  sg_first_index :: "u64 option"
  sg_last_index :: "u64 option"

definition SegmentMeta_new :: "u32 \<Rightarrow> SegmentMeta" where
  "SegmentMeta_new seq = \<lparr>sg_seq = seq, sg_first_index = None, sg_last_index = None\<rparr>"

record ('l, 'v) RuntimeState =
  rt_vote :: "'v option"
  rt_committed :: "'l option"
  rt_last_purged :: "'l option"
  rt_last_log_id :: "'l option"

definition RuntimeState_default :: "('l, 'v) RuntimeState" where
  "RuntimeState_default = \<lparr>rt_vote = None, rt_committed = None, rt_last_purged = None, rt_last_log_id = None\<rparr>"

text \<open>A duration is its number of nanoseconds.\<close>

datatype FsyncPolicy = FsyncNone | EveryAppend | Interval nat

definition FsyncPolicy_from_option :: "nat option \<Rightarrow> FsyncPolicy" where
  "FsyncPolicy_from_option fsync =
     (case fsync of None \<Rightarrow> FsyncNone | Some interval \<Rightarrow> if interval = 0 then EveryAppend else Interval interval)"

definition fsync_enabled :: "FsyncPolicy \<Rightarrow> bool" where
  "fsync_enabled policy \<longleftrightarrow> policy \<noteq> FsyncNone"

section \<open>Third-party codec\<close>

record ('l, 'm, 'v) wal_codec =
  wc_index :: "'l \<Rightarrow> u64"
  wc_to_allocvec :: "('l, 'm) WalRecord \<Rightarrow> string + bytes"
  wc_from_bytes :: "bytes \<Rightarrow> string + ('l, 'm) WalRecord"
  wc_state_to_allocvec :: "('l, 'v) PersistedState \<Rightarrow> string + bytes"
  wc_state_from_bytes :: "bytes \<Rightarrow> string + ('l, 'v) PersistedState"
  wc_crc :: "bytes \<Rightarrow> u32"

section \<open>Files and system calls\<close>

text \<open>
  A file has its bytes and how many of them were synced.  An operation's system calls are named by
  their place in the code; \<open>io site = Some (n, e)\<close> makes the call fail with \<open>e\<close>, a write after \<open>n\<close> bytes.
\<close>

record wal_file =
  wf_bytes :: bytes
  wf_synced :: nat

datatype io_site =
    Injected | SyncOldSegment | CreateSegment | WriteSegmentHeader | SyncNewSegment | SyncNewDir
  | WriteBatch | UndoBatch | SyncUndo | SyncBatch | UndoUnsynced | SyncUnsynced
  | WriteMarkerHeader | WriteMarkerPayload | UndoMarker
  | WriteState | RenameState | SyncStateDir | SyncPurgeDir
  | OpenSegment | SetLen | SyncSegment | SyncTruncateDir | SyncTick

type_synonym io_calls = "io_site \<Rightarrow> (nat \<times> io_error) option"

definition no_faults :: io_calls where
  "no_faults = (\<lambda>_. None)"

record ('l, 'v) LogStore =
  lg_dir :: string
  lg_files :: "(u32, wal_file) btree"
  lg_state_file :: "bytes option"
  lg_segment_size :: u64
  lg_fsync :: FsyncPolicy
  lg_dirty :: bool
  lg_index :: "(u64, RecordLoc) btree"
  lg_state :: "('l, 'v) RuntimeState"
  lg_writer_seq :: u32
  lg_writer_len :: u64
  lg_segments :: "SegmentMeta list"

definition change_file :: "u32 \<Rightarrow> (wal_file \<Rightarrow> wal_file) \<Rightarrow> ('l, 'v) LogStore \<Rightarrow> ('l, 'v) LogStore" where
  "change_file seq g st =
     (case bt_get seq (lg_files st) of
        None \<Rightarrow> st
      | Some file \<Rightarrow> st\<lparr>lg_files := bt_insert seq (g file) (lg_files st)\<rparr>)"

text \<open>The writer is opened in append mode: it writes at the end of the file.\<close>

definition file_append :: "bytes \<Rightarrow> wal_file \<Rightarrow> wal_file" where
  "file_append bs file = file\<lparr>wf_bytes := wf_bytes file @ bs\<rparr>"

definition file_sync :: "wal_file \<Rightarrow> wal_file" where
  "file_sync file = file\<lparr>wf_synced := length (wf_bytes file)\<rparr>"

definition file_set_len :: "nat \<Rightarrow> wal_file \<Rightarrow> wal_file" where
  "file_set_len n file =
     \<lparr>wf_bytes = take n (wf_bytes file) @ replicate (n - length (wf_bytes file)) 0,
      wf_synced = min n (wf_synced file)\<rparr>"

section \<open>The file format\<close>

definition segment_header :: bytes where
  "segment_header = SEGMENT_MAGIC @ to_le_bytes 4 SEGMENT_VERSION"

definition segment_path :: "string \<Rightarrow> u32 \<Rightarrow> string" where
  "segment_path path seq =
     path @ ''/'' @ replicate (10 - length (show_nat seq)) (CHR ''0'') @ show_nat seq @ ''.wal''"

definition disk_frame :: "('l, 'm, 'v) wal_codec \<Rightarrow> bytes \<Rightarrow> bytes" where
  "disk_frame C payload = to_le_bytes 4 (wrap_u32 (length payload)) @ to_le_bytes 4 (wc_crc C payload)"

definition decode_record :: "('l, 'm, 'v) wal_codec \<Rightarrow> bytes \<Rightarrow> io_error + ('l, 'm) WalRecord" where
  "decode_record C payload =
     (case wc_from_bytes C payload of Inl e \<Rightarrow> Inl (IoError InvalidData e) | Inr r \<Rightarrow> Inr r)"

definition frame_len :: "bytes \<Rightarrow> u32" where
  "frame_len tail = from_le_bytes (take 4 tail)"

definition frame_crc :: "bytes \<Rightarrow> u32" where
  "frame_crc tail = from_le_bytes (take 4 (drop 4 tail))"

definition frame_payload :: "bytes \<Rightarrow> bytes" where
  "frame_payload tail = take (frame_len tail) (drop 8 tail)"

text \<open>The remaining bytes do not hold a whole frame, or its length is out of bounds.\<close>

definition frame_short :: "bytes \<Rightarrow> bool" where
  "frame_short tail \<longleftrightarrow>
     length tail < RECORD_HEADER_LEN \<or> MAX_RECORD_LEN < frame_len tail
     \<or> length tail < RECORD_HEADER_LEN + frame_len tail"

text \<open>The loop of \<open>decode_wal_bytes\<close>; \<open>tail\<close> is what follows the position.\<close>

function decode_loop ::
  "('l, 'm, 'v) wal_codec \<Rightarrow> string \<Rightarrow> u64 \<Rightarrow> bytes \<Rightarrow> (u64 \<times> ('l, 'm) WalRecord) list
    \<Rightarrow> io_error + (u64 \<times> ('l, 'm) WalRecord) list" where
  "decode_loop C source pos tail records =
     (if tail = [] \<or> frame_short tail then Inr records
      else if wc_crc C (frame_payload tail) \<noteq> frame_crc tail
      then Inl (IoError InvalidData (source @ '' has a CRC mismatch at offset '' @ show_nat pos))
      else (case decode_record C (frame_payload tail) of
              Inl e \<Rightarrow> Inl e
            | Inr r \<Rightarrow>
                decode_loop C source (pos + RECORD_HEADER_LEN + frame_len tail)
                  (drop (RECORD_HEADER_LEN + frame_len tail) tail) (records @ [(pos, r)])))"
  by pat_completeness auto
termination by (relation "measure (\<lambda>(C, source, pos, tail, records). length tail)") (auto simp: RECORD_HEADER_LEN_def)

definition decode_wal_bytes ::
  "('l, 'm, 'v) wal_codec \<Rightarrow> bytes \<Rightarrow> string \<Rightarrow> io_error + (u64 \<times> ('l, 'm) WalRecord) list" where
  "decode_wal_bytes C bs source =
     (if length bs < SEGMENT_HEADER_LEN
      then Inl (IoError InvalidData (source @ '' has a truncated segment header''))
      else if take (length SEGMENT_MAGIC) bs \<noteq> SEGMENT_MAGIC
      then Inl (IoError InvalidData (source @ '' has a bad segment magic''))
      else
        let version = from_le_bytes (take 4 (drop (length SEGMENT_MAGIC) bs))
        in if version \<noteq> SEGMENT_VERSION
           then Inl (IoError InvalidData (source @ '' has unsupported segment version '' @ show_nat version))
           else decode_loop C source SEGMENT_HEADER_LEN (drop SEGMENT_HEADER_LEN bs) [])"

definition read_wal_bytes :: "('l, 'm, 'v) wal_codec \<Rightarrow> bytes \<Rightarrow> io_error + (u64 \<times> ('l, 'm) WalRecord) list" where
  "read_wal_bytes C bs = decode_wal_bytes C bs ''WAL bytes''"

definition read_wal_file ::
  "('l, 'm, 'v) wal_codec \<Rightarrow> ('l, 'v) LogStore \<Rightarrow> u32 \<Rightarrow> io_error + (u64 \<times> ('l, 'm) WalRecord) list" where
  "read_wal_file C st seq =
     (case bt_get seq (lg_files st) of
        None \<Rightarrow> Inl (IoError NotFound '''')
      | Some file \<Rightarrow> decode_wal_bytes C (wf_bytes file) (segment_path (lg_dir st) seq))"

primrec encode_loop ::
  "('l, 'm, 'v) wal_codec \<Rightarrow> ('l, 'm) Entry list \<Rightarrow> bytes \<Rightarrow> (u64 \<times> u64 \<times> u32) list
    \<Rightarrow> io_error + bytes \<times> (u64 \<times> u64 \<times> u32) list" where
  "encode_loop C [] buf locs = Inr (buf, locs)"
| "encode_loop C (entry # entries) buf locs =
     (case wc_to_allocvec C (WalEntry entry) of
        Inl e \<Rightarrow> Inl (IoError InvalidData e)
      | Inr payload \<Rightarrow>
          encode_loop C entries (buf @ disk_frame C payload @ payload)
            (locs @ [(wc_index C (en_log_id entry), length buf, wrap_u32 (length payload))]))"

definition encode_entries ::
  "('l, 'm, 'v) wal_codec \<Rightarrow> ('l, 'm) Entry list \<Rightarrow> io_error + bytes \<times> (u64 \<times> u64 \<times> u32) list" where
  "encode_entries C entries = encode_loop C entries [] []"

section \<open>Segments\<close>

definition find_segment :: "u32 \<Rightarrow> SegmentMeta list \<Rightarrow> SegmentMeta option" where
  "find_segment seq segments = List.find (\<lambda>s. sg_seq s = seq) segments"

text \<open>\<open>segment\<close> gives a mutable reference to the first segment of that number.\<close>

primrec change_segment :: "u32 \<Rightarrow> (SegmentMeta \<Rightarrow> SegmentMeta) \<Rightarrow> SegmentMeta list \<Rightarrow> SegmentMeta list" where
  "change_segment seq g [] = []"
| "change_segment seq g (s # segments) = (if sg_seq s = seq then g s # segments else s # change_segment seq g segments)"

definition rotate_create :: "io_calls \<Rightarrow> ('l, 'v) LogStore \<Rightarrow> ('l, 'v) LogStore \<times> io_error option" where
  "rotate_create io st =
     (let seq = wrap_u32 (lg_writer_seq st + 1)
      in case io CreateSegment of
           Some (_, e) \<Rightarrow> (st, Some e)
         | None \<Rightarrow>
             if bt_get seq (lg_files st) \<noteq> None then (st, Some (IoError AlreadyExists ''''))
             else
               let st = st\<lparr>lg_files := bt_insert seq \<lparr>wf_bytes = [], wf_synced = 0\<rparr> (lg_files st)\<rparr>
               in case io WriteSegmentHeader of
                    Some (n, e) \<Rightarrow> (change_file seq (file_append (take n segment_header)) st, Some e)
                  | None \<Rightarrow>
                      let st = change_file seq (file_append segment_header) st;
                          st' = (if fsync_enabled (lg_fsync st) then change_file seq file_sync st else st)
                      in if fsync_enabled (lg_fsync st) \<and> io SyncNewSegment \<noteq> None
                         then (st, map_option snd (io SyncNewSegment))
                         else if fsync_enabled (lg_fsync st) \<and> io SyncNewDir \<noteq> None
                         then (st', map_option snd (io SyncNewDir))
                         else (st'\<lparr>lg_writer_seq := seq, lg_writer_len := SEGMENT_HEADER_LEN,
                                  lg_segments := lg_segments st' @ [SegmentMeta_new seq]\<rparr>, None))"

definition rotate_segment :: "io_calls \<Rightarrow> ('l, 'v) LogStore \<Rightarrow> ('l, 'v) LogStore \<times> io_error option" where
  "rotate_segment io st =
     (if fsync_enabled (lg_fsync st)
      then (case io SyncOldSegment of
              Some (_, e) \<Rightarrow> (st, Some e)
            | None \<Rightarrow> rotate_create io (change_file (lg_writer_seq st) file_sync st))
      else rotate_create io st)"

definition reopen :: "io_calls \<Rightarrow> u32 \<Rightarrow> u64 \<Rightarrow> ('l, 'v) LogStore \<Rightarrow> ('l, 'v) LogStore \<times> io_error option" where
  "reopen io seq len st =
     (case find_segment seq (lg_segments st) of
        None \<Rightarrow> (st, Some (IoError NotFound (''segment '' @ show_nat seq @ '' is gone'')))
      | Some _ \<Rightarrow>
          if io OpenSegment \<noteq> None then (st, map_option snd (io OpenSegment))
          else if bt_get seq (lg_files st) = None then (st, Some (IoError NotFound ''''))
          else if io SetLen \<noteq> None then (st, map_option snd (io SetLen))
          else
            let st = change_file seq (file_set_len len) st
            in if fsync_enabled (lg_fsync st) \<and> io SyncSegment \<noteq> None then (st, map_option snd (io SyncSegment))
               else
                 let st = (if fsync_enabled (lg_fsync st) then change_file seq file_sync st else st)
                 in (st\<lparr>lg_writer_seq := seq, lg_writer_len := len\<rparr>, None))"

section \<open>Append\<close>

text \<open>\<open>rotate\<close> before a write that would make a non-empty segment exceed its size.\<close>

definition make_room :: "io_calls \<Rightarrow> nat \<Rightarrow> ('l, 'v) LogStore \<Rightarrow> ('l, 'v) LogStore \<times> io_error option" where
  "make_room io n st =
     (if SEGMENT_HEADER_LEN < lg_writer_len st \<and> lg_segment_size st < lg_writer_len st + n
      then rotate_segment io st else (st, None))"

text \<open>Undoing a write: the cut and the sync may themselves fail without notice.\<close>

definition undo_write :: "io_calls \<Rightarrow> io_site \<Rightarrow> io_site \<Rightarrow> bool \<Rightarrow> ('l, 'v) LogStore \<Rightarrow> ('l, 'v) LogStore" where
  "undo_write io cut_site sync_site sync st =
     (let seq = lg_writer_seq st; base = lg_writer_len st;
          st = (if io cut_site = None then change_file seq (file_set_len base) st else st);
          st = (if sync \<and> io sync_site = None then change_file seq file_sync st else st)
      in st\<lparr>lg_writer_len := base\<rparr>)"

definition note_entries :: "u64 option \<Rightarrow> u64 option \<Rightarrow> SegmentMeta \<Rightarrow> SegmentMeta" where
  "note_entries first_index last_index segment =
     (let segment = (if sg_first_index segment = None then segment\<lparr>sg_first_index := first_index\<rparr> else segment)
      in segment\<lparr>sg_last_index := last_index\<rparr>)"

definition insert_loc :: "u32 \<Rightarrow> u64 \<Rightarrow> (u64, RecordLoc) btree \<Rightarrow> u64 \<times> u64 \<times> u32 \<Rightarrow> (u64, RecordLoc) btree" where
  "insert_loc seq base index loc =
     (case loc of (index_value, offset, len) \<Rightarrow>
        bt_insert index_value \<lparr>rl_seq = seq, rl_offset = base + offset, rl_len = len\<rparr> index)"

definition append_blocking ::
  "('l, 'm, 'v) wal_codec \<Rightarrow> io_calls \<Rightarrow> ('l, 'v) LogStore \<Rightarrow> ('l, 'm) Entry list
    \<Rightarrow> ('l, 'v) LogStore \<times> io_error option" where
  "append_blocking C io st entries =
     (if entries = [] then (st, None)
      else if io Injected \<noteq> None then (st, map_option snd (io Injected))
      else
        let last_log_id = map_option en_log_id (vec_last entries);
            first_index = Some (wc_index C (en_log_id (hd entries)))
        in case encode_entries C entries of
             Inl e \<Rightarrow> (st, Some e)
           | Inr (buf, locs) \<Rightarrow>
               (case make_room io (length buf) st of
                  (st, Some e) \<Rightarrow> (st, Some e)
                | (st, None) \<Rightarrow>
                    let seq = lg_writer_seq st; base = lg_writer_len st
                    in case io WriteBatch of
                         Some (n, e) \<Rightarrow>
                           (undo_write io UndoBatch SyncUndo (fsync_enabled (lg_fsync st))
                              (change_file seq (file_append (take n buf)) st), Some e)
                       | None \<Rightarrow>
                           let st = (change_file seq (file_append buf) st)\<lparr>lg_dirty := True\<rparr>
                           in if lg_fsync st = EveryAppend \<and> io SyncBatch \<noteq> None
                              then (undo_write io UndoUnsynced SyncUnsynced True st, map_option snd (io SyncBatch))
                              else
                                let st = (if lg_fsync st = EveryAppend
                                          then (change_file seq file_sync st)\<lparr>lg_dirty := False\<rparr> else st);
                                    st = st\<lparr>lg_writer_len := base + length buf,
                                            lg_segments := change_segment seq
                                              (note_entries first_index (map_option (wc_index C) last_log_id)) (lg_segments st),
                                            lg_index := foldl (insert_loc seq base) (lg_index st) locs\<rparr>
                                in (st\<lparr>lg_state := (lg_state st)\<lparr>rt_last_log_id := last_log_id\<rparr>\<rparr>, None)))"

section \<open>Commit markers, votes\<close>

definition write_frame ::
  "('l, 'm, 'v) wal_codec \<Rightarrow> io_calls \<Rightarrow> bytes \<Rightarrow> ('l, 'v) LogStore \<Rightarrow> ('l, 'v) LogStore \<times> io_error option" where
  "write_frame C io payload st =
     (let seq = lg_writer_seq st; header = disk_frame C payload
      in case io WriteMarkerHeader of
           Some (n, e) \<Rightarrow> (change_file seq (file_append (take n header)) st, Some e)
         | None \<Rightarrow>
             let st = change_file seq (file_append header) st
             in case io WriteMarkerPayload of
                  Some (n, e) \<Rightarrow> (change_file seq (file_append (take n payload)) st, Some e)
                | None \<Rightarrow>
                    let st = change_file seq (file_append payload) st
                    in (st\<lparr>lg_writer_len := lg_writer_len st + (RECORD_HEADER_LEN + length payload)\<rparr>, None))"

definition save_committed_blocking ::
  "('l, 'm, 'v) wal_codec \<Rightarrow> io_calls \<Rightarrow> ('l, 'v) LogStore \<Rightarrow> 'l option \<Rightarrow> ('l, 'v) LogStore \<times> io_error option" where
  "save_committed_blocking C io st committed =
     (case wc_to_allocvec C (Committed committed) of
        Inl e \<Rightarrow> (st, Some (IoError InvalidData e))
      | Inr payload \<Rightarrow>
          (case make_room io (length payload) st of
             (st, Some e) \<Rightarrow> (st, Some e)
           | (st, None) \<Rightarrow>
               let base = lg_writer_len st
               in case write_frame C io payload st of
                    (st, Some e) \<Rightarrow> (undo_write io UndoMarker UndoMarker False st, Some e)
                  | (st, None) \<Rightarrow>
                      (st\<lparr>lg_dirty := True, lg_state := (lg_state st)\<lparr>rt_committed := committed\<rparr>\<rparr>, None)))"

text \<open>Up to the rename the old state file stays; a failed directory sync comes after it.\<close>

definition write_state_file ::
  "('l, 'm, 'v) wal_codec \<Rightarrow> io_calls \<Rightarrow> ('l, 'v) PersistedState \<Rightarrow> ('l, 'v) LogStore
    \<Rightarrow> ('l, 'v) LogStore \<times> io_error option" where
  "write_state_file C io persisted st =
     (case wc_state_to_allocvec C persisted of
        Inl e \<Rightarrow> (st, Some (IoError InvalidData e))
      | Inr bs \<Rightarrow>
          if io WriteState \<noteq> None then (st, map_option snd (io WriteState))
          else if io RenameState \<noteq> None then (st, map_option snd (io RenameState))
          else (st\<lparr>lg_state_file := Some bs\<rparr>, map_option snd (io SyncStateDir)))"

definition save_vote_blocking ::
  "('l, 'm, 'v) wal_codec \<Rightarrow> io_calls \<Rightarrow> ('l, 'v) LogStore \<Rightarrow> 'v \<Rightarrow> ('l, 'v) LogStore \<times> io_error option" where
  "save_vote_blocking C io st vote =
     (case write_state_file C io \<lparr>ps_vote = Some vote, ps_last_purged = rt_last_purged (lg_state st)\<rparr> st of
        (st, Some e) \<Rightarrow> (st, Some e)
      | (st, None) \<Rightarrow> (st\<lparr>lg_state := (lg_state st)\<lparr>rt_vote := Some vote\<rparr>\<rparr>, None))"

section \<open>Purge and truncation\<close>

definition remove_segments :: "u32 list \<Rightarrow> ('l, 'v) LogStore \<Rightarrow> ('l, 'v) LogStore" where
  "remove_segments seqs st =
     st\<lparr>lg_files := filter (\<lambda>(seq, _). \<not> (seq \<in> set seqs \<and> find_segment seq (lg_segments st) \<noteq> None)) (lg_files st),
        lg_segments := filter (\<lambda>s. sg_seq s \<notin> set seqs) (lg_segments st)\<rparr>"

definition covered_by :: "u64 \<Rightarrow> u64 option \<Rightarrow> bool" where
  "covered_by upto_index last_index = (case last_index of None \<Rightarrow> False | Some l \<Rightarrow> l \<le> upto_index)"

definition purge_segments :: "io_calls \<Rightarrow> u64 \<Rightarrow> ('l, 'v) LogStore \<Rightarrow> ('l, 'v) LogStore \<times> io_error option" where
  "purge_segments io upto_index st =
     (let active_covered = (case find_segment (lg_writer_seq st) (lg_segments st) of
            None \<Rightarrow> False | Some s \<Rightarrow> covered_by upto_index (sg_last_index s))
      in case (if active_covered then rotate_segment io st else (st, None)) of
           (st, Some e) \<Rightarrow> (st, Some e)
         | (st, None) \<Rightarrow>
             (remove_segments (map sg_seq (filter (\<lambda>s. sg_last_index s = None \<or> covered_by upto_index (sg_last_index s))
                (filter (\<lambda>s. sg_seq s \<noteq> lg_writer_seq st) (lg_segments st)))) st, None))"

text \<open>The debug text of the two log ids in the error is not modelled.\<close>

definition purge_blocking ::
  "('l, 'm, 'v) wal_codec \<Rightarrow> io_calls \<Rightarrow> ('l, 'v) LogStore \<Rightarrow> 'l \<Rightarrow> ('l, 'v) LogStore \<times> io_error option" where
  "purge_blocking C io st log_id =
     (if (case rt_last_purged (lg_state st) of None \<Rightarrow> False | Some prev \<Rightarrow> wc_index C log_id < wc_index C prev)
      then (st, Some (IoError InvalidInput ''purge index regressed''))
      else
        case write_state_file C io \<lparr>ps_vote = rt_vote (lg_state st), ps_last_purged = Some log_id\<rparr> st of
          (st, Some e) \<Rightarrow> (st, Some e)
        | (st, None) \<Rightarrow>
            (case purge_segments io (wc_index C log_id) st of
               (st, Some e) \<Rightarrow> (st, Some e)
             | (st, None) \<Rightarrow>
                 let st = st\<lparr>lg_index := filter (\<lambda>(i, _). wc_index C log_id < i) (lg_index st)\<rparr>;
                     state = (lg_state st)\<lparr>rt_last_purged := Some log_id\<rparr>;
                     state = (if (case rt_last_log_id state of None \<Rightarrow> False | Some l \<Rightarrow> wc_index C l \<le> wc_index C log_id)
                              then state\<lparr>rt_last_log_id := None\<rparr> else state)
                 in (st\<lparr>lg_state := state\<rparr>, map_option snd (io SyncPurgeDir))))"

definition cut_point :: "u64 option \<Rightarrow> ('l, 'v) LogStore \<Rightarrow> u32 \<times> u64" where
  "cut_point keep_upto st =
     (let located = (case keep_upto of
            None \<Rightarrow> None
          | Some upto_index \<Rightarrow> vec_last (bt_values (filter (\<lambda>(i, _). i \<le> upto_index) (lg_index st))))
      in case located of
           Some loc \<Rightarrow> (rl_seq loc, rl_offset loc + RECORD_HEADER_LEN + rl_len loc)
         | None \<Rightarrow> (case lg_segments st of [] \<Rightarrow> 0 | s # _ \<Rightarrow> sg_seq s, SEGMENT_HEADER_LEN))"

definition truncated_bounds :: "u32 \<Rightarrow> (u64, RecordLoc) btree \<Rightarrow> SegmentMeta \<Rightarrow> SegmentMeta" where
  "truncated_bounds seq index segment =
     segment\<lparr>sg_first_index := map_option fst (List.find (\<lambda>(_, loc). rl_seq loc = seq) index),
             sg_last_index := (case vec_last index of
                 None \<Rightarrow> None | Some (i, loc) \<Rightarrow> if rl_seq loc = seq then Some i else None)\<rparr>"

definition truncated_state ::
  "('l, 'm, 'v) wal_codec \<Rightarrow> u64 option \<Rightarrow> 'l option \<Rightarrow> ('l, 'v) RuntimeState \<Rightarrow> ('l, 'v) RuntimeState" where
  "truncated_state C new_last_index last_log_id state =
     (let state = state\<lparr>rt_last_log_id :=
            (case (new_last_index, last_log_id) of
               (Some last_index, Some log_id) \<Rightarrow> if last_index = wc_index C log_id then Some log_id else None
             | _ \<Rightarrow> None)\<rparr>
      in case rt_last_log_id state of
           Some last_id \<Rightarrow>
             if (case rt_committed state of None \<Rightarrow> False | Some committed \<Rightarrow> wc_index C last_id < wc_index C committed)
             then state\<lparr>rt_committed := Some last_id\<rparr> else state
         | None \<Rightarrow> state\<lparr>rt_committed := None\<rparr>)"

definition truncate_after_blocking ::
  "('l, 'm, 'v) wal_codec \<Rightarrow> io_calls \<Rightarrow> ('l, 'v) LogStore \<Rightarrow> 'l option \<Rightarrow> ('l, 'v) LogStore \<times> io_error option" where
  "truncate_after_blocking C io st last_log_id =
     (let keep_upto = map_option (wc_index C) last_log_id;
          (seq, len) = cut_point keep_upto st;
          st = remove_segments (map sg_seq (filter (\<lambda>s. seq < sg_seq s) (lg_segments st))) st
      in case reopen io seq len st of
           (st, Some e) \<Rightarrow> (st, Some e)
         | (st, None) \<Rightarrow>
             let index = (case keep_upto of None \<Rightarrow> [] | Some upto_index \<Rightarrow> filter (\<lambda>(i, _). i \<le> upto_index) (lg_index st));
                 st = st\<lparr>lg_index := index, lg_segments := change_segment seq (truncated_bounds seq index) (lg_segments st)\<rparr>
             in (st\<lparr>lg_state := truncated_state C (map_option fst (vec_last index)) last_log_id (lg_state st)\<rparr>,
                 map_option snd (io SyncTruncateDir)))"

section \<open>Reads\<close>

text \<open>The contiguous run after a location, the end it reaches and what is left.\<close>

fun take_run :: "u32 \<Rightarrow> u64 \<Rightarrow> RecordLoc list \<Rightarrow> RecordLoc list \<times> u64 \<times> RecordLoc list" where
  "take_run seq end_pos [] = ([], end_pos, [])"
| "take_run seq end_pos (loc # locs) =
     (if rl_seq loc = seq \<and> rl_offset loc = end_pos
      then let (run, end_pos, tail) = take_run seq (end_pos + (RECORD_HEADER_LEN + rl_len loc)) locs
           in (loc # run, end_pos, tail)
      else ([], end_pos, loc # locs))"

lemma take_run_length: "take_run seq e locs = (run, e', tail) \<Longrightarrow> length tail \<le> length locs"
  by (induction seq e locs arbitrary: run e' tail rule: take_run.induct) (auto split: if_splits prod.splits)

definition reader :: "('l, 'v) LogStore \<Rightarrow> u32 \<Rightarrow> io_error + bytes" where
  "reader st seq =
     (case find_segment seq (lg_segments st) of
        None \<Rightarrow> Inl (IoError NotFound (''segment '' @ show_nat seq @ '' is gone''))
      | Some _ \<Rightarrow> (case bt_get seq (lg_files st) of None \<Rightarrow> Inl (IoError NotFound '''') | Some file \<Rightarrow> Inr (wf_bytes file)))"

definition read_exact_at :: "bytes \<Rightarrow> u64 \<Rightarrow> nat \<Rightarrow> io_error + bytes" where
  "read_exact_at file offset n =
     (if n = 0 \<or> offset + n \<le> length file then Inr (take n (drop offset file))
      else Inl (IoError UnexpectedEof ''short read''))"

primrec decode_run ::
  "('l, 'm, 'v) wal_codec \<Rightarrow> RecordLoc list \<Rightarrow> bytes \<Rightarrow> ('l, 'm) Entry list \<Rightarrow> io_error + ('l, 'm) Entry list" where
  "decode_run C [] buf out = Inr out"
| "decode_run C (loc # locs) buf out =
     (if frame_len buf \<noteq> rl_len loc
      then Inl (IoError InvalidData (''log record length changed: '' @ show_nat (frame_len buf) @ '' != '' @ show_nat (rl_len loc)))
      else if wc_crc C (frame_payload buf) \<noteq> frame_crc buf
      then Inl (IoError InvalidData ''log record checksum mismatch'')
      else (case decode_record C (frame_payload buf) of
              Inl e \<Rightarrow> Inl e
            | Inr (WalEntry entry) \<Rightarrow> decode_run C locs (drop (RECORD_HEADER_LEN + frame_len buf) buf) (out @ [entry])
            | Inr (Committed _) \<Rightarrow> decode_run C locs (drop (RECORD_HEADER_LEN + frame_len buf) buf) out))"

function read_loop ::
  "('l, 'm, 'v) wal_codec \<Rightarrow> ('l, 'v) LogStore \<Rightarrow> RecordLoc list \<Rightarrow> ('l, 'm) Entry list \<Rightarrow> io_error + ('l, 'm) Entry list" where
  "read_loop C st [] out = Inr out"
| "read_loop C st (first # locs) out =
     (let (run, end_pos, tail) = take_run (rl_seq first) (rl_offset first + RECORD_HEADER_LEN + rl_len first) locs
      in case reader st (rl_seq first) of
           Inl e \<Rightarrow> Inl e
         | Inr file \<Rightarrow>
             (case read_exact_at file (rl_offset first) (end_pos - rl_offset first) of
                Inl e \<Rightarrow> Inl e
              | Inr buf \<Rightarrow>
                  (case decode_run C (first # run) buf out of Inl e \<Rightarrow> Inl e | Inr out \<Rightarrow> read_loop C st tail out)))"
  by pat_completeness auto
termination
  by (relation "measure (\<lambda>(C, st, locs, out). length locs)") (auto dest!: take_run_length[OF sym])

definition read_entries_blocking ::
  "('l, 'm, 'v) wal_codec \<Rightarrow> ('l, 'v) LogStore \<Rightarrow> RecordLoc list \<Rightarrow> io_error + ('l, 'm) Entry list" where
  "read_entries_blocking C st locs = read_loop C st locs []"

text \<open>A range of indexes; \<open>BTreeMap::range\<close> panics on one that ends before it starts.\<close>

datatype range_bound = Included u64 | Excluded u64 | Unbounded

fun in_range :: "range_bound \<Rightarrow> range_bound \<Rightarrow> u64 \<Rightarrow> bool" where
  "in_range lo hi i \<longleftrightarrow>
     (case lo of Included a \<Rightarrow> a \<le> i | Excluded a \<Rightarrow> a < i | Unbounded \<Rightarrow> True)
     \<and> (case hi of Included b \<Rightarrow> i \<le> b | Excluded b \<Rightarrow> i < b | Unbounded \<Rightarrow> True)"

fun range_panics :: "range_bound \<Rightarrow> range_bound \<Rightarrow> bool" where
  "range_panics (Excluded a) (Excluded b) \<longleftrightarrow> b \<le> a"
| "range_panics (Included a) (Included b) \<longleftrightarrow> b < a"
| "range_panics (Included a) (Excluded b) \<longleftrightarrow> b < a"
| "range_panics (Excluded a) (Included b) \<longleftrightarrow> b < a"
| "range_panics _ _ \<longleftrightarrow> False"

datatype log_failure = RangePanic | LogIo io_error

definition try_get_log_entries ::
  "('l, 'm, 'v) wal_codec \<Rightarrow> ('l, 'v) LogStore \<Rightarrow> range_bound \<Rightarrow> range_bound \<Rightarrow> log_failure + ('l, 'm) Entry list" where
  "try_get_log_entries C st lo hi =
     (if range_panics lo hi then Inl RangePanic
      else
        let locs = bt_values (filter (\<lambda>(i, _). in_range lo hi i) (lg_index st))
        in if locs = [] then Inr []
           else (case read_entries_blocking C st locs of Inl e \<Rightarrow> Inl (LogIo e) | Inr entries \<Rightarrow> Inr entries))"

definition read_vote :: "('l, 'v) LogStore \<Rightarrow> 'v option" where
  "read_vote st = rt_vote (lg_state st)"

definition read_committed :: "('l, 'v) LogStore \<Rightarrow> 'l option" where
  "read_committed st = rt_committed (lg_state st)"

text \<open>The purge marker and the last log id.\<close>

definition get_log_state :: "('l, 'v) LogStore \<Rightarrow> 'l option \<times> 'l option" where
  "get_log_state st =
     (rt_last_purged (lg_state st),
      case rt_last_log_id (lg_state st) of None \<Rightarrow> rt_last_purged (lg_state st) | Some l \<Rightarrow> Some l)"

text \<open>One tick of the periodic sync task.\<close>

definition fsync_tick :: "io_calls \<Rightarrow> ('l, 'v) LogStore \<Rightarrow> ('l, 'v) LogStore" where
  "fsync_tick io st =
     (if \<not> lg_dirty st then st
      else if io SyncTick \<noteq> None then st\<lparr>lg_dirty := True\<rparr>
      else (change_file (lg_writer_seq st) file_sync st)\<lparr>lg_dirty := False\<rparr>)"

section \<open>Recovery\<close>

text \<open>What the scan of the records changes: the index, the hard state, the expected index and the segment.\<close>

record ('l, 'v) scan =
  sc_index :: "(u64, RecordLoc) btree"
  sc_state :: "('l, 'v) RuntimeState"
  sc_expected_next :: "u64 option"
  sc_meta :: SegmentMeta

definition scan_entry ::
  "('l, 'm, 'v) wal_codec \<Rightarrow> u32 \<Rightarrow> u64 \<Rightarrow> u32 \<Rightarrow> ('l, 'm) Entry \<Rightarrow> ('l, 'v) scan \<Rightarrow> ('l, 'v) scan option" where
  "scan_entry C seq pos len entry sc =
     (let log_id = en_log_id entry; i = wc_index C log_id
      in if (case sc_expected_next sc of None \<Rightarrow> False | Some expected \<Rightarrow> i \<noteq> expected) then None
         else Some (sc\<lparr>sc_expected_next := Some (wrap_u64 (i + 1)),
                       sc_index := bt_insert i \<lparr>rl_seq = seq, rl_offset = pos, rl_len = len\<rparr> (sc_index sc),
                       sc_meta := note_entries (Some i) (Some i) (sc_meta sc),
                       sc_state := (sc_state sc)\<lparr>rt_last_log_id := Some log_id\<rparr>\<rparr>))"

definition scan_record ::
  "('l, 'm, 'v) wal_codec \<Rightarrow> u32 \<Rightarrow> u64 \<Rightarrow> u32 \<Rightarrow> ('l, 'm) WalRecord \<Rightarrow> ('l, 'v) scan \<Rightarrow> ('l, 'v) scan option" where
  "scan_record C seq pos len r sc =
     (case r of
        WalEntry entry \<Rightarrow> scan_entry C seq pos len entry sc
      | Committed committed \<Rightarrow> Some (sc\<lparr>sc_state := (sc_state sc)\<lparr>rt_committed := committed\<rparr>\<rparr>))"

text \<open>The loop of \<open>recover_segment\<close>: the valid tail and whether the scan stopped at a torn record.\<close>

function scan_loop ::
  "('l, 'm, 'v) wal_codec \<Rightarrow> u32 \<Rightarrow> u64 \<Rightarrow> bytes \<Rightarrow> ('l, 'v) scan \<Rightarrow> ('l, 'v) scan \<times> u64 \<times> bool" where
  "scan_loop C seq pos tail sc =
     (if tail = [] then (sc, pos, False)
      else if frame_short tail \<or> wc_crc C (frame_payload tail) \<noteq> frame_crc tail then (sc, pos, True)
      else (case decode_record C (frame_payload tail) of
              Inl e \<Rightarrow> (sc, pos, True)
            | Inr r \<Rightarrow>
                (case scan_record C seq pos (frame_len tail) r sc of
                   None \<Rightarrow> (sc, pos, True)
                 | Some sc \<Rightarrow>
                     scan_loop C seq (pos + RECORD_HEADER_LEN + frame_len tail)
                       (drop (RECORD_HEADER_LEN + frame_len tail) tail) sc)))"
  by pat_completeness auto
termination by (relation "measure (\<lambda>(C, seq, pos, tail, sc). length tail)") (auto simp: RECORD_HEADER_LEN_def)

text \<open>
  A recovered segment: the file as it is left, the segment if it stays part of the log, and whether
  everything after it must go.
\<close>

type_synonym ('l, 'v) recovered = "wal_file \<times> ('l, 'v) scan \<times> SegmentMeta option \<times> bool"

definition recover_segment ::
  "('l, 'm, 'v) wal_codec \<Rightarrow> string \<Rightarrow> u32 \<Rightarrow> wal_file \<Rightarrow> bool \<Rightarrow> bool \<Rightarrow> ('l, 'v) scan \<Rightarrow> io_error + ('l, 'v) recovered" where
  "recover_segment C path seq file is_last recover_corrupt sc =
     (let bs = wf_bytes file;
          sc = sc\<lparr>sc_meta := SegmentMeta_new seq\<rparr>;
          discard = (\<lambda>message. if recover_corrupt then Inr (file, sc, None, True)
            else Inl (IoError InvalidData (''segment '' @ path @ message)))
      in if length bs < SEGMENT_HEADER_LEN
         then (if \<not> is_last then discard '' has a truncated header''
               else Inr (\<lparr>wf_bytes = segment_header, wf_synced = length segment_header\<rparr>, sc, Some (sc_meta sc), False))
         else if take 4 bs \<noteq> SEGMENT_MAGIC then discard '' has a bad magic''
         else if from_le_bytes (take 4 (drop 4 bs)) \<noteq> SEGMENT_VERSION
         then discard ('' has unsupported version '' @ show_nat (from_le_bytes (take 4 (drop 4 bs))))
         else
           let (sc, valid_tail, torn) = scan_loop C seq SEGMENT_HEADER_LEN (drop SEGMENT_HEADER_LEN bs) sc
           in if torn
              then (if \<not> is_last \<and> \<not> recover_corrupt
                    then Inl (IoError InvalidData (''segment '' @ path @ '' has a torn record at offset '' @ show_nat valid_tail
                           @ ''; only the last segment may be truncated''))
                    else Inr (file_sync (file_set_len valid_tail file), sc, Some (sc_meta sc), \<not> is_last))
              else Inr (file, sc, Some (sc_meta sc), False))"

text \<open>The loop over the files in the order of their numbers; files that must go are left out of the result.\<close>

primrec recover_segments ::
  "('l, 'm, 'v) wal_codec \<Rightarrow> string \<Rightarrow> bool \<Rightarrow> (u32, wal_file) btree \<Rightarrow> ('l, 'v) scan
    \<Rightarrow> io_error + ((u32, wal_file) btree \<times> SegmentMeta list \<times> ('l, 'v) scan)" where
  "recover_segments C path recover_corrupt [] sc = Inr ([], [], sc)"
| "recover_segments C path recover_corrupt (found # later) sc =
     (case recover_segment C (segment_path path (fst found)) (fst found) (snd found) (later = []) recover_corrupt sc of
        Inl e \<Rightarrow> Inl e
      | Inr (file, sc, meta, stop) \<Rightarrow>
          let kept = (case meta of None \<Rightarrow> if stop then [] else [(fst found, file)] | Some _ \<Rightarrow> [(fst found, file)]);
              metas = (case meta of None \<Rightarrow> [] | Some meta \<Rightarrow> [meta])
          in if stop then Inr (kept, metas, sc)
             else (case recover_segments C path recover_corrupt later sc of
                     Inl e \<Rightarrow> Inl e
                   | Inr (files, segments, sc) \<Rightarrow> Inr (kept @ files, metas @ segments, sc)))"

text \<open>The segments at or below a purge marker that a crash left behind.\<close>

definition heal_purge ::
  "('l, 'm, 'v) wal_codec \<Rightarrow> (u32, wal_file) btree \<times> SegmentMeta list \<times> ('l, 'v) scan
    \<Rightarrow> (u32, wal_file) btree \<times> SegmentMeta list \<times> ('l, 'v) scan" where
  "heal_purge C recovered =
     (let (files, segments, sc) = recovered
      in case rt_last_purged (sc_state sc) of
           None \<Rightarrow> recovered
         | Some purge_id \<Rightarrow>
             let upto_index = wc_index C purge_id;
                 gone = map sg_seq (filter (\<lambda>s. sg_last_index s = None \<or> covered_by upto_index (sg_last_index s)) segments);
                 state = sc_state sc;
                 state = (if (case rt_last_log_id state of None \<Rightarrow> False | Some l \<Rightarrow> wc_index C l \<le> upto_index)
                          then state\<lparr>rt_last_log_id := None\<rparr> else state)
             in (filter (\<lambda>(seq, _). seq \<notin> set gone) files,
                 filter (\<lambda>s. \<not> (sg_last_index s = None \<or> covered_by upto_index (sg_last_index s))) segments,
                 sc\<lparr>sc_index := filter (\<lambda>(i, _). upto_index < i) (sc_index sc), sc_state := state\<rparr>))"

text \<open>The directory that is opened: its name, its segment files and its state file.\<close>

definition open_with_segment_size_and_fsync ::
  "('l, 'm, 'v) wal_codec \<Rightarrow> string \<Rightarrow> (u32, wal_file) btree \<Rightarrow> bytes option \<Rightarrow> u64 \<Rightarrow> nat option
    \<Rightarrow> io_error + ('l, 'v) LogStore" where
  "open_with_segment_size_and_fsync C path files state_file segment_size fsync =
     (let fsync = FsyncPolicy_from_option fsync;
          recover_corrupt = (fsync \<noteq> EveryAppend);
          sc = \<lparr>sc_index = [], sc_state = RuntimeState_default, sc_expected_next = None, sc_meta = SegmentMeta_new 0\<rparr>
      in case recover_segments C path recover_corrupt files sc of
           Inl e \<Rightarrow> Inl e
         | Inr (files, segments, sc) \<Rightarrow>
             (case (case state_file of
                      None \<Rightarrow> Inr sc
                    | Some bs \<Rightarrow>
                        (case wc_state_from_bytes C bs of
                           Inl e \<Rightarrow> Inl (IoError InvalidData (''corrupt log state file: '' @ e))
                         | Inr persisted \<Rightarrow>
                             Inr (sc\<lparr>sc_state := (sc_state sc)\<lparr>rt_vote := ps_vote persisted,
                                    rt_last_purged := ps_last_purged persisted\<rparr>\<rparr>))) of
                Inl e \<Rightarrow> Inl e
              | Inr sc \<Rightarrow>
                  let (files, segments, sc) = heal_purge C (files, segments, sc)
                  in if segments = [] \<and> bt_get 0 files \<noteq> None then Inl (IoError AlreadyExists '''')
                     else
                       let (files, segments) =
                             (if segments = []
                              then (bt_insert 0 \<lparr>wf_bytes = segment_header, wf_synced = length segment_header\<rparr> files,
                                    [SegmentMeta_new 0])
                              else (files, segments));
                           active = sg_seq (last segments)
                       in case bt_get active files of
                            None \<Rightarrow> Inl (IoError NotFound '''')
                          | Some writer \<Rightarrow>
                              Inr \<lparr>lg_dir = path, lg_files = files, lg_state_file = state_file, lg_segment_size = segment_size,
                                   lg_fsync = fsync, lg_dirty = True, lg_index = sc_index sc, lg_state = sc_state sc,
                                   lg_writer_seq = active, lg_writer_len = length (wf_bytes writer), lg_segments = segments\<rparr>))"

definition open_with_segment_size ::
  "('l, 'm, 'v) wal_codec \<Rightarrow> string \<Rightarrow> (u32, wal_file) btree \<Rightarrow> bytes option \<Rightarrow> u64 \<Rightarrow> io_error + ('l, 'v) LogStore" where
  "open_with_segment_size C path files state_file segment_size =
     open_with_segment_size_and_fsync C path files state_file segment_size None"

definition open_log ::
  "('l, 'm, 'v) wal_codec \<Rightarrow> string \<Rightarrow> (u32, wal_file) btree \<Rightarrow> bytes option \<Rightarrow> io_error + ('l, 'v) LogStore" where
  "open_log C path files state_file = open_with_segment_size C path files state_file DEFAULT_SEGMENT_SIZE"

definition open_with_fsync ::
  "('l, 'm, 'v) wal_codec \<Rightarrow> string \<Rightarrow> (u32, wal_file) btree \<Rightarrow> bytes option \<Rightarrow> nat option \<Rightarrow> io_error + ('l, 'v) LogStore" where
  "open_with_fsync C path files state_file fsync =
     open_with_segment_size_and_fsync C path files state_file DEFAULT_SEGMENT_SIZE fsync"

definition open_with_sync ::
  "('l, 'm, 'v) wal_codec \<Rightarrow> string \<Rightarrow> (u32, wal_file) btree \<Rightarrow> bytes option \<Rightarrow> bool \<Rightarrow> io_error + ('l, 'v) LogStore" where
  "open_with_sync C path files state_file sync =
     open_with_fsync C path files state_file (if sync then Some 0 else None)"

definition open_with_segment_size_and_sync ::
  "('l, 'm, 'v) wal_codec \<Rightarrow> string \<Rightarrow> (u32, wal_file) btree \<Rightarrow> bytes option \<Rightarrow> u64 \<Rightarrow> bool \<Rightarrow> io_error + ('l, 'v) LogStore" where
  "open_with_segment_size_and_sync C path files state_file segment_size sync =
     open_with_segment_size_and_fsync C path files state_file segment_size (if sync then Some 0 else None)"

end
