(* ===== verification/Log_Layout.thy ===== *)
theory Log_Layout
  imports Log_Store
begin

text \<open>
  What the bytes of the log mean.  A segment file is a header and the frames of its records; scanning
  such a file, or any prefix of it, finds exactly the complete records.  A log is a list of numbered
  segments of records, from which the files, the index and the hard state are computed.
\<close>

declare decode_loop.simps [simp del] scan_loop.simps [simp del]

section \<open>What the log relies on\<close>

locale wal_laws =
  fixes C :: "('l, 'm, 'v) wal_codec"
  assumes crc_u32: "wc_crc C bs < 2 ^ 32"
    and record_law: "wc_to_allocvec C r = Inr payload \<Longrightarrow> wc_from_bytes C payload = Inr r"
    and state_law: "wc_state_to_allocvec C s = Inr bs \<Longrightarrow> wc_state_from_bytes C bs = Inr s"

section \<open>Frames\<close>

definition rec_payload :: "('l, 'm, 'v) wal_codec \<Rightarrow> ('l, 'm) WalRecord \<Rightarrow> bytes" where
  "rec_payload C r = (case wc_to_allocvec C r of Inl _ \<Rightarrow> [] | Inr payload \<Rightarrow> payload)"

definition rec_bytes :: "('l, 'm, 'v) wal_codec \<Rightarrow> ('l, 'm) WalRecord \<Rightarrow> bytes" where
  "rec_bytes C r = disk_frame C (rec_payload C r) @ rec_payload C r"

text \<open>A record that encodes within the bound recovery accepts.\<close>

definition rec_ok :: "('l, 'm, 'v) wal_codec \<Rightarrow> ('l, 'm) WalRecord \<Rightarrow> bool" where
  "rec_ok C r \<longleftrightarrow> (\<exists>payload. wc_to_allocvec C r = Inr payload \<and> length payload \<le> MAX_RECORD_LEN)"

definition rec_stream :: "('l, 'm, 'v) wal_codec \<Rightarrow> ('l, 'm) WalRecord list \<Rightarrow> bytes" where
  "rec_stream C rs = concat (map (rec_bytes C) rs)"

definition seg_bytes :: "('l, 'm, 'v) wal_codec \<Rightarrow> ('l, 'm) WalRecord list \<Rightarrow> bytes" where
  "seg_bytes C rs = segment_header @ rec_stream C rs"

lemma rec_stream_simps [simp]:
  "rec_stream C [] = []" "rec_stream C (r # rs) = rec_bytes C r @ rec_stream C rs"
  "rec_stream C (rs @ ts) = rec_stream C rs @ rec_stream C ts"
  by (simp_all add: rec_stream_def)

lemma header_length [simp]: "length segment_header = 8"
  by (simp add: segment_header_def SEGMENT_MAGIC_def)

lemma seg_bytes_simps [simp]: "length (seg_bytes C rs) = 8 + length (rec_stream C rs)" "seg_bytes C [] = segment_header"
  "seg_bytes C (rs @ ts) = seg_bytes C rs @ rec_stream C ts"
  by (simp_all add: seg_bytes_def)

lemma rec_bytes_length: "length (rec_bytes C r) = 8 + length (rec_payload C r)"
  by (simp add: rec_bytes_def disk_frame_def)

lemma rec_bytes_ne [simp]: "rec_bytes C r \<noteq> []"
  using rec_bytes_length[of C r] by auto

lemma frame_of_prefix:
  assumes "8 \<le> k"
  shows "frame_len (take k (disk_frame C payload @ bs)) = wrap_u32 (length payload) mod 2 ^ 32"
    "frame_crc (take k (disk_frame C payload @ bs)) = wc_crc C payload mod 2 ^ 32"
proof -
  let ?a = "to_le_bytes 4 (wrap_u32 (length payload))" and ?b = "to_le_bytes 4 (wc_crc C payload)"
  have "take 4 (take k (?a @ ?b @ bs)) = ?a" "take 4 (drop 4 (take k (?a @ ?b @ bs))) = ?b"
    using assms by (simp_all add: take_drop drop_take min_def)
  then show "frame_len (take k (disk_frame C payload @ bs)) = wrap_u32 (length payload) mod 2 ^ 32"
    "frame_crc (take k (disk_frame C payload @ bs)) = wc_crc C payload mod 2 ^ 32"
    by (simp_all add: frame_len_def frame_crc_def disk_frame_def from_to_le_bytes_mod)
qed

lemma small_len: "n \<le> MAX_RECORD_LEN \<Longrightarrow> wrap_u32 n = n \<and> n mod 2 ^ 32 = n"
  by (simp add: MAX_RECORD_LEN_def wrap_u32_def)

lemma rec_ok_payload: "rec_ok C r \<Longrightarrow> wc_to_allocvec C r = Inr (rec_payload C r) \<and> length (rec_payload C r) \<le> MAX_RECORD_LEN"
  by (auto simp: rec_ok_def rec_payload_def)

text \<open>The complete records among the first \<open>k\<close> bytes of a stream.\<close>

primrec fitting :: "('l, 'm, 'v) wal_codec \<Rightarrow> nat \<Rightarrow> ('l, 'm) WalRecord list \<Rightarrow> ('l, 'm) WalRecord list" where
  "fitting C k [] = []"
| "fitting C k (r # rs) =
     (if length (rec_bytes C r) \<le> k then r # fitting C (k - length (rec_bytes C r)) rs else [])"

lemma fitting_zero [simp]: "fitting C 0 rs = []"
  by (cases rs) (simp_all add: rec_bytes_length)

lemma fitting_prefix: "\<exists>ts. rs = fitting C k rs @ ts"
  by (induction rs arbitrary: k) auto

lemma fitting_whole: "length (rec_stream C rs) \<le> k \<Longrightarrow> fitting C k (rs @ ts) = rs @ fitting C (k - length (rec_stream C rs)) ts"
  by (induction rs arbitrary: k) auto

context wal_laws
begin

lemma decode_rec: "rec_ok C r \<Longrightarrow> decode_record C (rec_payload C r) = Inr r"
  using rec_ok_payload[of C r] record_law[of r "rec_payload C r"] by (simp add: decode_record_def)

lemma frame_ok:
  assumes "rec_ok C r"
  shows "frame_len (rec_bytes C r @ bs) = length (rec_payload C r)" "frame_payload (rec_bytes C r @ bs) = rec_payload C r"
    "frame_crc (rec_bytes C r @ bs) = wc_crc C (rec_payload C r)" "\<not> frame_short (rec_bytes C r @ bs)"
    "drop (RECORD_HEADER_LEN + frame_len (rec_bytes C r @ bs)) (rec_bytes C r @ bs) = bs"
proof -
  note p = rec_ok_payload[OF assms]
  have t: "rec_bytes C r @ bs = take (length (rec_bytes C r @ bs)) (disk_frame C (rec_payload C r) @ rec_payload C r @ bs)"
    by (simp add: rec_bytes_def)
  have n: "8 \<le> length (rec_bytes C r @ bs)" by (simp add: rec_bytes_length)
  show len: "frame_len (rec_bytes C r @ bs) = length (rec_payload C r)"
    using frame_of_prefix(1)[OF n, of C "rec_payload C r" "rec_payload C r @ bs", folded t] p small_len by simp
  have "wc_crc C (rec_payload C r) < 2 ^ 32" by (rule crc_u32)
  then show "frame_crc (rec_bytes C r @ bs) = wc_crc C (rec_payload C r)"
    using frame_of_prefix(2)[OF n, of C "rec_payload C r" "rec_payload C r @ bs", folded t] by simp
  show "frame_payload (rec_bytes C r @ bs) = rec_payload C r"
    unfolding frame_payload_def len by (simp add: rec_bytes_def disk_frame_def)
  show "\<not> frame_short (rec_bytes C r @ bs)"
    unfolding frame_short_def len using p by (simp add: rec_bytes_length RECORD_HEADER_LEN_def)
  show "drop (RECORD_HEADER_LEN + frame_len (rec_bytes C r @ bs)) (rec_bytes C r @ bs) = bs"
    unfolding len by (simp add: rec_bytes_length RECORD_HEADER_LEN_def)
qed

lemma torn_frame:
  assumes "rec_ok C r" "k < length (rec_bytes C r)"
  shows "take k (rec_bytes C r) = [] \<or> frame_short (take k (rec_bytes C r))"
proof (cases "8 \<le> k")
  case True
  note p = rec_ok_payload[OF assms(1)]
  have "frame_len (take k (rec_bytes C r)) = length (rec_payload C r)"
    using frame_of_prefix(1)[OF True, of C "rec_payload C r" "rec_payload C r"] p small_len by (simp add: rec_bytes_def)
  then show ?thesis using assms(2) by (simp add: frame_short_def rec_bytes_length RECORD_HEADER_LEN_def)
next
  case False
  then show ?thesis using assms(2) by (simp add: frame_short_def RECORD_HEADER_LEN_def)
qed

lemma stream_prefix:
  assumes "\<forall>r \<in> set rs. rec_ok C r"
  shows "\<exists>torn. take k (rec_stream C rs) = rec_stream C (fitting C k rs) @ torn \<and> (torn = [] \<or> frame_short torn)"
  using assms
proof (induction rs arbitrary: k)
  case (Cons r rs)
  show ?case
  proof (cases "length (rec_bytes C r) \<le> k")
    case True
    then show ?thesis using Cons.IH[of "k - length (rec_bytes C r)"] Cons.prems by auto
  next
    case False
    then show ?thesis using torn_frame[of r k] Cons.prems by (intro exI[of _ "take k (rec_bytes C r)"]) auto
  qed
qed simp

lemma decode_loop_stream:
  assumes "\<forall>r \<in> set rs. rec_ok C r" "torn = [] \<or> frame_short torn"
  shows "\<exists>out. decode_loop C source pos (rec_stream C rs @ torn) acc = Inr (acc @ out) \<and> map snd out = rs"
  using assms(1)
proof (induction rs arbitrary: pos acc)
  case Nil
  have "decode_loop C source pos torn acc = Inr acc" using assms(2) by (subst decode_loop.simps) simp
  then show ?case by simp
next
  case (Cons r rs)
  let ?bs = "rec_bytes C r @ rec_stream C rs @ torn"
  have ok: "rec_ok C r" using Cons.prems by simp
  note f = frame_ok[OF ok, of "rec_stream C rs @ torn"]
  have "decode_loop C source pos ?bs acc =
      decode_loop C source (pos + RECORD_HEADER_LEN + length (rec_payload C r)) (rec_stream C rs @ torn) (acc @ [(pos, r)])"
    using f decode_rec[OF ok] by (subst decode_loop.simps) simp
  moreover obtain out where "decode_loop C source (pos + RECORD_HEADER_LEN + length (rec_payload C r)) (rec_stream C rs @ torn)
      (acc @ [(pos, r)]) = Inr ((acc @ [(pos, r)]) @ out) \<and> map snd out = rs"
    using Cons.IH[of "pos + RECORD_HEADER_LEN + length (rec_payload C r)" "acc @ [(pos, r)]"] Cons.prems by auto
  ultimately show ?case by (intro exI[of _ "(pos, r) # out"]) simp
qed

end

section \<open>Scanning records\<close>

primrec scan_recs ::
  "('l, 'm, 'v) wal_codec \<Rightarrow> u32 \<Rightarrow> u64 \<Rightarrow> ('l, 'm) WalRecord list \<Rightarrow> ('l, 'v) scan \<Rightarrow> ('l, 'v) scan option" where
  "scan_recs C seq pos [] sc = Some sc"
| "scan_recs C seq pos (r # rs) sc =
     (case scan_record C seq pos (length (rec_payload C r)) r sc of
        None \<Rightarrow> None
      | Some sc \<Rightarrow> scan_recs C seq (pos + length (rec_bytes C r)) rs sc)"

context wal_laws
begin

lemma scan_loop_stream:
  assumes "\<forall>r \<in> set rs. rec_ok C r" "torn = [] \<or> frame_short torn" "scan_recs C seq pos rs sc = Some sc'"
  shows "scan_loop C seq pos (rec_stream C rs @ torn) sc = (sc', pos + length (rec_stream C rs), torn \<noteq> [])"
  using assms(1,3)
proof (induction rs arbitrary: pos sc)
  case Nil
  then show ?case using assms(2) by (subst scan_loop.simps) auto
next
  case (Cons r rs)
  have ok: "rec_ok C r" using Cons.prems by simp
  note f = frame_ok[OF ok, of "rec_stream C rs @ torn"]
  obtain sc1 where sc1: "scan_record C seq pos (length (rec_payload C r)) r sc = Some sc1"
      "scan_recs C seq (pos + length (rec_bytes C r)) rs sc1 = Some sc'"
    using Cons.prems(2) by (auto split: option.splits)
  have "scan_loop C seq pos (rec_bytes C r @ rec_stream C rs @ torn) sc =
      scan_loop C seq (pos + length (rec_bytes C r)) (rec_stream C rs @ torn) sc1"
    using f decode_rec[OF ok] sc1(1) by (subst scan_loop.simps) (simp add: rec_bytes_length RECORD_HEADER_LEN_def add.assoc)
  then show ?case using Cons.IH[OF _ sc1(2)] Cons.prems(1) by simp
qed

end

text \<open>
  The entries of a stream with the index entries they give.  \<open>chain ex is\<close>: the indexes are consecutive
  from the expected one and stay below the largest.
\<close>

definition entry_ix :: "('l, 'm, 'v) wal_codec \<Rightarrow> ('l, 'm) Entry \<Rightarrow> u64" where
  "entry_ix C e = wc_index C (en_log_id e)"

primrec located ::
  "('l, 'm, 'v) wal_codec \<Rightarrow> u32 \<Rightarrow> u64 \<Rightarrow> ('l, 'm) WalRecord list \<Rightarrow> ((u64 \<times> RecordLoc) \<times> ('l, 'm) Entry) list" where
  "located C seq pos [] = []"
| "located C seq pos (r # rs) =
     (case r of
        WalEntry e \<Rightarrow> [((entry_ix C e, \<lparr>rl_seq = seq, rl_offset = pos, rl_len = length (rec_payload C r)\<rparr>), e)]
      | Committed _ \<Rightarrow> []) @ located C seq (pos + length (rec_bytes C r)) rs"

definition indexes :: "((u64 \<times> RecordLoc) \<times> ('l, 'm) Entry) list \<Rightarrow> u64 list" where
  "indexes xs = map (fst \<circ> fst) xs"

fun chain :: "u64 option \<Rightarrow> u64 list \<Rightarrow> bool" where
  "chain ex [] \<longleftrightarrow> True"
| "chain ex (i # is) \<longleftrightarrow> (ex = None \<or> ex = Some i) \<and> i < 2 ^ 64 - 1 \<and> chain (Some (Suc i)) is"

definition next_of :: "u64 option \<Rightarrow> u64 list \<Rightarrow> u64 option" where
  "next_of ex is = (if is = [] then ex else Some (Suc (last is)))"

lemma indexes_simps [simp]: "indexes [] = []" "indexes (x # xs) = fst (fst x) # indexes xs"
  "indexes (xs @ ys) = indexes xs @ indexes ys" "indexes xs = [] \<longleftrightarrow> xs = []"
  by (simp_all add: indexes_def)

lemma located_append:
  "located C seq pos (rs @ ts) = located C seq pos rs @ located C seq (pos + length (rec_stream C rs)) ts"
  by (induction rs arbitrary: pos) (simp_all add: add.assoc)

lemma located_ix: "x \<in> set (located C seq pos rs) \<Longrightarrow> fst (fst x) = entry_ix C (snd x)"
  by (induction rs arbitrary: pos) (auto split: WalRecord.splits)

lemma next_of_simps [simp]: "next_of ex [] = ex" "next_of ex (i # is) = next_of (Some (Suc i)) is"
  by (simp_all add: next_of_def)

lemma next_of_append: "next_of ex (xs @ ys) = next_of (next_of ex xs) ys"
  by (induction xs arbitrary: ex) simp_all

lemma chain_append: "chain ex (xs @ ys) \<longleftrightarrow> chain ex xs \<and> chain (next_of ex xs) ys"
  by (induction xs arbitrary: ex) auto

lemma chain_weaken: "chain ex is \<Longrightarrow> chain None is"
  by (cases "is") auto

lemma chain_upt: "chain (Some n) is \<longleftrightarrow> is = [n..<n + length is] \<and> (\<forall>i \<in> set is. i < 2 ^ 64 - 1)"
proof (induction "is" arbitrary: n)
  case (Cons i "is")
  have "[n..<n + length (i # is)] = n # [Suc n..<Suc n + length is]" by (simp add: upt_conv_Cons del: upt_Suc)
  then have "i # is = [n..<n + length (i # is)] \<longleftrightarrow> i = n \<and> is = [Suc n..<Suc n + length is]" by (simp del: upt_Suc)
  then show ?case using Cons[of "Suc n"] by auto
qed simp

lemma chain_sorted: "chain ex is \<Longrightarrow> sorted_wrt (<) is"
proof (cases "is")
  case (Cons i js)
  assume "chain ex is"
  then have "chain (Some i) is" using Cons by simp
  then have "is = [i..<i + length is]" using chain_upt by blast
  then show ?thesis by (metis sorted_wrt_upt)
qed simp

lemma bt_insert_last: "(\<forall>e \<in> set m. fst e < k) \<Longrightarrow> bt_insert k v m = m @ [(k, v)]"
  by (induction m) auto

text \<open>What a scan of consecutive records makes of the state of the scan.\<close>

primrec rec_state :: "('l, 'v) RuntimeState \<Rightarrow> ('l, 'm) WalRecord \<Rightarrow> ('l, 'v) RuntimeState" where
  "rec_state s (WalEntry e) = s\<lparr>rt_last_log_id := Some (en_log_id e)\<rparr>"
| "rec_state s (Committed c) = s\<lparr>rt_committed := c\<rparr>"

definition last_ix :: "('l, 'm, 'v) wal_codec \<Rightarrow> ('l, 'm) WalRecord list \<Rightarrow> u64 option" where
  "last_ix C rs = vec_last (indexes (located C 0 0 rs))"

lemma indexes_place: "indexes (located C q p rs) = indexes (located C 0 0 rs)"
proof -
  have "indexes (located C q p rs) = indexes (located C q' p' rs)" for q p q' p'
    by (induction rs arbitrary: p p') (auto split: WalRecord.split)
  then show ?thesis .
qed

definition below_next :: "('l, 'v) scan \<Rightarrow> bool" where
  "below_next sc \<longleftrightarrow> (\<forall>e \<in> set (sc_index sc). \<exists>n. sc_expected_next sc = Some n \<and> fst e < n)"

definition scanned ::
  "('l, 'm, 'v) wal_codec \<Rightarrow> u32 \<Rightarrow> u64 \<Rightarrow> ('l, 'm) WalRecord list \<Rightarrow> ('l, 'v) scan \<Rightarrow> ('l, 'v) scan \<Rightarrow> bool" where
  "scanned C seq pos rs sc sc' \<longleftrightarrow> sc_index sc' = sc_index sc @ map fst (located C seq pos rs)
     \<and> sc_expected_next sc' = next_of (sc_expected_next sc) (indexes (located C seq pos rs))
     \<and> sc_state sc' = foldl rec_state (sc_state sc) rs \<and> sg_seq (sc_meta sc') = sg_seq (sc_meta sc)
     \<and> sg_last_index (sc_meta sc') = (if located C seq pos rs = [] then sg_last_index (sc_meta sc)
          else Some (last (indexes (located C seq pos rs)))) \<and> below_next sc'"

lemma scan_recs_chain:
  assumes "chain (sc_expected_next sc) (indexes (located C seq pos rs))" "below_next sc"
  shows "\<exists>sc'. scan_recs C seq pos rs sc = Some sc' \<and> scanned C seq pos rs sc sc'"
  using assms
proof (induction rs arbitrary: pos sc)
  case Nil
  then show ?case by (simp add: scanned_def)
next
  case (Cons r rs)
  let ?pos = "pos + length (rec_bytes C r)"
  show ?case
  proof (cases r)
    case (Committed c)
    let ?sc = "sc\<lparr>sc_state := (sc_state sc)\<lparr>rt_committed := c\<rparr>\<rparr>"
    have "scan_record C seq pos (length (rec_payload C r)) r sc = Some ?sc" by (simp add: Committed scan_record_def)
    moreover have "below_next ?sc" using Cons.prems(2) by (simp add: below_next_def)
    moreover have "chain (sc_expected_next ?sc) (indexes (located C seq (pos + length (rec_bytes C r)) rs))"
      using Cons.prems(1) by (simp add: Committed)
    ultimately obtain sc' where "scan_recs C seq pos (r # rs) sc = Some sc'" "scanned C seq ?pos rs ?sc sc'"
      using Cons.IH[of ?sc ?pos] by auto
    then show ?thesis by (intro exI[of _ sc']) (auto simp: Committed scanned_def)
  next
    case (WalEntry e)
    let ?i = "entry_ix C e"
    let ?sc = "sc\<lparr>sc_expected_next := Some (Suc ?i),
       sc_index := sc_index sc @ [(?i, \<lparr>rl_seq = seq, rl_offset = pos, rl_len = length (rec_payload C r)\<rparr>)],
       sc_meta := note_entries (Some ?i) (Some ?i) (sc_meta sc),
       sc_state := (sc_state sc)\<lparr>rt_last_log_id := Some (en_log_id e)\<rparr>\<rparr>"
    have c: "sc_expected_next sc = None \<or> sc_expected_next sc = Some ?i" "?i < 2 ^ 64 - 1"
      "chain (Some (Suc ?i)) (indexes (located C seq ?pos rs))"
      using Cons.prems(1) by (simp_all add: WalEntry)
    have b: "\<forall>x \<in> set (sc_index sc). fst x < ?i" using c(1) Cons.prems(2) by (auto simp: below_next_def)
    have one: "scan_record C seq pos (length (rec_payload C r)) r sc = Some ?sc"
      using c(1,2) bt_insert_last[OF b]
      by (auto simp: WalEntry scan_record_def scan_entry_def Let_def entry_ix_def wrap_u64_def split: option.splits)
    have bn: "below_next ?sc" using b by (auto simp: below_next_def)
    have ch: "chain (sc_expected_next ?sc) (indexes (located C seq (pos + length (rec_bytes C r)) rs))" using c(3) by simp
    obtain sc' where "scan_recs C seq pos (r # rs) sc = Some sc'" "scanned C seq ?pos rs ?sc sc'"
      using Cons.IH[OF ch bn] one by auto
    then show ?thesis by (intro exI[of _ sc']) (auto simp: WalEntry scanned_def note_entries_def Let_def)
  qed
qed

section \<open>Recovering the segments of a log\<close>

type_synonym ('l, 'm) log = "(u32 \<times> ('l, 'm) WalRecord list) list"

definition lay :: "('l, 'm, 'v) wal_codec \<Rightarrow> ('l, 'm) log \<Rightarrow> ((u64 \<times> RecordLoc) \<times> ('l, 'm) Entry) list" where
  "lay C L = concat (map (\<lambda>(q, rs). located C q 8 rs) L)"

definition stored :: "('l, 'm, 'v) wal_codec \<Rightarrow> u32 \<times> ('l, 'm) WalRecord list \<Rightarrow> u32 \<times> wal_file \<Rightarrow> bool" where
  "stored C s f \<longleftrightarrow> fst f = fst s \<and> wf_bytes (snd f) = seg_bytes C (snd s)"

definition synced :: "wal_file \<Rightarrow> bool" where
  "synced f \<longleftrightarrow> wf_synced f = length (wf_bytes f)"

definition records_ok :: "('l, 'm, 'v) wal_codec \<Rightarrow> ('l, 'm) log \<Rightarrow> bool" where
  "records_ok C L \<longleftrightarrow> (\<forall>s \<in> set L. \<forall>r \<in> set (snd s). rec_ok C r)"

definition meta_of :: "('l, 'm, 'v) wal_codec \<Rightarrow> u32 \<times> ('l, 'm) WalRecord list \<Rightarrow> u32 \<times> u64 option" where
  "meta_of C s = (fst s, last_ix C (snd s))"

definition bounds :: "SegmentMeta \<Rightarrow> u32 \<times> u64 option" where
  "bounds s = (sg_seq s, sg_last_index s)"

lemma lay_simps [simp]: "lay C [] = []" "lay C (s # L) = located C (fst s) 8 (snd s) @ lay C L"
  "lay C (L @ M) = lay C L @ lay C M"
  by (simp_all add: lay_def split_beta)

lemma last_ix_located: "last_ix C rs = (if located C q p rs = [] then None else Some (last (indexes (located C q p rs))))"
  by (metis indexes_place indexes_simps(4) last_ix_def vec_last_def)

lemma header_fields:
  "take 4 (segment_header @ bs) = SEGMENT_MAGIC" "from_le_bytes (take 4 (drop 4 (segment_header @ bs))) = SEGMENT_VERSION"
proof -
  have m: "length SEGMENT_MAGIC = 4" by (simp add: SEGMENT_MAGIC_def)
  then show "take 4 (segment_header @ bs) = SEGMENT_MAGIC" by (simp add: segment_header_def)
  have "take 4 (drop 4 (segment_header @ bs)) = to_le_bytes 4 SEGMENT_VERSION" using m by (simp add: segment_header_def)
  then show "from_le_bytes (take 4 (drop 4 (segment_header @ bs))) = SEGMENT_VERSION"
    by (simp add: from_to_le_bytes SEGMENT_VERSION_def)
qed

context wal_laws
begin

lemma recover_segment_cut:
  assumes ok: "\<forall>r \<in> set rs. rec_ok C r" and f: "wf_bytes file = take k (seg_bytes C rs)" "synced file"
    and l: "is_last \<or> length (seg_bytes C rs) \<le> k"
    and ch: "chain (sc_expected_next sc) (indexes (located C seq 8 rs))" "below_next sc"
  shows "\<exists>file' sc'. recover_segment C path seq file is_last rc sc = Inr (file', sc', Some (sc_meta sc'), False)
    \<and> wf_bytes file' = seg_bytes C (fitting C (k - 8) rs) \<and> synced file'
    \<and> scanned C seq 8 (fitting C (k - 8) rs) (sc\<lparr>sc_meta := SegmentMeta_new seq\<rparr>) sc'"
proof (cases "k < 8")
  case True
  then have "length (wf_bytes file) < SEGMENT_HEADER_LEN" "is_last"
    using f l by (simp_all add: SEGMENT_HEADER_LEN_def)
  then show ?thesis
    using True ch(2) by (simp add: recover_segment_def scanned_def synced_def below_next_def Let_def)
next
  case False
  let ?fs = "fitting C (k - 8) rs" and ?sc = "sc\<lparr>sc_meta := SegmentMeta_new seq\<rparr>"
  obtain torn where torn: "take (k - 8) (rec_stream C rs) = rec_stream C ?fs @ torn" "torn = [] \<or> frame_short torn"
    using stream_prefix[OF ok] by blast
  have b: "wf_bytes file = segment_header @ rec_stream C ?fs @ torn"
    using False f(1) torn(1) by (simp add: seg_bytes_def)
  have whole: "torn = []" if "length (seg_bytes C rs) \<le> k"
  proof -
    have "length (rec_stream C rs) \<le> k - 8" using that by simp
    then have "?fs = rs" "take (k - 8) (rec_stream C rs) = rec_stream C rs" using fitting_whole[of C rs "k - 8" "[]"] by simp_all
    then show ?thesis using torn(1) by simp
  qed
  obtain ts where ts: "rs = ?fs @ ts" using fitting_prefix by blast
  have fok: "\<forall>r \<in> set ?fs. rec_ok C r" using ok ts by (metis UnCI set_append)
  have "chain (sc_expected_next sc) (indexes (located C seq 8 (?fs @ ts)))" using ch(1) ts by simp
  then have "chain (sc_expected_next ?sc) (indexes (located C seq 8 ?fs))" by (simp add: located_append chain_append)
  moreover have "below_next ?sc" using ch(2) by (simp add: below_next_def)
  ultimately obtain sc' where sc': "scan_recs C seq 8 ?fs ?sc = Some sc'" "scanned C seq 8 ?fs ?sc sc'"
    using scan_recs_chain by blast
  have sl: "scan_loop C seq 8 (rec_stream C ?fs @ torn) ?sc = (sc', 8 + length (rec_stream C ?fs), torn \<noteq> [])"
    by (rule scan_loop_stream[OF fok torn(2) sc'(1)])
  have h: "take 4 (wf_bytes file) = SEGMENT_MAGIC" "from_le_bytes (take 4 (drop 4 (wf_bytes file))) = SEGMENT_VERSION"
    "drop 8 (wf_bytes file) = rec_stream C ?fs @ torn" "\<not> length (wf_bytes file) < 8"
    unfolding b using header_fields[of "[]"] by simp_all
  define file' where "file' = (if torn \<noteq> [] then file_sync (file_set_len (8 + length (rec_stream C ?fs)) file) else file)"
  have "recover_segment C path seq file is_last rc sc = Inr (file', sc', Some (sc_meta sc'), False)"
    using h sl l whole by (auto simp: recover_segment_def SEGMENT_HEADER_LEN_def Let_def file'_def)
  moreover have "wf_bytes file' = seg_bytes C ?fs" "synced file'"
    using f(2) by (simp_all add: file'_def b file_sync_def file_set_len_def seg_bytes_def synced_def)
  ultimately show ?thesis using sc'(2) by blast
qed

end

context wal_laws
begin

text \<open>All segments but the last are whole, the last file holds the first \<open>k\<close> bytes of its segment.\<close>

lemma recover_segments_cut:
  assumes "list_all2 (stored C) L F" "\<forall>f \<in> snd ` set F. synced f" "records_ok C (L @ [(q, rs)])"
    and "wf_bytes file = take k (seg_bytes C rs)" "synced file"
    and "chain (sc_expected_next sc) (indexes (lay C (L @ [(q, rs)])))" "below_next sc"
  shows "\<exists>F' metas sc'. recover_segments C path rc (F @ [(q, file)]) sc = Inr (F', metas, sc')
    \<and> list_all2 (stored C) (L @ [(q, fitting C (k - 8) rs)]) F' \<and> (\<forall>f \<in> snd ` set F'. synced f)
    \<and> map bounds metas = map (meta_of C) (L @ [(q, fitting C (k - 8) rs)])
    \<and> sc_index sc' = sc_index sc @ map fst (lay C (L @ [(q, fitting C (k - 8) rs)]))
    \<and> sc_state sc' = foldl rec_state (sc_state sc) (concat (map snd (L @ [(q, fitting C (k - 8) rs)])))"
  using assms
proof (induction L arbitrary: F sc)
  case Nil
  obtain file' sc' where r: "recover_segment C (segment_path path q) q file True rc sc = Inr (file', sc', Some (sc_meta sc'), False)"
      "wf_bytes file' = seg_bytes C (fitting C (k - 8) rs)" "synced file'"
      "scanned C q 8 (fitting C (k - 8) rs) (sc\<lparr>sc_meta := SegmentMeta_new q\<rparr>) sc'"
    using recover_segment_cut[of rs "file" k True sc q "segment_path path q" rc] Nil.prems by (auto simp: records_ok_def)
  have "last_ix C (fitting C (k - 8) rs) = sg_last_index (sc_meta sc')"
    using r(4) last_ix_located[of C "fitting C (k - 8) rs" q 8] by (simp add: scanned_def SegmentMeta_new_def)
  then show ?case
    using r Nil.prems(1) by (simp add: stored_def scanned_def bounds_def meta_of_def SegmentMeta_new_def)
next
  case (Cons s L)
  obtain f F0 where F: "F = f # F0" "stored C s f" "list_all2 (stored C) L F0" using Cons.prems(1) by (auto simp: list_all2_Cons1)
  have ok: "\<forall>r \<in> set (snd s). rec_ok C r" "records_ok C (L @ [(q, rs)])" using Cons.prems(3) by (auto simp: records_ok_def)
  have w: "wf_bytes (snd f) = take (length (seg_bytes C (snd s))) (seg_bytes C (snd s))" "synced (snd f)"
    using F Cons.prems(2) by (simp_all add: stored_def)
  have ch: "chain (sc_expected_next sc) (indexes (located C (fst s) 8 (snd s)))"
    "chain (next_of (sc_expected_next sc) (indexes (located C (fst s) 8 (snd s)))) (indexes (lay C (L @ [(q, rs)])))"
    using Cons.prems(6) by (simp_all add: chain_append)
  have fit: "fitting C (length (seg_bytes C (snd s)) - 8) (snd s) = snd s"
    using fitting_whole[of C "snd s" "length (rec_stream C (snd s))" "[]"] by simp
  obtain file' sc1 where r: "recover_segment C (segment_path path (fst f)) (fst f) (snd f) (F0 @ [(q, file)] = []) rc sc
        = Inr (file', sc1, Some (sc_meta sc1), False)"
      "wf_bytes file' = seg_bytes C (snd s)" "synced file'"
      "scanned C (fst f) 8 (snd s) (sc\<lparr>sc_meta := SegmentMeta_new (fst f)\<rparr>) sc1"
    using recover_segment_cut[OF ok(1) w _ _ Cons.prems(7), of "F0 @ [(q, file)] = []" "fst f" "segment_path path (fst f)" rc] ch(1) F(2) fit
    by (auto simp: stored_def)
  have sc1: "sc_expected_next sc1 = next_of (sc_expected_next sc) (indexes (located C (fst s) 8 (snd s)))" "below_next sc1"
      "sc_index sc1 = sc_index sc @ map fst (located C (fst s) 8 (snd s))" "sc_state sc1 = foldl rec_state (sc_state sc) (snd s)"
      "bounds (sc_meta sc1) = meta_of C s"
    using r(4) F(2) last_ix_located[of C "snd s" "fst s" 8]
    by (simp_all add: scanned_def stored_def bounds_def meta_of_def SegmentMeta_new_def)
  obtain F' metas sc' where ih: "recover_segments C path rc (F0 @ [(q, file)]) sc1 = Inr (F', metas, sc')"
      "list_all2 (stored C) (L @ [(q, fitting C (k - 8) rs)]) F'" "\<forall>f \<in> snd ` set F'. synced f"
      "map bounds metas = map (meta_of C) (L @ [(q, fitting C (k - 8) rs)])"
      "sc_index sc' = sc_index sc1 @ map fst (lay C (L @ [(q, fitting C (k - 8) rs)]))"
      "sc_state sc' = foldl rec_state (sc_state sc1) (concat (map snd (L @ [(q, fitting C (k - 8) rs)])))"
    using Cons.IH[OF F(3) _ ok(2) Cons.prems(4,5), of sc1] Cons.prems(2) ch(2) sc1(1,2) F(1) by (auto simp del: map_append concat_append)
  have "stored C s (fst f, file')" using F(2) r(2) by (simp add: stored_def)
  then show ?case using ih r sc1 F(1) by simp
qed

end

end
