(* ===== verification/Log_Refinement.thy ===== *)
theory Log_Refinement
  imports Log_Layout
begin

text \<open>
  The log store implements an abstract log: a list of consecutive entries above a purge marker and a
  vote.  \<open>log_rep C st L\<close> says that the store \<open>st\<close> holds the segments \<open>L\<close>; every operation keeps it and does to the
  abstract log what it should.
\<close>

section \<open>The representation\<close>

record ('l, 'm, 'v) alog =
  al_entries :: "('l, 'm) Entry list"
  al_vote :: "'v option"
  al_purged :: "'l option"

definition unpurged :: "('l, 'm, 'v) wal_codec \<Rightarrow> 'l option \<Rightarrow> u64 \<Rightarrow> bool" where
  "unpurged C p i \<longleftrightarrow> (case p of None \<Rightarrow> True | Some l \<Rightarrow> wc_index C l < i)"

abbreviation kept :: "('l, 'm, 'v) wal_codec \<Rightarrow> 'l option \<Rightarrow> ((u64 \<times> RecordLoc) \<times> ('l, 'm) Entry) list
    \<Rightarrow> ((u64 \<times> RecordLoc) \<times> ('l, 'm) Entry) list" where
  "kept C p xs \<equiv> filter (\<lambda>x. unpurged C p (fst (fst x))) xs"

definition disk_rep :: "('l, 'm, 'v) wal_codec \<Rightarrow> ('l, 'v) LogStore \<Rightarrow> ('l, 'm) log \<Rightarrow> bool" where
  "disk_rep C st L \<longleftrightarrow> L \<noteq> [] \<and> sorted_wrt (<) (map fst L) \<and> list_all2 (stored C) L (lg_files st)
     \<and> lg_writer_seq st = fst (last L) \<and> lg_writer_len st = length (seg_bytes C (snd (last L)))
     \<and> map bounds (lg_segments st) = map (meta_of C) L \<and> records_ok C L \<and> chain None (indexes (lay C L))"

definition view_rep :: "('l, 'm, 'v) wal_codec \<Rightarrow> ('l, 'v) LogStore \<Rightarrow> ('l, 'm) log \<Rightarrow> bool" where
  "view_rep C st L \<longleftrightarrow> lg_index st = map fst (kept C (rt_last_purged (lg_state st)) (lay C L))
     \<and> (lay C L \<noteq> [] \<longrightarrow> unpurged C (rt_last_purged (lg_state st)) (last (indexes (lay C L))))
     \<and> rt_last_log_id (lg_state st) = map_option (en_log_id \<circ> snd) (vec_last (lay C L))
     \<and> (case lg_state_file st of
          None \<Rightarrow> rt_vote (lg_state st) = None \<and> rt_last_purged (lg_state st) = None
        | Some bs \<Rightarrow> wc_state_from_bytes C bs
            = Inr \<lparr>ps_vote = rt_vote (lg_state st), ps_last_purged = rt_last_purged (lg_state st)\<rparr>)"

text \<open>What survives a crash: whole earlier segments, and with a sync per append all entries of the last.\<close>

definition durable :: "('l, 'm, 'v) wal_codec \<Rightarrow> ('l, 'v) LogStore \<Rightarrow> ('l, 'm) log \<Rightarrow> bool" where
  "durable C st L \<longleftrightarrow>
     (fsync_enabled (lg_fsync st) \<longrightarrow> (\<forall>f \<in> snd ` set (butlast (lg_files st)). synced f))
     \<and> (lg_fsync st = EveryAppend \<longrightarrow> (\<exists>rs ts. snd (last L) = rs @ ts \<and> located C 0 0 ts = []
          \<and> length (seg_bytes C rs) \<le> wf_synced (snd (last (lg_files st)))))"

definition log_rep :: "('l, 'm, 'v) wal_codec \<Rightarrow> ('l, 'v) LogStore \<Rightarrow> ('l, 'm) log \<Rightarrow> bool" where
  "log_rep C st L \<longleftrightarrow> disk_rep C st L \<and> view_rep C st L \<and> durable C st L"

definition abs_log :: "('l, 'm, 'v) wal_codec \<Rightarrow> ('l, 'v) LogStore \<Rightarrow> ('l, 'm) log \<Rightarrow> ('l, 'm, 'v) alog" where
  "abs_log C st L =
     \<lparr>al_entries = map snd (kept C (rt_last_purged (lg_state st)) (lay C L)), al_vote = rt_vote (lg_state st),
      al_purged = rt_last_purged (lg_state st)\<rparr>"

text \<open>What the in-memory view and the configuration consist of.\<close>

definition same_view :: "('l, 'v) LogStore \<Rightarrow> ('l, 'v) LogStore \<Rightarrow> bool" where
  "same_view st st' \<longleftrightarrow> lg_index st' = lg_index st \<and> lg_state st' = lg_state st \<and> lg_state_file st' = lg_state_file st
     \<and> lg_fsync st' = lg_fsync st \<and> lg_dir st' = lg_dir st \<and> lg_segment_size st' = lg_segment_size st"

lemma view_rep_cong: "same_view st st' \<Longrightarrow> lay C L' = lay C L \<Longrightarrow> view_rep C st' L' = view_rep C st L"
  by (simp add: same_view_def view_rep_def cong: option.case_cong)

lemma abs_log_cong: "same_view st st' \<Longrightarrow> lay C L' = lay C L \<Longrightarrow> abs_log C st' L' = abs_log C st L"
  by (simp add: same_view_def abs_log_def)

section \<open>The active segment\<close>

lemma bt_last:
  assumes "\<forall>e \<in> set F. fst e < q"
  shows "bt_get q (F @ [(q, f)]) = Some f" "bt_insert q v (F @ [(q, f)]) = F @ [(q, v)]" "bt_get q F = None"
  using assms by (induction F) auto

lemma stored_keys: "list_all2 (stored C) L F \<Longrightarrow> map fst F = map fst L"
  by (induction rule: list_all2_induct) (simp_all add: stored_def)

lemma disk_repE:
  assumes "disk_rep C st L"
  obtains M q rs F f where "L = M @ [(q, rs)]" "lg_files st = F @ [(q, f)]" "list_all2 (stored C) M F" "wf_bytes f = seg_bytes C rs"
    "\<forall>e \<in> set F. fst e < q" "lg_writer_seq st = q" "lg_writer_len st = 8 + length (rec_stream C rs)"
    "\<forall>e \<in> set M. fst e < q"
proof -
  obtain M s where L: "L = M @ [s]" using assms by (metis disk_rep_def rev_exhaust)
  then obtain F g where F: "lg_files st = F @ [g]" "list_all2 (stored C) M F" "stored C s g"
    using assms by (auto simp: disk_rep_def list_all2_append1 list_all2_Cons1)
  have m: "\<forall>e \<in> set M. fst e < fst s" using assms L by (auto simp: disk_rep_def sorted_wrt_append)
  have k: "\<forall>e \<in> set F. fst e < fst s" using stored_keys[OF F(2)] m by (metis image_eqI imageE set_map)
  show thesis
    by (rule that[of M "fst s" "snd s" F "snd g"]) (use assms L F m k in \<open>auto simp: disk_rep_def stored_def prod_eq_iff\<close>)
qed

lemma change_last:
  assumes "lg_files st = F @ [(q, f)]" "\<forall>e \<in> set F. fst e < q"
  shows "change_file q g st = st\<lparr>lg_files := F @ [(q, g f)]\<rparr>"
  using bt_last[OF assms(2)] by (simp add: change_file_def assms(1))

lemma change_segment_last:
  "\<forall>s \<in> set segs. sg_seq s \<noteq> q \<Longrightarrow> sg_seq s = q \<Longrightarrow> change_segment q g (segs @ [s]) = segs @ [g s]"
  by (induction segs) auto

lemma segments_last:
  assumes "map bounds segs = map (meta_of C) (M @ [(q, rs)])" "\<forall>e \<in> set M. fst e < q"
  obtains S s where "segs = S @ [s]" "map bounds S = map (meta_of C) M" "bounds s = (q, last_ix C rs)"
    "\<forall>x \<in> set S. sg_seq x < q"
proof -
  obtain S s where S: "segs = S @ [s]" "map bounds S = map (meta_of C) M" "bounds s = (q, last_ix C rs)"
    using assms(1) by (auto simp: map_eq_append_conv meta_of_def)
  have "sg_seq x < q" if "x \<in> set S" for x
  proof -
    have "bounds x \<in> set (map (meta_of C) M)" using that S(2) by (metis image_eqI set_map)
    then show ?thesis using assms(2) by (auto simp: bounds_def meta_of_def)
  qed
  then show thesis using that S by blast
qed

section \<open>Rotation\<close>

text \<open>The faults after which the log goes on: those of the writes and syncs an operation takes back.\<close>

definition undone :: "io_calls \<Rightarrow> bool" where
  "undone io \<longleftrightarrow> (\<forall>site. io site \<noteq> None \<longrightarrow> site \<in> {Injected, WriteBatch, SyncBatch, WriteMarkerHeader, WriteMarkerPayload,
     WriteState, RenameState, SyncTick})"

lemma rotate_disk:
  assumes rep: "disk_rep C st L" "durable C st L" and room: "Suc (lg_writer_seq st) < 2 ^ 32" and io: "rotate_segment io st = (st', None)"
  shows "disk_rep C st' (L @ [(Suc (lg_writer_seq st), [])])" "durable C st' (L @ [(Suc (lg_writer_seq st), [])])" "same_view st st'"
    "lg_writer_seq st' = Suc (lg_writer_seq st)"
proof -
  obtain M q rs F f where d: "L = M @ [(q, rs)]" "lg_files st = F @ [(q, f)]" "list_all2 (stored C) M F" "wf_bytes f = seg_bytes C rs"
      "\<forall>e \<in> set F. fst e < q" "lg_writer_seq st = q" "lg_writer_len st = 8 + length (rec_stream C rs)" "\<forall>e \<in> set M. fst e < q"
    using disk_repE[OF rep(1)] by blast
  define f' where "f' = (if fsync_enabled (lg_fsync st) then file_sync f else f)"
  define g where "g = \<lparr>wf_bytes = segment_header, wf_synced = if fsync_enabled (lg_fsync st) then 8 else 0\<rparr>"
  define st1 where "st1 = st\<lparr>lg_files := F @ [(q, f')]\<rparr>"
  have w: "wrap_u32 (Suc q) = Suc q" using room d(6) by (simp add: wrap_u32_def)
  have lt: "\<forall>e \<in> set (F @ [(q, f')]). fst e < Suc q" using d(5) by auto
  have new: "bt_get (Suc q) (F @ [(q, f')]) = None" "bt_insert (Suc q) x (F @ [(q, f')]) = (F @ [(q, f')]) @ [(Suc q, x)]" for x
    using bt_last(3)[OF lt] bt_insert_last[OF lt] by simp_all
  have ch: "change_file (Suc q) h (s\<lparr>lg_files := F @ [(q, f'), (Suc q, x)]\<rparr>) = s\<lparr>lg_files := F @ [(q, f'), (Suc q, h x)]\<rparr>" for h s x
    using change_last[of "s\<lparr>lg_files := F @ [(q, f'), (Suc q, x)]\<rparr>" "F @ [(q, f')]" "Suc q" x h] lt by simp
  have id: "st\<lparr>lg_files := F @ [(q, f)]\<rparr> = st" using d(2) by (cases st) simp
  have "rotate_create io st1 = (st', None)"
    using io change_last[OF d(2,5), of file_sync] d(6) id
    by (auto simp: rotate_segment_def st1_def f'_def split: if_splits option.splits)
  then have st': "st' = st\<lparr>lg_files := F @ [(q, f'), (Suc q, g)], lg_writer_seq := Suc q, lg_writer_len := 8,
      lg_segments := lg_segments st @ [SegmentMeta_new (Suc q)]\<rparr>"
    by (auto simp: rotate_create_def st1_def d(6) w new ch Let_def g_def file_append_def file_sync_def SEGMENT_HEADER_LEN_def
        split: option.splits if_splits)
  show "same_view st st'" by (simp add: st' same_view_def)
  have b: "wf_bytes f' = wf_bytes f" by (simp add: f'_def file_sync_def)
  have "list_all2 (stored C) (M @ [(q, rs), (Suc q, [])]) (F @ [(q, f'), (Suc q, g)])"
    by (rule list_all2_appendI[OF d(3)]) (simp add: stored_def b d(4) g_def)
  then show "disk_rep C st' (L @ [(Suc (lg_writer_seq st), [])])"
    using rep(1) d unfolding disk_rep_def
    by (auto simp: st' sorted_wrt_append less_Suc_eq meta_of_def bounds_def SegmentMeta_new_def last_ix_def
        vec_last_def records_ok_def)
  show "durable C st' (L @ [(Suc (lg_writer_seq st), [])])"
    using rep(2) unfolding durable_def
    by (auto simp: st' butlast_append d(2) f'_def g_def file_sync_def synced_def fsync_enabled_def
        split: if_splits)
  show "lg_writer_seq st' = Suc (lg_writer_seq st)" using d(6) by (simp add: st')
qed

lemma rotate_rep:
  assumes rep: "log_rep C st L" and room: "Suc (lg_writer_seq st) < 2 ^ 32" and io: "rotate_segment io st = (st', None)"
  shows "log_rep C st' (L @ [(Suc (lg_writer_seq st), [])])" "same_view st st'"
proof -
  note r = rotate_disk[of C st L, OF _ _ room io]
  show sv: "same_view st st'" using r(3) rep by (simp add: log_rep_def)
  have "view_rep C st' (L @ [(Suc (lg_writer_seq st), [])]) = view_rep C st L" by (rule view_rep_cong[OF sv]) simp
  then show "log_rep C st' (L @ [(Suc (lg_writer_seq st), [])])" using r(1,2) rep by (simp add: log_rep_def)
qed

lemma undoneD:
  "undone io \<Longrightarrow> site \<notin> {Injected, WriteBatch, SyncBatch, WriteMarkerHeader, WriteMarkerPayload,
     WriteState, RenameState, SyncTick} \<Longrightarrow> io site = None"
  unfolding undone_def by blast

lemma rotate_total:
  assumes "log_rep C st L" "Suc (lg_writer_seq st) < 2 ^ 32" "undone io"
  shows "\<exists>st'. rotate_segment io st = (st', None)"
proof -
  obtain q F f where d: "lg_files st = F @ [(q, f)]" "\<forall>e \<in> set F. fst e < q" "lg_writer_seq st = q"
    using assms(1) disk_repE[of C st L] unfolding log_rep_def by metis
  have w: "wrap_u32 (Suc q) = Suc q" using assms(2) d(3) by (simp add: wrap_u32_def)
  have new: "bt_get (Suc q) (F @ [(q, x)]) = None" for x
    using bt_last(3)[of "F @ [(q, x)]" "Suc q"] d(2) by (simp add: less_SucI)
  have io: "io SyncOldSegment = None" "io CreateSegment = None" "io WriteSegmentHeader = None" "io SyncNewSegment = None"
    "io SyncNewDir = None" by (rule undoneD[OF assms(3)], simp)+
  have r: "\<exists>st'. rotate_create io (st\<lparr>lg_files := F @ [(q, x)]\<rparr>) = (st', None)" for x
    by (simp add: rotate_create_def io w new d(3) Let_def)
  have "st\<lparr>lg_files := F @ [(q, f)]\<rparr> = st" using d(1) by (cases st) simp
  then have "\<exists>st'. rotate_create io st = (st', None)" using r[of f] by simp
  then show ?thesis
    using r[of "file_sync f"] by (simp add: rotate_segment_def io(1) d(3) change_last[OF d(1,2)])
qed

lemma make_room_rep:
  assumes "log_rep C st L" "Suc (lg_writer_seq st) < 2 ^ 32" "make_room io n st = (st', None)"
  shows "\<exists>L'. log_rep C st' L' \<and> lay C L' = lay C L \<and> same_view st st'"
proof (cases "rotate_segment io st = (st', None)")
  case True
  then show ?thesis using rotate_rep[OF assms(1,2) True] by (intro exI[of _ "L @ [(Suc (lg_writer_seq st), [])]"]) simp
next
  case False
  then have "st' = st" using assms(3) by (auto simp: make_room_def split: if_splits)
  then show ?thesis using assms(1) by (auto simp: same_view_def)
qed

lemma make_room_total:
  assumes "log_rep C st L" "Suc (lg_writer_seq st) < 2 ^ 32" "undone io"
  shows "\<exists>st'. make_room io n st = (st', None)"
  using rotate_total[OF assms] by (simp add: make_room_def)

section \<open>Writing to the active segment\<close>

definition loc_triple :: "(u64 \<times> RecordLoc) \<times> ('l, 'm) Entry \<Rightarrow> u64 \<times> u64 \<times> u32" where
  "loc_triple x = (fst (fst x), rl_offset (snd (fst x)), rl_len (snd (fst x)))"

lemma encode_loop_ok:
  assumes "\<forall>e \<in> set es. rec_ok C (WalEntry e)"
  shows "encode_loop C es buf locs = Inr (buf @ rec_stream C (map WalEntry es),
    locs @ map loc_triple (located C q (length buf) (map WalEntry es)))"
  using assms
proof (induction es arbitrary: buf locs)
  case (Cons e es)
  have p: "wc_to_allocvec C (WalEntry e) = Inr (rec_payload C (WalEntry e))" "wrap_u32 (length (rec_payload C (WalEntry e))) = length (rec_payload C (WalEntry e))"
    using rec_ok_payload[of C "WalEntry e"] small_len Cons.prems by auto
  then show ?case
    using Cons.IH[of "buf @ rec_bytes C (WalEntry e)"] Cons.prems
    by (simp add: rec_bytes_def loc_triple_def entry_ix_def)
qed simp

lemma insert_locs:
  assumes "sorted_wrt (<) (map fst idx @ indexes (located C q p (map WalEntry es)))"
  shows "foldl (insert_loc q base) idx (map loc_triple (located C q p (map WalEntry es)))
    = idx @ map fst (located C q (base + p) (map WalEntry es))"
  using assms
proof (induction es arbitrary: idx p)
  case (Cons e es)
  have "\<forall>x \<in> set idx. fst x < entry_ix C e" using Cons.prems by (auto simp: sorted_wrt_append)
  then show ?case
    using Cons.IH[of "idx @ [(entry_ix C e, \<lparr>rl_seq = q, rl_offset = base + p, rl_len = length (rec_payload C (WalEntry e))\<rparr>)]"]
      Cons.prems
    by (simp add: loc_triple_def insert_loc_def bt_insert_last add.assoc)
qed simp

lemma located_none: "located C q p ts = [] \<longleftrightarrow> located C 0 0 ts = []"
  using arg_cong[OF indexes_place[of C q p ts], of "\<lambda>xs. xs = []"] by simp

text \<open>The active segment grows by the records \<open>ts\<close>.\<close>

lemma grow_rep:
  assumes rep: "log_rep C st (M @ [(q, rs)])" and f: "lg_files st = F @ [(q, f)]" "lg_files st' = F @ [(q, f')]"
    and w: "wf_bytes f' = seg_bytes C (rs @ ts)" "wf_synced f' = length (wf_bytes f') \<or> located C 0 0 ts = [] \<and> min (wf_synced f) (length (seg_bytes C rs)) \<le> wf_synced f'
      \<or> lg_fsync st \<noteq> EveryAppend"
    and st': "lg_writer_seq st' = q" "lg_writer_len st' = 8 + length (rec_stream C (rs @ ts))"
      "map bounds (lg_segments st') = map (meta_of C) (M @ [(q, rs @ ts)])" "lg_fsync st' = lg_fsync st"
    and ts: "\<forall>r \<in> set ts. rec_ok C r" "chain (next_of None (indexes (lay C (M @ [(q, rs)])))) (indexes (located C 0 0 ts))"
  shows "disk_rep C st' (M @ [(q, rs @ ts)])" "durable C st' (M @ [(q, rs @ ts)])"
proof -
  have fs: "list_all2 (stored C) M F" using rep f(1) by (auto simp: log_rep_def disk_rep_def list_all2_append1 list_all2_Cons1)
  have "list_all2 (stored C) (M @ [(q, rs @ ts)]) (F @ [(q, f')])"
    by (rule list_all2_appendI[OF fs]) (simp add: stored_def w)
  moreover have ix: "indexes (located C q p ts) = indexes (located C 0 0 ts)" for p by (rule indexes_place)
  have "chain None (indexes (lay C (M @ [(q, rs @ ts)])))"
    using ts(2) rep by (simp add: log_rep_def disk_rep_def located_append chain_append next_of_append ix)
  ultimately show "disk_rep C st' (M @ [(q, rs @ ts)])"
    using rep st' ts(1) by (auto simp: log_rep_def disk_rep_def f(2) records_ok_def)
  show "durable C st' (M @ [(q, rs @ ts)])"
    unfolding durable_def
  proof (intro conjI impI)
    show "\<forall>f \<in> snd ` set (butlast (lg_files st')). synced f" if "fsync_enabled (lg_fsync st')"
      using that rep f st'(4) by (simp add: log_rep_def durable_def)
    assume e: "lg_fsync st' = EveryAppend"
    then obtain us vs where uv: "rs = us @ vs" "located C 0 0 vs = []" "length (seg_bytes C us) \<le> wf_synced f"
      using rep st'(4) f(1) by (auto simp: log_rep_def durable_def)
    from w(2) e st'(4) consider "wf_synced f' = length (wf_bytes f')" | "located C 0 0 ts = []" "min (wf_synced f) (length (seg_bytes C rs)) \<le> wf_synced f'" by auto
    then show "\<exists>us vs. snd (last (M @ [(q, rs @ ts)])) = us @ vs \<and> located C 0 0 vs = []
        \<and> length (seg_bytes C us) \<le> wf_synced (snd (last (lg_files st')))"
    proof cases
      case 1
      then show ?thesis using f(2) w(1) by (intro exI[of _ "rs @ ts"] exI[of _ "[]"]) simp
    next
      case 2
      have "located C 0 0 (vs @ ts) = []"
        using uv(2) located_none[THEN iffD2, OF 2(1)] by (simp add: located_append)
      then show ?thesis using f(2) uv 2 by (intro exI[of _ us] exI[of _ "vs @ ts"]) simp
    qed
  qed
qed

section \<open>Append\<close>

text \<open>A batch the log accepts: encodable entries that continue it above the purge marker.\<close>

definition appendable :: "('l, 'm, 'v) wal_codec \<Rightarrow> ('l, 'm, 'v) alog \<Rightarrow> ('l, 'm) Entry list \<Rightarrow> bool" where
  "appendable C A es \<longleftrightarrow> (\<forall>e \<in> set es. rec_ok C (WalEntry e) \<and> unpurged C (al_purged A) (entry_ix C e))
     \<and> chain (next_of None (map (entry_ix C) (al_entries A))) (map (entry_ix C) es)"

definition al_append :: "('l, 'm) Entry list \<Rightarrow> ('l, 'm, 'v) alog \<Rightarrow> ('l, 'm, 'v) alog" where
  "al_append es A = A\<lparr>al_entries := al_entries A @ es\<rparr>"

lemma located_entries: "map snd (located C q p (map WalEntry es)) = es"
    "indexes (located C q p (map WalEntry es)) = map (entry_ix C) es"
  by (induction es arbitrary: p) simp_all

lemma indexes_entries: "\<forall>x \<in> set xs. fst (fst x) = entry_ix C (snd x) \<Longrightarrow> indexes xs = map (entry_ix C) (map snd xs)"
  by (simp add: indexes_def)

lemma lay_ix: "x \<in> set (lay C L) \<Longrightarrow> fst (fst x) = entry_ix C (snd x)"
  by (auto simp: lay_def dest: located_ix)

lemma next_of_kept:
  assumes "view_rep C st L"
  shows "next_of None (map (entry_ix C) (al_entries (abs_log C st L))) = next_of None (indexes (lay C L))"
proof (cases "lay C L" rule: rev_cases)
  case (snoc xs x)
  then have "unpurged C (rt_last_purged (lg_state st)) (fst (fst x))" using assms by (simp add: view_rep_def indexes_def)
  then show ?thesis using snoc lay_ix[of x C L] by (simp add: next_of_def abs_log_def)
qed (simp add: abs_log_def)

lemma append_cases:
  assumes es: "es \<noteq> []" and ok: "\<forall>e \<in> set es. rec_ok C (WalEntry e)"
    and room: "make_room io (length (rec_stream C (map WalEntry es))) st = (st1, None)" and io: "append_blocking C io st es = (st', None)"
    and f: "lg_files st1 = F @ [(q, f)]" "\<forall>e \<in> set F. fst e < q" "lg_writer_seq st1 = q"
  defines "g \<equiv> file_append (rec_stream C (map WalEntry es)) f"
  shows "\<exists>d. st' = st1\<lparr>lg_files := F @ [(q, if lg_fsync st1 = EveryAppend then file_sync g else g)], lg_dirty := d,
    lg_writer_len := lg_writer_len st1 + length (rec_stream C (map WalEntry es)),
    lg_segments := change_segment q (note_entries (Some (entry_ix C (hd es))) (Some (entry_ix C (last es)))) (lg_segments st1),
    lg_index := foldl (insert_loc q (lg_writer_len st1)) (lg_index st1) (map loc_triple (located C q 0 (map WalEntry es))),
    lg_state := (lg_state st1)\<lparr>rt_last_log_id := Some (en_log_id (last es))\<rparr>\<rparr>"
proof -
  have ch: "change_file q h (s\<lparr>lg_files := F @ [(q, x)], lg_dirty := d\<rparr>) = s\<lparr>lg_files := F @ [(q, h x)], lg_dirty := d\<rparr>" for h s x d
    using change_last[of "s\<lparr>lg_files := F @ [(q, x)], lg_dirty := d\<rparr>" F q x h] f(2) by simp
  have ch1: "change_file q h st1 = st1\<lparr>lg_files := F @ [(q, h f)]\<rparr>" for h
    using change_last[OF f(1,2)] by simp
  have enc: "encode_entries C es = Inr (rec_stream C (map WalEntry es), map loc_triple (located C q 0 (map WalEntry es)))"
    using encode_loop_ok[OF ok, of "[]" "[]" q] by (simp add: encode_entries_def)
  have io0: "io Injected = None" by (rule ccontr) (use io es in \<open>simp add: append_blocking_def\<close>)
  have io1: "io WriteBatch = None"
    using io es enc room io0 by (cases "io WriteBatch") (auto simp: append_blocking_def Let_def)
  have vl: "map_option en_log_id (vec_last es) = Some (en_log_id (last es))" using es by (simp add: vec_last_def)
  show ?thesis
  proof (cases "lg_fsync st1 = EveryAppend")
    case True
    have "io SyncBatch = None"
      by (rule ccontr) (use True io es enc room io0 io1 in \<open>simp add: append_blocking_def Let_def ch1 f(3)\<close>)
    with True show ?thesis using True io es enc room io0 io1 vl
      by (intro exI[of _ False]) (auto simp: append_blocking_def Let_def ch1 f(3) ch entry_ix_def g_def)
  next
    case False
    then show ?thesis using io es enc room io0 io1 vl
      by (intro exI[of _ True]) (auto simp: append_blocking_def Let_def ch1 f(3) entry_ix_def g_def)
  qed
qed

lemma append_room:
  assumes es: "es \<noteq> []" and ok: "\<forall>e \<in> set es. rec_ok C (WalEntry e)" and io: "append_blocking C io st es = (st', None)"
  shows "\<exists>st1. make_room io (length (rec_stream C (map WalEntry es))) st = (st1, None)"
proof -
  obtain st1 r where mr: "make_room io (length (rec_stream C (map WalEntry es))) st = (st1, r)" by fastforce
  have io0: "io Injected = None" by (rule ccontr) (use io es in \<open>simp add: append_blocking_def\<close>)
  show ?thesis
  proof (cases r)
    case (Some e)
    then have False using io es mr io0 encode_loop_ok[OF ok, of "[]" "[]" 0]
      by (simp add: append_blocking_def encode_entries_def Let_def)
    then show ?thesis ..
  qed (use mr in simp)
qed

lemma bounds_grow:
  assumes "map bounds segs = map (meta_of C) (M @ [(q, rs)])" "\<forall>e \<in> set M. fst e < q" "es \<noteq> []"
  shows "map bounds (change_segment q (note_entries i (Some (entry_ix C (last es)))) segs)
    = map (meta_of C) (M @ [(q, rs @ map WalEntry es)])"
proof -
  obtain S s where S: "segs = S @ [s]" "map bounds S = map (meta_of C) M" "bounds s = (q, last_ix C rs)" "\<forall>x \<in> set S. sg_seq x < q"
    using segments_last[OF assms(1,2)] by metis
  have "\<forall>x \<in> set S. sg_seq x \<noteq> q" "sg_seq s = q" using S(3,4) by (auto simp: bounds_def)
  then have "change_segment q h segs = S @ [h s]" for h using change_segment_last S(1) by simp
  moreover have "last_ix C (rs @ map WalEntry es) = Some (entry_ix C (last es))"
    using assms(3) by (simp add: last_ix_def located_append located_entries vec_last_def last_map)
  ultimately show ?thesis using S by (simp add: bounds_def note_entries_def Let_def meta_of_def)
qed

lemma appendable_lay:
  assumes "view_rep C st L" "appendable C (abs_log C st L) es"
  shows "chain (next_of None (indexes (lay C L))) (map (entry_ix C) es)"
  using assms next_of_kept[OF assms(1)] by (simp add: appendable_def)

lemma kept_entries:
  "\<forall>e \<in> set es. unpurged C u (entry_ix C e) \<Longrightarrow> kept C u (located C q p (map WalEntry es)) = located C q p (map WalEntry es)"
  by (induction es arbitrary: p) simp_all

lemma last_entries:
  assumes "es \<noteq> []"
  shows "located C q p (map WalEntry es) \<noteq> []" "snd (last (located C q p (map WalEntry es))) = last es"
    "last (indexes (located C q p (map WalEntry es))) = entry_ix C (last es)"
proof -
  show ne: "located C q p (map WalEntry es) \<noteq> []" using located_entries(1)[of C q p es] assms by auto
  show "snd (last (located C q p (map WalEntry es))) = last es" using last_map[OF ne, of snd] by (simp add: located_entries)
  show "last (indexes (located C q p (map WalEntry es))) = entry_ix C (last es)" using assms by (simp add: located_entries last_map)
qed

lemma append_view:
  assumes view: "view_rep C st L" and all: "chain None (indexes (lay C L))" and ap: "appendable C (abs_log C st L) es" "es \<noteq> []"
    and lay': "lay C L' = lay C L @ located C q base (map WalEntry es)"
    and st': "lg_index st' = foldl (insert_loc q base) (lg_index st) (map loc_triple (located C q 0 (map WalEntry es)))"
      "lg_state st' = (lg_state st)\<lparr>rt_last_log_id := Some (en_log_id (last es))\<rparr>" "lg_state_file st' = lg_state_file st"
  shows "view_rep C st' L' \<and> abs_log C st' L' = al_append es (abs_log C st L)"
proof -
  let ?u = "rt_last_purged (lg_state st)"
  have un: "\<forall>e \<in> set es. unpurged C ?u (entry_ix C e)" using ap by (simp add: appendable_def abs_log_def)
  have idx: "lg_index st = map fst (kept C ?u (lay C L))" using view by (simp add: view_rep_def)
  have "chain None (indexes (lay C L @ located C q 0 (map WalEntry es)))"
    using all appendable_lay[OF view ap(1)] by (simp add: chain_append located_entries)
  note chain_sorted[OF this]
  then have srt: "sorted_wrt (<) (map fst (lg_index st) @ indexes (located C q 0 (map WalEntry es)))"
    by (auto simp: idx sorted_wrt_append indexes_def sorted_wrt_map sorted_wrt_filter)
  have ix: "lg_index st' = map fst (kept C ?u (lay C L) @ located C q base (map WalEntry es))"
    using insert_locs[OF srt, of base] by (simp add: st' idx)
  have k: "kept C ?u (lay C L') = kept C ?u (lay C L) @ located C q base (map WalEntry es)"
    using kept_entries[OF un, of q base] by (simp add: lay')
  have "last es \<in> set es" using ap(2) by simp
  then have "view_rep C st' L'"
    using view last_entries[OF ap(2), of C q base] ix k un
    by (simp add: view_rep_def st' lay' vec_last_def cong: option.case_cong)
  moreover have "abs_log C st' L' = al_append es (abs_log C st L)"
    using k by (simp add: abs_log_def al_append_def located_entries st')
  ultimately show ?thesis ..
qed

lemma append_rep:
  assumes rep: "log_rep C st L" and ap: "appendable C (abs_log C st L) es" and room: "Suc (lg_writer_seq st) < 2 ^ 32"
    and io: "append_blocking C io st es = (st', None)"
  shows "\<exists>L'. log_rep C st' L' \<and> abs_log C st' L' = al_append es (abs_log C st L) \<and> lg_fsync st' = lg_fsync st"
proof (cases "es = []")
  case True
  then have "st' = st" using io by (simp add: append_blocking_def)
  then show ?thesis using rep True by (auto simp: al_append_def)
next
  case False
  let ?ts = "map WalEntry es"
  have ok: "\<forall>e \<in> set es. rec_ok C (WalEntry e)" using ap by (simp add: appendable_def)
  obtain st1 where st1: "make_room io (length (rec_stream C ?ts)) st = (st1, None)"
    using append_room[OF False ok io] by blast
  obtain L1 where L1: "log_rep C st1 L1" "lay C L1 = lay C L" "same_view st st1"
    using make_room_rep[OF rep room st1] by blast
  obtain M q rs F f where d: "L1 = M @ [(q, rs)]" "lg_files st1 = F @ [(q, f)]" "list_all2 (stored C) M F" "wf_bytes f = seg_bytes C rs"
      "\<forall>e \<in> set F. fst e < q" "lg_writer_seq st1 = q" "lg_writer_len st1 = 8 + length (rec_stream C rs)" "\<forall>e \<in> set M. fst e < q"
    using L1(1) disk_repE unfolding log_rep_def by blast
  define g where "g = file_append (rec_stream C ?ts) f"
  define f' where "f' = (if lg_fsync st1 = EveryAppend then file_sync g else g)"
  obtain dd where st': "st' = st1\<lparr>lg_files := F @ [(q, f')], lg_dirty := dd,
      lg_writer_len := lg_writer_len st1 + length (rec_stream C ?ts),
      lg_segments := change_segment q (note_entries (Some (entry_ix C (hd es))) (Some (entry_ix C (last es)))) (lg_segments st1),
      lg_index := foldl (insert_loc q (lg_writer_len st1)) (lg_index st1) (map loc_triple (located C q 0 ?ts)),
      lg_state := (lg_state st1)\<lparr>rt_last_log_id := Some (en_log_id (last es))\<rparr>\<rparr>"
    using append_cases[OF False ok st1 io d(2,5,6)] unfolding f'_def g_def by blast
  have view: "view_rep C st1 L1" using L1 by (simp add: log_rep_def)
  have ap1: "appendable C (abs_log C st1 L1) es" using ap abs_log_cong[OF L1(3,2)] by simp
  then have ch: "chain (next_of None (indexes (lay C L1))) (indexes (located C 0 0 ?ts))"
    using appendable_lay[OF view] by (simp add: located_entries)
  have f': "wf_bytes f' = seg_bytes C (rs @ ?ts)" "wf_synced f' = length (wf_bytes f') \<or> located C 0 0 ?ts = [] \<and> min (wf_synced f) (length (seg_bytes C rs)) \<le> wf_synced f'
      \<or> lg_fsync st1 \<noteq> EveryAppend"
    by (simp_all add: f'_def g_def file_append_def file_sync_def d(4) seg_bytes_def)
  have dr: "disk_rep C st' (M @ [(q, rs @ ?ts)])" "durable C st' (M @ [(q, rs @ ?ts)])"
  proof (goal_cases)
    have b: "map bounds (lg_segments st1) = map (meta_of C) (M @ [(q, rs)])" using L1(1) d(1) by (simp add: log_rep_def disk_rep_def)
    note grow_rep[of C st1 M q rs F f st' f' ?ts, OF L1(1)[unfolded d(1)] d(2) _ f' _ _ _ _ _ ch[unfolded d(1)]]
    moreover have "map bounds (lg_segments st') = map (meta_of C) (M @ [(q, rs @ ?ts)])"
      using bounds_grow[OF b d(8) False] by (simp add: st')
    ultimately show "disk_rep C st' (M @ [(q, rs @ ?ts)])" "durable C st' (M @ [(q, rs @ ?ts)])"
      using ok by (simp_all add: st' d(6,7))
  qed
  have lay': "lay C (M @ [(q, rs @ ?ts)]) = lay C L1 @ located C q (lg_writer_len st1) ?ts"
    by (simp add: d(1,7) located_append)
  have "view_rep C st' (M @ [(q, rs @ ?ts)]) \<and> abs_log C st' (M @ [(q, rs @ ?ts)]) = al_append es (abs_log C st1 L1)"
    by (rule append_view[OF view _ ap1 False lay']) (use L1(1) in \<open>simp_all add: st' log_rep_def disk_rep_def\<close>)
  then show ?thesis using dr L1(3) abs_log_cong[OF L1(3,2)]
    by (intro exI[of _ "M @ [(q, rs @ ?ts)]"]) (simp add: log_rep_def st' same_view_def)
qed

lemma undo_rep:
  assumes rep: "log_rep C st (M @ [(q, rs)])" and d: "lg_files st = F @ [(q, f)]" "\<forall>e \<in> set F. fst e < q" "lg_writer_seq st = q"
    and w: "wf_bytes f = seg_bytes C rs" "lg_writer_len st = 8 + length (rec_stream C rs)" and io: "io site = None"
  shows "log_rep C (undo_write io site site' b (st\<lparr>lg_files := F @ [(q, file_append bs f)], lg_dirty := dd\<rparr>)) (M @ [(q, rs)])
    \<and> same_view st (undo_write io site site' b (st\<lparr>lg_files := F @ [(q, file_append bs f)], lg_dirty := dd\<rparr>))"
proof -
  let ?s = "undo_write io site site' b (st\<lparr>lg_files := F @ [(q, file_append bs f)], lg_dirty := dd\<rparr>)"
  define g where "g = file_set_len (8 + length (rec_stream C rs)) (file_append bs f)"
  define f' where "f' = (if b \<and> io site' = None then file_sync g else g)"
  have ch: "change_file q h (s\<lparr>lg_files := F @ [(q, x)], lg_dirty := d\<rparr>) = s\<lparr>lg_files := F @ [(q, h x)], lg_dirty := d\<rparr>" for h s x d
    using change_last[of "s\<lparr>lg_files := F @ [(q, x)], lg_dirty := d\<rparr>" F q x h] d(2) by simp
  have s: "?s = st\<lparr>lg_files := F @ [(q, f')], lg_dirty := dd, lg_writer_len := lg_writer_len st\<rparr>"
    by (simp add: undo_write_def Let_def d(3) io ch w(2) f'_def g_def)
  have f': "wf_bytes f' = seg_bytes C (rs @ [])" "wf_synced f' = length (wf_bytes f') \<or> located C 0 0 [] = [] \<and> min (wf_synced f) (length (seg_bytes C rs)) \<le> wf_synced f'
      \<or> lg_fsync st \<noteq> EveryAppend"
    by (auto simp: f'_def g_def file_append_def file_sync_def file_set_len_def w(1))
  have b: "map bounds (lg_segments st) = map (meta_of C) (M @ [(q, rs)])" using rep by (simp add: log_rep_def disk_rep_def)
  note grow_rep[of C st M q rs F f ?s f' "[]", OF rep d(1) _ f']
  then have "disk_rep C ?s (M @ [(q, rs)])" "durable C ?s (M @ [(q, rs)])" using b by (simp_all add: s d(3) w(2))
  moreover have sv: "same_view st ?s" by (simp add: s same_view_def)
  moreover have "view_rep C ?s (M @ [(q, rs)]) = view_rep C st (M @ [(q, rs)])" by (rule view_rep_cong[OF sv refl])
  ultimately show ?thesis using rep by (simp add: log_rep_def)
qed

lemma append_undone:
  assumes rep: "log_rep C st L" and ok: "\<forall>e \<in> set es. rec_ok C (WalEntry e)" and room: "Suc (lg_writer_seq st) < 2 ^ 32"
    and u: "undone io" and io: "append_blocking C io st es = (st', Some e)"
  shows "\<exists>L'. log_rep C st' L' \<and> lay C L' = lay C L \<and> same_view st st'"
proof (cases "io Injected = None \<and> es \<noteq> []")
  case False
  then have "st' = st" using io by (cases "es = []") (simp_all add: append_blocking_def)
  then show ?thesis using rep by (auto simp: same_view_def)
next
  case True
  let ?buf = "rec_stream C (map WalEntry es)"
  obtain st1 where st1: "make_room io (length ?buf) st = (st1, None)" using make_room_total[OF rep room u] by blast
  obtain L1 where L1: "log_rep C st1 L1" "lay C L1 = lay C L" "same_view st st1" using make_room_rep[OF rep room st1] by blast
  obtain M q rs F f where d: "L1 = M @ [(q, rs)]" "lg_files st1 = F @ [(q, f)]" "list_all2 (stored C) M F" "wf_bytes f = seg_bytes C rs"
      "\<forall>e \<in> set F. fst e < q" "lg_writer_seq st1 = q" "lg_writer_len st1 = 8 + length (rec_stream C rs)" "\<forall>e \<in> set M. fst e < q"
    using L1(1) disk_repE unfolding log_rep_def by blast
  have cut: "io UndoBatch = None" "io UndoUnsynced = None" by (rule undoneD[OF u], simp)+
  have enc: "encode_entries C es = Inr (?buf, map loc_triple (located C q 0 (map WalEntry es)))"
    using encode_loop_ok[OF ok, of "[]" "[]" q] by (simp add: encode_entries_def)
  have wr: "change_file q (file_append bs) st1 = st1\<lparr>lg_files := F @ [(q, file_append bs f)], lg_dirty := lg_dirty st1\<rparr>" for bs
    using change_last[OF d(2,5)] by simp
  have "\<exists>site site' b bs dd. io site = None \<and> st' = undo_write io site site' b (st1\<lparr>lg_files := F @ [(q, file_append bs f)], lg_dirty := dd\<rparr>)"
  proof (cases "io WriteBatch")
    case None
    then have "st' = undo_write io UndoUnsynced SyncUnsynced True (st1\<lparr>lg_files := F @ [(q, file_append ?buf f)], lg_dirty := True\<rparr>)"
      using io enc st1 True by (simp add: append_blocking_def Let_def wr d(6) split: if_splits)
    then show ?thesis using cut by blast
  next
    case (Some x)
    then have "st' = undo_write io UndoBatch SyncUndo (fsync_enabled (lg_fsync st1))
        (st1\<lparr>lg_files := F @ [(q, file_append (take (fst x) ?buf) f)], lg_dirty := lg_dirty st1\<rparr>)"
      using io enc st1 True by (simp add: append_blocking_def Let_def wr d(6) split_beta)
    then show ?thesis using cut by blast
  qed
  then obtain site site' b bs dd where "io site = None"
      "st' = undo_write io site site' b (st1\<lparr>lg_files := F @ [(q, file_append bs f)], lg_dirty := dd\<rparr>)" by blast
  then have "log_rep C st' L1 \<and> same_view st1 st'"
    using undo_rep[OF L1(1)[unfolded d(1)] d(2,5,6,4,7)] unfolding d(1) by simp
  then show ?thesis using L1 by (intro exI[of _ L1]) (simp add: same_view_def)
qed

section \<open>Commit markers, votes and the periodic sync\<close>

lemma file_append_append: "file_append bs' (file_append bs f) = file_append (bs @ bs') f"
  by (simp add: file_append_def)

lemma write_frame_cases:
  assumes "lg_files st = F @ [(q, f)]" "\<forall>e \<in> set F. fst e < q" "lg_writer_seq st = q" "write_frame C io payload st = (st', r)"
  shows "(r = None \<longrightarrow> st' = st\<lparr>lg_files := F @ [(q, file_append (disk_frame C payload @ payload) f)], lg_dirty := lg_dirty st,
      lg_writer_len := lg_writer_len st + (8 + length payload)\<rparr>)
    \<and> (r \<noteq> None \<longrightarrow> (\<exists>bs. st' = st\<lparr>lg_files := F @ [(q, file_append bs f)], lg_dirty := lg_dirty st\<rparr>))"
proof -
  have ch: "change_file q h (s\<lparr>lg_files := F @ [(q, x)]\<rparr>) = s\<lparr>lg_files := F @ [(q, h x)]\<rparr>" for h s x
    using change_last[of "s\<lparr>lg_files := F @ [(q, x)]\<rparr>" F q x h] assms(2) by simp
  show ?thesis
  proof (cases "io WriteMarkerHeader")
    case None
    then show ?thesis
      using assms(3,4)
      by (cases "io WriteMarkerPayload")
         (auto simp: write_frame_def Let_def change_last[OF assms(1,2)] ch file_append_append RECORD_HEADER_LEN_def)
  next
    case (Some x)
    then show ?thesis using assms(3,4) by (auto simp: write_frame_def Let_def change_last[OF assms(1,2)] split_beta)
  qed
qed

lemma marker_rep:
  assumes rep: "log_rep C st (M @ [(q, rs)])" and d: "lg_files st = F @ [(q, f)]" "lg_writer_seq st = q"
    and w: "wf_bytes f = seg_bytes C rs" "lg_writer_len st = 8 + length (rec_stream C rs)" and ok: "rec_ok C (Committed c)"
  defines "st' \<equiv> st\<lparr>lg_files := F @ [(q, file_append (rec_bytes C (Committed c)) f)],
    lg_writer_len := lg_writer_len st + length (rec_bytes C (Committed c)), lg_dirty := True,
    lg_state := (lg_state st)\<lparr>rt_committed := c\<rparr>\<rparr>"
  shows "log_rep C st' (M @ [(q, rs @ [Committed c])])"
proof -
  have b: "map bounds (lg_segments st) = map (meta_of C) (M @ [(q, rs)])" using rep by (simp add: log_rep_def disk_rep_def)
  have lx: "last_ix C (rs @ [Committed c]) = last_ix C rs" by (simp add: last_ix_def located_append)
  let ?f = "file_append (rec_bytes C (Committed c)) f"
  have f': "wf_bytes ?f = seg_bytes C (rs @ [Committed c])" "wf_synced ?f = length (wf_bytes ?f)
      \<or> located C 0 0 [Committed c :: ('a, 'b) WalRecord] = [] \<and> min (wf_synced f) (length (seg_bytes C rs)) \<le> wf_synced ?f
      \<or> lg_fsync st \<noteq> EveryAppend"
    by (simp_all add: file_append_def w(1) seg_bytes_def)
  note grow_rep[of C st M q rs F f st' ?f "[Committed c]", OF rep d(1) _ f']
  then have "disk_rep C st' (M @ [(q, rs @ [Committed c])])" "durable C st' (M @ [(q, rs @ [Committed c])])"
    using b lx ok by (simp_all add: st'_def d(2) w(2) meta_of_def)
  moreover have "view_rep C st' (M @ [(q, rs @ [Committed c])])"
    using rep by (simp add: log_rep_def view_rep_def st'_def located_append cong: option.case_cong)
  ultimately show ?thesis by (simp add: log_rep_def)
qed

lemma committed_rep:
  assumes rep: "log_rep C st L" and ok: "rec_ok C (Committed c)" and room: "Suc (lg_writer_seq st) < 2 ^ 32"
    and u: "undone io" and io: "save_committed_blocking C io st c = (st', r)"
  shows "\<exists>L'. log_rep C st' L' \<and> lay C L' = lay C L \<and> abs_log C st' L' = abs_log C st L \<and> lg_fsync st' = lg_fsync st
    \<and> (r = None \<longrightarrow> read_committed st' = c)"
proof -
  let ?p = "rec_payload C (Committed c)"
  have p: "wc_to_allocvec C (Committed c) = Inr ?p" using rec_ok_payload[OF ok] by simp
  obtain st1 where st1: "make_room io (length ?p) st = (st1, None)" using make_room_total[OF rep room u] by blast
  obtain L1 where L1: "log_rep C st1 L1" "lay C L1 = lay C L" "same_view st st1" using make_room_rep[OF rep room st1] by blast
  obtain M q rs F f where d: "L1 = M @ [(q, rs)]" "lg_files st1 = F @ [(q, f)]" "list_all2 (stored C) M F" "wf_bytes f = seg_bytes C rs"
      "\<forall>e \<in> set F. fst e < q" "lg_writer_seq st1 = q" "lg_writer_len st1 = 8 + length (rec_stream C rs)" "\<forall>e \<in> set M. fst e < q"
    using L1(1) disk_repE unfolding log_rep_def by blast
  obtain st2 r2 where wf: "write_frame C io ?p st1 = (st2, r2)" by fastforce
  note wc = write_frame_cases[OF d(2,5,6) wf]
  have cut: "io UndoMarker = None" by (rule undoneD[OF u], simp)
  show ?thesis
  proof (cases r2)
    case None
    then have "st' = st1\<lparr>lg_files := F @ [(q, file_append (rec_bytes C (Committed c)) f)],
        lg_writer_len := lg_writer_len st1 + length (rec_bytes C (Committed c)), lg_dirty := True,
        lg_state := (lg_state st1)\<lparr>rt_committed := c\<rparr>\<rparr>" "r = None"
      using io p st1 wf wc by (simp_all add: save_committed_blocking_def rec_bytes_def disk_frame_def)
    with marker_rep[OF L1(1)[unfolded d(1)] d(2,6,4,7) ok] show ?thesis using L1(2,3) d(1)
      by (intro exI[of _ "M @ [(q, rs @ [Committed c])]"]) (simp add: located_append abs_log_def same_view_def read_committed_def)
  next
    case (Some e)
    then obtain bs where "st' = undo_write io UndoMarker UndoMarker False (st1\<lparr>lg_files := F @ [(q, file_append bs f)], lg_dirty := lg_dirty st1\<rparr>)"
        "r = Some e"
      using io p st1 wf wc by (auto simp: save_committed_blocking_def)
    moreover from this(1) undo_rep[of C st1 M q rs F f io UndoMarker, OF L1(1)[unfolded d(1)] d(2,5,6,4,7) cut] have "log_rep C st' L1" "same_view st1 st'"
      unfolding d(1) by metis+
    moreover from this(2) have "abs_log C st' L1 = abs_log C st L" "lg_fsync st' = lg_fsync st"
      using L1(2,3) by (simp_all add: abs_log_def same_view_def)
    ultimately show ?thesis using L1(2) by (intro exI[of _ L1]) simp
  qed
qed

lemma tick_rep:
  assumes rep: "log_rep C st L"
  shows "log_rep C (fsync_tick io st) L \<and> same_view st (fsync_tick io st)"
proof -
  obtain M q rs F f where d: "L = M @ [(q, rs)]" "lg_files st = F @ [(q, f)]" "list_all2 (stored C) M F" "wf_bytes f = seg_bytes C rs"
      "\<forall>e \<in> set F. fst e < q" "lg_writer_seq st = q" "lg_writer_len st = 8 + length (rec_stream C rs)" "\<forall>e \<in> set M. fst e < q"
    using rep disk_repE unfolding log_rep_def by blast
  let ?s = "st\<lparr>lg_files := F @ [(q, file_sync f)], lg_dirty := False\<rparr>"
  have sv: "same_view st ?s" "same_view st (st\<lparr>lg_dirty := True\<rparr>)" "same_view st st" by (simp_all add: same_view_def)
  have b: "map bounds (lg_segments st) = map (meta_of C) (M @ [(q, rs)])" using rep d(1) by (simp add: log_rep_def disk_rep_def)
  have "disk_rep C ?s (M @ [(q, rs @ [])]) \<and> durable C ?s (M @ [(q, rs @ [])])"
    using grow_rep[of C st M q rs F f ?s "file_sync f" "[]", OF rep[unfolded d(1)] d(2)] b d(4,6,7)
    by (simp add: file_sync_def)
  moreover have "view_rep C ?s L = view_rep C st L" by (rule view_rep_cong[OF sv(1) refl])
  ultimately have "log_rep C ?s L" using rep d(1) by (simp add: log_rep_def)
  moreover have "log_rep C (st\<lparr>lg_dirty := True\<rparr>) L"
    using rep by (simp add: log_rep_def disk_rep_def view_rep_def durable_def cong: option.case_cong)
  ultimately show ?thesis
    using rep sv by (simp add: fsync_tick_def change_last[OF d(2,5)] d(6))
qed

section \<open>Removing segments\<close>

lemma filter_related:
  "map f xs = map g ys \<Longrightarrow> (\<And>x. P x = R (f x)) \<Longrightarrow> (\<And>y. Q y = R (g y)) \<Longrightarrow> map f (filter P xs) = map g (filter Q ys)"
  by (induction xs arbitrary: ys) (auto simp: Cons_eq_map_conv)

lemma list_all2_filter:
  "list_all2 S xs ys \<Longrightarrow> (\<And>x y. x \<in> set xs \<Longrightarrow> S x y \<Longrightarrow> P x = Q y) \<Longrightarrow> list_all2 S (filter P xs) (filter Q ys)"
  by (induction rule: list_all2_induct) simp_all

lemma removed_seqs:
  assumes "sorted_wrt (<) (map fst L)" "map bounds segs = map (meta_of C) L" "\<And>s. P s = R (bounds s)"
  shows "s \<in> set L \<Longrightarrow> fst s \<in> set (map sg_seq (filter (\<lambda>s. \<not> P s) segs)) \<longleftrightarrow> \<not> R (meta_of C s)"
    "x \<in> set segs \<Longrightarrow> sg_seq x \<in> set (map sg_seq (filter (\<lambda>s. \<not> P s) segs)) \<longleftrightarrow> \<not> P x"
proof -
  have "map fst (map bounds segs) = map fst (map (meta_of C) L)" using assms(2) by simp
  then have ks: "map sg_seq segs = map fst L" by (simp add: bounds_def meta_of_def comp_def)
  then have inj: "inj_on sg_seq (set segs)" "inj_on fst (set L)"
    using assms(1) by (metis distinct_map strict_sorted_iff)+
  show 2: "sg_seq x \<in> set (map sg_seq (filter (\<lambda>s. \<not> P s) segs)) \<longleftrightarrow> \<not> P x" if "x \<in> set segs" for x
    using inj(1) that by (auto dest: inj_onD)
  show "fst s \<in> set (map sg_seq (filter (\<lambda>s. \<not> P s) segs)) \<longleftrightarrow> \<not> R (meta_of C s)" if s: "s \<in> set L"
  proof -
    have "meta_of C s \<in> set (map bounds segs)" using s assms(2) by simp
    then obtain x where "x \<in> set segs" "bounds x = meta_of C s" by auto
    then show ?thesis using 2[of x] assms(3)[of x] by (simp add: bounds_def meta_of_def)
  qed
qed

lemma find_segment_some: "s \<in> set segs \<Longrightarrow> find_segment (sg_seq s) segs \<noteq> None"
  by (auto simp: find_segment_def find_None_iff)

lemma remove_segments_rep:
  assumes "list_all2 (stored C) L (lg_files st)" "sorted_wrt (<) (map fst L)" "map bounds (lg_segments st) = map (meta_of C) L"
    and R: "\<And>s. P s = R (bounds s)"
  shows "\<exists>files segs. remove_segments (map sg_seq (filter (\<lambda>s. \<not> P s) (lg_segments st))) st = st\<lparr>lg_files := files, lg_segments := segs\<rparr>
    \<and> list_all2 (stored C) (filter (\<lambda>s. R (meta_of C s)) L) files
    \<and> map bounds segs = map (meta_of C) (filter (\<lambda>s. R (meta_of C s)) L) \<and> set files \<subseteq> set (lg_files st)"
proof -
  let ?gone = "map sg_seq (filter (\<lambda>s. \<not> P s) (lg_segments st))"
  note gone = removed_seqs[OF assms(2,3), of P R, OF R]
  have "list_all2 (stored C) (filter (\<lambda>s. R (meta_of C s)) L)
      (filter (\<lambda>(seq, _). \<not> (seq \<in> set ?gone \<and> find_segment seq (lg_segments st) \<noteq> None)) (lg_files st))"
  proof (rule list_all2_filter[OF assms(1)])
    fix s y assume s: "s \<in> set L" "stored C s y"
    have g: "(q \<in> set ?gone \<and> find_segment q (lg_segments st) \<noteq> None) = (q \<in> set ?gone)" for q
      using find_segment_some by force
    show "R (meta_of C s) = (case y of (seq, _) \<Rightarrow> \<not> (seq \<in> set ?gone \<and> find_segment seq (lg_segments st) \<noteq> None))"
      unfolding split_beta g using gone(1)[OF s(1)] s(2) by (simp add: stored_def)
  qed
  moreover have "filter (\<lambda>s. sg_seq s \<notin> set ?gone) (lg_segments st) = filter P (lg_segments st)"
    using gone(2) by (intro filter_cong) auto
  moreover have "map bounds (filter P (lg_segments st)) = map (meta_of C) (filter (\<lambda>s. R (meta_of C s)) L)"
    by (rule filter_related[where R = R, OF assms(3) R refl])
  ultimately show ?thesis
    by (intro exI[of _ "filter (\<lambda>(seq, _). \<not> (seq \<in> set ?gone \<and> find_segment seq (lg_segments st) \<noteq> None)) (lg_files st)"]
        exI[of _ "filter P (lg_segments st)"]) (auto simp: remove_segments_def)
qed

text \<open>The segments that hold an entry above \<open>u\<close>: dropping the others drops a prefix of the log at or below \<open>u\<close>.\<close>

definition live :: "u64 \<Rightarrow> u32 \<times> u64 option \<Rightarrow> bool" where
  "live u b \<longleftrightarrow> (case snd b of None \<Rightarrow> False | Some l \<Rightarrow> u < l)"

lemma live_iff: "live u (meta_of C s) \<longleftrightarrow> located C (fst s) 8 (snd s) \<noteq> [] \<and> u < last (indexes (located C (fst s) 8 (snd s)))"
  by (simp add: live_def meta_of_def last_ix_located[of C "snd s" "fst s" 8])

lemma sorted_last_max: "sorted_wrt (<) xs \<Longrightarrow> x \<in> set xs \<Longrightarrow> x \<le> last (xs :: nat list)"
  by (cases xs rule: rev_cases) (auto simp: sorted_wrt_append)

lemma lay_live:
  assumes "chain ex (indexes (lay C L))"
  shows "\<exists>xs. lay C L = xs @ lay C (filter (\<lambda>s. live u (meta_of C s)) L) \<and> (\<forall>x \<in> set xs. fst (fst x) \<le> u)"
  using assms
proof (induction L arbitrary: ex)
  case (Cons s L)
  let ?loc = "located C (fst s) 8 (snd s)"
  have ch: "chain ex (indexes ?loc)" "chain (next_of ex (indexes ?loc)) (indexes (lay C L))" using Cons.prems by (simp_all add: chain_append)
  obtain xs where xs: "lay C L = xs @ lay C (filter (\<lambda>s. live u (meta_of C s)) L)" "\<forall>x \<in> set xs. fst (fst x) \<le> u"
    using Cons.IH[OF ch(2)] by blast
  show ?case
  proof (cases "live u (meta_of C s)")
    case True
    then have l: "?loc \<noteq> []" "u < last (indexes ?loc)" by (simp_all add: live_iff)
    have lt: "\<forall>i \<in> set (indexes ?loc). \<forall>j \<in> set (indexes (lay C L)). i < j"
      using chain_sorted[OF Cons.prems] by (simp add: sorted_wrt_append)
    have "xs = []"
    proof (rule ccontr)
      assume ne: "xs \<noteq> []"
      have "last (indexes ?loc) \<in> set (indexes ?loc)" using l(1) by simp
      moreover have "fst (fst (hd xs)) \<in> set (indexes (lay C L))" using ne by (cases xs) (simp_all add: xs(1))
      ultimately have "last (indexes ?loc) < fst (fst (hd xs))" using lt by blast
      moreover have "fst (fst (hd xs)) \<le> u" using xs(2) ne by simp
      ultimately show False using l(2) by simp
    qed
    then show ?thesis using True xs by (intro exI[of _ "[]"]) simp
  next
    case False
    have "fst (fst x) \<le> u" if "x \<in> set ?loc" for x
    proof -
      have "fst (fst x) \<in> set (indexes ?loc)" using that by (simp add: indexes_def)
      note sorted_last_max[OF chain_sorted[OF ch(1)] this]
      moreover have "last (indexes ?loc) \<le> u" using False that by (auto simp: live_iff)
      ultimately show ?thesis by simp
    qed
    then show ?thesis using False xs by (intro exI[of _ "?loc @ xs"]) auto
  qed
qed simp

lemma live_last:
  assumes "\<forall>s \<in> set L. live u (meta_of C s)" "lay C L \<noteq> []"
  shows "u < last (indexes (lay C L))"
proof (cases L rule: rev_cases)
  case (snoc M s)
  then have "located C (fst s) 8 (snd s) \<noteq> [] \<and> u < last (indexes (located C (fst s) 8 (snd s)))" using assms(1) by (simp add: live_iff)
  then show ?thesis using snoc by (simp add: last_append)
qed (use assms in simp)

lemma lay_live_facts:
  assumes "chain None (indexes (lay C L))" "wc_index C l = u"
  defines "L' \<equiv> filter (\<lambda>s. live u (meta_of C s)) L"
  shows "chain None (indexes (lay C L'))" "kept C (Some l) (lay C L') = kept C (Some l) (lay C L)"
    "lay C L' \<noteq> [] \<Longrightarrow> unpurged C (Some l) (last (indexes (lay C L')))" "lay C L' \<noteq> [] \<Longrightarrow> last (lay C L') = last (lay C L) \<and> lay C L \<noteq> []"
    "lay C L' = [] \<Longrightarrow> \<forall>x \<in> set (lay C L). fst (fst x) \<le> u"
proof -
  obtain xs where xs: "lay C L = xs @ lay C L'" "\<forall>x \<in> set xs. fst (fst x) \<le> u"
    using lay_live[OF assms(1)] unfolding L'_def by blast
  show "chain None (indexes (lay C L'))" using assms(1) by (auto simp: xs(1) chain_append intro: chain_weaken)
  show "kept C (Some l) (lay C L') = kept C (Some l) (lay C L)"
    using xs(2) assms(2) by (auto simp: xs(1) unpurged_def filter_empty_conv)
  show "unpurged C (Some l) (last (indexes (lay C L')))" if "lay C L' \<noteq> []"
    using live_last[of L' u C] that assms(2) by (simp add: L'_def unpurged_def)
  show "lay C L' \<noteq> [] \<Longrightarrow> last (lay C L') = last (lay C L) \<and> lay C L \<noteq> []" by (simp add: xs(1))
  show "lay C L' = [] \<Longrightarrow> \<forall>x \<in> set (lay C L). fst (fst x) \<le> u" using xs by simp
qed

section \<open>Purge\<close>

lemma find_active:
  assumes "disk_rep C st (M @ [(q, rs)])"
  shows "\<exists>s. find_segment q (lg_segments st) = Some s \<and> sg_last_index s = last_ix C rs"
proof -
  have b: "map bounds (lg_segments st) = map (meta_of C) (M @ [(q, rs)])" "\<forall>e \<in> set M. fst e < q"
    using assms by (auto simp: disk_rep_def sorted_wrt_append)
  obtain S s where S: "lg_segments st = S @ [s]" "bounds s = (q, last_ix C rs)" "\<forall>x \<in> set S. sg_seq x < q"
    using segments_last[OF b] by metis
  have "List.find (\<lambda>s. sg_seq s = q) (S @ [s]) = Some s"
    using S(2,3) by (induction S) (auto simp: bounds_def)
  then show ?thesis using S(1,2) by (simp add: find_segment_def bounds_def)
qed

lemma remove_covered:
  assumes rep: "disk_rep C st (M @ [(q, rs)])" "durable C st (M @ [(q, rs)])"
    and act: "located C 0 0 rs = [] \<or> live u (meta_of C (q, rs))"
  defines "gone \<equiv> map sg_seq (filter (\<lambda>s. sg_last_index s = None \<or> covered_by u (sg_last_index s))
      (filter (\<lambda>s. sg_seq s \<noteq> q) (lg_segments st)))"
  shows "\<exists>L'. disk_rep C (remove_segments gone st) L' \<and> durable C (remove_segments gone st) L' \<and> same_view st (remove_segments gone st)
    \<and> lay C L' = lay C (filter (\<lambda>s. live u (meta_of C s)) (M @ [(q, rs)]))"
proof -
  let ?R = "\<lambda>b. fst b = q \<or> live u b" and ?L = "M @ [(q, rs)]"
  define M' where "M' = filter (\<lambda>s. ?R (meta_of C s)) M"
  have gone: "gone = map sg_seq (filter (\<lambda>s. \<not> ?R (bounds s)) (lg_segments st))"
    unfolding gone_def filter_filter
    by (intro arg_cong[where f = "map sg_seq"] filter_cong) (auto simp: live_def bounds_def covered_by_def split: option.splits)
  have d: "list_all2 (stored C) ?L (lg_files st)" "sorted_wrt (<) (map fst ?L)" "map bounds (lg_segments st) = map (meta_of C) ?L"
    using rep(1) by (simp_all add: disk_rep_def)
  obtain F f where F: "lg_files st = F @ [(q, f)]" "\<forall>e \<in> set F. fst e < q"
    using disk_repE[OF rep(1)] by (metis last_snoc prod.inject snoc_eq_iff_butlast)
  have M: "\<forall>s \<in> set M. fst s < q" using d(2) by (auto simp: sorted_wrt_append)
  have L': "filter (\<lambda>s. ?R (meta_of C s)) ?L = M' @ [(q, rs)]" by (simp add: M'_def meta_of_def)
  have M': "M' = filter (\<lambda>s. live u (meta_of C s)) M" unfolding M'_def using M by (intro filter_cong) (auto simp: meta_of_def)
  obtain files segs where r: "remove_segments gone st = st\<lparr>lg_files := files, lg_segments := segs\<rparr>"
      "list_all2 (stored C) (M' @ [(q, rs)]) files" "map bounds segs = map (meta_of C) (M' @ [(q, rs)])" "set files \<subseteq> set (lg_files st)"
    using remove_segments_rep[OF d, of "\<lambda>s. ?R (bounds s)" ?R] unfolding L' gone by blast
  have lay: "lay C (M' @ [(q, rs)]) = lay C (filter (\<lambda>s. live u (meta_of C s)) ?L)"
    using act located_none[of C q 8 rs] by (auto simp: M')
  have ch: "chain None (indexes (lay C (M' @ [(q, rs)])))"
    unfolding lay using lay_live_facts(1)[of C ?L] rep(1) lay_live[of None C ?L u]
    by (metis chain_append chain_weaken disk_rep_def indexes_simps(3))
  obtain F' g where F': "files = F' @ [(q, g)]" "list_all2 (stored C) M' F'"
    using r(2) by (auto simp: list_all2_append1 list_all2_Cons1 stored_def)
  have keys: "\<forall>e \<in> set F'. fst e < q" using stored_keys[OF F'(2)] M by (force simp: M' dest: arg_cong[of _ _ set])
  have "(q, f) \<notin> set F'" using keys by auto
  then have g: "g = f" "set F' \<subseteq> set F" using r(4) F by (auto simp: F'(1))
  have "disk_rep C (remove_segments gone st) (M' @ [(q, rs)])"
    using rep(1) r(2,3) ch M
    by (auto simp: disk_rep_def r(1) M' sorted_wrt_append records_ok_def sorted_wrt_map sorted_wrt_filter simp del: lay_simps)
  moreover have "durable C (remove_segments gone st) (M' @ [(q, rs)])"
    using rep(2) g by (auto simp: durable_def r(1) F'(1) F(1))
  ultimately show ?thesis using lay by (intro exI[of _ "M' @ [(q, rs)]"]) (simp add: same_view_def r(1))
qed

lemma purge_segments_rep:
  assumes rep: "disk_rep C st L" "durable C st L" and room: "Suc (lg_writer_seq st) < 2 ^ 32" and io: "purge_segments io u st = (st', None)"
  shows "\<exists>L'. disk_rep C st' L' \<and> durable C st' L' \<and> same_view st st' \<and> lay C L' = lay C (filter (\<lambda>s. live u (meta_of C s)) L)"
proof -
  obtain M q rs where L: "L = M @ [(q, rs)]" "lg_writer_seq st = q" using disk_repE[OF rep(1)] by metis
  obtain s where s: "find_segment q (lg_segments st) = Some s" "sg_last_index s = last_ix C rs"
    using find_active[OF rep(1)[unfolded L(1)]] by blast
  show ?thesis
  proof (cases "covered_by u (last_ix C rs)")
    case True
    then obtain st1 where st1: "rotate_segment io st = (st1, None)"
      using io s L(2) by (auto simp: purge_segments_def split: prod.splits option.splits)
    note r = rotate_disk[OF rep room st1, unfolded L(2)]
    have "\<exists>L'. disk_rep C st' L' \<and> durable C st' L' \<and> same_view st1 st'
        \<and> lay C L' = lay C (filter (\<lambda>s. live u (meta_of C s)) (L @ [(Suc q, [])]))"
      using remove_covered[OF r(1,2), of u] io st1 True s L(2) r(4) by (auto simp: purge_segments_def)
    then show ?thesis using r(3) by (auto simp: same_view_def live_iff)
  next
    case False
    then have "located C 0 0 rs = [] \<or> live u (meta_of C (q, rs))"
      by (auto simp: covered_by_def live_def meta_of_def last_ix_def vec_last_def split: if_splits)
    from remove_covered[OF rep[unfolded L(1)] this] show ?thesis
      using io False s L by (simp add: purge_segments_def)
  qed
qed

definition al_purge :: "('l, 'm, 'v) wal_codec \<Rightarrow> 'l \<Rightarrow> ('l, 'm, 'v) alog \<Rightarrow> ('l, 'm, 'v) alog" where
  "al_purge C l A = A\<lparr>al_entries := filter (\<lambda>e. wc_index C l < entry_ix C e) (al_entries A), al_purged := Some l\<rparr>"

lemma kept_more:
  assumes "\<not> (case p of None \<Rightarrow> False | Some prev \<Rightarrow> wc_index C l < wc_index C prev)"
  shows "filter (\<lambda>x. wc_index C l < fst (fst x)) (kept C p xs) = kept C (Some l) xs"
  using assms by (auto simp: unpurged_def intro!: filter_cong split: option.splits)

lemma last_log_id_live:
  assumes "chain None (indexes (lay C L))" "lay C L' = lay C (filter (\<lambda>s. live (wc_index C l) (meta_of C s)) L)"
  shows "(case map_option (en_log_id \<circ> snd) (vec_last (lay C L)) of None \<Rightarrow> False | Some i \<Rightarrow> wc_index C i \<le> wc_index C l)
      \<Longrightarrow> vec_last (lay C L') = None"
    "\<not> (case map_option (en_log_id \<circ> snd) (vec_last (lay C L)) of None \<Rightarrow> False | Some i \<Rightarrow> wc_index C i \<le> wc_index C l)
      \<Longrightarrow> vec_last (lay C L') = vec_last (lay C L)"
proof -
  note f = lay_live_facts[OF assms(1) refl[of "wc_index C l"], folded assms(2)]
  have l: "entry_ix C (snd (last (lay C M))) = last (indexes (lay C M))" if "lay C M \<noteq> []" for M
    using that lay_ix[of "last (lay C M)" C M] by (simp add: indexes_def last_map)
  have e: "(case map_option (en_log_id \<circ> snd) (vec_last (lay C L)) of None \<Rightarrow> False | Some i \<Rightarrow> wc_index C i \<le> wc_index C l)
      \<longleftrightarrow> lay C L \<noteq> [] \<and> last (indexes (lay C L)) \<le> wc_index C l"
    using l[of L] by (simp add: vec_last_def entry_ix_def)
  show "vec_last (lay C L') = None"
    if "case map_option (en_log_id \<circ> snd) (vec_last (lay C L)) of None \<Rightarrow> False | Some i \<Rightarrow> wc_index C i \<le> wc_index C l"
    using that f(3,4) l[of L] l[of L'] unfolding e by (cases "lay C L' = []") (simp_all add: vec_last_def unpurged_def)
  show "vec_last (lay C L') = vec_last (lay C L)"
    if "\<not> (case map_option (en_log_id \<circ> snd) (vec_last (lay C L)) of None \<Rightarrow> False | Some i \<Rightarrow> wc_index C i \<le> wc_index C l)"
  proof (cases "lay C L' = []")
    case True
    have "lay C L = []"
    proof (rule ccontr)
      assume ne: "lay C L \<noteq> []"
      then have "fst (fst (last (lay C L))) \<le> wc_index C l" using f(5)[OF True] by simp
      then show False using that ne unfolding e by (simp add: indexes_def last_map)
    qed
    then show ?thesis using True by (simp add: vec_last_def)
  qed (use f(4) in \<open>simp add: vec_last_def\<close>)
qed

context wal_laws
begin

lemma vote_rep:
  assumes rep: "log_rep C st L" and io: "save_vote_blocking C io st v = (st', None)"
  shows "log_rep C st' L \<and> abs_log C st' L = (abs_log C st L)\<lparr>al_vote := Some v\<rparr> \<and> lg_fsync st' = lg_fsync st"
proof -
  obtain bs where bs: "wc_state_to_allocvec C \<lparr>ps_vote = Some v, ps_last_purged = rt_last_purged (lg_state st)\<rparr> = Inr bs"
    using io by (auto simp: save_vote_blocking_def write_state_file_def split: sum.splits)
  have "st' = st\<lparr>lg_state_file := Some bs, lg_state := (lg_state st)\<lparr>rt_vote := Some v\<rparr>\<rparr>"
    using io bs by (auto simp: save_vote_blocking_def write_state_file_def split: if_splits option.splits)
  then show ?thesis
    using rep state_law[OF bs] by (simp add: log_rep_def disk_rep_def view_rep_def durable_def abs_log_def)
qed

lemma purge_rep:
  assumes rep: "log_rep C st L" and room: "Suc (lg_writer_seq st) < 2 ^ 32" and io: "purge_blocking C io st l = (st', None)"
  shows "\<exists>L'. log_rep C st' L' \<and> abs_log C st' L' = al_purge C l (abs_log C st L) \<and> lg_fsync st' = lg_fsync st"
proof -
  let ?p = "rt_last_purged (lg_state st)"
  have reg: "\<not> (case ?p of None \<Rightarrow> False | Some prev \<Rightarrow> wc_index C l < wc_index C prev)"
    using io by (auto simp: purge_blocking_def split: if_splits)
  obtain st0 where w: "write_state_file C io \<lparr>ps_vote = rt_vote (lg_state st), ps_last_purged = Some l\<rparr> st = (st0, None)"
    using io reg by (auto simp: purge_blocking_def split: prod.splits option.splits)
  then obtain bs where bs: "wc_state_to_allocvec C \<lparr>ps_vote = rt_vote (lg_state st), ps_last_purged = Some l\<rparr> = Inr bs"
      "st0 = st\<lparr>lg_state_file := Some bs\<rparr>"
    by (auto simp: write_state_file_def split: sum.splits if_splits)
  obtain st1 where p: "purge_segments io (wc_index C l) st0 = (st1, None)"
    using io reg w by (auto simp: purge_blocking_def split: prod.splits option.splits)
  have "disk_rep C st0 L" "durable C st0 L" "Suc (lg_writer_seq st0) < 2 ^ 32"
    using rep room by (simp_all add: bs(2) log_rep_def disk_rep_def durable_def)
  from purge_segments_rep[OF this p] obtain L' where L': "disk_rep C st1 L'" "durable C st1 L'" "same_view st0 st1"
      "lay C L' = lay C (filter (\<lambda>s. live (wc_index C l) (meta_of C s)) L)" by blast
  define state where "state = (lg_state st)\<lparr>rt_last_purged := Some l, rt_last_log_id :=
    (if (case rt_last_log_id (lg_state st) of None \<Rightarrow> False | Some i \<Rightarrow> wc_index C i \<le> wc_index C l) then None
     else rt_last_log_id (lg_state st))\<rparr>"
  have st': "st' = st1\<lparr>lg_index := filter (\<lambda>(i, _). wc_index C l < i) (lg_index st), lg_state := state\<rparr>"
    using io reg w p L'(3) by (auto simp: purge_blocking_def Let_def same_view_def bs(2) state_def split: if_splits)
  have ch: "chain None (indexes (lay C L))" "lg_index st = map fst (kept C ?p (lay C L))"
      "rt_last_log_id (lg_state st) = map_option (en_log_id \<circ> snd) (vec_last (lay C L))"
    using rep by (simp_all add: log_rep_def disk_rep_def view_rep_def)
  note f = lay_live_facts(2,3)[OF ch(1) refl[of "wc_index C l"], folded L'(4)]
  have "rt_last_log_id state = map_option (en_log_id \<circ> snd) (vec_last (lay C L'))"
    using last_log_id_live[OF ch(1) L'(4)] ch(3) by (simp add: state_def)
  moreover have "lg_index st' = map fst (kept C (Some l) (lay C L'))"
    using f(1) kept_more[OF reg, of "lay C L"] by (simp add: st' ch(2) filter_map comp_def split_beta)
  moreover have "lg_state_file st' = Some bs" using L'(3) by (simp add: st' same_view_def bs(2))
  ultimately have "view_rep C st' L'"
    using f(2) state_law[OF bs(1)] by (simp add: view_rep_def st' state_def)
  moreover have "disk_rep C st' L'" "durable C st' L'" using L'(1,2) by (simp_all add: st' disk_rep_def durable_def)
  moreover have "abs_log C st' L' = al_purge C l (abs_log C st L)"
    using f(1) kept_more[OF reg, of "lay C L"] lay_ix[of _ C L]
    by (simp add: abs_log_def al_purge_def st' state_def filter_map comp_def cong: filter_cong) 
  ultimately show ?thesis using L'(3) by (auto simp: log_rep_def st' same_view_def bs(2))
qed

end

section \<open>Truncation\<close>

lemma located_split:
  "x \<in> set (located C q p rs) \<Longrightarrow> \<exists>r1 r2. rs = r1 @ [WalEntry (snd x)] @ r2
    \<and> located C q p (r1 @ [WalEntry (snd x)]) = located C q p r1 @ [x] \<and> rl_seq (snd (fst x)) = q
    \<and> rl_offset (snd (fst x)) + 8 + rl_len (snd (fst x)) = p + length (rec_stream C (r1 @ [WalEntry (snd x)]))"
proof (induction rs arbitrary: p)
  case (Cons r rs)
  show ?case
  proof (cases "x \<in> set (located C q (p + length (rec_bytes C r)) rs)")
    case True
    from Cons.IH[OF this] obtain r1 r2 where "rs = r1 @ [WalEntry (snd x)] @ r2"
      "located C q (p + length (rec_bytes C r)) (r1 @ [WalEntry (snd x)]) = located C q (p + length (rec_bytes C r)) r1 @ [x]"
      "rl_seq (snd (fst x)) = q"
      "rl_offset (snd (fst x)) + 8 + rl_len (snd (fst x)) = p + length (rec_bytes C r) + length (rec_stream C (r1 @ [WalEntry (snd x)]))"
      by blast
    then show ?thesis by (intro exI[of _ "r # r1"] exI[of _ r2]) simp
  next
    case False
    then obtain e where "r = WalEntry e" "x = ((entry_ix C e, \<lparr>rl_seq = q, rl_offset = p, rl_len = length (rec_payload C r)\<rparr>), e)"
      using Cons.prems by (cases r) auto
    then show ?thesis by (intro exI[of _ "[]"] exI[of _ rs]) (simp add: rec_bytes_length)
  qed
qed simp

lemma sorted_cut:
  assumes "sorted_wrt (<) (indexes (xs @ [x] @ ys))"
  shows "filter (\<lambda>y. fst (fst y) \<le> fst (fst x)) (xs @ [x] @ ys) = xs @ [x]"
proof -
  have "\<forall>y \<in> set xs. fst (fst y) < fst (fst x)" "\<forall>y \<in> set ys. fst (fst x) < fst (fst y)"
    using assms by (simp_all add: sorted_wrt_append) (simp_all add: indexes_def)
  then have "filter (\<lambda>y. fst (fst y) \<le> fst (fst x)) xs = xs" "filter (\<lambda>y. fst (fst y) \<le> fst (fst x)) ys = []"
    by (auto simp: filter_id_conv filter_empty_conv)
  then show ?thesis by simp
qed

lemma lay_cut:
  assumes ch: "chain None (indexes (lay C L))" and x: "x \<in> set (lay C L)"
  shows "\<exists>A q rs ts B. L = A @ [(q, rs @ ts)] @ B \<and> rl_seq (snd (fst x)) = q
    \<and> rl_offset (snd (fst x)) + 8 + rl_len (snd (fst x)) = 8 + length (rec_stream C rs)
    \<and> lay C (A @ [(q, rs)]) = filter (\<lambda>y. fst (fst y) \<le> fst (fst x)) (lay C L)
    \<and> last (located C q 8 rs) = x \<and> located C q 8 rs \<noteq> []"
proof -
  obtain q rs0 where s: "(q, rs0) \<in> set L" "x \<in> set (located C q 8 rs0)" using x by (auto simp: lay_def)
  obtain A B where L: "L = A @ [(q, rs0)] @ B" using split_list[OF s(1)] by auto
  obtain r1 r2 where r: "rs0 = r1 @ [WalEntry (snd x)] @ r2" "located C q 8 (r1 @ [WalEntry (snd x)]) = located C q 8 r1 @ [x]"
      "rl_seq (snd (fst x)) = q"
      "rl_offset (snd (fst x)) + 8 + rl_len (snd (fst x)) = 8 + length (rec_stream C (r1 @ [WalEntry (snd x)]))"
    using located_split[OF s(2)] by blast
  have "located C q 8 ((r1 @ [WalEntry (snd x)]) @ r2) = (located C q 8 r1 @ [x]) @ located C q (8 + length (rec_stream C (r1 @ [WalEntry (snd x)]))) r2"
    by (subst located_append) (simp only: r(2))
  then obtain Z where Z: "lay C L = (lay C A @ located C q 8 r1) @ [x] @ Z" using L r(1) by simp
  have "lay C (A @ [(q, r1 @ [WalEntry (snd x)])]) = filter (\<lambda>y. fst (fst y) \<le> fst (fst x)) (lay C L)"
    using sorted_cut[of "lay C A @ located C q 8 r1" x Z] chain_sorted[OF ch] r(2) unfolding Z by simp
  then show ?thesis using L r
    by (intro exI[of _ A] exI[of _ q] exI[of _ "r1 @ [WalEntry (snd x)]"] exI[of _ r2] exI[of _ B]) simp
qed

lemma reopen_cut:
  assumes f: "lg_files st = F @ [(q, f)]" "\<forall>e \<in> set F. fst e < q" "wf_bytes f = seg_bytes C (rs @ ts)"
    and io: "reopen io q (8 + length (rec_stream C rs)) st = (st', None)"
  shows "\<exists>g. st' = st\<lparr>lg_files := F @ [(q, g)], lg_writer_seq := q, lg_writer_len := 8 + length (rec_stream C rs)\<rparr>
    \<and> wf_bytes g = seg_bytes C rs \<and> (fsync_enabled (lg_fsync st) \<longrightarrow> synced g)"
proof -
  define g where "g = file_set_len (8 + length (rec_stream C rs)) f"
  define g' where "g' = (if fsync_enabled (lg_fsync st) then file_sync g else g)"
  have ch: "change_file q h (s\<lparr>lg_files := F @ [(q, x)]\<rparr>) = s\<lparr>lg_files := F @ [(q, h x)]\<rparr>" for h s x
    using change_last[of "s\<lparr>lg_files := F @ [(q, x)]\<rparr>" F q x h] f(2) by simp
  have "st' = st\<lparr>lg_files := F @ [(q, g')], lg_writer_seq := q, lg_writer_len := 8 + length (rec_stream C rs)\<rparr>"
    using io by (auto simp: reopen_def Let_def change_last[OF f(1,2)] ch g'_def g_def split: option.splits if_splits)
  moreover have "wf_bytes g' = seg_bytes C rs" by (simp add: g'_def g_def file_sync_def file_set_len_def f(3) seg_bytes_def)
  moreover have "fsync_enabled (lg_fsync st) \<longrightarrow> synced g'" by (simp add: g'_def synced_def file_sync_def)
  ultimately show ?thesis by blast
qed

lemma truncate_disk:
  assumes rep: "disk_rep C st L" "durable C st L" and L: "L = A @ [(q, rs @ ts)] @ B"
    and io: "reopen io q (8 + length (rec_stream C rs)) (remove_segments (map sg_seq (filter (\<lambda>s. q < sg_seq s) (lg_segments st))) st) = (st', None)"
    and b: "\<And>s. sg_seq s = q \<Longrightarrow> bounds (h s) = (q, last_ix C rs)" and ch: "chain None (indexes (lay C (A @ [(q, rs)])))"
  defines "st2 \<equiv> st'\<lparr>lg_segments := change_segment q h (lg_segments st')\<rparr>"
  shows "disk_rep C st2 (A @ [(q, rs)])" "durable C st2 (A @ [(q, rs)])" "same_view st st2"
proof -
  have d: "list_all2 (stored C) L (lg_files st)" "sorted_wrt (<) (map fst L)" "map bounds (lg_segments st) = map (meta_of C) L"
    using rep(1) by (simp_all add: disk_rep_def)
  have A: "\<forall>s \<in> set A. fst s < q" "\<forall>s \<in> set B. q < fst s" using d(2) L by (auto simp: sorted_wrt_append)
  have keep: "filter (\<lambda>s. \<not> q < fst (meta_of C s)) L = A @ [(q, rs @ ts)]"
    using A by (auto simp: L meta_of_def filter_id_conv filter_empty_conv)
  obtain files segs where r: "remove_segments (map sg_seq (filter (\<lambda>s. q < sg_seq s) (lg_segments st))) st = st\<lparr>lg_files := files, lg_segments := segs\<rparr>"
      "list_all2 (stored C) (A @ [(q, rs @ ts)]) files" "map bounds segs = map (meta_of C) (A @ [(q, rs @ ts)])" "set files \<subseteq> set (lg_files st)"
    using remove_segments_rep[OF d, of "\<lambda>s. \<not> q < sg_seq s" "\<lambda>b. \<not> q < fst b"] unfolding keep by (auto simp: bounds_def)
  obtain F f where F: "files = F @ [(q, f)]" "list_all2 (stored C) A F" "wf_bytes f = seg_bytes C (rs @ ts)"
    using r(2) by (auto simp: list_all2_append1 list_all2_Cons1 stored_def)
  have keys: "\<forall>e \<in> set F. fst e < q" using stored_keys[OF F(2)] A(1) by (force dest: arg_cong[of _ _ set])
  obtain g where g: "st' = st\<lparr>lg_segments := segs, lg_files := F @ [(q, g)], lg_writer_seq := q, lg_writer_len := 8 + length (rec_stream C rs)\<rparr>"
      "wf_bytes g = seg_bytes C rs" "fsync_enabled (lg_fsync st) \<longrightarrow> synced g"
    using reopen_cut[OF _ keys F(3) io[unfolded r(1)]] F(1) by auto
  obtain S s where S: "segs = S @ [s]" "map bounds S = map (meta_of C) A" "bounds s = (q, last_ix C (rs @ ts))" "\<forall>x \<in> set S. sg_seq x < q"
    using segments_last[OF r(3) A(1)] by metis
  have "\<forall>x \<in> set S. sg_seq x \<noteq> q" "sg_seq s = q" using S(3,4) by (auto simp: bounds_def)
  then have cs: "change_segment q h segs = S @ [h s]" "bounds (h s) = (q, last_ix C rs)" using change_segment_last S(1) b by simp_all
  have st2: "st2 = st\<lparr>lg_files := F @ [(q, g)], lg_segments := S @ [h s], lg_writer_seq := q, lg_writer_len := 8 + length (rec_stream C rs)\<rparr>"
    by (simp add: st2_def g(1) cs)
  have "list_all2 (stored C) (A @ [(q, rs)]) (F @ [(q, g)])" by (rule list_all2_appendI[OF F(2)]) (simp add: stored_def g(2))
  moreover have "records_ok C (A @ [(q, rs)])" "sorted_wrt (<) (map fst (A @ [(q, rs)]))"
    using rep(1) by (auto simp: disk_rep_def L records_ok_def sorted_wrt_append)
  ultimately show "disk_rep C st2 (A @ [(q, rs)])"
    using ch S(2) cs(2) by (simp add: disk_rep_def st2 meta_of_def)
  have syn: "synced (snd e)" if "e \<in> set F" "fsync_enabled (lg_fsync st)" for e
  proof -
    obtain q' G f' where G: "lg_files st = G @ [(q', f')]" "q' = fst (last L)"
      using disk_repE[OF rep(1)] by (metis fst_conv last_snoc)
    have "q \<le> q'" using A(2) by (cases B rule: rev_cases) (auto simp: G(2) L)
    then have "e \<noteq> (q', f')" using that(1) keys by auto
    moreover have "e \<in> set (lg_files st)" using that(1) r(4) F(1) by auto
    ultimately have "e \<in> set G" by (simp add: G(1))
    then show ?thesis using rep(2) that(2) by (simp add: durable_def G(1))
  qed
  show "durable C st2 (A @ [(q, rs)])"
    unfolding durable_def
  proof (intro conjI impI)
    show "\<forall>f \<in> snd ` set (butlast (lg_files st2)). synced f" if "fsync_enabled (lg_fsync st2)"
      using syn that by (auto simp: st2)
    show "\<exists>us vs. snd (last (A @ [(q, rs)])) = us @ vs \<and> located C 0 0 vs = []
        \<and> length (seg_bytes C us) \<le> wf_synced (snd (last (lg_files st2)))" if "lg_fsync st2 = EveryAppend"
      by (rule exI[of _ rs], rule exI[of _ "[]"]) (use that g(2,3) in \<open>simp add: st2 synced_def fsync_enabled_def\<close>)
  qed
  show "same_view st st2" by (simp add: same_view_def st2)
qed

definition kept_upto :: "u64 option \<Rightarrow> u64 \<Rightarrow> bool" where
  "kept_upto keep i \<longleftrightarrow> (case keep of None \<Rightarrow> False | Some u \<Rightarrow> i \<le> u)"

definition al_truncate :: "('l, 'm, 'v) wal_codec \<Rightarrow> 'l option \<Rightarrow> ('l, 'm, 'v) alog \<Rightarrow> ('l, 'm, 'v) alog" where
  "al_truncate C lid A = A\<lparr>al_entries := filter (\<lambda>e. kept_upto (map_option (wc_index C) lid) (entry_ix C e)) (al_entries A)\<rparr>"

text \<open>What openraft truncates to: an entry of the log, or a point below all of its entries.\<close>

definition truncatable :: "('l, 'm, 'v) wal_codec \<Rightarrow> ('l, 'm, 'v) alog \<Rightarrow> 'l option \<Rightarrow> bool" where
  "truncatable C A lid \<longleftrightarrow> al_entries (al_truncate C lid A) = [] \<or> (\<exists>e \<in> set (al_entries A). lid = Some (en_log_id e))"

lemma truncated_state_simps [simp]:
  "rt_vote (truncated_state C n lid state) = rt_vote state" "rt_last_purged (truncated_state C n lid state) = rt_last_purged state"
  "rt_last_log_id (truncated_state C n lid state) = (case (n, lid) of (Some i, Some l) \<Rightarrow> if i = wc_index C l then Some l else None | _ \<Rightarrow> None)"
  by (simp_all add: truncated_state_def Let_def split: option.splits)

lemma truncate_cases:
  assumes "cut_point (map_option (wc_index C) lid) st = (q, len)" "truncate_after_blocking C io st lid = (st', None)"
  shows "\<exists>st1. reopen io q len (remove_segments (map sg_seq (filter (\<lambda>s. q < sg_seq s) (lg_segments st))) st) = (st1, None)
    \<and> st' = st1\<lparr>lg_segments := change_segment q (truncated_bounds q (filter (\<lambda>x. kept_upto (map_option (wc_index C) lid) (fst x)) (lg_index st1))) (lg_segments st1),
        lg_index := filter (\<lambda>x. kept_upto (map_option (wc_index C) lid) (fst x)) (lg_index st1),
        lg_state := truncated_state C (map_option fst (vec_last (filter (\<lambda>x. kept_upto (map_option (wc_index C) lid) (fst x)) (lg_index st1)))) lid (lg_state st1)\<rparr>"
proof -
  obtain st1 r where r: "reopen io q len (remove_segments (map sg_seq (filter (\<lambda>s. q < sg_seq s) (lg_segments st))) st) = (st1, r)" by fastforce
  have "(case map_option (wc_index C) lid of None \<Rightarrow> [] | Some u \<Rightarrow> filter (\<lambda>(i, _). i \<le> u) idx)
      = filter (\<lambda>x. kept_upto (map_option (wc_index C) lid) (fst x)) idx" for idx :: "(u64, RecordLoc) btree"
    by (cases lid) (simp_all add: kept_upto_def case_prod_beta')
  then show ?thesis
    using assms r by (cases r) (auto simp: truncate_after_blocking_def Let_def)
qed

lemma vec_last_map: "vec_last (map f xs) = map_option f (vec_last xs)"
  by (simp add: vec_last_def last_map)

lemma kept_last:
  assumes "xs \<noteq> []" "vec_last xs = vec_last (kept C p xs)"
  shows "unpurged C p (last (indexes xs))"
proof -
  have "kept C p xs \<noteq> []" "last xs = last (kept C p xs)" using assms by (auto simp: vec_last_def split: if_splits)
  then have "last xs \<in> set (kept C p xs)" by (metis last_in_set)
  then show ?thesis using assms(1) by (simp add: indexes_def last_map)
qed

lemma truncate_finish:
  assumes rep: "log_rep C st L" and L: "L = A @ [(q, rs @ ts)] @ B"
    and cut: "cut_point (map_option (wc_index C) lid) st = (q, 8 + length (rec_stream C rs))"
    and io: "truncate_after_blocking C io st lid = (st', None)"
    and lay: "kept C (rt_last_purged (lg_state st)) (lay C (A @ [(q, rs)]))
      = filter (\<lambda>x. kept_upto (map_option (wc_index C) lid) (fst (fst x))) (kept C (rt_last_purged (lg_state st)) (lay C L))"
    and ch: "chain None (indexes (lay C (A @ [(q, rs)])))"
    and last: "vec_last (lay C (A @ [(q, rs)])) = vec_last (located C q 8 rs)"
      "vec_last (lay C (A @ [(q, rs)])) = vec_last (kept C (rt_last_purged (lg_state st)) (lay C (A @ [(q, rs)])))"
      "\<And>x. vec_last (located C q 8 rs) = Some x \<Longrightarrow> lid = Some (en_log_id (snd x)) \<and> rl_seq (snd (fst x)) = q"
  shows "log_rep C st' (A @ [(q, rs)]) \<and> abs_log C st' (A @ [(q, rs)]) = al_truncate C lid (abs_log C st L) \<and> lg_fsync st' = lg_fsync st"
proof -
  let ?p = "rt_last_purged (lg_state st)" and ?keep = "\<lambda>x. kept_upto (map_option (wc_index C) lid) (fst x)"
  obtain st1 where st1: "reopen io q (8 + length (rec_stream C rs)) (remove_segments (map sg_seq (filter (\<lambda>s. q < sg_seq s) (lg_segments st))) st) = (st1, None)"
      "st' = st1\<lparr>lg_segments := change_segment q (truncated_bounds q (filter ?keep (lg_index st1))) (lg_segments st1),
        lg_index := filter ?keep (lg_index st1),
        lg_state := truncated_state C (map_option fst (vec_last (filter ?keep (lg_index st1)))) lid (lg_state st1)\<rparr>"
    using truncate_cases[OF cut io] by blast
  have d: "disk_rep C st L" "durable C st L" "view_rep C st L" using rep by (simp_all add: log_rep_def)
  have sv1: "lg_index st1 = lg_index st" "lg_state st1 = lg_state st"
    using truncate_disk(3)[OF d(1,2) L st1(1) _ ch, of "\<lambda>s. s\<lparr>sg_last_index := last_ix C rs\<rparr>"]
    by (simp_all add: bounds_def same_view_def)
  have I: "filter ?keep (lg_index st) = map fst (kept C ?p (lay C (A @ [(q, rs)])))"
    using d(3) lay by (simp add: view_rep_def filter_map comp_def)
  have vl: "vec_last (filter ?keep (lg_index st)) = map_option fst (vec_last (located C q 8 rs))"
    unfolding I vec_last_map last(2)[symmetric] last(1) ..
  have lx: "last_ix C rs = map_option (fst \<circ> fst) (vec_last (located C q 8 rs))"
    using last_ix_located[of C rs q 8] by (simp add: vec_last_def indexes_def last_map)
  define st2 where "st2 = st1\<lparr>lg_segments := change_segment q (truncated_bounds q (filter ?keep (lg_index st1))) (lg_segments st1)\<rparr>"
  have b: "bounds (truncated_bounds q (filter ?keep (lg_index st1)) s) = (q, last_ix C rs)" if "sg_seq s = q" for s
    unfolding truncated_bounds_def bounds_def sv1 vl lx
    by (cases "vec_last (located C q 8 rs)") (use last(3) that in \<open>simp_all add: split_beta\<close>)
  have ix: "fst (fst x) = entry_ix C (snd x)" if "vec_last (located C q 8 rs) = Some x" for x
    using that located_ix[of x C q 8 rs] by (auto simp: vec_last_def split: if_splits)
  note t = truncate_disk[where h = "truncated_bounds q (filter ?keep (lg_index st1))", OF d(1,2) L st1(1) b ch, folded st2_def]
  have st': "st' = st2\<lparr>lg_index := map fst (kept C ?p (lay C (A @ [(q, rs)]))),
      lg_state := truncated_state C (map_option (fst \<circ> fst) (vec_last (located C q 8 rs))) lid (lg_state st)\<rparr>"
    unfolding I[symmetric] by (simp add: st1(2) st2_def sv1 vl option.map_comp)
  have "disk_rep C st' (A @ [(q, rs)])" "durable C st' (A @ [(q, rs)])"
    using t(1,2) by (simp_all add: st' disk_rep_def durable_def)
  moreover have "view_rep C st' (A @ [(q, rs)])"
    unfolding view_rep_def
  proof (intro conjI impI)
    show "lg_index st' = map fst (kept C (rt_last_purged (lg_state st')) (lay C (A @ [(q, rs)])))" by (simp add: st')
    show "case lg_state_file st' of None \<Rightarrow> rt_vote (lg_state st') = None \<and> rt_last_purged (lg_state st') = None
        | Some bs \<Rightarrow> wc_state_from_bytes C bs = Inr \<lparr>ps_vote = rt_vote (lg_state st'), ps_last_purged = rt_last_purged (lg_state st')\<rparr>"
      using d(3) t(3) by (simp add: view_rep_def st' same_view_def cong: option.case_cong)
    show "rt_last_log_id (lg_state st') = map_option (en_log_id \<circ> snd) (vec_last (lay C (A @ [(q, rs)])))"
      unfolding last(1) using last(3) ix by (cases "vec_last (located C q 8 rs)") (auto simp: st' entry_ix_def)
    show "unpurged C (rt_last_purged (lg_state st')) (last (indexes (lay C (A @ [(q, rs)]))))" if "lay C (A @ [(q, rs)]) \<noteq> []"
      using kept_last[OF that, of C ?p] last(2) by (simp add: st' del: lay_simps)
  qed
  moreover have "abs_log C st' (A @ [(q, rs)]) = al_truncate C lid (abs_log C st L)"
    using lay lay_ix[of _ C L] by (simp add: abs_log_def al_truncate_def st' filter_map comp_def cong: filter_cong)
  ultimately show ?thesis using t(3) by (simp add: log_rep_def st' same_view_def)
qed

lemma cut_point_eq:
  "cut_point keep st = (case vec_last (filter (\<lambda>x. kept_upto keep (fst x)) (lg_index st)) of
      Some x \<Rightarrow> (rl_seq (snd x), rl_offset (snd x) + 8 + rl_len (snd x))
    | None \<Rightarrow> (case lg_segments st of [] \<Rightarrow> 0 | s # _ \<Rightarrow> sg_seq s, 8))"
  by (cases keep)
     (simp_all add: cut_point_def kept_upto_def case_prod_beta' bt_values_def vec_last_map vec_last_def[of "[]"] RECORD_HEADER_LEN_def
       SEGMENT_HEADER_LEN_def split: option.split)

lemma truncated_entries:
  "al_entries (al_truncate C lid (abs_log C st L))
    = map snd (filter (\<lambda>x. kept_upto (map_option (wc_index C) lid) (fst (fst x))) (kept C (rt_last_purged (lg_state st)) (lay C L)))"
  using lay_ix[of _ C L] by (simp add: al_truncate_def abs_log_def filter_map comp_def cong: filter_cong)

lemma truncate_rep:
  assumes rep: "log_rep C st L" and tr: "truncatable C (abs_log C st L) lid" and io: "truncate_after_blocking C io st lid = (st', None)"
  shows "\<exists>L'. log_rep C st' L' \<and> abs_log C st' L' = al_truncate C lid (abs_log C st L) \<and> lg_fsync st' = lg_fsync st"
proof -
  let ?p = "rt_last_purged (lg_state st)" and ?keep = "kept_upto (map_option (wc_index C) lid)"
  have d: "disk_rep C st L" "view_rep C st L" "chain None (indexes (lay C L))" using rep by (simp_all add: log_rep_def disk_rep_def)
  have idx: "filter (\<lambda>x. ?keep (fst x)) (lg_index st) = map fst (filter (\<lambda>x. ?keep (fst (fst x))) (kept C ?p (lay C L)))"
    using d(2) by (simp add: view_rep_def filter_map comp_def)
  show ?thesis
  proof (cases "filter (\<lambda>x. ?keep (fst (fst x))) (kept C ?p (lay C L)) = []")
    case True
    obtain q rs B where L: "L = [] @ [(q, [] @ rs)] @ B" using d(1) by (cases L) (auto simp: disk_rep_def)
    obtain s S where "lg_segments st = s # S" "sg_seq s = q"
      using d(1) by (auto simp: disk_rep_def L Cons_eq_map_conv map_eq_Cons_conv bounds_def meta_of_def)
    then have cut: "cut_point (map_option (wc_index C) lid) st = (q, 8 + length (rec_stream C []))"
      using True by (simp add: cut_point_eq idx vec_last_def)
    have "log_rep C st' ([] @ [(q, [])]) \<and> abs_log C st' ([] @ [(q, [])]) = al_truncate C lid (abs_log C st L) \<and> lg_fsync st' = lg_fsync st"
      by (rule truncate_finish[OF rep L cut io]) (use True in \<open>simp_all add: vec_last_def\<close>)
    then show ?thesis by blast
  next
    case False
    then obtain e where e: "e \<in> set (al_entries (abs_log C st L))" "lid = Some (en_log_id e)"
      using tr by (auto simp: truncatable_def truncated_entries)
    obtain x where x: "x \<in> set (kept C ?p (lay C L))" "snd x = e" using e(1) by (auto simp: abs_log_def)
    have ix: "fst (fst x) = wc_index C (en_log_id e)" using lay_ix[of x C L] x by (simp add: entry_ix_def)
    have keep: "?keep i \<longleftrightarrow> i \<le> fst (fst x)" for i by (simp add: e(2) kept_upto_def ix)
    obtain A q rs ts B where c: "L = A @ [(q, rs @ ts)] @ B" "rl_seq (snd (fst x)) = q"
        "rl_offset (snd (fst x)) + 8 + rl_len (snd (fst x)) = 8 + length (rec_stream C rs)"
        "lay C (A @ [(q, rs)]) = filter (\<lambda>y. fst (fst y) \<le> fst (fst x)) (lay C L)" "last (located C q 8 rs) = x" "located C q 8 rs \<noteq> []"
      using lay_cut[OF d(3), of x] x(1) by auto
    have k: "kept C ?p (lay C (A @ [(q, rs)])) = filter (\<lambda>y. ?keep (fst (fst y))) (kept C ?p (lay C L))"
      unfolding c(4) keep by (simp add: conj_commute)
    have vl: "vec_last (located C q 8 rs) = Some x" "vec_last (lay C (A @ [(q, rs)])) = Some x"
      using c(5,6) by (simp_all add: vec_last_def)
    have "unpurged C ?p (fst (fst x))" using x(1) by simp
    then have vk: "vec_last (kept C ?p (lay C (A @ [(q, rs)]))) = Some x"
      using c(5,6) by (cases "located C q 8 rs" rule: rev_cases) (simp_all add: vec_last_def)
    then have cut: "cut_point (map_option (wc_index C) lid) st = (q, 8 + length (rec_stream C rs))"
      unfolding cut_point_eq idx k[symmetric] vec_last_map using c(2,3) by simp
    have "chain None (indexes (lay C (A @ [(q, rs)])))"
      using d(3) unfolding c(1) by (simp add: located_append chain_append)
    then have "log_rep C st' (A @ [(q, rs)]) \<and> abs_log C st' (A @ [(q, rs)]) = al_truncate C lid (abs_log C st L) \<and> lg_fsync st' = lg_fsync st"
      by (rule truncate_finish[OF rep c(1) cut io k]) (use vl vk e(2) x(2) c(2) in simp_all)
    then show ?thesis by blast
  qed
qed

end
