(* ===== verification/Log_Recovery.thy ===== *)
theory Log_Recovery
  imports Log_Refinement
begin

text \<open>
  Reads of a represented log return its entries, and opening the directory after a crash gives the
  log back: all of it when every append is synced, also when the crash hits an append.
\<close>

section \<open>Reads\<close>

definition framed :: "('l, 'm, 'v) wal_codec \<Rightarrow> bytes \<Rightarrow> (u64 \<times> RecordLoc) \<times> ('l, 'm) Entry \<Rightarrow> bool" where
  "framed C bs x \<longleftrightarrow> (\<exists>pre suf. bs = pre @ rec_bytes C (WalEntry (snd x)) @ suf \<and> length pre = rl_offset (snd (fst x)))
     \<and> rl_len (snd (fst x)) = length (rec_payload C (WalEntry (snd x)))"

lemma located_framed:
  "x \<in> set (located C q (length pre) rs) \<Longrightarrow> framed C (pre @ rec_stream C rs) x \<and> WalEntry (snd x) \<in> set rs \<and> rl_seq (snd (fst x)) = q"
proof (induction rs arbitrary: pre)
  case (Cons r rs)
  show ?case
  proof (cases "x \<in> set (located C q (length (pre @ rec_bytes C r)) rs)")
    case True
    from Cons.IH[OF this] show ?thesis by simp
  next
    case False
    then obtain e where "r = WalEntry e" "x = ((entry_ix C e, \<lparr>rl_seq = q, rl_offset = length pre, rl_len = length (rec_payload C r)\<rparr>), e)"
      using Cons.prems by (cases r) auto
    then show ?thesis by (auto simp: framed_def)
  qed
qed simp

lemma framed_bytes:
  assumes "framed C bs x"
  shows "drop (rl_offset (snd (fst x))) bs = rec_bytes C (WalEntry (snd x)) @ drop (rl_offset (snd (fst x)) + 8 + rl_len (snd (fst x))) bs"
    "rl_offset (snd (fst x)) + 8 + rl_len (snd (fst x)) \<le> length bs"
  using assms by (auto simp: framed_def rec_bytes_length)

lemma stored_get:
  "list_all2 (stored C) L F \<Longrightarrow> sorted_wrt (<) (map fst L) \<Longrightarrow> (q, rs) \<in> set L \<Longrightarrow> \<exists>f. bt_get q F = Some f \<and> wf_bytes f = seg_bytes C rs"
  by (induction rule: list_all2_induct) (auto simp: stored_def split_beta)

lemma lay_reader:
  assumes "disk_rep C st L" "x \<in> set (lay C L)"
  shows "\<exists>bs. reader st (rl_seq (snd (fst x))) = Inr bs \<and> rec_ok C (WalEntry (snd x))
    \<and> (\<forall>y \<in> set (lay C L). rl_seq (snd (fst y)) = rl_seq (snd (fst x)) \<longrightarrow> framed C bs y)"
proof -
  have d: "list_all2 (stored C) L (lg_files st)" "sorted_wrt (<) (map fst L)" "map bounds (lg_segments st) = map (meta_of C) L" "records_ok C L"
    using assms(1) by (simp_all add: disk_rep_def)
  have fr: "\<exists>rs. (rl_seq (snd (fst y)), rs) \<in> set L \<and> framed C (seg_bytes C rs) y \<and> WalEntry (snd y) \<in> set rs" if "y \<in> set (lay C L)" for y
    using that located_framed[of y C _ segment_header] by (force simp: lay_def seg_bytes_def)
  obtain rs where rs: "(rl_seq (snd (fst x)), rs) \<in> set L" "WalEntry (snd x) \<in> set rs" using fr[OF assms(2)] by blast
  have inj: "inj_on fst (set L)" using d(2) by (metis distinct_map strict_sorted_iff)
  obtain f where f: "bt_get (rl_seq (snd (fst x))) (lg_files st) = Some f" "wf_bytes f = seg_bytes C rs"
    using stored_get[OF d(1,2) rs(1)] by blast
  have "meta_of C (rl_seq (snd (fst x)), rs) \<in> set (map bounds (lg_segments st))" using rs(1) d(3) by simp
  then obtain s where "s \<in> set (lg_segments st)" "sg_seq s = rl_seq (snd (fst x))" by (auto simp: bounds_def meta_of_def)
  then have "find_segment (rl_seq (snd (fst x))) (lg_segments st) \<noteq> None" using find_segment_some by metis
  then have "reader st (rl_seq (snd (fst x))) = Inr (seg_bytes C rs)" using f by (auto simp: reader_def split: option.splits)
  moreover have "framed C (seg_bytes C rs) y" if y: "y \<in> set (lay C L)" "rl_seq (snd (fst y)) = rl_seq (snd (fst x))" for y
    using fr[OF y(1)] rs(1) inj_onD[OF inj, of "(rl_seq (snd (fst x)), rs)"] y(2) by force
  moreover have "rec_ok C (WalEntry (snd x))" using d(4) rs by (force simp: records_ok_def)
  ultimately show ?thesis by blast
qed

lemma take_run_framed:
  assumes "take_run q e (map (snd \<circ> fst) xs) = (run, e', tail)" "\<forall>x \<in> set xs. rl_seq (snd (fst x)) = q \<longrightarrow> framed C bs x"
  shows "\<exists>ys zs suf. xs = ys @ zs \<and> run = map (snd \<circ> fst) ys \<and> tail = map (snd \<circ> fst) zs
    \<and> e' = e + length (rec_stream C (map (WalEntry \<circ> snd) ys)) \<and> drop e bs = rec_stream C (map (WalEntry \<circ> snd) ys) @ suf
    \<and> (\<forall>y \<in> set ys. framed C bs y)"
  using assms
proof (induction xs arbitrary: e run)
  case (Cons x xs)
  show ?case
  proof (cases "rl_seq (snd (fst x)) = q \<and> rl_offset (snd (fst x)) = e")
    case True
    obtain run0 where run0: "take_run q (e + (8 + rl_len (snd (fst x)))) (map (snd \<circ> fst) xs) = (run0, e', tail)" "run = snd (fst x) # run0"
      using Cons.prems(1) True by (auto simp: RECORD_HEADER_LEN_def comp_def split: prod.splits)
    have fx: "framed C bs x" using Cons.prems(2) True by simp
    have "\<forall>x \<in> set xs. rl_seq (snd (fst x)) = q \<longrightarrow> framed C bs x" using Cons.prems(2) by simp
    from Cons.IH[OF run0(1) this] obtain ys zs suf where i: "xs = ys @ zs" "run0 = map (snd \<circ> fst) ys" "tail = map (snd \<circ> fst) zs"
        "e' = e + (8 + rl_len (snd (fst x))) + length (rec_stream C (map (WalEntry \<circ> snd) ys))"
        "drop (e + (8 + rl_len (snd (fst x)))) bs = rec_stream C (map (WalEntry \<circ> snd) ys) @ suf" "\<forall>y \<in> set ys. framed C bs y" by blast
    have len: "8 + rl_len (snd (fst x)) = length (rec_bytes C (WalEntry (snd x)))" using fx by (simp add: framed_def rec_bytes_length)
    have d: "drop e bs = rec_bytes C (WalEntry (snd x)) @ rec_stream C (map (WalEntry \<circ> snd) ys) @ suf"
      using framed_bytes(1)[OF fx] True i(5) by (simp add: add.assoc)
    show ?thesis
      by (rule exI[of _ "x # ys"], rule exI[of _ zs], rule exI[of _ suf]) (use d i fx len run0(2) in \<open>simp add: comp_def\<close>)
  next
    case False
    show ?thesis
      by (rule exI[of _ "[]"], rule exI[of _ "x # xs"]) (use False Cons.prems(1) in auto)
  qed
qed simp

context wal_laws
begin

lemma decode_run_stream:
  assumes "\<forall>y \<in> set ys. rec_ok C (WalEntry (snd y)) \<and> rl_len (snd (fst y)) = length (rec_payload C (WalEntry (snd y)))"
  shows "decode_run C (map (snd \<circ> fst) ys) (rec_stream C (map (WalEntry \<circ> snd) ys)) out = Inr (out @ map snd ys)"
  using assms
proof (induction ys arbitrary: out)
  case (Cons y ys)
  have ok: "rec_ok C (WalEntry (snd y))" using Cons.prems by simp
  note f = frame_ok[OF ok, of "rec_stream C (map (WalEntry \<circ> snd) ys)"]
  show ?case using Cons f(1,2,3,5) decode_rec[OF ok] by (simp add: comp_def)
qed simp

lemma read_loop_lay:
  assumes rep: "disk_rep C st L" and xs: "set xs \<subseteq> set (lay C L)"
  shows "read_loop C st (map (snd \<circ> fst) xs) out = Inr (out @ map snd xs)"
  using xs
proof (induction "length xs" arbitrary: xs out rule: less_induct)
  case less
  show ?case
  proof (cases xs)
    case (Cons x ys)
    let ?loc = "snd (fst x)"
    obtain bs where bs: "reader st (rl_seq ?loc) = Inr bs" "\<forall>y \<in> set (lay C L). rl_seq (snd (fst y)) = rl_seq ?loc \<longrightarrow> framed C bs y"
      using lay_reader[OF rep, of x] less.prems Cons by auto
    obtain run e' tail where t: "take_run (rl_seq ?loc) (rl_offset ?loc + 8 + rl_len ?loc) (map (snd \<circ> fst) ys) = (run, e', tail)"
      by (metis prod_cases3)
    have "\<forall>y \<in> set ys. rl_seq (snd (fst y)) = rl_seq ?loc \<longrightarrow> framed C bs y" using bs(2) less.prems Cons by auto
    from take_run_framed[OF t this] obtain us zs suf where u: "ys = us @ zs" "run = map (snd \<circ> fst) us" "tail = map (snd \<circ> fst) zs"
        "e' = rl_offset ?loc + 8 + rl_len ?loc + length (rec_stream C (map (WalEntry \<circ> snd) us))"
        "drop (rl_offset ?loc + 8 + rl_len ?loc) bs = rec_stream C (map (WalEntry \<circ> snd) us) @ suf" "\<forall>y \<in> set us. framed C bs y" by blast
    let ?S = "rec_stream C (map (WalEntry \<circ> snd) (x # us))"
    have fx: "framed C bs x" using bs(2) less.prems Cons by simp
    have len: "8 + rl_len ?loc = length (rec_bytes C (WalEntry (snd x)))" using fx by (simp add: framed_def rec_bytes_length)
    have d: "drop (rl_offset ?loc) bs = ?S @ suf" using framed_bytes(1)[OF fx] u(5) by (simp add: comp_def)
    have e: "e' - rl_offset ?loc = length ?S" using u(4) len by (simp add: comp_def)
    have "rl_offset ?loc + length ?S \<le> length bs"
      using arg_cong[OF d, of length] framed_bytes(2)[OF fx] by simp
    then have r: "read_exact_at bs (rl_offset ?loc) (e' - rl_offset ?loc) = Inr ?S" unfolding e using d by (simp add: read_exact_at_def)
    have ok: "\<forall>y \<in> set (x # us). rec_ok C (WalEntry (snd y)) \<and> rl_len (snd (fst y)) = length (rec_payload C (WalEntry (snd y)))"
      using lay_reader[OF rep] less.prems Cons u(1,6) fx by (simp add: framed_def subset_eq) blast
    have dr: "decode_run C (?loc # run) ?S out = Inr (out @ map snd (x # us))"
      using decode_run_stream[OF ok, of out] u(2) by simp
    have "read_loop C st (map (snd \<circ> fst) zs) (out @ map snd (x # us)) = Inr ((out @ map snd (x # us)) @ map snd zs)"
      by (rule less.hyps) (use Cons u(1) less.prems in auto)
    then show ?thesis using t bs(1) r dr Cons u(1,3) by (simp add: RECORD_HEADER_LEN_def comp_def)
  qed simp
qed

text \<open>A read of a range gives the entries of the abstract log in it.\<close>

lemma read_range:
  assumes rep: "log_rep C st L" and "\<not> range_panics lo hi"
  shows "try_get_log_entries C st lo hi = Inr (filter (\<lambda>e. in_range lo hi (entry_ix C e)) (al_entries (abs_log C st L)))"
proof -
  let ?xs = "filter (\<lambda>x. in_range lo hi (fst (fst x))) (kept C (rt_last_purged (lg_state st)) (lay C L))"
  have v: "bt_values (filter (\<lambda>(i, _). in_range lo hi i) (lg_index st)) = map (snd \<circ> fst) ?xs"
    using rep by (simp add: log_rep_def view_rep_def bt_values_def filter_map comp_def case_prod_beta')
  have r: "read_entries_blocking C st (map (snd \<circ> fst) ?xs) = Inr (map snd ?xs)"
    unfolding read_entries_blocking_def using read_loop_lay[of st L ?xs "[]"] rep by (auto simp: log_rep_def)
  have e: "map snd ?xs = filter (\<lambda>e. in_range lo hi (entry_ix C e)) (al_entries (abs_log C st L))"
    using lay_ix[of _ C L] by (simp add: abs_log_def filter_map comp_def del: in_range.simps cong: filter_cong)
  show ?thesis unfolding try_get_log_entries_def v using r e assms(2) by (auto simp: Let_def)
qed

end

section \<open>Opening a directory\<close>

lemma vec_last_append: "vec_last (xs @ ys) = (case vec_last ys of None \<Rightarrow> vec_last xs | Some y \<Rightarrow> Some y)"
  by (simp add: vec_last_def)

lemma vec_last_Cons: "vec_last (x # xs) = Some (case vec_last xs of None \<Rightarrow> x | Some y \<Rightarrow> y)"
  by (simp add: vec_last_def)

lemma rec_state_simps [simp]:
  "rt_vote (foldl rec_state s rs) = rt_vote s" "rt_last_purged (foldl rec_state s rs) = rt_last_purged s"
proof -
  have "rt_vote (foldl rec_state s rs) = rt_vote s \<and> rt_last_purged (foldl rec_state s rs) = rt_last_purged s"
  proof (induction rs arbitrary: s)
    case (Cons r rs)
    then show ?case by (cases r) simp_all
  qed simp
  then show "rt_vote (foldl rec_state s rs) = rt_vote s" "rt_last_purged (foldl rec_state s rs) = rt_last_purged s" by simp_all
qed

lemma rec_state_located:
  "rt_last_log_id (foldl rec_state s rs) = (case vec_last (located C q p rs) of None \<Rightarrow> rt_last_log_id s | Some x \<Rightarrow> Some (en_log_id (snd x)))"
proof (induction rs arbitrary: s p)
  case (Cons r rs)
  show ?case
    using Cons[of "rec_state s r" "p + length (rec_bytes C r)"] by (cases r) (simp_all add: vec_last_Cons split: option.split)
qed (simp add: vec_last_def)

lemma rec_state_lay:
  "rt_last_log_id (foldl rec_state s (concat (map snd L))) = (case vec_last (lay C L) of None \<Rightarrow> rt_last_log_id s | Some x \<Rightarrow> Some (en_log_id (snd x)))"
proof (induction L arbitrary: s)
  case (Cons a L)
  show ?case using Cons[of "foldl rec_state s (snd a)"] rec_state_located[of s "snd a" C "fst a" 8]
    by (simp add: vec_last_append split: option.split)
qed (simp add: vec_last_def)

lemma opened_rep:
  assumes L: "L \<noteq> []" "sorted_wrt (<) (map fst L)" "list_all2 (stored C) L (lg_files st)" "map bounds (lg_segments st) = map (meta_of C) L"
    "records_ok C L" "chain None (indexes (lay C L))" "\<forall>f \<in> snd ` set (lg_files st). synced f"
    and w: "lg_writer_seq st = sg_seq (last (lg_segments st))" "bt_get (lg_writer_seq st) (lg_files st) = Some f" "lg_writer_len st = length (wf_bytes f)"
  shows "disk_rep C st L" "durable C st L"
proof -
  obtain M q rs where M: "L = M @ [(q, rs)]" using L(1) by (metis prod.collapse rev_exhaust)
  obtain F g where F: "lg_files st = F @ [(q, g)]" "wf_bytes g = seg_bytes C rs"
    using L(3) by (auto simp: M list_all2_append1 list_all2_Cons1 stored_def)
  have ne: "lg_segments st \<noteq> []" using L(4) by (auto simp: M)
  have "bounds (last (lg_segments st)) = meta_of C (q, rs)" using arg_cong[OF L(4), of last] ne by (simp add: M last_map)
  then have q: "lg_writer_seq st = q" using w(1) by (simp add: bounds_def meta_of_def)
  have "\<exists>f. bt_get q (lg_files st) = Some f \<and> wf_bytes f = seg_bytes C rs" by (rule stored_get[OF L(3,2)]) (simp add: M)
  then have len: "lg_writer_len st = length (seg_bytes C rs)" using w(2,3) q by auto
  show "disk_rep C st L" using L q len by (simp add: disk_rep_def M)
  have "synced g" using L(7) by (simp add: F(1))
  then have "\<exists>us vs. snd (last L) = us @ vs \<and> located C 0 0 vs = [] \<and> length (seg_bytes C us) \<le> wf_synced (snd (last (lg_files st)))"
    by (intro exI[of _ rs] exI[of _ "[]"]) (simp add: M F synced_def)
  then show "durable C st L" using L(7) by (simp add: durable_def F(1))
qed

text \<open>What the scan has recovered of the log \<open>L\<close>, for the purge marker \<open>p\<close>.\<close>

definition recovered_rep ::
  "('l, 'm, 'v) wal_codec \<Rightarrow> ('l, 'm) log \<Rightarrow> 'l option \<Rightarrow> (u32, wal_file) btree \<times> SegmentMeta list \<times> ('l, 'v) scan \<Rightarrow> bool" where
  "recovered_rep C L p r \<longleftrightarrow> (case r of (files, segments, sc) \<Rightarrow>
     sorted_wrt (<) (map fst L) \<and> list_all2 (stored C) L files \<and> map bounds segments = map (meta_of C) L \<and> records_ok C L
     \<and> chain None (indexes (lay C L)) \<and> (\<forall>f \<in> snd ` set files. synced f)
     \<and> sc_index sc = map fst (kept C p (lay C L)) \<and> rt_last_log_id (sc_state sc) = map_option (en_log_id \<circ> snd) (vec_last (lay C L)))"

lemma heal_rep:
  assumes rep: "recovered_rep C L None (files, segments, sc)" and p: "rt_last_purged (sc_state sc) = p"
  shows "\<exists>L' files' segments' sc'. heal_purge C (files, segments, sc) = (files', segments', sc') \<and> recovered_rep C L' p (files', segments', sc')
    \<and> kept C p (lay C L') = kept C p (lay C L) \<and> (lay C L' \<noteq> [] \<longrightarrow> unpurged C p (last (indexes (lay C L'))))
    \<and> rt_last_purged (sc_state sc') = p \<and> rt_vote (sc_state sc') = rt_vote (sc_state sc)"
proof (cases p)
  case None
  then show ?thesis using rep p
    by (intro exI[of _ L] exI[of _ files] exI[of _ segments] exI[of _ sc]) (simp add: heal_purge_def unpurged_def)
next
  case (Some l)
  let ?u = "wc_index C l"
  define L' where "L' = filter (\<lambda>s. live ?u (meta_of C s)) L"
  have r: "sorted_wrt (<) (map fst L)" "list_all2 (stored C) L files" "map bounds segments = map (meta_of C) L" "records_ok C L"
    "chain None (indexes (lay C L))" "\<forall>f \<in> snd ` set files. synced f" "sc_index sc = map fst (lay C L)"
    "rt_last_log_id (sc_state sc) = map_option (en_log_id \<circ> snd) (vec_last (lay C L))"
    using rep by (simp_all add: recovered_rep_def unpurged_def)
  have cov: "(sg_last_index s = None \<or> covered_by ?u (sg_last_index s)) \<longleftrightarrow> \<not> live ?u (bounds s)" for s
    by (auto simp: live_def bounds_def covered_by_def split: option.splits)
  have cov': "(\<exists>y. sg_last_index s = Some y) \<and> \<not> covered_by ?u (sg_last_index s) \<longleftrightarrow> live ?u (bounds s)" for s
    using cov[of s] by auto
  define gone where "gone = map sg_seq (filter (\<lambda>s. \<not> live ?u (bounds s)) segments)"
  define state where "state = (if (case rt_last_log_id (sc_state sc) of None \<Rightarrow> False | Some i \<Rightarrow> wc_index C i \<le> ?u)
    then (sc_state sc)\<lparr>rt_last_log_id := None\<rparr> else sc_state sc)"
  have h: "heal_purge C (files, segments, sc) = (filter (\<lambda>(seq, _). seq \<notin> set gone) files, filter (\<lambda>s. live ?u (bounds s)) segments,
      sc\<lparr>sc_index := filter (\<lambda>(i, _). ?u < i) (sc_index sc), sc_state := state\<rparr>)"
    unfolding heal_purge_def using p Some by (simp add: Let_def cov cov' gone_def state_def)
  note f = lay_live_facts[OF r(5) refl[of ?u], folded L'_def]
  note ids = last_log_id_live[OF r(5) arg_cong[OF L'_def, of "lay C"]]
  have la: "list_all2 (stored C) L' (filter (\<lambda>(seq, _). seq \<notin> set gone) files)"
    unfolding L'_def
  proof (rule list_all2_filter[OF r(2)])
    fix s y assume "s \<in> set L" "stored C s y"
    then show "live ?u (meta_of C s) = (case y of (seq, _) \<Rightarrow> seq \<notin> set gone)"
      using removed_seqs(1)[OF r(1,3), of "\<lambda>s. live ?u (bounds s)" "live ?u" s] by (auto simp: gone_def stored_def split_beta)
  qed
  have mb: "map bounds (filter (\<lambda>s. live ?u (bounds s)) segments) = map (meta_of C) L'"
    unfolding L'_def by (rule filter_related[where R = "live ?u", OF r(3) refl refl])
  have "recovered_rep C L' p (heal_purge C (files, segments, sc))"
    unfolding h recovered_rep_def prod.case
  proof (intro conjI)
    show "sorted_wrt (<) (map fst L')" using r(1) by (simp add: L'_def sorted_wrt_map sorted_wrt_filter)
    show "records_ok C L'" using r(4) by (auto simp: L'_def records_ok_def)
    show "\<forall>f \<in> snd ` set (filter (\<lambda>(seq, _). seq \<notin> set gone) files). synced f" using r(6) by auto
    show "sc_index (sc\<lparr>sc_index := filter (\<lambda>(i, _). ?u < i) (sc_index sc), sc_state := state\<rparr>) = map fst (kept C p (lay C L'))"
      using f(2) by (simp add: r(7) Some filter_map comp_def case_prod_beta' unpurged_def)
    show "rt_last_log_id (sc_state (sc\<lparr>sc_index := filter (\<lambda>(i, _). ?u < i) (sc_index sc), sc_state := state\<rparr>))
        = map_option (en_log_id \<circ> snd) (vec_last (lay C L'))"
      using ids by (simp add: state_def r(8))
  qed (use la mb f(1) in simp_all)
  moreover have "rt_last_purged state = p" "rt_vote state = rt_vote (sc_state sc)" using p by (simp_all add: state_def)
  ultimately show ?thesis using f(2,3) Some unfolding h by (intro exI[of _ L']) simp
qed

definition state_ok :: "('l, 'm, 'v) wal_codec \<Rightarrow> bytes option \<Rightarrow> 'v option \<Rightarrow> 'l option \<Rightarrow> bool" where
  "state_ok C state_file v p \<longleftrightarrow> (case state_file of
     None \<Rightarrow> v = None \<and> p = None | Some bs \<Rightarrow> wc_state_from_bytes C bs = Inr \<lparr>ps_vote = v, ps_last_purged = p\<rparr>)"

text \<open>The last step of opening: the healed segments, or a first empty one, with the last as the writer.\<close>

lemma opened_log:
  assumes rep: "recovered_rep C L p (files, segments, sc)" and un: "lay C L \<noteq> [] \<longrightarrow> unpurged C p (last (indexes (lay C L)))"
    and s: "rt_last_purged (sc_state sc) = p" "rt_vote (sc_state sc) = v" "state_ok C state_file v p"
  defines "r \<equiv> (if segments = [] then (bt_insert 0 \<lparr>wf_bytes = segment_header, wf_synced = length segment_header\<rparr> files, [SegmentMeta_new 0])
      else (files, segments))"
  shows "segments = [] \<Longrightarrow> bt_get 0 files = None"
    "\<exists>w L'. bt_get (sg_seq (last (snd r))) (fst r) = Some w
      \<and> log_rep C \<lparr>lg_dir = path, lg_files = fst r, lg_state_file = state_file, lg_segment_size = sz, lg_fsync = fsync, lg_dirty = True,
          lg_index = sc_index sc, lg_state = sc_state sc, lg_writer_seq = sg_seq (last (snd r)), lg_writer_len = length (wf_bytes w),
          lg_segments = snd r\<rparr> L' \<and> lay C L' = lay C L"
proof -
  have d: "sorted_wrt (<) (map fst L)" "list_all2 (stored C) L files" "map bounds segments = map (meta_of C) L" "records_ok C L"
     "chain None (indexes (lay C L))" "\<forall>f \<in> snd ` set files. synced f" "sc_index sc = map fst (kept C p (lay C L))"
     "rt_last_log_id (sc_state sc) = map_option (en_log_id \<circ> snd) (vec_last (lay C L))"
    using rep by (simp_all add: recovered_rep_def)
  have empty: "segments = [] \<longleftrightarrow> L = []" "L = [] \<Longrightarrow> files = []" using d(2,3) by (metis map_is_Nil_conv) (use d(2) in simp)
  then show "segments = [] \<Longrightarrow> bt_get 0 files = None" by simp
  define L' where "L' = (if L = [] then [(0, [])] else L)"
  have lay: "lay C L' = lay C L" by (simp add: L'_def)
  have r: "sorted_wrt (<) (map fst L')" "list_all2 (stored C) L' (fst r)" "map bounds (snd r) = map (meta_of C) L'" "records_ok C L'"
     "\<forall>f \<in> snd ` set (fst r). synced f" "L' \<noteq> []"
    using d empty by (auto simp: L'_def r_def stored_def bounds_def meta_of_def SegmentMeta_new_def last_ix_def vec_last_def records_ok_def synced_def)
  obtain M q rs where M: "L' = M @ [(q, rs)]" using r(6) by (metis prod.collapse rev_exhaust)
  have "snd r \<noteq> []" using r(3) by (auto simp: M)
  then have "bounds (last (snd r)) = meta_of C (q, rs)" using arg_cong[OF r(3), of last] by (simp add: M last_map)
  then have "sg_seq (last (snd r)) = q" by (simp add: bounds_def meta_of_def)
  then obtain w where w: "bt_get (sg_seq (last (snd r))) (fst r) = Some w" using stored_get[OF r(2,1), of q rs] by (auto simp: M)
  let ?st = "\<lparr>lg_dir = path, lg_files = fst r, lg_state_file = state_file, lg_segment_size = sz, lg_fsync = fsync, lg_dirty = True,
    lg_index = sc_index sc, lg_state = sc_state sc, lg_writer_seq = sg_seq (last (snd r)), lg_writer_len = length (wf_bytes w), lg_segments = snd r\<rparr>"
  have "disk_rep C ?st L'" "durable C ?st L'"
    by (rule opened_rep[of L' C ?st w]; use r d(5) w lay in simp)+
  moreover have "view_rep C ?st L'" using un d(7,8) s lay by (simp add: view_rep_def state_ok_def cong: option.case_cong)
  ultimately show "\<exists>w L'. bt_get (sg_seq (last (snd r))) (fst r) = Some w
      \<and> log_rep C \<lparr>lg_dir = path, lg_files = fst r, lg_state_file = state_file, lg_segment_size = sz, lg_fsync = fsync, lg_dirty = True,
          lg_index = sc_index sc, lg_state = sc_state sc, lg_writer_seq = sg_seq (last (snd r)), lg_writer_len = length (wf_bytes w),
          lg_segments = snd r\<rparr> L' \<and> lay C L' = lay C L"
    using w lay unfolding log_rep_def by blast
qed

context wal_laws
begin

lemma open_recovers:
  assumes f: "list_all2 (stored C) M F" "\<forall>f \<in> snd ` set F. synced f" "wf_bytes g = take k (seg_bytes C rs)" "synced g"
    and L: "records_ok C (M @ [(q, rs)])" "sorted_wrt (<) (map fst (M @ [(q, rs)]))" "chain None (indexes (lay C (M @ [(q, rs)])))"
    and s: "state_ok C state_file v p"
  shows "\<exists>st L'. open_with_segment_size_and_fsync C path (F @ [(q, g)]) state_file sz fsync = Inr st \<and> log_rep C st L'
    \<and> abs_log C st L' = \<lparr>al_entries = map snd (kept C p (lay C (M @ [(q, fitting C (k - 8) rs)]))), al_vote = v, al_purged = p\<rparr>
    \<and> lg_fsync st = FsyncPolicy_from_option fsync"
proof -
  let ?sc = "\<lparr>sc_index = [], sc_state = RuntimeState_default, sc_expected_next = None, sc_meta = SegmentMeta_new 0\<rparr> :: ('l, 'v) scan"
  let ?rc = "FsyncPolicy_from_option fsync \<noteq> EveryAppend"
  define us where "us = fitting C (k - 8) rs"
  let ?L = "M @ [(q, us)]"
  obtain ts where ts: "rs = us @ ts" using fitting_prefix[of rs C "k - 8"] unfolding us_def by blast
  have Lok: "records_ok C ?L" "chain None (indexes (lay C ?L))" "sorted_wrt (<) (map fst ?L)"
    using L by (simp_all add: ts records_ok_def located_append chain_append)
  obtain F' metas sc where r: "recover_segments C path ?rc (F @ [(q, g)]) ?sc = Inr (F', metas, sc)"
      "list_all2 (stored C) ?L F'" "\<forall>f \<in> snd ` set F'. synced f" "map bounds metas = map (meta_of C) ?L"
      "sc_index sc = map fst (lay C ?L)" "sc_state sc = foldl rec_state RuntimeState_default (concat (map snd ?L))"
    using recover_segments_cut[OF f(1,2) L(1) f(3,4), of ?sc path ?rc] L(3) unfolding us_def by (auto simp: below_next_def)
  define sc1 where "sc1 = sc\<lparr>sc_state := (sc_state sc)\<lparr>rt_vote := v, rt_last_purged := p\<rparr>\<rparr>"
  have st: "(case state_file of None \<Rightarrow> Inr sc
      | Some bs \<Rightarrow> (case wc_state_from_bytes C bs of
          Inl e \<Rightarrow> Inl (IoError InvalidData (''corrupt log state file: '' @ e))
        | Inr persisted \<Rightarrow> Inr (sc\<lparr>sc_state := (sc_state sc)\<lparr>rt_vote := ps_vote persisted, rt_last_purged := ps_last_purged persisted\<rparr>\<rparr>))) = Inr sc1"
  proof (cases state_file)
    case None
    then have "v = None" "p = None" using s by (simp_all add: state_ok_def)
    moreover have "rt_vote (sc_state sc) = None" "rt_last_purged (sc_state sc) = None" by (simp_all add: r(6) RuntimeState_default_def)
    ultimately have "sc1 = sc" by (simp add: sc1_def)
    then show ?thesis using None by simp
  qed (use s in \<open>simp add: state_ok_def sc1_def\<close>)
  have "rt_last_log_id (sc_state sc) = map_option (en_log_id \<circ> snd) (vec_last (lay C ?L))"
    using rec_state_lay[of RuntimeState_default ?L C] unfolding r(6) by (cases "vec_last (lay C ?L)") (simp_all add: RuntimeState_default_def)
  then have "recovered_rep C ?L None (F', metas, sc1)" "rt_last_purged (sc_state sc1) = p"
    using r Lok by (simp_all add: recovered_rep_def sc1_def unpurged_def)
  from heal_rep[OF this] obtain L2 files segments sc2 where h: "heal_purge C (F', metas, sc1) = (files, segments, sc2)"
      "recovered_rep C L2 p (files, segments, sc2)" "kept C p (lay C L2) = kept C p (lay C ?L)"
      "lay C L2 \<noteq> [] \<longrightarrow> unpurged C p (last (indexes (lay C L2)))" "rt_last_purged (sc_state sc2) = p" "rt_vote (sc_state sc2) = v"
    by (auto simp: sc1_def)
  define fs where "fs = (if segments = [] then (bt_insert 0 \<lparr>wf_bytes = segment_header, wf_synced = length segment_header\<rparr> files, [SegmentMeta_new 0])
      else (files, segments))"
  note o = opened_log[OF h(2,4,5,6) s, folded fs_def]
  obtain w L' where w: "bt_get (sg_seq (last (snd fs))) (fst fs) = Some w"
      "log_rep C \<lparr>lg_dir = path, lg_files = fst fs, lg_state_file = state_file, lg_segment_size = sz, lg_fsync = FsyncPolicy_from_option fsync,
         lg_dirty = True, lg_index = sc_index sc2, lg_state = sc_state sc2, lg_writer_seq = sg_seq (last (snd fs)),
         lg_writer_len = length (wf_bytes w), lg_segments = snd fs\<rparr> L'" "lay C L' = lay C L2"
    using o(2) by blast
  have nofile: "\<not> (segments = [] \<and> bt_get 0 files \<noteq> None)" using o(1) by blast
  have "open_with_segment_size_and_fsync C path (F @ [(q, g)]) state_file sz fsync
      = Inr \<lparr>lg_dir = path, lg_files = fst fs, lg_state_file = state_file, lg_segment_size = sz, lg_fsync = FsyncPolicy_from_option fsync,
         lg_dirty = True, lg_index = sc_index sc2, lg_state = sc_state sc2, lg_writer_seq = sg_seq (last (snd fs)),
         lg_writer_len = length (wf_bytes w), lg_segments = snd fs\<rparr>"
    unfolding open_with_segment_size_and_fsync_def Let_def r(1) sum.case prod.case st h(1) if_not_P[OF nofile] fs_def[symmetric]
    by (simp add: split_beta w(1))
  then show ?thesis using w(2,3) h(3,5,6) by (auto simp: abs_log_def us_def)
qed

end

section \<open>Crashes\<close>

text \<open>
  A crash keeps of every file a prefix that holds at least its synced bytes.  The state file is
  replaced by a rename, so it is the old or the new one.
\<close>

definition crashed_file :: "u32 \<times> wal_file \<Rightarrow> u32 \<times> wal_file \<Rightarrow> bool" where
  "crashed_file f g \<longleftrightarrow> fst g = fst f \<and> synced (snd g) \<and> wf_bytes (snd g) = take (length (wf_bytes (snd g))) (wf_bytes (snd f))
     \<and> min (wf_synced (snd f)) (length (wf_bytes (snd f))) \<le> length (wf_bytes (snd g))"

definition crashed :: "(u32, wal_file) btree \<Rightarrow> (u32, wal_file) btree \<Rightarrow> bool" where
  "crashed files files' \<longleftrightarrow> list_all2 crashed_file files files'"

lemma crashed_stored:
  assumes "list_all2 (stored C) M F" "\<forall>f \<in> snd ` set F. synced f" "list_all2 crashed_file F F'"
  shows "list_all2 (stored C) M F'" "\<forall>f \<in> snd ` set F'. synced f"
proof -
  have "list_all2 (stored C) M F' \<and> (\<forall>f \<in> snd ` set F'. synced f)"
    using assms
  proof (induction arbitrary: F' rule: list_all2_induct)
    case (Cons s M f F)
    then obtain g G where g: "F' = g # G" "crashed_file f g" "list_all2 crashed_file F G" by (auto simp: list_all2_Cons1)
    have "stored C s g" "synced (snd g)" using Cons.hyps(1) Cons.prems(1) g(2) by (auto simp: stored_def crashed_file_def synced_def)
    then show ?case using Cons.IH[OF _ g(3)] Cons.prems(1) g(1) by simp
  qed simp
  then show "list_all2 (stored C) M F'" "\<forall>f \<in> snd ` set F'. synced f" by simp_all
qed

text \<open>What a cut leaves of records without entries followed by a batch: a prefix of the batch.\<close>

lemma cut_batch:
  assumes "vs @ map WalEntry es = ws @ zs" "located C 0 0 vs = []"
  shows "\<exists>n. map snd (located C q p ws) = take n es"
  using assms(1) unfolding append_eq_append_conv2
proof (elim exE disjE conjE)
  fix us assume "vs = ws @ us" "us @ map WalEntry es = zs"
  then have "located C 0 0 ws = []" using assms(2) by (simp add: located_append)
  then show ?thesis using located_none[of C q p ws] by (intro exI[of _ 0]) simp
next
  fix us assume us: "vs @ us = ws" "map WalEntry es = us @ zs"
  have "us = map WalEntry (take (length us) es)" using arg_cong[OF us(2), of "take (length us)"] by (simp add: take_map)
  moreover have "located C q p vs = []" using assms(2) located_none[of C q p vs] by simp
  ultimately show ?thesis using us(1)[symmetric] located_entries(1)[of C q _ "take (length us) es"]
    by (intro exI[of _ "length us"]) (simp add: located_append)
qed

lemma kept_located:
  "\<forall>e \<in> set (map snd (located C q p rs)). unpurged C u (entry_ix C e) \<Longrightarrow> kept C u (located C q p rs) = located C q p rs"
  using located_ix[of _ C q p rs] by (simp add: filter_id_conv)

context wal_laws
begin

lemma cut_recovers:
  assumes rep: "log_rep C st (M @ [(q, rs)])" "lg_fsync st = EveryAppend" "lg_files st = F @ [(q, f)]" and ap: "appendable C (abs_log C st (M @ [(q, rs)])) es"
    and F': "list_all2 (stored C) M F'" "\<forall>f \<in> snd ` set F'. synced f" "synced g"
      "wf_bytes g = take k (seg_bytes C (rs @ map WalEntry es))" "min (wf_synced f) (length (seg_bytes C rs)) \<le> k"
  shows "\<exists>n st' L'. open_with_segment_size_and_fsync C path (F' @ [(q, g)]) (lg_state_file st) sz fsync = Inr st' \<and> log_rep C st' L'
    \<and> abs_log C st' L' = al_append (take n es) (abs_log C st (M @ [(q, rs)])) \<and> lg_fsync st' = FsyncPolicy_from_option fsync
    \<and> (length (seg_bytes C (rs @ map WalEntry es)) \<le> k \<longrightarrow> take n es = es)"
proof -
  let ?L = "M @ [(q, rs)]" and ?ts = "map WalEntry es" and ?p = "rt_last_purged (lg_state st)"
  have d: "disk_rep C st ?L" "view_rep C st ?L" using rep(1) by (simp_all add: log_rep_def)
  obtain us vs where uv: "rs = us @ vs" "located C 0 0 vs = []" "length (seg_bytes C us) \<le> wf_synced f"
    using rep by (auto simp: log_rep_def durable_def)
  have un: "\<forall>e \<in> set es. unpurged C ?p (entry_ix C e)" "\<forall>e \<in> set es. rec_ok C (WalEntry e)"
    using ap by (simp_all add: appendable_def abs_log_def)
  have "records_ok C (M @ [(q, rs @ ?ts)])" "sorted_wrt (<) (map fst (M @ [(q, rs @ ?ts)]))"
    using d(1) un(2) by (auto simp: disk_rep_def records_ok_def)
  moreover have "chain None (indexes (lay C (M @ [(q, rs @ ?ts)])))"
    using d(1) appendable_lay[OF d(2) ap] by (simp add: disk_rep_def located_append chain_append next_of_append located_entries)
  moreover have "state_ok C (lg_state_file st) (rt_vote (lg_state st)) ?p" using d(2) by (simp add: view_rep_def state_ok_def cong: option.case_cong)
  ultimately obtain st' L' where o: "open_with_segment_size_and_fsync C path (F' @ [(q, g)]) (lg_state_file st) sz fsync = Inr st'" "log_rep C st' L'"
      "abs_log C st' L' = \<lparr>al_entries = map snd (kept C ?p (lay C (M @ [(q, fitting C (k - 8) (rs @ ?ts))]))), al_vote = rt_vote (lg_state st), al_purged = ?p\<rparr>"
      "lg_fsync st' = FsyncPolicy_from_option fsync"
    using open_recovers[OF F'(1,2,4,3)] by blast
  have le: "length (rec_stream C us) \<le> k - 8" using F'(5) uv(1,3) by simp
  define ws where "ws = fitting C (k - 8 - length (rec_stream C us)) (vs @ ?ts)"
  have fit: "fitting C (k - 8) (rs @ ?ts) = us @ ws" using fitting_whole[OF le, of "vs @ ?ts"] uv(1) by (simp add: ws_def)
  obtain zs where "vs @ ?ts = ws @ zs" using fitting_prefix unfolding ws_def by blast
  from cut_batch[OF this uv(2)] obtain n where n: "map snd (located C q (8 + length (rec_stream C us)) ws) = take n es" by blast
  have "kept C ?p (located C q (8 + length (rec_stream C us)) ws) = located C q (8 + length (rec_stream C us)) ws"
    by (rule kept_located) (use un(1) n in \<open>auto dest: in_set_takeD\<close>)
  moreover have "lay C ?L = lay C (M @ [(q, us)])" using uv(2) located_none[of C q _ vs] by (simp add: uv(1) located_append)
  ultimately have "abs_log C st' L' = al_append (take n es) (abs_log C st ?L)"
    unfolding o(3) fit using n by (simp add: abs_log_def al_append_def located_append del: map_map)
  moreover have "take n es = es" if "length (seg_bytes C (rs @ ?ts)) \<le> k"
  proof -
    have "ws = vs @ ?ts" using fitting_whole[of C "vs @ ?ts" "k - 8 - length (rec_stream C us)" "[]"] that uv(1) by (simp add: ws_def)
    then show ?thesis using n located_none[of C q "8 + length (rec_stream C us)" vs] uv(2) by (simp add: located_append located_entries)
  qed
  ultimately show ?thesis using o(1,2,4) by blast
qed

end

text \<open>The active file after an append: the old records, then a prefix of the batch.\<close>

definition half_written :: "('l, 'm, 'v) wal_codec \<Rightarrow> ('l, 'm) WalRecord list \<Rightarrow> ('l, 'm) Entry list \<Rightarrow> wal_file \<Rightarrow> wal_file \<Rightarrow> bool" where
  "half_written C rs es f f' \<longleftrightarrow> (\<exists>n. wf_bytes f' = seg_bytes C rs @ take n (rec_stream C (map WalEntry es)))
     \<and> min (wf_synced f) (length (seg_bytes C rs)) \<le> wf_synced f'"

lemma half_written_simps:
  "wf_bytes f = seg_bytes C rs \<Longrightarrow> half_written C rs es f f"
  "wf_bytes f = seg_bytes C rs \<Longrightarrow> half_written C rs es f (file_append (take n (rec_stream C (map WalEntry es))) f)"
  "wf_bytes f = seg_bytes C rs \<Longrightarrow> half_written C rs es f (file_append (rec_stream C (map WalEntry es)) f)"
  "half_written C rs es f f' \<Longrightarrow> half_written C rs es f (file_sync f')"
  "half_written C rs es f f' \<Longrightarrow> half_written C rs es f (file_set_len (8 + length (rec_stream C rs)) f')"
  unfolding half_written_def file_append_def file_sync_def file_set_len_def
  by (auto intro: exI[of _ 0] exI[of _ "length (rec_stream C (map WalEntry es))"])

lemma undo_half_written:
  assumes "lg_files s = F @ [(q, x)]" "\<forall>e \<in> set F. fst e < q" "lg_writer_seq s = q" "lg_writer_len s = 8 + length (rec_stream C rs)"
    "half_written C rs es f x"
  shows "\<exists>f'. lg_files (undo_write io site site' b s) = F @ [(q, f')] \<and> half_written C rs es f f'"
proof -
  have ch: "change_file q h (s\<lparr>lg_files := F @ [(q, x)]\<rparr>) = s\<lparr>lg_files := F @ [(q, h x)]\<rparr>" for h s x
    using change_last[of "s\<lparr>lg_files := F @ [(q, x)]\<rparr>" F q x h] assms(2) by simp
  show ?thesis
    using half_written_simps(4,5)[OF assms(5)] half_written_simps(4)[OF half_written_simps(5)[OF assms(5)]] assms
    by (auto simp: undo_write_def Let_def change_last[OF assms(1,2)] ch)
qed

lemma change_state_file: "lg_state_file (change_file q h s) = lg_state_file s"
  by (simp add: change_file_def split: option.split)

lemma undo_state_file: "lg_state_file (undo_write io site site' b s) = lg_state_file s"
  by (simp add: undo_write_def Let_def change_state_file)

lemma append_files:
  assumes es: "es \<noteq> []" "io Injected = None" and ok: "\<forall>e \<in> set es. rec_ok C (WalEntry e)"
    and room: "make_room io (length (rec_stream C (map WalEntry es))) st = (st1, None)" and io: "append_blocking C io st es = (st', r)"
    and f: "lg_files st1 = F @ [(q, f)]" "\<forall>e \<in> set F. fst e < q" "lg_writer_seq st1 = q" "wf_bytes f = seg_bytes C rs"
      "lg_writer_len st1 = 8 + length (rec_stream C rs)"
  shows "\<exists>f'. lg_files st' = F @ [(q, f')] \<and> half_written C rs es f f' \<and> lg_state_file st' = lg_state_file st1
    \<and> (r = None \<and> lg_fsync st1 = EveryAppend \<longrightarrow> wf_bytes f' = seg_bytes C (rs @ map WalEntry es) \<and> synced f')"
proof -
  let ?buf = "rec_stream C (map WalEntry es)"
  have enc: "encode_entries C es = Inr (?buf, map loc_triple (located C q 0 (map WalEntry es)))"
    using encode_loop_ok[OF ok, of "[]" "[]" q] by (simp add: encode_entries_def)
  have wr: "change_file q (file_append bs) st1 = st1\<lparr>lg_files := F @ [(q, file_append bs f)]\<rparr>" for bs
    using change_last[OF f(1,2)] by simp
  note h = half_written_simps(2,3)[OF f(4), of es]
  show ?thesis
  proof (cases r)
    case None
    then obtain dd where "st' = st1\<lparr>lg_files := F @ [(q, if lg_fsync st1 = EveryAppend then file_sync (file_append ?buf f) else file_append ?buf f)], lg_dirty := dd,
        lg_writer_len := lg_writer_len st1 + length ?buf,
        lg_segments := change_segment q (note_entries (Some (entry_ix C (hd es))) (Some (entry_ix C (last es)))) (lg_segments st1),
        lg_index := foldl (insert_loc q (lg_writer_len st1)) (lg_index st1) (map loc_triple (located C q 0 (map WalEntry es))),
        lg_state := (lg_state st1)\<lparr>rt_last_log_id := Some (en_log_id (last es))\<rparr>\<rparr>"
      using append_cases[OF es(1) ok room _ f(1,2,3)] io by blast
    then show ?thesis using h(2) half_written_simps(4)[OF h(2)]
      by (simp add: synced_def file_sync_def file_append_def f(4) seg_bytes_def)
  next
    case (Some e)
    have "\<exists>site site' b s x. st' = undo_write io site site' b s \<and> lg_files s = F @ [(q, x)] \<and> half_written C rs es f x
        \<and> lg_writer_seq s = q \<and> lg_writer_len s = lg_writer_len st1 \<and> lg_state_file s = lg_state_file st1"
    proof (cases "io WriteBatch")
      case None
      then have "st' = undo_write io UndoUnsynced SyncUnsynced True (st1\<lparr>lg_files := F @ [(q, file_append ?buf f)], lg_dirty := True\<rparr>)"
        using io es enc room Some by (simp add: append_blocking_def Let_def wr f(3) split: if_splits)
      then show ?thesis using h(2) f(3) by force
    next
      case (Some x)
      then have "st' = undo_write io UndoBatch SyncUndo (fsync_enabled (lg_fsync st1)) (st1\<lparr>lg_files := F @ [(q, file_append (take (fst x) ?buf) f)]\<rparr>)"
        using io es enc room by (simp add: append_blocking_def Let_def wr f(3) split_beta)
      then show ?thesis using h(1)[of "fst x"] f(3) by force
    qed
    then show ?thesis using undo_half_written[OF _ f(2)] f(5) Some undo_state_file by (metis option.distinct(1))
  qed
qed

definition rotates :: "io_calls \<Rightarrow> bool" where
  "rotates io \<longleftrightarrow> io SyncOldSegment = None \<and> io CreateSegment = None \<and> io WriteSegmentHeader = None \<and> io SyncNewSegment = None \<and> io SyncNewDir = None"

lemma make_room_rotates:
  assumes "rotates io" "log_rep C st L" "Suc (lg_writer_seq st) < 2 ^ 32"
  shows "\<exists>st'. make_room io n st = (st', None)"
proof -
  have "make_room io n st = make_room no_faults n st"
    using assms(1) by (simp add: make_room_def rotate_segment_def rotate_create_def rotates_def no_faults_def Let_def)
  moreover have "undone no_faults" by (simp add: undone_def no_faults_def)
  ultimately show ?thesis using make_room_total[OF assms(2,3), of no_faults n] by simp
qed

lemma take_append_take: "take j (xs @ take n ys) = take (min j (length xs + n)) (xs @ ys)"
proof -
  have "xs @ take n ys = take (length xs + n) (xs @ ys)" by simp
  then show ?thesis by (simp only: take_take)
qed

context wal_laws
begin

lemma half_written_recovers:
  assumes rep: "log_rep C st (M @ [(q, rs)])" "lg_fsync st = EveryAppend" "lg_files st = F @ [(q, f)]"
    and ap: "appendable C (abs_log C st (M @ [(q, rs)])) es" and h: "half_written C rs es f f'" and cr: "crashed (F @ [(q, f')]) files'"
  shows "\<exists>n st' L'. open_with_segment_size_and_fsync C path files' (lg_state_file st) sz fsync = Inr st' \<and> log_rep C st' L'
    \<and> abs_log C st' L' = al_append (take n es) (abs_log C st (M @ [(q, rs)])) \<and> lg_fsync st' = FsyncPolicy_from_option fsync
    \<and> (wf_bytes f' = seg_bytes C (rs @ map WalEntry es) \<and> synced f' \<longrightarrow> take n es = es)"
proof -
  have F: "list_all2 (stored C) M F" "\<forall>f \<in> snd ` set F. synced f"
    using rep by (auto simp: log_rep_def disk_rep_def durable_def fsync_enabled_def list_all2_append1 list_all2_Cons1)
  obtain F' g where g: "files' = F' @ [(q, g)]" "list_all2 crashed_file F F'" "crashed_file (q, f') (q, g)"
    using cr by (auto simp: crashed_def list_all2_append1 list_all2_Cons1 crashed_file_def)
  let ?A = "seg_bytes C rs" and ?B = "rec_stream C (map WalEntry es)" and ?j = "length (wf_bytes g)"
  obtain n where n: "wf_bytes f' = ?A @ take n ?B" using h by (auto simp: half_written_def)
  have AB: "?A @ ?B = seg_bytes C (rs @ map WalEntry es)" by (simp add: seg_bytes_def)
  have c: "wf_bytes g = take (min ?j (length ?A + n)) (seg_bytes C (rs @ map WalEntry es))" "synced g"
    using g(3) take_append_take[of ?j ?A n ?B] unfolding AB n crashed_file_def snd_conv by metis+
  have j: "min (wf_synced f') (length ?A + length (take n ?B)) \<le> ?j" using g(3) by (simp add: crashed_file_def n)
  have m: "min (wf_synced f) (length ?A) \<le> min ?j (length ?A + n)"
    using j h unfolding half_written_def by linarith
  have full: "length (seg_bytes C (rs @ map WalEntry es)) \<le> min ?j (length ?A + n)"
    if "wf_bytes f' = seg_bytes C (rs @ map WalEntry es) \<and> synced f'"
  proof -
    have "take n ?B = ?B" using that n AB by (metis same_append_eq)
    then have "length ?B \<le> n" by (metis length_take min.cobounded2 min_def nle_le)
    then show ?thesis using j that by (simp add: synced_def)
  qed
  show ?thesis
    using cut_recovers[OF rep ap crashed_stored[OF F g(2)] c(2,1) m, of path sz fsync] full unfolding g(1) by blast
qed

lemma crash_recovers:
  assumes rep: "log_rep C st L" "lg_fsync st = EveryAppend" and cr: "crashed (lg_files st) files'"
  shows "\<exists>st' L'. open_with_segment_size_and_fsync C path files' (lg_state_file st) sz fsync = Inr st' \<and> log_rep C st' L'
    \<and> abs_log C st' L' = abs_log C st L \<and> lg_fsync st' = FsyncPolicy_from_option fsync"
proof -
  obtain M q rs F f where d: "L = M @ [(q, rs)]" "lg_files st = F @ [(q, f)]" "list_all2 (stored C) M F" "wf_bytes f = seg_bytes C rs"
      "\<forall>e \<in> set F. fst e < q" "lg_writer_seq st = q" "lg_writer_len st = 8 + length (rec_stream C rs)" "\<forall>e \<in> set M. fst e < q"
    using rep(1) disk_repE unfolding log_rep_def by blast
  have "appendable C (abs_log C st L) []" by (simp add: appendable_def)
  then show ?thesis
    using half_written_recovers[OF rep(1)[unfolded d(1)] rep(2) d(2) _ half_written_simps(1)[OF d(4), of "[]"] cr[unfolded d(2)], of path sz fsync]
    unfolding d(1) by (auto simp: al_append_def)
qed

lemma append_crash:
  assumes rep: "log_rep C st L" "lg_fsync st = EveryAppend" and room: "Suc (lg_writer_seq st) < 2 ^ 32" "rotates io"
    and ap: "appendable C (abs_log C st L) es" and io: "append_blocking C io st es = (st', r)" and cr: "crashed (lg_files st') files'"
  shows "\<exists>n st2 L2. open_with_segment_size_and_fsync C path files' (lg_state_file st') sz fsync = Inr st2 \<and> log_rep C st2 L2
    \<and> abs_log C st2 L2 = al_append (take n es) (abs_log C st L) \<and> lg_fsync st2 = FsyncPolicy_from_option fsync \<and> (r = None \<longrightarrow> take n es = es)"
proof (cases "es = [] \<or> io Injected \<noteq> None")
  case True
  then have "st' = st" "r = None \<Longrightarrow> es = []" using io by (cases "es = []"; simp add: append_blocking_def)+
  then show ?thesis using crash_recovers[OF rep, of files' path sz fsync] cr
    by (intro exI[of _ 0]) (auto simp: al_append_def)
next
  case False
  have ok: "\<forall>e \<in> set es. rec_ok C (WalEntry e)" using ap by (simp add: appendable_def)
  obtain st1 where st1: "make_room io (length (rec_stream C (map WalEntry es))) st = (st1, None)"
    using make_room_rotates[OF room(2) rep(1) room(1)] by blast
  obtain L1 where L1: "log_rep C st1 L1" "lay C L1 = lay C L" "same_view st st1" using make_room_rep[OF rep(1) room(1) st1] by blast
  obtain M q rs F f where d: "L1 = M @ [(q, rs)]" "lg_files st1 = F @ [(q, f)]" "list_all2 (stored C) M F" "wf_bytes f = seg_bytes C rs"
      "\<forall>e \<in> set F. fst e < q" "lg_writer_seq st1 = q" "lg_writer_len st1 = 8 + length (rec_stream C rs)" "\<forall>e \<in> set M. fst e < q"
    using L1(1) disk_repE unfolding log_rep_def by blast
  have sv: "lg_fsync st1 = EveryAppend" "abs_log C st1 (M @ [(q, rs)]) = abs_log C st L"
    using L1(3) rep(2) abs_log_cong[OF L1(3,2)] by (simp_all add: same_view_def d(1))
  from append_files[OF _ _ ok st1 io d(2,5,6,4,7)] False obtain f' where f': "lg_files st' = F @ [(q, f')]" "half_written C rs es f f'"
      "lg_state_file st' = lg_state_file st1" "r = None \<longrightarrow> wf_bytes f' = seg_bytes C (rs @ map WalEntry es) \<and> synced f'"
    using sv(1) by blast
  show ?thesis
    using half_written_recovers[OF L1(1)[unfolded d(1)] sv(1) d(2) _ f'(2) cr[unfolded f'(1)], of path sz fsync] ap f'(3,4)
    unfolding sv(2) by fastforce
qed

end

section \<open>Runs of a log\<close>

text \<open>
  A directory is opened and the operations follow, in any order.  A failed append or commit marker
  leaves the log as it was when the write can be taken back; a crash is followed by opening the
  directory again.
\<close>

inductive log_run :: "('l, 'm, 'v) wal_codec \<Rightarrow> ('l, 'v) LogStore \<Rightarrow> ('l, 'm, 'v) alog \<Rightarrow> bool" for C where
  run_open: "open_with_segment_size_and_fsync C path [] None sz fsync = Inr st \<Longrightarrow>
    log_run C st \<lparr>al_entries = [], al_vote = None, al_purged = None\<rparr>"
| run_append: "log_run C st A \<Longrightarrow> appendable C A es \<Longrightarrow> Suc (lg_writer_seq st) < 2 ^ 32 \<Longrightarrow> append_blocking C io st es = (st', None) \<Longrightarrow>
    log_run C st' (al_append es A)"
| run_append_failed: "log_run C st A \<Longrightarrow> appendable C A es \<Longrightarrow> Suc (lg_writer_seq st) < 2 ^ 32 \<Longrightarrow> undone io \<Longrightarrow>
    append_blocking C io st es = (st', Some e) \<Longrightarrow> log_run C st' A"
| run_commit: "log_run C st A \<Longrightarrow> rec_ok C (Committed c) \<Longrightarrow> Suc (lg_writer_seq st) < 2 ^ 32 \<Longrightarrow> undone io \<Longrightarrow>
    save_committed_blocking C io st c = (st', r) \<Longrightarrow> log_run C st' A"
| run_vote: "log_run C st A \<Longrightarrow> save_vote_blocking C io st v = (st', None) \<Longrightarrow> log_run C st' (A\<lparr>al_vote := Some v\<rparr>)"
| run_purge: "log_run C st A \<Longrightarrow> Suc (lg_writer_seq st) < 2 ^ 32 \<Longrightarrow> purge_blocking C io st l = (st', None) \<Longrightarrow> log_run C st' (al_purge C l A)"
| run_truncate: "log_run C st A \<Longrightarrow> truncatable C A lid \<Longrightarrow> truncate_after_blocking C io st lid = (st', None) \<Longrightarrow>
    log_run C st' (al_truncate C lid A)"
| run_tick: "log_run C st A \<Longrightarrow> log_run C (fsync_tick io st) A"
| run_crash: "log_run C st A \<Longrightarrow> lg_fsync st = EveryAppend \<Longrightarrow> crashed (lg_files st) files' \<Longrightarrow>
    open_with_segment_size_and_fsync C path files' (lg_state_file st) sz fsync = Inr st' \<Longrightarrow> log_run C st' A"

context wal_laws
begin

lemma open_empty:
  assumes "open_with_segment_size_and_fsync C path [] None sz fsync = Inr st"
  shows "\<exists>L. log_rep C st L \<and> abs_log C st L = \<lparr>al_entries = [], al_vote = None, al_purged = None\<rparr>"
proof -
  let ?sc = "\<lparr>sc_index = [], sc_state = RuntimeState_default, sc_expected_next = None, sc_meta = SegmentMeta_new 0\<rparr> :: ('l, 'v) scan"
  have "recovered_rep C [] None ([], [], ?sc)" "state_ok C None None None"
    by (simp_all add: recovered_rep_def records_ok_def RuntimeState_default_def vec_last_def state_ok_def)
  from opened_log(2)[OF this(1) _ _ _ this(2), of path sz "FsyncPolicy_from_option fsync"]
  obtain w L where w: "bt_get (0 :: u32) [(0, \<lparr>wf_bytes = segment_header, wf_synced = 8\<rparr>)] = Some w"
      "log_rep C \<lparr>lg_dir = path, lg_files = [(0, \<lparr>wf_bytes = segment_header, wf_synced = 8\<rparr>)], lg_state_file = None, lg_segment_size = sz,
         lg_fsync = FsyncPolicy_from_option fsync, lg_dirty = True, lg_index = [], lg_state = RuntimeState_default, lg_writer_seq = 0,
         lg_writer_len = length (wf_bytes w), lg_segments = [SegmentMeta_new 0]\<rparr> L" "lay C L = []"
    by (auto simp: RuntimeState_default_def SegmentMeta_new_def)
  moreover have "st = \<lparr>lg_dir = path, lg_files = [(0, \<lparr>wf_bytes = segment_header, wf_synced = 8\<rparr>)], lg_state_file = None, lg_segment_size = sz,
         lg_fsync = FsyncPolicy_from_option fsync, lg_dirty = True, lg_index = [], lg_state = RuntimeState_default, lg_writer_seq = 0,
         lg_writer_len = length (wf_bytes w), lg_segments = [SegmentMeta_new 0]\<rparr>"
    using assms w(1) by (auto simp: open_with_segment_size_and_fsync_def Let_def heal_purge_def RuntimeState_default_def SegmentMeta_new_def)
  ultimately show ?thesis by (intro exI[of _ L]) (simp add: abs_log_def RuntimeState_default_def)
qed

text \<open>The run of the detailed log is a run of the abstract one.\<close>

lemma log_run_rep: "log_run C st A \<Longrightarrow> \<exists>L. log_rep C st L \<and> abs_log C st L = A"
proof (induction rule: log_run.induct)
  case (run_open path sz fsync st)
  then show ?case by (rule open_empty)
next
  case (run_append st A es io st')
  then show ?case using append_rep by blast
next
  case (run_append_failed st A es io st' e)
  then obtain L where L: "log_rep C st L" "abs_log C st L = A" by blast
  have "\<forall>e \<in> set es. rec_ok C (WalEntry e)" using run_append_failed by (simp add: appendable_def)
  then show ?case using append_undone[OF L(1) _ run_append_failed(3-5)] abs_log_cong L(2) by metis
next
  case (run_commit st A c io st' r)
  then show ?case using committed_rep by metis
next
  case (run_vote st A io v st')
  then show ?case using vote_rep by blast
next
  case (run_purge st A io l st')
  then show ?case using purge_rep by blast
next
  case (run_truncate st A lid io st')
  then show ?case using truncate_rep by blast
next
  case (run_tick st A io)
  then show ?case using tick_rep abs_log_cong by metis
next
  case (run_crash st A files' path sz fsync st')
  then show ?case using crash_recovers[OF _ run_crash(2,3), of _ path sz fsync] by auto
qed

end

end
