(* ===== verification/Log_Properties.thy ===== *)
theory Log_Properties
  imports Log_Recovery Machine_Properties
begin

text \<open>
  Properties of the write-ahead log: it refines the abstract log, survives crashes, takes back failed
  appends, and what happens to an entry above the record bound.
\<close>

section \<open>A concrete codec\<close>

text \<open>
  An instance of the codec parameter on which the laws hold: records and states are numbered by two
  tables, anything outside them is refused, and a record takes \<open>pad\<close> bytes more than its number.
\<close>

definition wal_book :: "nat \<Rightarrow> (u64, 'm) WalRecord list \<Rightarrow> (u64, 'v) PersistedState list \<Rightarrow> (u64, 'm, 'v) wal_codec" where
  "wal_book pad records states =
     \<lparr>wc_index = (\<lambda>l. l),
      wc_to_allocvec = (\<lambda>r. case position (\<lambda>x. x = r) records of None \<Rightarrow> Inl ''unknown'' | Some i \<Rightarrow> Inr (replicate pad 0 @ [i])),
      wc_from_bytes = (\<lambda>bs. if bs \<noteq> [] \<and> last bs < length records then Inr (records ! last bs) else Inl ''bad index''),
      wc_state_to_allocvec = (\<lambda>s. case position (\<lambda>x. x = s) states of None \<Rightarrow> Inl ''unknown'' | Some i \<Rightarrow> Inr [i]),
      wc_state_from_bytes = (\<lambda>bs. if bs \<noteq> [] \<and> last bs < length states then Inr (states ! last bs) else Inl ''bad index''),
      wc_crc = crc32\<rparr>"

interpretation wal_book: wal_laws "wal_book pad records states"
proof
  fix bs r payload s
  show "wc_crc (wal_book pad records states) bs < 2 ^ 32"
    using unsigned_less[of "NOT (foldl crc_step (NOT 0) bs)", where ?'a = nat] by (simp add: wal_book_def crc32_def)
  show "wc_to_allocvec (wal_book pad records states) r = Inr payload \<Longrightarrow> wc_from_bytes (wal_book pad records states) payload = Inr r"
    by (auto simp: wal_book_def split: option.splits dest!: position_SomeD)
  show "wc_state_to_allocvec (wal_book pad records states) s = Inr bs \<Longrightarrow> wc_state_from_bytes (wal_book pad records states) bs = Inr s"
    by (auto simp: wal_book_def split: option.splits dest!: position_SomeD)
qed

definition log_entry :: "u64 \<Rightarrow> (u64, unit) Entry" where
  "log_entry i = \<lparr>en_log_id = i, en_payload = Blank\<rparr>"

definition sample_wal :: "(u64, unit, u64) wal_codec" where
  "sample_wal = wal_book 0 [WalEntry (log_entry 1), WalEntry (log_entry 2)] []"

text \<open>A fresh log that syncs every append.\<close>

definition fresh_log :: "(u64, u64) LogStore" where
  "fresh_log = \<lparr>lg_dir = ''wal'', lg_files = [(0, \<lparr>wf_bytes = segment_header, wf_synced = 8\<rparr>)], lg_state_file = None, lg_segment_size = 64,
     lg_fsync = EveryAppend, lg_dirty = True, lg_index = [], lg_state = RuntimeState_default, lg_writer_seq = 0,
     lg_writer_len = 8, lg_segments = [SegmentMeta_new 0]\<rparr>"

lemma sample_laws: "wal_laws sample_wal"
  unfolding sample_wal_def by (rule wal_book.wal_laws_axioms)

lemma fresh_run: "log_run sample_wal fresh_log \<lparr>al_entries = [], al_vote = None, al_purged = None\<rparr>"
  by (rule run_open[of _ "''wal''" 64 "Some 0"])
     (simp add: open_with_segment_size_and_fsync_def heal_purge_def RuntimeState_default_def SegmentMeta_new_def fresh_log_def
       FsyncPolicy_from_option_def)

lemma sample_ok: "i \<in> {1, 2} \<Longrightarrow> rec_ok sample_wal (WalEntry (log_entry i))"
  by (auto simp: rec_ok_def sample_wal_def wal_book_def log_entry_def MAX_RECORD_LEN_def position_def)

section \<open>The log refines the abstract log\<close>

lemma last_entry:
  assumes "log_rep C st L"
  shows "rt_last_log_id (lg_state st) = map_option en_log_id (vec_last (al_entries (abs_log C st L)))"
proof (cases "lay C L" rule: rev_cases)
  case Nil
  then show ?thesis using assms by (simp add: log_rep_def view_rep_def abs_log_def vec_last_def)
next
  case (snoc xs x)
  then have "unpurged C (rt_last_purged (lg_state st)) (fst (fst x))" using assms by (simp add: log_rep_def view_rep_def)
  then show ?thesis using assms snoc by (simp add: log_rep_def view_rep_def abs_log_def vec_last_def)
qed

text \<open>
  C29: After any sequence of appends, commit markers, votes, purges, truncations, sync ticks, failed
  appends that were taken back, and (where every append is synced) crashes followed by a reopen, a read of
  a range returns exactly the entries of the abstract log in it, and the vote and the log state are the
  abstract ones.  Records are within the bound of the format.
\<close>

theorem log_refines:
  assumes "wal_laws C" "log_run C st A" "\<not> range_panics lo hi"
  shows "try_get_log_entries C st lo hi = Inr (filter (\<lambda>e. in_range lo hi (entry_ix C e)) (al_entries A))
    \<and> read_vote st = al_vote A
    \<and> get_log_state st = (al_purged A, case vec_last (al_entries A) of None \<Rightarrow> al_purged A | Some e \<Rightarrow> Some (en_log_id e))"
proof -
  obtain L where L: "log_rep C st L" "abs_log C st L = A" using wal_laws.log_run_rep[OF assms(1,2)] by blast
  have "read_vote st = al_vote A" "rt_last_purged (lg_state st) = al_purged A" using L(2) by (auto simp: read_vote_def abs_log_def)
  then show ?thesis
    using wal_laws.read_range[OF assms(1) L(1) assms(3)] last_entry[OF L(1)] unfolding L(2)
    by (simp add: get_log_state_def split: option.split)
qed

lemma sample_index: "entry_ix sample_wal (log_entry i) = i"
  by (simp add: entry_ix_def sample_wal_def wal_book_def log_entry_def)

lemma sample_appendable: "appendable sample_wal \<lparr>al_entries = [], al_vote = None, al_purged = None\<rparr> [log_entry 1, log_entry 2]"
  using sample_ok[of 1] sample_ok[of 2] by (simp add: appendable_def sample_index unpurged_def)

lemma append_works:
  assumes rep: "log_rep C st L" and es: "\<forall>e \<in> set es. rec_ok C (WalEntry e)" and room: "Suc (lg_writer_seq st) < 2 ^ 32"
  shows "\<exists>st'. append_blocking C no_faults st es = (st', None)"
proof -
  obtain st1 where st1: "make_room no_faults (length (rec_stream C (map WalEntry es))) st = (st1, None)"
    using make_room_rotates[OF _ rep room, of no_faults] by (auto simp: rotates_def no_faults_def)
  show ?thesis
    using st1 encode_loop_ok[OF es, of "[]" "[]" 0]
    by (simp add: append_blocking_def encode_entries_def no_faults_def Let_def)
qed

lemma sample_append: "\<exists>st. append_blocking sample_wal no_faults fresh_log [log_entry 1, log_entry 2] = (st, None)"
proof -
  obtain L where "log_rep sample_wal fresh_log L" using wal_laws.log_run_rep[OF sample_laws fresh_run] by blast
  from append_works[OF this, of "[log_entry 1, log_entry 2]"] show ?thesis
    using sample_ok[of 1] sample_ok[of 2] by (simp add: fresh_log_def)
qed

text \<open>After two appended entries the read of the first index returns the first.\<close>

theorem log_refines_witness:
  "\<exists>st. append_blocking sample_wal no_faults fresh_log [log_entry 1, log_entry 2] = (st, None)
     \<and> try_get_log_entries sample_wal st (Included 1) (Excluded 2) = Inr [log_entry 1]
     \<and> get_log_state st = (None, Some 2)"
proof -
  obtain st where st: "append_blocking sample_wal no_faults fresh_log [log_entry 1, log_entry 2] = (st, None)"
    using sample_append by blast
  have "log_run sample_wal st (al_append [log_entry 1, log_entry 2] \<lparr>al_entries = [], al_vote = None, al_purged = None\<rparr>)"
    by (rule run_append[OF fresh_run sample_appendable _ st]) (simp add: fresh_log_def)
  from log_refines[OF sample_laws this, of "Included 1" "Excluded 2"] show ?thesis
    using st by (simp add: al_append_def sample_index vec_last_def) (simp add: log_entry_def)
qed

section \<open>Crashes and faults\<close>





section \<open>Records above the bound\<close>

lemma big_frame:
  assumes "wal_laws C" "length payload < 2 ^ 32"
  shows "frame_len (disk_frame C payload @ payload) = length payload" "frame_crc (disk_frame C payload @ payload) = wc_crc C payload"
    "frame_payload (disk_frame C payload @ payload) = payload"
proof -
  have w: "wrap_u32 (length payload) = length payload" "wc_crc C payload < 2 ^ 32"
    using assms(2) wal_laws.crc_u32[OF assms(1)] by (simp_all add: wrap_u32_def)
  show l: "frame_len (disk_frame C payload @ payload) = length payload"
    using assms(2) w(1) from_to_le_bytes[of "length payload" 4] by (simp add: frame_len_def disk_frame_def)
  show "frame_crc (disk_frame C payload @ payload) = wc_crc C payload"
    using w(2) from_to_le_bytes[of "wc_crc C payload" 4] by (simp add: frame_crc_def disk_frame_def)
  show "frame_payload (disk_frame C payload @ payload) = payload"
    unfolding frame_payload_def l by (simp add: disk_frame_def)
qed

text \<open>
  C31: The append does not check the record bound that recovery enforces.  An entry whose encoding is
  longer than \<open>MAX_RECORD_LEN\<close>, appended to a fresh log, is written, synced, acknowledged and read back, but
  opening the directory again takes its record for a torn tail and drops it.
\<close>

theorem oversized_entry_lost:
  fixes C :: "('l, 'm, 'v) wal_codec"
  assumes laws: "wal_laws C" and p: "wc_to_allocvec C (WalEntry e) = Inr payload" "MAX_RECORD_LEN < length payload" "length payload < 2 ^ 32"
    and st: "open_with_segment_size_and_fsync C path [] None sz (Some 0) = Inr st"
  shows "\<exists>st' st2. append_blocking C no_faults st [e] = (st', None)
    \<and> try_get_log_entries C st' Unbounded Unbounded = Inr [e]
    \<and> open_with_segment_size_and_fsync C path (lg_files st') (lg_state_file st') sz (Some 0) = Inr st2
    \<and> try_get_log_entries C st2 Unbounded Unbounded = Inr []"
proof -
  let ?buf = "disk_frame C payload @ payload" and ?i = "entry_ix C e"
  define st' :: "('l, 'v) LogStore" where "st' = \<lparr>lg_dir = path, lg_files = [(0, \<lparr>wf_bytes = segment_header @ ?buf, wf_synced = length (segment_header @ ?buf)\<rparr>)],
    lg_state_file = None, lg_segment_size = sz, lg_fsync = EveryAppend, lg_dirty = False,
    lg_index = [(?i, \<lparr>rl_seq = 0, rl_offset = 8, rl_len = length payload\<rparr>)],
    lg_state = RuntimeState_default\<lparr>rt_last_log_id := Some (en_log_id e)\<rparr>, lg_writer_seq = 0, lg_writer_len = 8 + length ?buf,
    lg_segments = [\<lparr>sg_seq = 0, sg_first_index = Some ?i, sg_last_index = Some ?i\<rparr>]\<rparr>"
  have w: "wrap_u32 (length payload) = length payload" using p(3) by (simp add: wrap_u32_def)
  note b = big_frame[OF laws p(3)]
  have len: "length (disk_frame C payload) = 8" by (simp add: disk_frame_def)
  have dec: "decode_record C payload = Inr (WalEntry e)" using wal_laws.record_law[OF laws p(1)] by (simp add: decode_record_def)
  have st0: "st = \<lparr>lg_dir = path, lg_files = [(0, \<lparr>wf_bytes = segment_header, wf_synced = 8\<rparr>)], lg_state_file = None, lg_segment_size = sz,
      lg_fsync = EveryAppend, lg_dirty = True, lg_index = [], lg_state = RuntimeState_default, lg_writer_seq = 0,
      lg_writer_len = 8, lg_segments = [SegmentMeta_new 0]\<rparr>"
    using st by (auto simp: open_with_segment_size_and_fsync_def Let_def heal_purge_def RuntimeState_default_def SegmentMeta_new_def
        FsyncPolicy_from_option_def)
  have a: "append_blocking C no_faults st [e] = (st', None)"
    by (simp add: st0 append_blocking_def encode_entries_def p(1) w make_room_def SEGMENT_HEADER_LEN_def no_faults_def change_file_def
        file_append_def file_sync_def note_entries_def insert_loc_def SegmentMeta_new_def entry_ix_def vec_last_def st'_def Let_def)
  have r: "try_get_log_entries C st' Unbounded Unbounded = Inr [e]"
    by (simp add: try_get_log_entries_def st'_def bt_values_def read_entries_blocking_def reader_def find_segment_def read_exact_at_def
        RECORD_HEADER_LEN_def b dec len)
  have sl: "scan_loop C 0 8 ?buf sc = (sc, 8, True)" for sc :: "('l, 'v) scan"
    using p(2) len by (subst scan_loop.simps) (auto simp: frame_short_def b(1))
  have h: "take 4 (segment_header @ ?buf) = SEGMENT_MAGIC" "from_le_bytes (take 4 (drop 4 (segment_header @ ?buf))) = SEGMENT_VERSION"
    by (rule header_fields)+
  let ?sc = "\<lparr>sc_index = [], sc_state = RuntimeState_default, sc_expected_next = None, sc_meta = SegmentMeta_new 0\<rparr> :: ('l, 'v) scan"
  have cut: "drop 8 (segment_header @ ?buf) = ?buf" "take 8 (segment_header @ ?buf) = segment_header" by simp_all
  have "recover_segment C q 0 \<lparr>wf_bytes = segment_header @ ?buf, wf_synced = n\<rparr> True False ?sc
      = Inr (\<lparr>wf_bytes = segment_header, wf_synced = 8\<rparr>, ?sc, Some (SegmentMeta_new 0), False)" for q n
    using h sl by (simp add: recover_segment_def Let_def SEGMENT_HEADER_LEN_def file_set_len_def file_sync_def cut del: take_append drop_append)
  then have "recover_segments C path False (lg_files st') ?sc = Inr ([(0, \<lparr>wf_bytes = segment_header, wf_synced = 8\<rparr>)], [SegmentMeta_new 0], ?sc)"
    by (simp add: st'_def)
  moreover have "lg_state_file st' = None" "rt_last_purged (RuntimeState_default :: ('l, 'v) RuntimeState) = None" "sg_seq (SegmentMeta_new 0) = 0"
    by (simp_all add: st'_def RuntimeState_default_def SegmentMeta_new_def)
  ultimately have "open_with_segment_size_and_fsync C path (lg_files st') (lg_state_file st') sz (Some 0) = Inr st"
    by (simp add: open_with_segment_size_and_fsync_def FsyncPolicy_from_option_def Let_def heal_purge_def st0)
  moreover have "try_get_log_entries C st Unbounded Unbounded = Inr []" by (simp add: try_get_log_entries_def st0 bt_values_def)
  ultimately show ?thesis using a r by blast
qed

text \<open>With a codec that pads every record to more than the bound.\<close>

definition padded_wal :: "(u64, unit, u64) wal_codec" where
  "padded_wal = wal_book MAX_RECORD_LEN [WalEntry (log_entry 1)] []"

theorem oversized_entry_lost_witness:
  "\<exists>st st2. append_blocking padded_wal no_faults fresh_log [log_entry 1] = (st, None)
     \<and> open_with_segment_size_and_fsync padded_wal ''wal'' (lg_files st) (lg_state_file st) 64 (Some 0) = Inr st2
     \<and> try_get_log_entries padded_wal st2 Unbounded Unbounded = Inr []"
proof -
  have laws: "wal_laws padded_wal" unfolding padded_wal_def by (rule wal_book.wal_laws_axioms)
  have p: "wc_to_allocvec padded_wal (WalEntry (log_entry 1)) = Inr (replicate MAX_RECORD_LEN 0 @ [0])" by (simp add: padded_wal_def wal_book_def position_def)
  have st: "open_with_segment_size_and_fsync padded_wal ''wal'' [] None 64 (Some 0) = Inr fresh_log"
    by (simp add: open_with_segment_size_and_fsync_def heal_purge_def RuntimeState_default_def SegmentMeta_new_def fresh_log_def
        FsyncPolicy_from_option_def)
  have "MAX_RECORD_LEN < length (replicate MAX_RECORD_LEN 0 @ [0 :: u8])" "length (replicate MAX_RECORD_LEN 0 @ [0 :: u8]) < 2 ^ 32"
    by (simp_all add: MAX_RECORD_LEN_def)
  from oversized_entry_lost[OF laws p this st] show ?thesis by blast
qed

section \<open>A failed rotation\<close>

lemma change_file_simps:
  "lg_writer_seq (change_file q h st) = lg_writer_seq st" "lg_fsync (change_file q h st) = lg_fsync st"
  "bt_get k (lg_files (change_file q h st)) = None \<longleftrightarrow> bt_get k (lg_files st) = None"
  by (simp_all add: change_file_def bt_get_insert split: option.split)

text \<open>
  A rotation whose header write fails leaves the new file behind, and every later rotation fails because
  the file exists.
\<close>

lemma failed_rotation_sticks:
  assumes io: "io SyncOldSegment = None" "io CreateSegment = None" "io WriteSegmentHeader = Some (n, e)"
    and new: "bt_get (wrap_u32 (lg_writer_seq st + 1)) (lg_files st) = None"
  shows "\<exists>st'. rotate_segment io st = (st', Some e) \<and> snd (rotate_segment no_faults st') = Some (IoError AlreadyExists '''')"
proof -
  have r: "rotate_create io s = (change_file (wrap_u32 (lg_writer_seq s + 1)) (file_append (take n segment_header))
        (s\<lparr>lg_files := bt_insert (wrap_u32 (lg_writer_seq s + 1)) \<lparr>wf_bytes = [], wf_synced = 0\<rparr> (lg_files s)\<rparr>), Some e)"
    if "bt_get (wrap_u32 (lg_writer_seq s + 1)) (lg_files s) = None" for s :: "('a, 'b) LogStore"
    using that by (simp add: rotate_create_def io Let_def)
  have f: "snd (rotate_segment no_faults s) = Some (IoError AlreadyExists '''')"
    if "bt_get (wrap_u32 (lg_writer_seq s + 1)) (lg_files s) \<noteq> None" for s :: "('a, 'b) LogStore"
    using that by (simp add: rotate_segment_def rotate_create_def no_faults_def Let_def change_file_simps del: not_None_eq)
  define s1 where "s1 = (if fsync_enabled (lg_fsync st) then change_file (lg_writer_seq st) file_sync st else st)"
  have s1: "lg_writer_seq s1 = lg_writer_seq st" "bt_get (wrap_u32 (lg_writer_seq s1 + 1)) (lg_files s1) = None"
    using new by (simp_all add: s1_def change_file_simps)
  define s2 where "s2 = change_file (wrap_u32 (lg_writer_seq s1 + 1)) (file_append (take n segment_header))
    (s1\<lparr>lg_files := bt_insert (wrap_u32 (lg_writer_seq s1 + 1)) \<lparr>wf_bytes = [], wf_synced = 0\<rparr> (lg_files s1)\<rparr>)"
  have "rotate_segment io st = rotate_create io s1" by (simp add: rotate_segment_def io(1) s1_def)
  also have "\<dots> = (s2, Some e)" using r[OF s1(2)] by (simp add: s2_def)
  finally have "rotate_segment io st = (s2, Some e)" .
  moreover have "bt_get (wrap_u32 (lg_writer_seq s2 + 1)) (lg_files s2) \<noteq> None"
    by (simp add: s2_def change_file_simps bt_get_insert del: not_None_eq)
  note f[OF this]
  ultimately show ?thesis by blast
qed

end
