(* ===== verification/Order_Desk.thy ===== *)
theory Order_Desk
  imports State_Machine "HOL-Library.Monad_Syntax"
begin

text \<open>
  The order desk of \<open>demos/order_system\<close>: freeze and settlement estimates (\<open>freeze.rs\<close>), and the tickets,
  leverage records and views of its backend (\<open>state.rs\<close>).  What a backend reads from and writes to its
  engine over HTTP is an argument of the operation.
\<close>

section \<open>Types of the estimates\<close>

datatype Product = Spot | Perpetual

datatype PositionSide = LongSide | ShortSide

definition MIN_PERPETUAL_LEVERAGE :: u32 where
  "MIN_PERPETUAL_LEVERAGE = 1"

definition MAX_PERPETUAL_LEVERAGE :: u32 where
  "MAX_PERPETUAL_LEVERAGE = 100"

datatype FreezeRole = FR_Maker | FR_Taker

datatype FreezeBasis =
  QuoteNotional | BasePrincipal | QuoteNotionalPlusFee | QuoteCollateralPlusFee | PerpetualMarginPlusFee

datatype FeeFunding =
    WithholdFromBaseDelivery | WithholdFromQuoteProceeds | DeductFromQuoteFreeze | BaseFromBaseDelivery
  | BaseAgainstQuoteCollateral | DeductFromMargin

record AssetAmount =
  aa_asset :: string
  aa_amount :: fixed

record SettlementLeg =
  sl_role :: FreezeRole
  sl_fee_rate :: fixed
  sl_delivers :: AssetAmount
  sl_receives :: AssetAmount
  sl_fee :: AssetAmount

record PerpetualTerms =
  pt_leverage :: u32
  pt_position :: PositionSide
  pt_notional :: fixed
  pt_initial_margin :: fixed
  pt_fee :: AssetAmount
  pt_buffer :: fixed

record FreezeEstimate =
  fe_asset :: string
  fe_amount :: fixed
  fe_basis :: FreezeBasis
  fe_role :: FreezeRole
  fe_fee_rate :: fixed
  fe_reference_price :: fixed

record OrderEconomics =
  oe_product :: Product
  oe_freeze :: FreezeEstimate
  oe_maker :: "SettlementLeg option"
  oe_taker :: "SettlementLeg option"
  oe_fee_funding :: FeeFunding
  oe_perpetual :: "PerpetualTerms option"

record AssetFreeze =
  af_asset :: string
  af_amount :: fixed
  af_orders :: nat

record Amounts =
  am_price :: fixed
  am_base :: fixed
  am_quote :: fixed

section \<open>Estimates\<close>

definition perpetual_supported :: "SymbolConfig \<Rightarrow> bool" where
  "perpetual_supported symbol \<longleftrightarrow> fee_asset_policy symbol = FAP_Quote"

definition validate_leverage :: "u32 \<Rightarrow> string + unit" where
  "validate_leverage leverage =
     (if \<not> (MIN_PERPETUAL_LEVERAGE \<le> leverage \<and> leverage \<le> MAX_PERPETUAL_LEVERAGE)
      then Inl (''leverage must be between '' @ show_nat MIN_PERPETUAL_LEVERAGE @ '' and '' @ show_nat MAX_PERPETUAL_LEVERAGE)
      else Inr ())"

definition selected_rate :: "bool \<Rightarrow> fixed \<Rightarrow> fixed \<Rightarrow> bool \<Rightarrow> FreezeRole \<times> fixed" where
  "selected_rate can_rest maker_rate taker_rate worst_case_freeze =
     (if \<not> can_rest then (FR_Taker, fixed_max taker_rate 0)
      else if worst_case_freeze then
        let maker_rate = fixed_max maker_rate 0; taker_rate = fixed_max taker_rate 0
        in if maker_rate \<le> taker_rate then (FR_Taker, taker_rate) else (FR_Maker, maker_rate)
      else (FR_Maker, fixed_max maker_rate 0))"

definition precision_step :: "u8 \<Rightarrow> fixed" where
  "precision_step decimals = from_raw (10 ^ (18 - min decimals 18))"

definition ceil_quote :: "fixed \<Rightarrow> SymbolConfig \<Rightarrow> fixed" where
  "ceil_quote value symbol = ceil_to_multiple value (precision_step (asset_decimals (quote_asset symbol)))"

definition base_step :: "SymbolConfig \<Rightarrow> fixed" where
  "base_step symbol = fixed_max (base_lot symbol) (precision_step (asset_decimals (base_asset symbol)))"

definition ceil_base :: "fixed \<Rightarrow> SymbolConfig \<Rightarrow> fixed" where
  "ceil_base value symbol = ceil_to_multiple value (base_step symbol)"

definition perpetual_economics ::
  "'w i256 \<Rightarrow> Order \<Rightarrow> SymbolConfig \<Rightarrow> Amounts \<Rightarrow> FreezeRole \<Rightarrow> fixed \<Rightarrow> u32 \<Rightarrow> OrderEconomics option" where
  "perpetual_economics I o1 symbol amounts role fee_rate leverage =
     (if \<not> perpetual_supported symbol \<or> isl (validate_leverage leverage) then None
      else do {
        traded \<leftarrow> checked_mul I (am_base amounts) (am_price amounts);
        let notional = fixed_max (am_quote amounts) traded;
        initial_margin \<leftarrow> checked_div I notional (from_units (int leverage));
        fee_amount \<leftarrow> checked_mul I notional fee_rate;
        let buffer = 0;
        let amount = ceil_quote (saturating_add (saturating_add initial_margin fee_amount) buffer) symbol;
        Some \<lparr>oe_product = Perpetual,
              oe_freeze = \<lparr>fe_asset = asset_code (quote_asset symbol), fe_amount = amount, fe_basis = PerpetualMarginPlusFee,
                           fe_role = role, fe_fee_rate = fee_rate, fe_reference_price = am_price amounts\<rparr>,
              oe_maker = None, oe_taker = None, oe_fee_funding = DeductFromMargin,
              oe_perpetual = Some \<lparr>pt_leverage = leverage,
                pt_position = (case o_side o1 of Buy \<Rightarrow> LongSide | Sell \<Rightarrow> ShortSide), pt_notional = notional,
                pt_initial_margin = initial_margin,
                pt_fee = \<lparr>aa_asset = asset_code (quote_asset symbol), aa_amount = fee_amount\<rparr>, pt_buffer = buffer\<rparr>\<rparr> })"

definition can_rest :: "Order \<Rightarrow> bool" where
  "can_rest o1 \<longleftrightarrow> o_live o1 = Limit \<and> \<not> is_stop o1 \<and> \<not> is_immediate (o_tif o1)"

fun fee_funding :: "FeeAssetPolicy \<Rightarrow> OrderSide \<Rightarrow> FeeFunding" where
  "fee_funding Received Buy = WithholdFromBaseDelivery"
| "fee_funding Received Sell = WithholdFromQuoteProceeds"
| "fee_funding FAP_Quote Buy = DeductFromQuoteFreeze"
| "fee_funding FAP_Quote Sell = WithholdFromQuoteProceeds"
| "fee_funding FAP_Base Buy = BaseFromBaseDelivery"
| "fee_funding FAP_Base Sell = BaseAgainstQuoteCollateral"

definition reference_price :: "Order \<Rightarrow> fixed option \<Rightarrow> fixed option" where
  "reference_price o1 fallback_price =
     (if 0 < o_price o1 then Some (o_price o1)
      else if 0 < o_stop_price o1 then Some (o_stop_price o1)
      else if o_live o1 = Market
      then (case fallback_price of None \<Rightarrow> None | Some price \<Rightarrow> if 0 < price then Some price else None)
      else None)"

definition order_amounts :: "'w i256 \<Rightarrow> Order \<Rightarrow> SymbolConfig \<Rightarrow> fixed option \<Rightarrow> Amounts option" where
  "order_amounts I o1 symbol fallback_price = do {
     price \<leftarrow> reference_price o1 fallback_price;
     (base, quote) \<leftarrow>
       (case o_volume_unit o1 of
          VU_Base \<Rightarrow> do { quote \<leftarrow> checked_mul I price (open_volume o1); Some (open_volume o1, quote) }
        | VU_Quote \<Rightarrow> do {
            raw_base \<leftarrow> checked_div I (o_volume o1) price;
            (case o_live o1 of
               Limit \<Rightarrow> do {
                 quote \<leftarrow> checked_mul I price (floor_to_multiple raw_base (base_lot symbol));
                 Some (floor_to_multiple raw_base (base_lot symbol), quote) }
             | Market \<Rightarrow>
                 Some (case o_side o1 of Buy \<Rightarrow> floor_to_multiple raw_base (base_lot symbol)
                                       | Sell \<Rightarrow> ceil_to_multiple raw_base (base_lot symbol), o_volume o1)) });
     (if base \<le> 0 \<or> quote \<le> 0 then None else Some \<lparr>am_price = price, am_base = base, am_quote = quote\<rparr>) }"

definition desk_asset_code :: "SymbolConfig \<Rightarrow> FeeAsset \<Rightarrow> string" where
  "desk_asset_code symbol asset =
     (case asset of FA_Base \<Rightarrow> asset_code (base_asset symbol) | FA_Quote \<Rightarrow> asset_code (quote_asset symbol))"

definition settlement_leg ::
  "'w i256 \<Rightarrow> Order \<Rightarrow> SymbolConfig \<Rightarrow> Amounts \<Rightarrow> FreezeRole \<Rightarrow> fixed \<Rightarrow> SettlementLeg option" where
  "settlement_leg I o1 symbol amounts role fee_rate = do {
     let fee_asset = fee_asset (fee_asset_policy symbol) (o_side o1);
     fee_amount \<leftarrow> (case fee_asset of FA_Base \<Rightarrow> checked_mul I (am_base amounts) fee_rate
                                 | FA_Quote \<Rightarrow> checked_mul I (am_quote amounts) fee_rate);
     let quote = \<lparr>aa_asset = asset_code (quote_asset symbol), aa_amount = am_quote amounts\<rparr>;
     let base = \<lparr>aa_asset = asset_code (base_asset symbol), aa_amount = am_base amounts\<rparr>;
     let (delivers, receives) = (case o_side o1 of Buy \<Rightarrow> (quote, base) | Sell \<Rightarrow> (base, quote));
     Some \<lparr>sl_role = role, sl_fee_rate = fee_rate, sl_delivers = delivers, sl_receives = receives,
           sl_fee = \<lparr>aa_asset = desk_asset_code symbol fee_asset, aa_amount = fee_amount\<rparr>\<rparr> }"

definition freeze_estimate ::
  "'w i256 \<Rightarrow> Order \<Rightarrow> SymbolConfig \<Rightarrow> Amounts \<Rightarrow> FreezeRole \<Rightarrow> fixed \<Rightarrow> FreezeEstimate option" where
  "freeze_estimate I o1 symbol amounts role fee_rate = do {
     let quote_code = asset_code (quote_asset symbol);
     let base_code = asset_code (base_asset symbol);
     (asset, amount, basis) \<leftarrow>
       (case (fee_asset_policy symbol, o_side o1) of
          (Received, Buy) \<Rightarrow> Some (quote_code, ceil_quote (am_quote amounts) symbol, QuoteNotional)
        | (Received, Sell) \<Rightarrow> Some (base_code, ceil_base (am_base amounts) symbol, BasePrincipal)
        | (FAP_Quote, Buy) \<Rightarrow> do {
            fee \<leftarrow> checked_mul I (am_quote amounts) fee_rate;
            Some (quote_code, ceil_quote (saturating_add (am_quote amounts) fee) symbol, QuoteNotionalPlusFee) }
        | (FAP_Quote, Sell) \<Rightarrow> Some (base_code, ceil_base (am_base amounts) symbol, BasePrincipal)
        | (FAP_Base, _) \<Rightarrow>
            if fee_asset (fee_asset_policy symbol) (o_side o1) \<noteq> FA_Base then None
            else do {
              traded \<leftarrow> checked_mul I (am_base amounts) (am_price amounts);
              let notional = fixed_max (am_quote amounts) traded;
              base_fee \<leftarrow> checked_mul I (am_base amounts) fee_rate;
              reserve \<leftarrow> checked_mul I base_fee (am_price amounts);
              Some (quote_code, ceil_quote (saturating_add notional reserve) symbol, QuoteCollateralPlusFee) });
     Some \<lparr>fe_asset = asset, fe_amount = amount, fe_basis = basis, fe_role = role, fe_fee_rate = fee_rate,
           fe_reference_price = am_price amounts\<rparr> }"

definition estimate ::
  "'w i256 \<Rightarrow> Order \<Rightarrow> SymbolConfig \<Rightarrow> fixed option \<Rightarrow> bool \<Rightarrow> Product \<Rightarrow> u32 \<Rightarrow> OrderEconomics option" where
  "estimate I o1 symbol fallback_price worst_case_freeze product leverage = do {
     amounts \<leftarrow> order_amounts I o1 symbol fallback_price;
     let (role, rate) = selected_rate (can_rest o1) (o_maker_fee_rate o1) (o_taker_fee_rate o1) worst_case_freeze;
     (if product = Perpetual then perpetual_economics I o1 symbol amounts role rate leverage
      else do {
        maker \<leftarrow> (if can_rest o1
                  then map_option Some (settlement_leg I o1 symbol amounts FR_Maker (o_maker_fee_rate o1))
                  else Some None);
        taker \<leftarrow> settlement_leg I o1 symbol amounts FR_Taker (o_taker_fee_rate o1);
        freeze \<leftarrow> freeze_estimate I o1 symbol amounts role rate;
        Some \<lparr>oe_product = Spot, oe_freeze = freeze, oe_maker = maker, oe_taker = Some taker,
              oe_fee_funding = fee_funding (fee_asset_policy symbol) (o_side o1), oe_perpetual = None\<rparr> }) }"

definition estimate_order_economics ::
  "'w i256 \<Rightarrow> Order \<Rightarrow> SymbolConfig \<Rightarrow> Product \<Rightarrow> u32 \<Rightarrow> OrderEconomics option" where
  "estimate_order_economics I o1 symbol product leverage = estimate I o1 symbol None False product leverage"

definition estimate_ticket_economics ::
  "'w i256 \<Rightarrow> Order \<Rightarrow> SymbolConfig \<Rightarrow> fixed option \<Rightarrow> Product \<Rightarrow> u32 \<Rightarrow> OrderEconomics option" where
  "estimate_ticket_economics I o1 symbol fallback_price product leverage =
     estimate I o1 symbol fallback_price True product leverage"

section \<open>Totals by asset\<close>

definition add_freeze :: "(string, fixed \<times> nat) btree \<Rightarrow> FreezeEstimate \<Rightarrow> (string, fixed \<times> nat) btree" where
  "add_freeze by_asset est =
     (let entry = (case bt_get (fe_asset est) by_asset of None \<Rightarrow> (0, 0) | Some e \<Rightarrow> e)
      in bt_insert (fe_asset est) (saturating_add (fst entry) (fe_amount est), snd entry + 1) by_asset)"

definition summarize_freezes :: "FreezeEstimate list \<Rightarrow> AssetFreeze list" where
  "summarize_freezes estimates =
     map (\<lambda>(asset, amount, orders). \<lparr>af_asset = asset, af_amount = amount, af_orders = orders\<rparr>) (foldl add_freeze [] estimates)"

section \<open>Errors of the desk\<close>

text \<open>An HTTP status is its number.\<close>

record ApiError =
  ae_status :: nat
  ae_kind :: string
  ae_message :: string
  ae_leader_id :: "u64 option"
  ae_leader_addr :: "string option"

definition ApiError_new :: "nat \<Rightarrow> string \<Rightarrow> string \<Rightarrow> ApiError" where
  "ApiError_new status kind message =
     \<lparr>ae_status = status, ae_kind = kind, ae_message = message, ae_leader_id = None, ae_leader_addr = None\<rparr>"

definition bad_request :: "string \<Rightarrow> ApiError" where
  "bad_request message = ApiError_new 400 ''bad_request'' message"

definition conflict :: "string \<Rightarrow> string \<Rightarrow> ApiError" where
  "conflict kind message = ApiError_new 409 kind message"

definition unavailable :: "string \<Rightarrow> ApiError" where
  "unavailable message = ApiError_new 503 ''unavailable'' message"

definition not_configured :: "string \<Rightarrow> ApiError" where
  "not_configured message = ApiError_new 400 ''not_configured'' message"

definition decode_error :: "string \<Rightarrow> ApiError" where
  "decode_error message = ApiError_new 502 ''decode'' message"

section \<open>Tickets\<close>

definition SCHEMA_VERSION :: u8 where
  "SCHEMA_VERSION = 2"

definition PERPETUAL_POLICY_HINT :: string where
  "PERPETUAL_POLICY_HINT = ''linear perpetual requires fee_asset_policy=quote; configure the symbol before trading''"

definition PERPETUAL_BACKEND_HINT :: string where
  "PERPETUAL_BACKEND_HINT = ''perpetual backend is not configured; start the demo with --perp-engine <addr>''"

definition to_ascii_uppercase :: "string \<Rightarrow> string" where
  "to_ascii_uppercase s = map (\<lambda>c. if CHR ''a'' \<le> c \<and> c \<le> CHR ''z'' then char_of (of_char c - 32 :: nat) else c) s"

definition parse_tif :: "string \<Rightarrow> u64 option \<Rightarrow> ApiError + TimeInForce" where
  "parse_tif tif expiry_ms =
     (let other = to_ascii_uppercase tif
      in if other = '''' \<or> other = ''GTC'' then Inr Gtc
         else if other = ''IOC'' then Inr Ioc
         else if other = ''FOK'' then Inr Fok
         else if other = ''DAY'' then Inr Day
         else if other = ''GTD'' then
           (case expiry_ms of
              None \<Rightarrow> Inl (bad_request ''GTD requires expiry_ms'')
            | Some expiry \<Rightarrow>
                if expiry = 0 then Inl (bad_request ''GTD expiry_ms must be greater than 0'') else Inr (Gtd expiry))
         else Inl (bad_request (''unsupported time in force: '' @ other)))"

definition validate_fee_rate :: "fixed \<Rightarrow> string \<Rightarrow> ApiError + fixed" where
  "validate_fee_rate rate field =
     (if \<not> (MIN_FEE_RATE \<le> rate \<and> rate \<le> MAX_FEE_RATE)
      then Inl (bad_request (field @ '' must be between -1 and 1 (0.001 = 10 bps)''))
      else Inr rate)"

record PlaceTicket =
  tk_side :: OrderSide
  tk_product :: Product
  tk_leverage :: "u32 option"
  tk_order_type :: OrderType
  tk_tif :: string
  tk_price :: "fixed option"
  tk_volume :: fixed
  tk_volume_unit :: VolumeUnit
  tk_post_only :: bool
  tk_stop_price :: "fixed option"
  tk_display_volume :: "fixed option"
  tk_expiry_ms :: "u64 option"
  tk_maker_fee_rate :: fixed
  tk_taker_fee_rate :: fixed
  tk_client_order_id :: "string option"

record CancelTicket =
  ct_product :: Product
  ct_side :: OrderSide
  ct_price :: fixed
  ct_sequence :: u64

record AmendTicket =
  at_product :: Product
  at_side :: OrderSide
  at_price :: fixed
  at_sequence :: u64
  at_new_price :: "fixed option"
  at_new_volume :: "fixed option"

definition or_zero :: "fixed option \<Rightarrow> fixed" where
  "or_zero x = (case x of None \<Rightarrow> 0 | Some v \<Rightarrow> v)"

definition build_order :: "PlaceTicket \<Rightarrow> u32 \<Rightarrow> ApiError + Order" where
  "build_order ticket symbol_id =
     (case parse_tif (tk_tif ticket) (tk_expiry_ms ticket) of
        Inl e \<Rightarrow> Inl e
      | Inr tif \<Rightarrow>
          (case validate_fee_rate (tk_maker_fee_rate ticket) ''maker_fee_rate'' of
             Inl e \<Rightarrow> Inl e
           | Inr maker_fee_rate \<Rightarrow>
               (case validate_fee_rate (tk_taker_fee_rate ticket) ''taker_fee_rate'' of
                  Inl e \<Rightarrow> Inl e
                | Inr taker_fee_rate \<Rightarrow>
                    Inr ((Order_new (tk_side ticket) (or_zero (tk_price ticket)) (tk_volume ticket) 0)
                      \<lparr>o_live := tk_order_type ticket, o_symbol_id := symbol_id, o_volume_unit := tk_volume_unit ticket,
                       o_tif := tif, o_post_only := tk_post_only ticket, o_stop_price := or_zero (tk_stop_price ticket),
                       o_display_volume := or_zero (tk_display_volume ticket), o_maker_fee_rate := maker_fee_rate,
                       o_taker_fee_rate := taker_fee_rate\<rparr>))))"

definition validate_product :: "SymbolConfig \<Rightarrow> Product \<Rightarrow> u32 \<Rightarrow> ApiError + unit" where
  "validate_product symbol product leverage =
     (if product \<noteq> Perpetual then Inr ()
      else (case validate_leverage leverage of
              Inl e \<Rightarrow> Inl (bad_request e)
            | Inr _ \<Rightarrow> if \<not> perpetual_supported symbol then Inl (bad_request PERPETUAL_POLICY_HINT) else Inr ()))"

section \<open>A backend\<close>

text \<open>The connection to the engine is left out of the record.\<close>

record EngineBackend =
  eb_product :: Product
  eb_engine_id :: u64
  eb_http_addr :: string
  eb_leverages :: "u64 \<rightharpoonup> u32"

definition EngineBackend_new :: "Product \<Rightarrow> u64 \<Rightarrow> string \<Rightarrow> EngineBackend" where
  "EngineBackend_new product engine_id http_addr =
     \<lparr>eb_product = product, eb_engine_id = engine_id, eb_http_addr = http_addr, eb_leverages = Map.empty\<rparr>"

definition remember_leverage :: "u64 option \<Rightarrow> u32 \<Rightarrow> EngineBackend \<Rightarrow> EngineBackend" where
  "remember_leverage sequence leverage b =
     (if eb_product b \<noteq> Perpetual then b
      else (case sequence of None \<Rightarrow> b | Some s \<Rightarrow> b\<lparr>eb_leverages := (eb_leverages b)(s \<mapsto> leverage)\<rparr>))"

definition take_leverage :: "u64 \<Rightarrow> EngineBackend \<Rightarrow> EngineBackend \<times> u32 option" where
  "take_leverage sequence b = (b\<lparr>eb_leverages := (eb_leverages b)(sequence := None)\<rparr>, eb_leverages b sequence)"

definition restore_leverage :: "u64 \<Rightarrow> u32 \<Rightarrow> EngineBackend \<Rightarrow> EngineBackend" where
  "restore_leverage sequence leverage b = b\<lparr>eb_leverages := (eb_leverages b)(sequence \<mapsto> leverage)\<rparr>"

record DeskOrder =
  dk_order :: Order
  dk_product :: Product
  dk_leverage :: "u32 option"
  dk_economics :: "OrderEconomics option"

definition desk_order :: "'w i256 \<Rightarrow> EngineBackend \<Rightarrow> SymbolConfig \<Rightarrow> Order \<Rightarrow> DeskOrder" where
  "desk_order I b symbol o1 =
     (let leverage = (if eb_product b = Perpetual then eb_leverages b (o_sequence o1) else None);
          economics = (case (eb_product b, leverage) of
              (Perpetual, None) \<Rightarrow> None
            | _ \<Rightarrow> estimate_order_economics I o1 symbol (eb_product b) (case leverage of None \<Rightarrow> 1 | Some l \<Rightarrow> l))
      in \<lparr>dk_order = o1, dk_product = eb_product b, dk_leverage = leverage, dk_economics = economics\<rparr>)"

definition desk_orders :: "'w i256 \<Rightarrow> EngineBackend \<Rightarrow> Order list \<Rightarrow> SymbolConfig \<Rightarrow> DeskOrder list" where
  "desk_orders I b items symbol = map (desk_order I b symbol) items"

record OrderResult =
  or_schema_version :: u8
  or_product :: Product
  or_sequence :: "u64 option"
  or_log_index :: u64
  or_events :: "MatchEvent list"
  or_events_truncated :: bool
  or_error :: "string option"

definition order_result :: "u64 \<Rightarrow> MatchEngineResponse \<Rightarrow> Product \<Rightarrow> OrderResult" where
  "order_result log_index data product =
     \<lparr>or_schema_version = SCHEMA_VERSION, or_product = product, or_sequence = rs_sequence data, or_log_index = log_index,
      or_events = rs_events data, or_events_truncated = rs_events_truncated data, or_error = rs_error data\<rparr>"

text \<open>
  What the engine answers to the reads and to the write of an operation: the symbol configuration, the
  symbol id, the sequence, the last price, and the committed response of the request with its log index.
\<close>

record engine_answers =
  ea_symbol_config :: "ApiError + SymbolConfig"
  ea_symbol_id :: "ApiError + u32"
  ea_sequence :: "ApiError + u64"
  ea_orders :: "ApiError + Order list"
  ea_stops :: "ApiError + Order list"
  ea_last_trade_price :: "ApiError + fixed option"
  ea_write :: "MatchEngineRequest \<Rightarrow> ApiError + (u64 \<times> MatchEngineResponse)"

definition desk_write :: "engine_answers \<Rightarrow> EngineBackend \<Rightarrow> MatchEngineRequest \<Rightarrow> ApiError + OrderResult" where
  "desk_write ans b request =
     (case ea_write ans request of Inl e \<Rightarrow> Inl e | Inr (log_index, data) \<Rightarrow> Inr (order_result log_index data (eb_product b)))"

definition desk_place :: "engine_answers \<Rightarrow> PlaceTicket \<Rightarrow> EngineBackend \<Rightarrow> EngineBackend \<times> (ApiError + OrderResult)" where
  "desk_place ans ticket b =
     (let leverage = (case tk_leverage ticket of None \<Rightarrow> 1 | Some l \<Rightarrow> l)
      in case ea_symbol_config ans of
           Inl e \<Rightarrow> (b, Inl e)
         | Inr symbol \<Rightarrow>
             (case validate_product symbol (eb_product b) leverage of
                Inl e \<Rightarrow> (b, Inl e)
              | Inr _ \<Rightarrow>
                  (case build_order ticket (cfg_symbol_id symbol) of
                     Inl e \<Rightarrow> (b, Inl e)
                   | Inr o1 \<Rightarrow>
                       (case desk_write ans b (Place o1 (tk_client_order_id ticket)) of
                          Inl e \<Rightarrow> (b, Inl e)
                        | Inr result \<Rightarrow>
                            (if or_error result = None then remember_leverage (or_sequence result) leverage b else b, Inr result)))))"

record FreezePreview =
  fp_schema_version :: u8
  fp_product :: Product
  fp_economics :: "OrderEconomics option"
  fp_reason :: "string option"

definition preview_freeze :: "'w i256 \<Rightarrow> engine_answers \<Rightarrow> PlaceTicket \<Rightarrow> EngineBackend \<Rightarrow> ApiError + FreezePreview" where
  "preview_freeze I ans ticket b =
     (let product = eb_product b; leverage = (case tk_leverage ticket of None \<Rightarrow> 1 | Some l \<Rightarrow> l)
      in case (if product = Perpetual then validate_leverage leverage else Inr ()) of
           Inl e \<Rightarrow> Inl (bad_request e)
         | Inr _ \<Rightarrow>
             (case ea_symbol_config ans of
                Inl e \<Rightarrow> Inl e
              | Inr symbol \<Rightarrow>
                  (case build_order ticket (cfg_symbol_id symbol) of
                     Inl e \<Rightarrow> Inl e
                   | Inr o1 \<Rightarrow>
                       (case ea_last_trade_price ans of
                          Inl e \<Rightarrow> Inl e
                        | Inr fallback_price \<Rightarrow>
                            let economics = estimate_ticket_economics I o1 symbol fallback_price product leverage
                            in Inr \<lparr>fp_schema_version = SCHEMA_VERSION, fp_product = product, fp_economics = economics,
                                 fp_reason =
                                   (if economics \<noteq> None then None
                                    else if product = Perpetual \<and> \<not> perpetual_supported symbol then Some PERPETUAL_POLICY_HINT
                                    else if o_live o1 = Market
                                    then Some ''no reference price: enter a stop price or trade first''
                                    else Some ''no reference price: enter a limit price'')\<rparr>))))"

definition desk_cancel :: "engine_answers \<Rightarrow> CancelTicket \<Rightarrow> EngineBackend \<Rightarrow> EngineBackend \<times> (ApiError + OrderResult)" where
  "desk_cancel ans request b =
     (case ea_symbol_id ans of
        Inl e \<Rightarrow> (b, Inl e)
      | Inr symbol_id \<Rightarrow>
          let o1 = (Order_new (ct_side request) (ct_price request) 0 (ct_sequence request))\<lparr>o_symbol_id := symbol_id\<rparr>
          in case desk_write ans b (Cancel o1) of
               Inl e \<Rightarrow> (b, Inl e)
             | Inr result \<Rightarrow> (if or_error result = None then fst (take_leverage (ct_sequence request) b) else b, Inr result))"

definition desk_amend :: "engine_answers \<Rightarrow> AmendTicket \<Rightarrow> EngineBackend \<Rightarrow> EngineBackend \<times> (ApiError + OrderResult)" where
  "desk_amend ans request b =
     (let old_sequence = at_sequence request; (b, leverage) = take_leverage old_sequence b
      in case ea_symbol_id ans of
           Inl e \<Rightarrow> (b, Inl e)
         | Inr symbol_id \<Rightarrow>
             let o1 = (Order_new (at_side request) (at_price request) 0 old_sequence)\<lparr>o_symbol_id := symbol_id\<rparr>
             in case desk_write ans b (Amend o1 (at_new_price request) (at_new_volume request)) of
                  Inl e \<Rightarrow> (b, Inl e)
                | Inr result \<Rightarrow>
                    (case leverage of
                       None \<Rightarrow> b
                     | Some leverage \<Rightarrow>
                         (case (or_error result, or_sequence result) of
                            (None, Some new_sequence) \<Rightarrow> restore_leverage new_sequence leverage b
                          | _ \<Rightarrow> restore_leverage old_sequence leverage b), Inr result))"

definition desk_configure_symbol :: "engine_answers \<Rightarrow> SymbolConfig \<Rightarrow> EngineBackend \<Rightarrow> ApiError + OrderResult" where
  "desk_configure_symbol ans config b =
     (case ea_sequence ans of
        Inl e \<Rightarrow> Inl e
      | Inr sequence \<Rightarrow>
          if 0 < sequence then Inl (conflict ''symbol_locked'' ''trading has started; the symbol configuration is locked'')
          else (case SymbolConfig_validate config of
                  Inl _ \<Rightarrow> Inl (bad_request ''invalid fixed-point decimal'')
                | Inr _ \<Rightarrow> desk_write ans b (ConfigureSymbol config)))"

section \<open>The view of the desk\<close>

record FreezeState =
  fs_orders :: "AssetFreeze list"
  fs_stops :: "AssetFreeze list"
  fs_total :: "AssetFreeze list"
  fs_estimated :: nat
  fs_unestimated :: nat

definition estimated_freezes :: "DeskOrder list \<Rightarrow> FreezeEstimate list" where
  "estimated_freezes items = map oe_freeze (List.map_filter dk_economics items)"

definition freeze_state :: "DeskOrder list \<Rightarrow> DeskOrder list \<Rightarrow> FreezeState" where
  "freeze_state resting parked =
     (let total_orders = length resting + length parked;
          estimated = length (filter (\<lambda>entry. dk_economics entry \<noteq> None) (resting @ parked))
      in \<lparr>fs_orders = summarize_freezes (estimated_freezes resting), fs_stops = summarize_freezes (estimated_freezes parked),
          fs_total = summarize_freezes (estimated_freezes resting @ estimated_freezes parked), fs_estimated = estimated,
          fs_unestimated = total_orders - estimated\<rparr>)"

text \<open>\<open>slice::sort_by\<close> is stable: an element goes before the elements it does not exceed.\<close>

primrec insert_by :: "('a \<Rightarrow> 'a \<Rightarrow> ordering) \<Rightarrow> 'a \<Rightarrow> 'a list \<Rightarrow> 'a list" where
  "insert_by c x [] = [x]"
| "insert_by c x (y # ys) = (if c x y = Greater then y # insert_by c x ys else x # y # ys)"

definition sort_by :: "('a \<Rightarrow> 'a \<Rightarrow> ordering) \<Rightarrow> 'a list \<Rightarrow> 'a list" where
  "sort_by c xs = foldr (insert_by c) xs []"

definition cmp_then :: "ordering \<Rightarrow> ordering \<Rightarrow> ordering" where
  "cmp_then a b = (if a = Equal then b else a)"

text \<open>The comparisons of the two sides, as the depth and the book view use them.\<close>

definition desk_cmp :: "OrderSide \<Rightarrow> Order \<Rightarrow> Order \<Rightarrow> ordering" where
  "desk_cmp side a b =
     cmp_then (case side of Buy \<Rightarrow> cmp (o_price b) (o_price a) | Sell \<Rightarrow> cmp (o_price a) (o_price b)) (cmp (o_sequence a) (o_sequence b))"

primrec desk_depth_walk :: "nat \<Rightarrow> DepthLevel list \<Rightarrow> Order list \<Rightarrow> DepthLevel list" where
  "desk_depth_walk levels acc [] = acc"
| "desk_depth_walk levels acc (o1 # os) =
     (if acc \<noteq> [] \<and> dl_price (last acc) = o_price o1
      then desk_depth_walk levels
             (butlast acc @ [(last acc)\<lparr>dl_volume := fixed_add (dl_volume (last acc)) (o_volume o1),
                dl_orders := wrap_u32 (dl_orders (last acc) + 1)\<rparr>]) os
      else if levels \<le> length acc then acc
      else desk_depth_walk levels (acc @ [\<lparr>dl_price = o_price o1, dl_volume = o_volume o1, dl_orders = 1\<rparr>]) os)"

definition depth_from_orders :: "Order list \<Rightarrow> OrderSide \<Rightarrow> nat \<Rightarrow> DepthLevel list" where
  "depth_from_orders items side levels =
     (if levels = 0 then []
      else
        let side_orders = sort_by (desk_cmp side) (filter (\<lambda>o1. o_side o1 = side) items)
        in desk_depth_walk levels [] side_orders)"

record FullBookResponse =
  fb_schema_version :: u8
  fb_product :: Product
  fb_market_seq :: u64
  fb_counts :: "nat \<times> nat \<times> nat"
  fb_bids :: "DeskOrder list"
  fb_asks :: "DeskOrder list"
  fb_stops :: "DeskOrder list"
  fb_depth :: "DepthLevel list \<times> DepthLevel list"
  fb_freeze :: FreezeState
  fb_truncated :: bool

definition usize_max :: nat where
  "usize_max = 2 ^ 64 - 1"

definition desk_book :: "'w i256 \<Rightarrow> engine_answers \<Rightarrow> nat \<Rightarrow> EngineBackend \<Rightarrow> ApiError + FullBookResponse" where
  "desk_book I ans limit b =
     (case ea_orders ans of Inl e \<Rightarrow> Inl e | Inr items \<Rightarrow>
      (case ea_stops ans of Inl e \<Rightarrow> Inl e | Inr parked \<Rightarrow>
       (case ea_sequence ans of Inl e \<Rightarrow> Inl e | Inr sequence \<Rightarrow>
        (case ea_symbol_config ans of Inl e \<Rightarrow> Inl e | Inr symbol \<Rightarrow>
          let all_orders = desk_orders I b items symbol;
              all_stops = desk_orders I b parked symbol;
              bids = sort_by (\<lambda>x y. desk_cmp Buy (dk_order x) (dk_order y)) (filter (\<lambda>e. o_side (dk_order e) = Buy) all_orders);
              asks = sort_by (\<lambda>x y. desk_cmp Sell (dk_order x) (dk_order y)) (filter (\<lambda>e. o_side (dk_order e) = Sell) all_orders)
          in Inr \<lparr>fb_schema_version = SCHEMA_VERSION, fb_product = eb_product b, fb_market_seq = sequence,
               fb_counts = (length bids, length asks, length all_stops),
               fb_bids = take limit bids, fb_asks = take limit asks, fb_stops = take limit all_stops,
               fb_depth = (depth_from_orders items Buy usize_max, depth_from_orders items Sell usize_max),
               fb_freeze = freeze_state all_orders all_stops,
               fb_truncated = (limit \<noteq> usize_max \<and> (limit < length bids \<or> limit < length asks \<or> limit < length all_stops))\<rparr>))))"

section \<open>The two products\<close>

record BackendInfo =
  bi_product :: Product
  bi_engine_id :: u64
  bi_http_addr :: string

definition backend_info :: "EngineBackend \<Rightarrow> BackendInfo" where
  "backend_info b = \<lparr>bi_product = eb_product b, bi_engine_id = eb_engine_id b, bi_http_addr = eb_http_addr b\<rparr>"

record DemoApp =
  da_spot :: EngineBackend
  da_perpetual :: "EngineBackend option"

record BackendsState =
  bs_spot :: BackendInfo
  bs_perpetual :: "BackendInfo option"

definition DemoApp_new :: "u64 \<Rightarrow> string \<Rightarrow> (u64 \<times> string) option \<Rightarrow> DemoApp" where
  "DemoApp_new engine_id engine_addr perpetual =
     \<lparr>da_spot = EngineBackend_new Spot engine_id engine_addr,
      da_perpetual = map_option (\<lambda>(engine_id, addr). EngineBackend_new Perpetual engine_id addr) perpetual\<rparr>"

definition app_backends :: "DemoApp \<Rightarrow> BackendsState" where
  "app_backends app = \<lparr>bs_spot = backend_info (da_spot app), bs_perpetual = map_option backend_info (da_perpetual app)\<rparr>"

definition app_backend :: "DemoApp \<Rightarrow> Product \<Rightarrow> ApiError + EngineBackend" where
  "app_backend app product =
     (case product of
        Spot \<Rightarrow> Inr (da_spot app)
      | Perpetual \<Rightarrow> (case da_perpetual app of None \<Rightarrow> Inl (not_configured PERPETUAL_BACKEND_HINT) | Some b \<Rightarrow> Inr b))"

text \<open>
  A backend is shared and changes in place: an operation of the desk runs on the backend of its product, with
  the answers of that product's engine, and puts it back.
\<close>

definition on_backend ::
  "DemoApp \<Rightarrow> Product \<Rightarrow> (EngineBackend \<Rightarrow> EngineBackend \<times> (ApiError + 'r)) \<Rightarrow> DemoApp \<times> (ApiError + 'r)" where
  "on_backend app product f =
     (case app_backend app product of
        Inl e \<Rightarrow> (app, Inl e)
      | Inr b \<Rightarrow>
          let (b, result) = f b
          in (case product of Spot \<Rightarrow> app\<lparr>da_spot := b\<rparr> | Perpetual \<Rightarrow> app\<lparr>da_perpetual := Some b\<rparr>, result))"

definition app_place :: "(Product \<Rightarrow> engine_answers) \<Rightarrow> PlaceTicket \<Rightarrow> DemoApp \<Rightarrow> DemoApp \<times> (ApiError + OrderResult)" where
  "app_place ans ticket app = on_backend app (tk_product ticket) (desk_place (ans (tk_product ticket)) ticket)"

definition app_cancel :: "(Product \<Rightarrow> engine_answers) \<Rightarrow> CancelTicket \<Rightarrow> DemoApp \<Rightarrow> DemoApp \<times> (ApiError + OrderResult)" where
  "app_cancel ans request app = on_backend app (ct_product request) (desk_cancel (ans (ct_product request)) request)"

definition app_amend :: "(Product \<Rightarrow> engine_answers) \<Rightarrow> AmendTicket \<Rightarrow> DemoApp \<Rightarrow> DemoApp \<times> (ApiError + OrderResult)" where
  "app_amend ans request app = on_backend app (at_product request) (desk_amend (ans (at_product request)) request)"

definition app_preview_freeze ::
  "'w i256 \<Rightarrow> (Product \<Rightarrow> engine_answers) \<Rightarrow> PlaceTicket \<Rightarrow> DemoApp \<Rightarrow> ApiError + FreezePreview" where
  "app_preview_freeze I ans ticket app =
     (case app_backend app (tk_product ticket) of Inl e \<Rightarrow> Inl e | Inr b \<Rightarrow> preview_freeze I (ans (tk_product ticket)) ticket b)"

definition app_configure_symbol ::
  "(Product \<Rightarrow> engine_answers) \<Rightarrow> Product \<Rightarrow> SymbolConfig \<Rightarrow> DemoApp \<Rightarrow> ApiError + OrderResult" where
  "app_configure_symbol ans product config app =
     (case app_backend app product of Inl e \<Rightarrow> Inl e | Inr b \<Rightarrow> desk_configure_symbol (ans product) config b)"

definition app_book :: "'w i256 \<Rightarrow> (Product \<Rightarrow> engine_answers) \<Rightarrow> Product \<Rightarrow> nat \<Rightarrow> DemoApp \<Rightarrow> ApiError + FullBookResponse" where
  "app_book I ans product limit app =
     (case app_backend app product of Inl e \<Rightarrow> Inl e | Inr b \<Rightarrow> desk_book I (ans product) limit b)"

end
