(* ===== verification/Desk_Properties.thy ===== *)
theory Desk_Properties
  imports Order_Desk Machine_Properties
begin

text \<open>
  Properties of the order desk: the estimated freeze of a ticket covers what either side of a fill owes,
  the depth it shows is the depth of the engine, only the perpetual backend records leverage, and a failed
  amendment loses the remembered leverage.
\<close>

section \<open>Depth\<close>

lemma insert_sorted_by: "(\<forall>y \<in> set ys. c x y \<noteq> Greater) \<Longrightarrow> insert_by c x ys = x # ys"
  by (cases ys) auto

lemma sort_sorted_by: "sorted_wrt (\<lambda>x y. c x y \<noteq> Greater) xs \<Longrightarrow> sort_by c xs = xs"
  by (induction xs) (simp_all add: sort_by_def insert_sorted_by)

lemma desk_depth_walk_eq: "desk_depth_walk n acc os = depth_walk n acc os"
  by (induction os arbitrary: acc) (simp_all add: not_less)

lemma side_values:
  "side_ok mk side m \<Longrightarrow> filter (\<lambda>o1. o_side o1 = s) (bt_values m) = (if s = side then bt_values m else [])"
  by (auto simp: side_ok_def resting_ok_def bt_values_def filter_id_conv filter_empty_conv)

lemma bids_sorted: "side_ok BidKey Buy m \<Longrightarrow> sorted_wrt (\<lambda>x y. desk_cmp Buy x y \<noteq> Greater) (bt_values m)"
proof (induction m)
  case (Cons e m)
  have "desk_cmp Buy (snd e) (snd f) \<noteq> Greater" if f: "f \<in> set m" for f
  proof -
    have "fst e < fst f" using Cons.prems f by (auto simp: side_ok_def bt_ok_Cons)
    then show ?thesis
      using Cons.prems f by (auto simp: side_ok_def less_BidKey_def BidKey_cmp_def desk_cmp_def cmp_then_def cmp_def split: if_splits)
  qed
  then show ?case using Cons by (auto simp: bt_values_def side_ok_def bt_ok_Cons)
qed (simp add: bt_values_def)

lemma asks_sorted: "side_ok AskKey Sell m \<Longrightarrow> sorted_wrt (\<lambda>x y. desk_cmp Sell x y \<noteq> Greater) (bt_values m)"
proof (induction m)
  case (Cons e m)
  have "desk_cmp Sell (snd e) (snd f) \<noteq> Greater" if f: "f \<in> set m" for f
  proof -
    have "fst e < fst f" using Cons.prems f by (auto simp: side_ok_def bt_ok_Cons)
    then show ?thesis
      using Cons.prems f by (auto simp: side_ok_def less_AskKey_def AskKey_cmp_def desk_cmp_def cmp_then_def cmp_def split: if_splits)
  qed
  then show ?case using Cons by (auto simp: bt_values_def side_ok_def bt_ok_Cons)
qed (simp add: bt_values_def)

text \<open>
  C40: The depth the order desk builds from the list of resting orders it reads is the depth of the
  engine's book, for either side and any number of levels.
\<close>

theorem desk_depth_exact:
  assumes "book_inv (orderbook s)"
  shows "depth_from_orders (orders s) side n = depth (orderbook s) side n"
proof -
  have ok: "side_ok BidKey Buy (bids (orderbook s))" "side_ok AskKey Sell (asks (orderbook s))"
    using assms by (simp_all add: book_inv_def book_core_def)
  show ?thesis
    using side_values[OF ok(1), of side] side_values[OF ok(2), of side] sort_sorted_by[OF bids_sorted[OF ok(1)]]
      sort_sorted_by[OF asks_sorted[OF ok(2)]]
    by (cases side) (simp_all add: depth_from_orders_def orders_def depth_def desk_depth_walk_eq)
qed

theorem desk_depth_exact_witness:
  "depth_from_orders (orders (sample_start\<lparr>orderbook := sample_book\<rparr>)) Sell 1 = [\<lparr>dl_price = 100, dl_volume = 5, dl_orders = 1\<rparr>]"
  using desk_depth_exact[of "sample_start\<lparr>orderbook := sample_book\<rparr>" Sell 1] sample_book_inv
  by (simp add: depth_def bt_values_def sample_book_def OrderBook_new_def Order_new_def)

section \<open>Leverage\<close>

text \<open>
  An amendment takes the remembered leverage of the order before it talks to the engine.  When a read or
  the write fails, the leverage is gone although the order still rests unchanged.
\<close>

lemma failed_amend_loses_leverage:
  assumes "eb_leverages b (at_sequence request) = Some l" "ea_symbol_id ans = Inl e \<or> (\<exists>i. ea_symbol_id ans = Inr i \<and> (\<forall>r. ea_write ans r = Inl e))"
  shows "\<exists>b'. desk_amend ans request b = (b', Inl e) \<and> eb_leverages b' (at_sequence request) = None"
  using assms by (auto simp: desk_amend_def take_leverage_def desk_write_def Let_def)

text \<open>A successful amendment moves the leverage to the new sequence, a refused one keeps it.\<close>

lemma amend_moves_leverage:
  assumes "ea_symbol_id ans = Inr i" "desk_amend ans request b = (b', Inr result)" "eb_leverages b (at_sequence request) = Some l"
  shows "eb_leverages b' = (case (or_error result, or_sequence result) of
      (None, Some s) \<Rightarrow> (eb_leverages b)(at_sequence request := None, s \<mapsto> l)
    | _ \<Rightarrow> eb_leverages b)"
  using assms
  by (auto simp: desk_amend_def take_leverage_def restore_leverage_def Let_def split: sum.splits option.splits)

text \<open>Leverage is a matter of the perpetual backend alone: the spot backend never records any.\<close>

definition spot_plain :: "DemoApp \<Rightarrow> bool" where
  "spot_plain app \<longleftrightarrow> eb_product (da_spot app) = Spot \<and> eb_leverages (da_spot app) = Map.empty"

lemma desk_ops_plain:
  assumes "eb_product b = Spot" "eb_leverages b = Map.empty"
  shows "eb_product (fst (desk_place ans t b)) = Spot \<and> eb_leverages (fst (desk_place ans t b)) = Map.empty"
    "eb_product (fst (desk_cancel ans c b)) = Spot \<and> eb_leverages (fst (desk_cancel ans c b)) = Map.empty"
    "eb_product (fst (desk_amend ans a b)) = Spot \<and> eb_leverages (fst (desk_amend ans a b)) = Map.empty"
  using assms
  by (auto simp: desk_place_def desk_cancel_def desk_amend_def remember_leverage_def take_leverage_def Let_def split: sum.splits)

lemma spot_stays_plain:
  assumes "spot_plain app"
  shows "spot_plain (fst (app_place ans t app))" "spot_plain (fst (app_cancel ans c app))" "spot_plain (fst (app_amend ans a app))"
  using assms desk_ops_plain[of "da_spot app"]
  by (auto simp: app_place_def app_cancel_def app_amend_def on_backend_def app_backend_def spot_plain_def split_beta
      split: Product.splits sum.splits option.splits)

section \<open>The freeze covers the settlement\<close>

lemma tdiv_mono:
  assumes "a \<le> b" "0 < c"
  shows "tdiv a c \<le> tdiv b c"
proof (cases "0 \<le> a")
  case True
  then show ?thesis using assms by (simp add: tdiv_nonneg zdiv_mono1)
next
  case a: False
  show ?thesis
  proof (cases "0 \<le> b")
    case True
    then have "tdiv a c \<le> 0" "0 \<le> tdiv b c"
      using a assms(2) by (simp_all add: tdiv_neg tdiv_nonneg pos_imp_zdiv_nonneg_iff)
    then show ?thesis by simp
  next
    case False
    then show ?thesis using a assms by (simp add: tdiv_neg zdiv_mono1)
  qed
qed

text \<open>
  What a leg asks of the frozen asset.  Under the received policy the fee is withheld from what the leg
  receives, so it is what the leg delivers; under the quote policy a buy pays the fee on top; under the
  base policy the freeze is quote collateral, which must stand for the larger of the quote amount and
  the base amount at the reference price, and for the base fee at that price.
\<close>

definition owed :: "FeeAssetPolicy \<Rightarrow> OrderSide \<Rightarrow> fixed \<Rightarrow> SettlementLeg \<Rightarrow> int" where
  "owed policy side price leg =
     (case policy of
        FAP_Base \<Rightarrow>
          (let (quote, base) = (case side of Buy \<Rightarrow> (sl_delivers leg, sl_receives leg) | Sell \<Rightarrow> (sl_receives leg, sl_delivers leg))
           in max (aa_amount quote) (tdiv (aa_amount base * price) SCALE) + tdiv (aa_amount (sl_fee leg) * price) SCALE)
      | FAP_Quote \<Rightarrow> aa_amount (sl_delivers leg) + (case side of Buy \<Rightarrow> aa_amount (sl_fee leg) | Sell \<Rightarrow> 0)
      | Received \<Rightarrow> aa_amount (sl_delivers leg))"

definition frozen_asset :: "SymbolConfig \<Rightarrow> OrderSide \<Rightarrow> string" where
  "frozen_asset symbol side =
     (if side = Buy \<or> fee_asset_policy symbol = FAP_Base then asset_code (quote_asset symbol) else asset_code (base_asset symbol))"

definition econ_legs :: "OrderEconomics \<Rightarrow> SettlementLeg list" where
  "econ_legs ec = (case oe_maker ec of None \<Rightarrow> [] | Some l \<Rightarrow> [l]) @ (case oe_taker ec of None \<Rightarrow> [] | Some l \<Rightarrow> [l])"

text \<open>Values far enough below the largest \<open>i128\<close> that no sum or rounding overflows.\<close>

definition amounts_bounded :: "SymbolConfig \<Rightarrow> Amounts \<Rightarrow> bool" where
  "amounts_bounded symbol am \<longleftrightarrow> am_price am \<le> i128_max \<and> am_base am \<le> 2 ^ 124 \<and> am_quote am \<le> 2 ^ 124
     \<and> tdiv (am_base am * am_price am) SCALE \<le> 2 ^ 124 \<and> base_lot symbol \<le> 2 ^ 124"

definition amounts_small :: "SymbolConfig \<Rightarrow> Amounts \<Rightarrow> bool" where
  "amounts_small symbol am \<longleftrightarrow> amounts_bounded symbol am \<and> 0 < am_price am \<and> 0 < am_base am \<and> 0 < am_quote am"

lemma order_amounts_small:
  assumes "order_amounts I o1 symbol fallback = Some am" "amounts_bounded symbol am"
  shows "amounts_small symbol am"
  using assms
  by (auto simp: amounts_small_def order_amounts_def reference_price_def bind_eq_Some_conv not_le split: if_splits option.splits)

lemma ceil_ge:
  assumes "0 < step" "0 \<le> x" "x + step \<le> i128_max"
  shows "x \<le> ceil_to_multiple x step"
proof (rule ceil_to_multiple_bounds(2)[OF assms(1)])
  have x: "x = x div step * step + x mod step" "0 \<le> x mod step" "x mod step < step" using assms(1) by simp_all
  have ce: "ceil_to_multiple_exact x step = x div step * step + (if x mod step \<noteq> 0 then step else 0)"
    by (simp add: ceil_to_multiple_exact_def algebra_simps)
  show "in_i128 (ceil_to_multiple_exact x step)"
    unfolding in_i128_def ce using x assms by (simp only: split: if_split) linarith
qed

lemma precision_step_bounds: "0 < precision_step d" "precision_step d \<le> 10 ^ 18"
proof -
  have "(10 :: int) ^ (18 - min d 18) \<le> 10 ^ 18" by (rule power_increasing) simp_all
  then show "0 < precision_step d" "precision_step d \<le> 10 ^ 18" by (simp_all add: precision_step_def from_raw_def)
qed

lemma ceil_quote_ge:
  assumes "0 \<le> x" "x \<le> 2 ^ 126"
  shows "x \<le> ceil_quote x symbol"
  unfolding ceil_quote_def
  by (rule ceil_ge) (use precision_step_bounds[of "asset_decimals (quote_asset symbol)"] assms in simp_all)

lemma ceil_base_ge:
  assumes "0 \<le> x" "x \<le> 2 ^ 124" "base_lot symbol \<le> 2 ^ 124"
  shows "x \<le> ceil_base x symbol"
  unfolding ceil_base_def base_step_def fixed_max_def
  by (rule ceil_ge) (use precision_step_bounds[of "asset_decimals (base_asset symbol)"] assms in simp_all)

lemma fee_le:
  assumes "0 < q" "a \<le> r" "r \<le> SCALE"
  shows "tdiv (q * a) SCALE \<le> tdiv (q * r) SCALE" "tdiv (q * r) SCALE \<le> q"
proof -
  have s: "0 < SCALE" by (simp add: SCALE_def)
  have "tdiv (q * SCALE) SCALE = q" using assms(1) s by (simp add: tdiv_nonneg)
  moreover have "q * a \<le> q * r" "q * r \<le> q * SCALE" using assms by simp_all
  ultimately show "tdiv (q * a) SCALE \<le> tdiv (q * r) SCALE" "tdiv (q * r) SCALE \<le> q"
    using tdiv_mono[OF _ s] by metis+
qed

lemma checked_mul_value: "wide_int I val \<Longrightarrow> in_i128 a \<Longrightarrow> in_i128 b \<Longrightarrow> checked_mul I a b = Some x \<Longrightarrow> x = tdiv (a * b) SCALE \<and> in_i128 x"
  using wide_int.checked_mul_exact[of I val a b] by (simp split: if_splits)

lemma saturating_add_small: "0 \<le> a \<Longrightarrow> a \<le> 2 ^ 125 \<Longrightarrow> 0 \<le> b \<Longrightarrow> b \<le> 2 ^ 125 \<Longrightarrow> saturating_add a b = a + b"
  by (simp add: saturating_add_def clamp_i128_id in_i128_def)

lemma leg_covered_base:
  assumes W: "wide_int I val" and small: "amounts_small symbol am" and p: "fee_asset_policy symbol = FAP_Base"
    and leg: "settlement_leg I o1 symbol am role rate = Some leg" and fe: "freeze_estimate I o1 symbol am role' r = Some fe"
    and r: "rate \<le> r" "0 \<le> r" "r \<le> SCALE" "- SCALE \<le> rate"
  shows "owed FAP_Base (o_side o1) (am_price am) leg \<le> fe_amount fe \<and> fe_asset fe = asset_code (quote_asset symbol)"
proof -
  have i: "in_i128 (am_base am)" "in_i128 (am_price am)" "in_i128 r" "in_i128 rate"
    using small r by (simp_all add: amounts_small_def amounts_bounded_def in_i128_def SCALE_def)
  obtain traded base_fee reserve where m: "checked_mul I (am_base am) (am_price am) = Some traded"
      "checked_mul I (am_base am) r = Some base_fee" "checked_mul I base_fee (am_price am) = Some reserve"
      "fe_amount fe = ceil_quote (saturating_add (fixed_max (am_quote am) traded) reserve) symbol" "fe_asset fe = asset_code (quote_asset symbol)"
    using fe p by (auto simp: freeze_estimate_def Let_def bind_eq_Some_conv split: OrderSide.splits)
  obtain fee where fee: "checked_mul I (am_base am) rate = Some fee" "aa_amount (sl_fee leg) = fee"
      "(case o_side o1 of Buy \<Rightarrow> aa_amount (sl_delivers leg) | Sell \<Rightarrow> aa_amount (sl_receives leg)) = am_quote am"
      "(case o_side o1 of Buy \<Rightarrow> aa_amount (sl_receives leg) | Sell \<Rightarrow> aa_amount (sl_delivers leg)) = am_base am"
    using leg p by (auto simp: settlement_leg_def Let_def bind_eq_Some_conv split: OrderSide.splits)
  note t = checked_mul_value[OF W i(1,2) m(1)] and b = checked_mul_value[OF W i(1,3) m(2)] and f = checked_mul_value[OF W i(1,4) fee(1)]
  note rv = checked_mul_value[OF W _ i(2) m(3)]
  have s: "0 < SCALE" by (simp add: SCALE_def)
  have base: "0 < am_base am" "0 < am_price am" "am_quote am \<le> 2 ^ 124" "0 < am_quote am" using small by (simp_all add: amounts_small_def amounts_bounded_def)
  have le: "fee \<le> base_fee" "base_fee \<le> am_base am" "0 \<le> base_fee"
    using fee_le[OF base(1) r(1,3)] r(2) base(1) s b f by (simp_all add: tdiv_nonneg pos_imp_zdiv_nonneg_iff)
  have "base_fee * am_price am \<le> am_base am * am_price am" "fee * am_price am \<le> base_fee * am_price am" "0 \<le> base_fee * am_price am"
    using le base by (simp_all add: mult_right_mono)
  then have "tdiv (base_fee * am_price am) SCALE \<le> tdiv (am_base am * am_price am) SCALE"
      "tdiv (fee * am_price am) SCALE \<le> tdiv (base_fee * am_price am) SCALE" "tdiv 0 SCALE \<le> tdiv (base_fee * am_price am) SCALE"
    using s by (simp_all only: tdiv_mono)
  moreover have "reserve = tdiv (base_fee * am_price am) SCALE" "traded = tdiv (am_base am * am_price am) SCALE"
    using rv b t by blast+
  ultimately have res: "reserve \<le> traded" "tdiv (fee * am_price am) SCALE \<le> reserve" "0 \<le> reserve"
    by (simp_all only:) (simp add: tdiv_def)
  have "traded \<le> 2 ^ 124" using small t by (simp add: amounts_small_def amounts_bounded_def)
  then have mx: "0 \<le> fixed_max (am_quote am) traded" "fixed_max (am_quote am) traded \<le> 2 ^ 125" "reserve \<le> 2 ^ 125" "am_quote am \<le> fixed_max (am_quote am) traded"
    "fixed_max (am_quote am) traded + reserve \<le> 2 ^ 126"
    using res base by (simp_all add: fixed_max_def)
  have "fixed_max (am_quote am) traded + reserve \<le> fe_amount fe"
    unfolding m(4) saturating_add_small[OF mx(1,2) res(3) mx(3)] by (rule ceil_quote_ge) (use mx res in simp_all)
  moreover have "fixed_max (am_quote am) traded = max (am_quote am) (tdiv (am_base am * am_price am) SCALE)"
    using t by (auto simp: fixed_max_def)
  ultimately show ?thesis using fee(2,3,4) res(2) m(5) by (auto simp: owed_def split: OrderSide.splits)
qed

lemma leg_covered:
  assumes W: "wide_int I val" and small: "amounts_small symbol am"
    and leg: "settlement_leg I o1 symbol am role rate = Some leg" and fe: "freeze_estimate I o1 symbol am role' r = Some fe"
    and r: "rate \<le> r" "0 \<le> r" "r \<le> SCALE" "- SCALE \<le> rate"
  shows "owed (fee_asset_policy symbol) (o_side o1) (am_price am) leg \<le> fe_amount fe \<and> fe_asset fe = frozen_asset symbol (o_side o1)"
proof (cases "fee_asset_policy symbol = FAP_Base")
  case True
  then show ?thesis using leg_covered_base[OF W small True leg fe r] by (simp add: frozen_asset_def)
next
  case policy: False
  have b: "0 < am_base am" "am_base am \<le> 2 ^ 124" "0 < am_quote am" "am_quote am \<le> 2 ^ 124" "base_lot symbol \<le> 2 ^ 124"
    using small by (simp_all add: amounts_small_def amounts_bounded_def)
  have i: "in_i128 (am_quote am)" "in_i128 r" "in_i128 rate" using b r by (simp_all add: in_i128_def SCALE_def)
  show ?thesis
  proof (cases "o_side o1")
    case Sell
    then show ?thesis
      using leg fe policy ceil_base_ge[of "am_base am" symbol] b
      by (cases "fee_asset_policy symbol") (auto simp: freeze_estimate_def settlement_leg_def Let_def bind_eq_Some_conv owed_def frozen_asset_def)
  next
    case Buy
    show ?thesis
    proof (cases "fee_asset_policy symbol = FAP_Quote")
      case False
      then show ?thesis
        using Buy leg fe policy ceil_quote_ge[of "am_quote am" symbol] b
        by (cases "fee_asset_policy symbol") (auto simp: freeze_estimate_def settlement_leg_def Let_def bind_eq_Some_conv owed_def frozen_asset_def)
    next
      case True
      obtain fee where f: "checked_mul I (am_quote am) r = Some fee" "fe_amount fe = ceil_quote (saturating_add (am_quote am) fee) symbol"
          "fe_asset fe = asset_code (quote_asset symbol)"
        using fe True Buy by (auto simp: freeze_estimate_def Let_def bind_eq_Some_conv)
      obtain own where o: "checked_mul I (am_quote am) rate = Some own" "aa_amount (sl_fee leg) = own" "aa_amount (sl_delivers leg) = am_quote am"
        using leg True Buy by (auto simp: settlement_leg_def Let_def bind_eq_Some_conv)
      have le: "own \<le> fee" "fee \<le> am_quote am" "0 \<le> fee"
        using fee_le[OF b(3) r(1,3)] checked_mul_value[OF W i(1,2) f(1)] checked_mul_value[OF W i(1,3) o(1)] b(3) r(2)
        by (simp_all add: tdiv_nonneg SCALE_def pos_imp_zdiv_nonneg_iff)
      have "saturating_add (am_quote am) fee = am_quote am + fee" by (rule saturating_add_small) (use b le in simp_all)
      then have "am_quote am + fee \<le> fe_amount fe" unfolding f(2) using ceil_quote_ge[of "am_quote am + fee" symbol] b le by simp
      then show ?thesis using True Buy o(2,3) le f(3) by (simp add: owed_def frozen_asset_def)
    qed
  qed
qed

text \<open>
  C39: The freeze the desk shows for a spot ticket covers the settlement.  It is in the asset the fee
  policy prescribes (quote for a buy and under the base policy, base otherwise) and is at least what each
  settlement leg asks of it, whether the order ends up as maker or as taker, for all three fee policies,
  both sides and fees as well as rebates of up to the whole amount; the amounts are below the bound at
  which the sums of the estimate would overflow.
\<close>

theorem ticket_freeze_covers:
  assumes W: "wide_int I val" and rates: "\<bar>o_maker_fee_rate o1\<bar> \<le> SCALE" "\<bar>o_taker_fee_rate o1\<bar> \<le> SCALE"
    and est: "estimate_ticket_economics I o1 symbol fallback Spot leverage = Some ec"
    and am: "order_amounts I o1 symbol fallback = Some am" "amounts_bounded symbol am"
  shows "fe_asset (oe_freeze ec) = frozen_asset symbol (o_side o1) \<and> econ_legs ec \<noteq> []
    \<and> (\<forall>leg \<in> set (econ_legs ec). owed (fee_asset_policy symbol) (o_side o1) (am_price am) leg \<le> fe_amount (oe_freeze ec))"
proof -
  note small = order_amounts_small[OF am]
  obtain role r where sr: "selected_rate (can_rest o1) (o_maker_fee_rate o1) (o_taker_fee_rate o1) True = (role, r)" by fastforce
  have r: "0 \<le> r" "r \<le> SCALE" "o_taker_fee_rate o1 \<le> r" "can_rest o1 \<Longrightarrow> o_maker_fee_rate o1 \<le> r"
    using sr rates by (auto simp: selected_rate_def fixed_max_def Let_def SCALE_def split: if_splits)
  obtain maker taker where l: "(if can_rest o1 then map_option Some (settlement_leg I o1 symbol am FR_Maker (o_maker_fee_rate o1)) else Some None) = Some maker"
      "settlement_leg I o1 symbol am FR_Taker (o_taker_fee_rate o1) = Some taker" "freeze_estimate I o1 symbol am role r = Some (oe_freeze ec)"
      "oe_maker ec = maker" "oe_taker ec = Some taker"
    using est am(1) sr by (auto simp: estimate_ticket_economics_def estimate_def bind_eq_Some_conv)
  note t = leg_covered[OF W small l(2,3) r(3,1,2)]
  have m: "owed (fee_asset_policy symbol) (o_side o1) (am_price am) leg \<le> fe_amount (oe_freeze ec)" if "maker = Some leg" for leg
    using leg_covered[OF W small _ l(3) r(4) r(1,2), of FR_Maker leg] that l(1) rates by (auto split: if_splits)
  show ?thesis using t m l(4,5) rates by (auto simp: econ_legs_def split: option.splits)
qed

definition fee_symbol :: SymbolConfig where
  "fee_symbol = SymbolConfig_default\<lparr>fee_asset_policy := FAP_Quote\<rparr>"

definition fee_ticket :: Order where
  "fee_ticket = (Order_new Buy (100 * SCALE) (3 * SCALE) 0)\<lparr>o_maker_fee_rate := - (SCALE div 10000), o_taker_fee_rate := SCALE div 1000\<rparr>"

lemma fee_ticket_amounts: "order_amounts exact_i256 fee_ticket fee_symbol None
     = Some \<lparr>am_price = 100 * SCALE, am_base = 3 * SCALE, am_quote = 300 * SCALE\<rparr>"
  by code_simp

lemma fee_ticket_estimate: "map_option (\<lambda>ec. (fe_amount (oe_freeze ec), map sl_role (econ_legs ec)))
     (estimate_ticket_economics exact_i256 fee_ticket fee_symbol None Spot 1) = Some (300 * SCALE + 3 * SCALE div 10, [FR_Maker, FR_Taker])"
  by code_simp

theorem ticket_freeze_covers_witness:
  "\<exists>ec. estimate_ticket_economics exact_i256 fee_ticket fee_symbol None Spot 1 = Some ec
     \<and> fe_amount (oe_freeze ec) = 300 * SCALE + 3 * SCALE div 10 \<and> map sl_role (econ_legs ec) = [FR_Maker, FR_Taker]
     \<and> (\<forall>leg \<in> set (econ_legs ec). owed FAP_Quote Buy (100 * SCALE) leg \<le> 300 * SCALE + 3 * SCALE div 10)"
proof -
  obtain ec where ec: "estimate_ticket_economics exact_i256 fee_ticket fee_symbol None Spot 1 = Some ec"
      "fe_amount (oe_freeze ec) = 300 * SCALE + 3 * SCALE div 10" "map sl_role (econ_legs ec) = [FR_Maker, FR_Taker]"
    using fee_ticket_estimate by (auto simp del: mult.commute)
  have h: "\<bar>o_maker_fee_rate fee_ticket\<bar> \<le> SCALE" "\<bar>o_taker_fee_rate fee_ticket\<bar> \<le> SCALE"
      "fee_asset_policy fee_symbol = FAP_Quote" "o_side fee_ticket = Buy"
    by code_simp+
  have "amounts_bounded fee_symbol \<lparr>am_price = 100 * SCALE, am_base = 3 * SCALE, am_quote = 300 * SCALE\<rparr>" by code_simp
  from ticket_freeze_covers[OF exact.wide_int_axioms h(1,2) ec(1) fee_ticket_amounts this] show ?thesis
    using ec h(3,4) by simp
qed

end
