(* ===== verification/Spec2Isabelle.thy ===== *)
theory Spec2Isabelle
  imports Recovery_Properties Wire_Properties Feed_Properties Log_Properties Desk_Properties
begin

text \<open>
  A verification library of the replicated matching engine under \<open>src/\<close>.

  \<^bold>\<open>The program.\<close>  A node of a Raft cluster keeps an order book.  Requests (place, cancel, amend, purge,
  configure, batches of them) arrive as entries of a replicated log; every node applies the same
  entries in the same order to its state machine, which runs them against the book, numbers the
  resulting events, remembers client order ids so that a retry is answered instead of executed, and
  hands each entry's events and depth changes to its sinks.  A market-data task turns these frames into
  messages (trades, top of book, depth, bars, status), which a service in \<open>demos/market_data_system\<close>
  decodes and conflates for its subscribers.  Snapshots of the state machine are written to a file, from
  which a node restarts or which another node installs.  The replicated log itself, with the vote, is kept
  in a write-ahead log of segment files.  An order desk in \<open>demos/order_system\<close> builds orders from tickets,
  estimates what to freeze for them and shows the book.

  \<^bold>\<open>Values and orders.\<close>  \<open>Fixed_Point\<close> is \<open>src/src/order_book/fixed.rs\<close>: a price or volume is its raw number of
  \<open>1e-18\<close> units as an \<open>int\<close>, with the wrap-around of \<open>i128\<close> written out in every unchecked operation and
  \<open>None\<close> for every checked one that overflows.  \<open>u64\<close>, \<open>u32\<close> and \<open>u16\<close> are \<open>nat\<close> with \<open>wrap_u64\<close> and its relatives.
  The 256-bit integers of a foreign crate are a record of functions; the locale \<open>wide_int\<close> states their
  laws and is interpreted on exact integers.  \<open>Value_Properties\<close> shows that the products and quotients are
  the truncated exact ones, that quote-sized orders never overspend, exactly when the sweep of a quote-sized
  buy panics, and the round trip of the text form.

  \<^bold>\<open>The book.\<close>  \<open>Order_Types\<close> and \<open>Order_Book\<close> are \<open>src/src/order_book/mod.rs\<close>.  A \<open>BTreeMap\<close> is a strictly sorted
  association list (\<open>ME_Prelude\<close>), a panic is \<open>Inl\<close>, and loops are recursive functions with a termination proof.
  \<open>Book_Sweep\<close> proves the matching loop once for both sides in the locale \<open>price_time_side\<close>;
  \<open>Book_Invariant\<close>, \<open>Book_Operations\<close> and \<open>Book_Submission\<close> carry the invariant through every operation,
  and \<open>Journal_Replay\<close> shows that the recorded depth changes can be replayed one by one.
  \<open>Book_Properties\<close> and \<open>Book_Maintenance\<close> hold the properties: price-time priority, conservation of volume,
  order types, the stop cascade, cancel, amend, expiry, depth.

  \<^bold>\<open>The state machine.\<close>  \<open>Match_Events\<close> is \<open>src/src/match_result/mod.rs\<close>; \<open>State_Machine\<close> is the apply path of
  \<open>src/src/store/state_machine.rs\<close> with \<open>store/types.rs\<close>, one function per request and \<open>apply_one\<close>, \<open>apply_batch\<close>,
  \<open>apply_entry\<close> over them.  What differs between nodes (whether the tap is open, the clock) is the argument \<open>env\<close>;
  openraft's log ids and memberships are type parameters read through the record \<open>openraft\<close>.
  \<open>Machine_Invariant\<close> gives the effect of one request and the invariant along the log, \<open>Replica\<close> that two nodes stay
  equal up to what is local to them.  \<open>Snapshot_Store\<close> is the snapshot file: its format, the sequence of
  file system operations that writes it, a crash between any two of them, restart and install; postcard and the CRC
  hasher are parameters with the laws of the locale \<open>snapshot_codec\<close>, interpreted on a finite code book.
  \<open>Machine_Properties\<close> defines the reachable states of a node and shows the invariant, numbering,
  convergence of replicas and atomic snapshots; the relation \<open>onward\<close> follows single requests through
  batches and entries, and along it a placement stays idempotent while its record and its events are
  kept.  \<open>Recovery_Properties\<close> shows crash recovery and complete event paging, and that a refused
  order hides the expirations that came before it.

  \<^bold>\<open>Market data.\<close>  \<open>Market_Types\<close> and \<open>Market_Feed\<close> are \<open>src/src/market_data/mod.rs\<close>: the tap, the control handle and the
  processor with its shadow book and bars; channels and atomics are fields of one record, since one
  task writes them.  \<open>Wire_Format\<close> is \<open>market_data/wire.rs\<close>, \<open>Wire_Library\<close> the calculus of readers (locale
  \<open>wire_record\<close>, interpreted for every record), \<open>Wire_Properties\<close> the round trip and the well-typedness of
  everything the decoder accepts.  \<open>Shadow_Feed\<close> shows that the shadow book follows the order book of the
  node, \<open>Depth_Feed\<close> is the consumer \<open>demos/market_data_system/src/feed.rs\<close>, and \<open>Feed_Properties\<close> shows that
  redelivery is harmless and what a depth message does to its book, with the runs in which the consumer's
  book and the engine's part ways.

  \<^bold>\<open>The write-ahead log.\<close>  \<open>Log_Store\<close> is \<open>src/src/store/log_store.rs\<close>: segments and frames as bytes, append, commit
  markers, votes, purge, truncation, reads and recovery on the record \<open>LogStore\<close>, whose files remember how many
  bytes were synced.  Every system call has a name in \<open>io_site\<close> and may fail where the argument \<open>io\<close> says so; a
  write may fail half way.  postcard, the CRC and openraft's log ids are the parameter \<open>wal_codec\<close> with the laws of
  the locale \<open>wal_laws\<close>, interpreted on a finite code book.  \<open>Log_Layout\<close> gives the meaning of the bytes: scanning
  any prefix of a segment finds its complete records.  \<open>Log_Refinement\<close> relates a store to a list of segments
  (\<open>log_rep\<close>) and this to an abstract log of entries, vote and purge marker, which every operation changes as
  it should.  \<open>Log_Recovery\<close> adds reads and crashes, which keep of each file a prefix with at least its synced bytes, and
  the runs of a log (\<open>log_run\<close>).  \<open>Log_Properties\<close> shows the refinement for all runs, that no acknowledged entry
  is lost when every append is synced (whatever call fails after the rotation), and two defects: an entry
  above the record bound is dropped on restart, and a failed rotation blocks all later ones.

  \<^bold>\<open>The order desk.\<close>  \<open>Order_Desk\<close> is \<open>demos/order_system/src/freeze.rs\<close>, the estimates of freezes, settlement legs
  and margins, and \<open>state.rs\<close>: tickets and their checks, the leverage records of a backend, the operations
  that write to the engine, the view of the book and the choice between the spot and the perpetual backend.
  What an engine answers is the argument \<open>engine_answers\<close>.  \<open>Desk_Properties\<close> shows that the freeze of a
  spot ticket covers both settlement legs, that the depth computed from the listed orders is the depth of
  the book, and that a failed amendment loses the leverage of its order.

  \<^bold>\<open>Bounds.\<close>  Fuel occurs only in the client loop that follows event pages; the property states how much is
  enough.  The market sequence is assumed below \<open>2 ^ 64 - 1\<close> and an entry to have fewer than \<open>2 ^ 32\<close> events;
  both are hypotheses of the inductive reachability relations where they matter.  A run of the log keeps log
  indexes below \<open>2 ^ 64 - 1\<close>, segment numbers below \<open>2 ^ 32\<close> and records within \<open>MAX_RECORD_LEN\<close>.

  \<^bold>\<open>Not modelled.\<close>  The network services, the HTTP and gRPC clients, process start-up, the Aeron transport,
  the WebSocket sessions and the tools are I/O over libraries that are not part of the sources.  The
  periodic tasks and locks around the components are not modelled: each component is a state with
  atomic operations.  Of the snapshot store the error returns of the single file calls and of creating the
  directory are left out; what a stop after any of its operations leaves behind is modelled.  Of the log
  the cache of read handles and the blocking pool are left out, a crash between two files of one purge or
  truncation, the failure to remove a segment file, and the failures of the file calls during recovery and
  of reading the directory.  An \<open>expect\<close> on a key just read from the same map (expiry, amendment) is no branch
  of the model.  Of the order desk the state summary and the events page, which repackage answers of the
  engine, and the mapping of client errors are left out.  JSON text, floating-point conversions and logging
  are left out.
\<close>

end
